(* ===== verification/Prelude.thy ===== *)
theory Prelude
  imports Complex_Main "HOL-Library.List_Lexorder" "HOL-Library.Char_ord"
begin

section \<open>Prelude: the Python the sources use\<close>

text \<open>
  What every component shares: exceptions as values, Python's insertion-ordered
  dictionaries as association lists, and the string and path-name operations of the
  standard library that the snapshot store builds its file names with. A dictionary
  client sees the locale \<open>mutable_mapping\<close> (lookup, assignment, deletion and their
  laws) and the interpretation \<open>od\<close> provides it for association lists.
\<close>

named_theorems od_simps \<open>laws of insertion-ordered dictionaries\<close>

subsection \<open>Exceptions\<close>

text \<open>
  The exception classes the sources raise or catch. \<open>SnapshotValidationError\<close> and
  \<open>JSONDecodeError\<close> derive from \<open>ValueError\<close>, \<open>FileNotFoundError\<close> from \<open>OSError\<close>
  (of which \<open>IOError\<close> is an alias).
\<close>

datatype py_error =
    ValueError
  | SnapshotValidationError
  | JSONDecodeError
  | FileNotFoundError
  | OSError
  | RuntimeError
  | KeyError
  | TypeError
  | AttributeError
  | IndexError
  | ZeroDivisionError
  | AssertionError

type_synonym 'a res = "py_error + 'a"

fun is_ValueError :: "py_error \<Rightarrow> bool" where
  "is_ValueError ValueError = True"
| "is_ValueError SnapshotValidationError = True"
| "is_ValueError JSONDecodeError = True"
| "is_ValueError _ = False"

text \<open>Python's \<open>x or y\<close> on an optional string: both \<open>None\<close> and the empty string are falsy.\<close>

definition str_truthy :: "string option \<Rightarrow> bool" where
  "str_truthy s = (case s of None \<Rightarrow> False | Some t \<Rightarrow> t \<noteq> [])"

definition str_or :: "string option \<Rightarrow> string \<Rightarrow> string" where
  "str_or s d = (case s of None \<Rightarrow> d | Some t \<Rightarrow> if t = [] then d else t)"

text \<open>\<open>sys.maxsize\<close> on a 64-bit build.\<close>

definition sys_maxsize :: int where
  "sys_maxsize = 2 ^ 63 - 1"

subsection \<open>Insertion-ordered dictionaries\<close>

type_synonym ('k, 'v) odict = "('k \<times> 'v) list"

abbreviation od_keys :: "('k, 'v) odict \<Rightarrow> 'k list" where
  "od_keys d \<equiv> map fst d"

abbreviation od_values :: "('k, 'v) odict \<Rightarrow> 'v list" where
  "od_values d \<equiv> map snd d"

abbreviation od_get :: "('k, 'v) odict \<Rightarrow> 'k \<Rightarrow> 'v option" where
  "od_get \<equiv> map_of"

definition od_mem :: "'k \<Rightarrow> ('k, 'v) odict \<Rightarrow> bool" where
  "od_mem k d = (k \<in> set (od_keys d))"

text \<open>\<open>d[k] = v\<close>: an existing key keeps its position, a new key goes to the end.\<close>

fun od_set :: "'k \<Rightarrow> 'v \<Rightarrow> ('k, 'v) odict \<Rightarrow> ('k, 'v) odict" where
  "od_set k v [] = [(k, v)]"
| "od_set k v ((k', v') # d) = (if k = k' then (k, v) # d else (k', v') # od_set k v d)"

text \<open>\<open>del d[k]\<close> and \<open>d.pop(k)\<close> for a key that is present; no effect otherwise.\<close>

definition od_del :: "'k \<Rightarrow> ('k, 'v) odict \<Rightarrow> ('k, 'v) odict" where
  "od_del k d = filter (\<lambda>p. fst p \<noteq> k) d"

text \<open>\<open>d.pop(k)\<close> followed by \<open>d[k] = v\<close>: the key ends up last.\<close>

definition od_put_last :: "'k \<Rightarrow> 'v \<Rightarrow> ('k, 'v) odict \<Rightarrow> ('k, 'v) odict" where
  "od_put_last k v d = od_set k v (od_del k d)"

text \<open>\<open>OrderedDict.move_to_end(k)\<close>.\<close>

definition od_move_to_end :: "'k \<Rightarrow> ('k, 'v) odict \<Rightarrow> ('k, 'v) odict" where
  "od_move_to_end k d = (case od_get d k of None \<Rightarrow> d | Some v \<Rightarrow> od_put_last k v d)"

text \<open>Deleting, key by key, every entry whose value is \<open>v\<close>.\<close>

definition od_del_value :: "'v \<Rightarrow> ('k, 'v) odict \<Rightarrow> ('k, 'v) odict" where
  "od_del_value v d = filter (\<lambda>p. snd p \<noteq> v) d"

definition od_ok :: "('k, 'v) odict \<Rightarrow> bool" where
  "od_ok d = distinct (od_keys d)"

subsubsection \<open>Their laws\<close>

lemma od_mem_iff [od_simps]: "od_mem k d = (od_get d k \<noteq> None)"
  by (simp add: od_mem_def map_of_eq_None_iff)

lemma od_get_set [simp]: "od_get (od_set k v d) k' = (if k' = k then Some v else od_get d k')"
  by (induction d) auto

lemma od_get_del [simp]: "od_get (od_del k d) k' = (if k' = k then None else od_get d k')"
  by (induction d) (auto simp: od_del_def)

lemma od_keys_set [od_simps]:
  "od_keys (od_set k v d) = (if k \<in> set (od_keys d) then od_keys d else od_keys d @ [k])"
  by (induction d) force+

lemma od_keys_del [od_simps]: "od_keys (od_del k d) = filter (\<lambda>k'. k' \<noteq> k) (od_keys d)"
  by (induction d) (auto simp: od_del_def)

lemma od_set_new: "k \<notin> set (od_keys d) \<Longrightarrow> od_set k v d = d @ [(k, v)]"
  by (induction d) auto

lemma od_del_absent: "k \<notin> set (od_keys d) \<Longrightarrow> od_del k d = d"
  by (induction d) (auto simp: od_del_def)

lemma od_put_last_eq [od_simps]: "od_put_last k v d = od_del k d @ [(k, v)]"
  unfolding od_put_last_def by (rule od_set_new) (auto simp: od_del_def)

lemma od_get_put_last [simp]:
  "od_get (od_put_last k v d) k' = (if k' = k then Some v else od_get d k')"
  by (simp add: od_put_last_def)

lemma od_ok_Nil [simp, intro]: "od_ok []"
  by (simp add: od_ok_def)

lemma od_ok_set [simp, intro]: "od_ok d \<Longrightarrow> od_ok (od_set k v d)"
  by (auto simp: od_ok_def od_keys_set)

lemma od_ok_del [simp, intro]: "od_ok d \<Longrightarrow> od_ok (od_del k d)"
  by (simp add: od_ok_def od_keys_del)

lemma od_ok_put_last [simp, intro]: "od_ok d \<Longrightarrow> od_ok (od_put_last k v d)"
  by (simp add: od_put_last_def)

lemma od_ok_move_to_end [simp, intro]: "od_ok d \<Longrightarrow> od_ok (od_move_to_end k d)"
  by (simp add: od_move_to_end_def split: option.split)

lemma od_ok_filter [simp, intro]: "od_ok d \<Longrightarrow> od_ok (filter P d)"
  by (auto simp: od_ok_def intro: distinct_map_filter)

lemma od_ok_del_value [simp, intro]: "od_ok d \<Longrightarrow> od_ok (od_del_value v d)"
  by (simp add: od_del_value_def)

lemma od_get_move_to_end [simp]: "od_get (od_move_to_end k d) k' = od_get d k'"
  by (simp add: od_move_to_end_def split: option.split)

lemma od_get_filter:
  "od_ok d \<Longrightarrow> od_get (filter P d) k =
     (case od_get d k of None \<Rightarrow> None | Some v \<Rightarrow> if P (k, v) then Some v else None)"
proof (induction d)
  case (Cons p d)
  then show ?case
    by (cases p) (auto simp: od_ok_def map_of_eq_None_iff split: option.splits dest: map_of_SomeD)
qed simp

lemma od_get_del_value [od_simps]:
  "od_ok d \<Longrightarrow> od_get (od_del_value v d) k = (if od_get d k = Some v then None else od_get d k)"
  unfolding od_del_value_def by (subst od_get_filter) (auto split: option.splits)

lemma od_get_in_set: "od_ok d \<Longrightarrow> (od_get d k = Some v) = ((k, v) \<in> set d)"
  by (simp add: od_ok_def)

lemma od_get_drop: "od_ok d \<Longrightarrow> od_get (drop k d) x = od_get d x \<or> od_get (drop k d) x = None"
proof (cases "od_get (drop k d) x")
  case (Some v)
  assume "od_ok d"
  moreover have "(x, v) \<in> set d" using Some by (meson in_set_dropD map_of_SomeD)
  ultimately show ?thesis using Some od_get_in_set [of d x v] by simp
qed simp

lemma od_del_length: "od_ok d \<Longrightarrow> length (od_del k d) = (if od_mem k d then length d - 1 else length d)"
proof (induction d)
  case (Cons p d)
  then show ?case
    by (cases d) (auto simp: od_del_def od_ok_def od_mem_def filter_id_conv)
qed (simp add: od_del_def od_mem_def)

lemma od_del_length_le: "length (od_del k d) \<le> length d"
  by (simp add: od_del_def)

subsubsection \<open>The interface a dictionary's client relies on\<close>

locale mutable_mapping =
  fixes empty :: 'd
    and get :: "'d \<Rightarrow> 'k \<Rightarrow> 'v option"
    and put :: "'k \<Rightarrow> 'v \<Rightarrow> 'd \<Rightarrow> 'd"
    and del :: "'k \<Rightarrow> 'd \<Rightarrow> 'd"
    and ok :: "'d \<Rightarrow> bool"
  assumes get_empty: "get empty k = None"
    and get_put: "ok d \<Longrightarrow> get (put k v d) k' = (if k' = k then Some v else get d k')"
    and get_del: "ok d \<Longrightarrow> get (del k d) k' = (if k' = k then None else get d k')"
    and ok_empty: "ok empty"
    and ok_put: "ok d \<Longrightarrow> ok (put k v d)"
    and ok_del: "ok d \<Longrightarrow> ok (del k d)"
begin

lemma put_then_del: "ok d \<Longrightarrow> get d k = None \<Longrightarrow> get (del k (put k v d)) = get d"
  by (auto simp: get_put get_del ok_put)

lemma put_overwrites: "ok d \<Longrightarrow> get (put k w (put k v d)) = get (put k w d)"
  by (auto simp: get_put ok_put)

lemma put_frame: "ok d \<Longrightarrow> k' \<noteq> k \<Longrightarrow> get (put k v d) k' = get d k'"
  by (simp add: get_put)

lemma del_frame: "ok d \<Longrightarrow> k' \<noteq> k \<Longrightarrow> get (del k d) k' = get d k'"
  by (simp add: get_del)

lemma ok_fold_del: "ok d \<Longrightarrow> ok (fold del ks d)"
  by (induction ks arbitrary: d) (auto simp: ok_del)

lemma get_fold_del: "ok d \<Longrightarrow> get (fold del ks d) k = (if k \<in> set ks then None else get d k)"
  by (induction ks arbitrary: d) (auto simp: get_del ok_del)

lemma ok_fold_put: "ok d \<Longrightarrow> ok (fold (\<lambda>(k, v). put k v) kvs d)"
  by (induction kvs arbitrary: d) (auto simp: ok_put)

lemma get_fold_put:
  "ok d \<Longrightarrow> get (fold (\<lambda>(k, v). put k v) kvs d) k =
     (case map_of (rev kvs) k of None \<Rightarrow> get d k | Some v \<Rightarrow> Some v)"
  by (induction kvs arbitrary: d) (auto simp: get_put ok_put map_add_def split: option.splits)

end

interpretation od: mutable_mapping "[]" od_get od_set od_del od_ok
  by unfold_locales auto

interpretation lru: mutable_mapping "[]" od_get od_put_last od_del od_ok
  by unfold_locales auto

end
