(* ===== verification/Py_Text.thy ===== *)
theory Py_Text
  imports Prelude
begin

section \<open>Strings and path names\<close>

text \<open>
  The operations of \<open>str\<close> and \<open>pathlib\<close> that the snapshot store builds and reads its
  file names with: \<open>startswith\<close>, \<open>in\<close>, \<open>replace(x, "")\<close>, \<open>str(n)\<close>, \<open>int(s)\<close>,
  \<open>Path.suffix\<close>, \<open>Path.stem\<close>, \<open>Path.with_suffix\<close>, joining and resolving paths. A
  character is a byte, so the model speaks of ASCII names (every other character is
  refused by \<open>_sanitize_path_component\<close>, whose class is ASCII).
\<close>

named_theorems text_simps \<open>evaluation of the string operations on the names the store builds\<close>

subsection \<open>Operations of str\<close>

definition startswith :: "string \<Rightarrow> string \<Rightarrow> bool" where
  "startswith s p = (take (length p) s = p)"

text \<open>\<open>sub in s\<close>\<close>

fun contains :: "string \<Rightarrow> string \<Rightarrow> bool" where
  "contains sub [] = (sub = [])"
| "contains sub (c # s) = (startswith (c # s) sub \<or> contains sub s)"

text \<open>\<open>s.replace(old, "")\<close>: the leftmost occurrences, none overlapping, are dropped.\<close>

function remove_all :: "string \<Rightarrow> string \<Rightarrow> string" where
  "remove_all old [] = []"
| "remove_all old (c # s) =
     (if old \<noteq> [] \<and> startswith (c # s) old then remove_all old (drop (length old) (c # s))
      else c # remove_all old s)"
  by pat_completeness auto
termination
  by (relation "measure (\<lambda>(old, s). length s)") auto

text \<open>\<open>str(n)\<close> for a non-negative \<open>n\<close>.\<close>

definition digit_char :: "nat \<Rightarrow> char" where
  "digit_char d = char_of (48 + d)"

fun nat_str :: "nat \<Rightarrow> string" where
  "nat_str n = (if n < 10 then [digit_char n] else nat_str (n div 10) @ [digit_char (n mod 10)])"

declare nat_str.simps [simp del]

definition int_str :: "int \<Rightarrow> string" where
  "int_str i = (if i < 0 then CHR ''-'' # nat_str (nat (- i)) else nat_str (nat i))"

text \<open>
  \<open>int(s)\<close>: surrounding white space, a sign, then digits with single underscores
  between them; anything else raises \<open>ValueError\<close> (here \<open>None\<close>).
\<close>

definition is_digit :: "char \<Rightarrow> bool" where
  "is_digit c = (48 \<le> (of_char c :: nat) \<and> (of_char c :: nat) \<le> 57)"

definition digit_val :: "char \<Rightarrow> nat" where
  "digit_val c = of_char c - 48"

definition is_space :: "char \<Rightarrow> bool" where
  "is_space c = ((9 \<le> (of_char c :: nat) \<and> (of_char c :: nat) \<le> 13) \<or>
     (28 \<le> (of_char c :: nat) \<and> (of_char c :: nat) \<le> 32))"

definition strip :: "string \<Rightarrow> string" where
  "strip s = rev (dropWhile is_space (rev (dropWhile is_space s)))"

text \<open>Digits after at least one digit has been read; an underscore needs a digit after it.\<close>

fun digits_tail :: "nat \<Rightarrow> string \<Rightarrow> nat option" where
  "digits_tail acc [] = Some acc"
| "digits_tail acc [c] = (if is_digit c then Some (10 * acc + digit_val c) else None)"
| "digits_tail acc (c # d # s) =
     (if is_digit c then digits_tail (10 * acc + digit_val c) (d # s)
      else if c = CHR ''_'' \<and> is_digit d then digits_tail acc (d # s)
      else None)"

fun digits_val :: "string \<Rightarrow> nat option" where
  "digits_val [] = None"
| "digits_val (c # s) = (if is_digit c then digits_tail (digit_val c) s else None)"

definition py_int :: "string \<Rightarrow> int option" where
  "py_int s =
     (case strip s of
        [] \<Rightarrow> None
      | c # t \<Rightarrow>
          if c = CHR ''-'' then map_option (\<lambda>n. - int n) (digits_val t)
          else if c = CHR ''+'' then map_option int (digits_val t)
          else map_option int (digits_val (c # t)))"

subsection \<open>Operations of pathlib\<close>

text \<open>
  \<open>Path.suffix\<close> and \<open>Path.stem\<close> of a name: split at the last dot, unless that dot is
  the first or the last character.
\<close>

definition last_ext :: "string \<Rightarrow> string" where
  "last_ext name = rev (takeWhile (\<lambda>c. c \<noteq> CHR ''.'') (rev name))"

definition has_suffix :: "string \<Rightarrow> bool" where
  "has_suffix name = (last_ext name \<noteq> [] \<and> length (last_ext name) + 1 < length name)"

definition path_suffix :: "string \<Rightarrow> string" where
  "path_suffix name = (if has_suffix name then CHR ''.'' # last_ext name else [])"

definition path_stem :: "string \<Rightarrow> string" where
  "path_stem name =
     (if has_suffix name then take (length name - length (last_ext name) - 1) name else name)"

definition with_suffix :: "string \<Rightarrow> string \<Rightarrow> string" where
  "with_suffix name suf = path_stem name @ suf"

text \<open>
  A path is its list of components. \<open>base / s\<close> splits \<open>s\<close> at slashes and drops empty
  and single-dot components (an absolute \<open>s\<close> replaces \<open>base\<close>); \<open>resolve\<close> removes
  the double dots (no component of the snapshot tree is a symbolic link); \<open>str\<close> joins
  the components of an absolute path.
\<close>

fun split_slash :: "string \<Rightarrow> string list" where
  "split_slash [] = [[]]"
| "split_slash (c # s) =
     (if c = CHR ''/'' then [] # split_slash s
      else (case split_slash s of [] \<Rightarrow> [[c]] | w # ws \<Rightarrow> (c # w) # ws))"

definition path_join :: "string list \<Rightarrow> string \<Rightarrow> string list" where
  "path_join base s =
     (if startswith s ''/'' then [] else base) @
       filter (\<lambda>w. w \<noteq> [] \<and> w \<noteq> ''.'') (split_slash s)"

fun resolve_from :: "string list \<Rightarrow> string list \<Rightarrow> string list" where
  "resolve_from acc [] = rev acc"
| "resolve_from acc (w # ws) =
     (if w = ''..'' then resolve_from (tl acc) ws else resolve_from (w # acc) ws)"

definition path_resolve :: "string list \<Rightarrow> string list" where
  "path_resolve p = resolve_from [] p"

definition path_str :: "string list \<Rightarrow> string" where
  "path_str p = (if p = [] then ''/'' else concat (map (\<lambda>w. CHR ''/'' # w) p))"

subsection \<open>Lemmas on prefixes and replacement\<close>

lemma startswith_append [text_simps]: "startswith (p @ s) p"
  by (simp add: startswith_def)

lemma startswith_iff: "startswith s p = (\<exists>t. s = p @ t)"
  unfolding startswith_def by (metis append_eq_conv_conj append_take_drop_id)

lemma remove_all_absent: "\<not> contains old s \<Longrightarrow> remove_all old s = s"
  by (induction s) auto

lemma remove_all_prefix:
  assumes "old \<noteq> []"
  shows "remove_all old (old @ s) = remove_all old s"
proof -
  obtain c t where old: "old = c # t" using assms by (cases old) auto
  have "startswith (c # t @ s) (c # t)" by (simp add: startswith_def)
  then show ?thesis by (simp add: old)
qed

text \<open>A string none of whose suffixes starts the pattern, even with \<open>s\<close> behind it, is kept.\<close>

lemma remove_all_skip:
  assumes "\<And>i. i < length a \<Longrightarrow> \<not> startswith (drop i a @ s) old"
  shows "remove_all old (a @ s) = a @ remove_all old s"
  using assms
proof (induction a)
  case (Cons c a)
  have "\<not> startswith ((c # a) @ s) old" using Cons.prems [of 0] by simp
  moreover have "remove_all old (a @ s) = a @ remove_all old s"
    by (rule Cons.IH) (use Cons.prems [of "Suc _"] in force)
  ultimately show ?case by simp
qed simp

lemma startswith_drop_contains:
  "startswith (drop i s) sub \<Longrightarrow> i \<le> length s \<Longrightarrow> contains sub s"
proof (induction s arbitrary: i)
  case Nil
  then show ?case by (simp add: startswith_def)
next
  case (Cons c s)
  then show ?case by (cases i) auto
qed

text \<open>
  If the first character of the pattern occurs nowhere else in it, no occurrence straddles the
  seam of \<open>a @ old\<close>, so dropping the pattern from \<open>a @ old\<close> gives back every \<open>a\<close> free of it.
\<close>

lemma remove_all_suffix:
  assumes old: "old = c # t" and c: "c \<notin> set t" and a: "\<not> contains old a"
  shows "remove_all old (a @ old) = a"
proof -
  have "\<not> startswith (drop i a @ old) old" if i: "i < length a" for i
  proof
    assume "startswith (drop i a @ old) old"
    then have tk: "take (length old) (drop i a @ old) = old" by (simp add: startswith_def)
    show False
    proof (cases "length old \<le> length a - i")
      case True
      with tk have "startswith (drop i a) old" by (simp add: startswith_def)
      with i a show False using startswith_drop_contains by auto
    next
      case False
      let ?k = "length a - i"
      have k: "0 < ?k" "?k < length old" using i False by auto
      have "old ! ?k = (drop i a @ old) ! ?k" using tk k by (metis nth_take)
      also have "\<dots> = c" by (simp add: nth_append old)
      finally have "old ! ?k = c" .
      moreover have "old ! ?k \<in> set t" using k by (simp add: old nth_Cons')
      ultimately show False using c by simp
    qed
  qed
  then have "remove_all old (a @ old) = a @ remove_all old old" by (rule remove_all_skip)
  also have "remove_all old old = []" using remove_all_prefix [of old "[]"] old by simp
  finally show ?thesis by simp
qed

subsection \<open>Lemmas on decimal numbers\<close>

lemma of_char_digit [simp]: "d < 10 \<Longrightarrow> (of_char (digit_char d) :: nat) = 48 + d"
  by (simp add: digit_char_def)

lemma is_digit_digit_char [simp]: "d < 10 \<Longrightarrow> is_digit (digit_char d)"
  by (simp add: is_digit_def)

lemma digit_val_digit_char [simp]: "d < 10 \<Longrightarrow> digit_val (digit_char d) = d"
  by (simp add: digit_val_def)

lemma nat_str_digits: "c \<in> set (nat_str n) \<Longrightarrow> is_digit c"
proof (induction n rule: nat_str.induct)
  case (1 n)
  then show ?case by (cases "n < 10") (auto simp: nat_str.simps [of n])
qed

lemma nat_str_nonempty [simp]: "nat_str n \<noteq> []"
  by (subst nat_str.simps) simp

lemma digits_tail_digit:
  "is_digit c \<Longrightarrow> digits_tail acc (c # s) = digits_tail (10 * acc + digit_val c) s"
  by (cases s) auto

lemma digits_tail_snoc:
  "\<forall>x \<in> set s. is_digit x \<Longrightarrow> is_digit c \<Longrightarrow>
     digits_tail acc (s @ [c]) = map_option (\<lambda>n. 10 * n + digit_val c) (digits_tail acc s)"
  by (induction s arbitrary: acc) (auto simp: digits_tail_digit)

lemma digits_val_snoc:
  "s \<noteq> [] \<Longrightarrow> \<forall>x \<in> set s. is_digit x \<Longrightarrow> is_digit c \<Longrightarrow>
     digits_val (s @ [c]) = map_option (\<lambda>n. 10 * n + digit_val c) (digits_val s)"
  by (cases s) (auto simp: digits_tail_snoc)

lemma digits_val_nat_str: "digits_val (nat_str n) = Some n"
proof (induction n rule: nat_str.induct)
  case (1 n)
  show ?case
  proof (cases "n < 10")
    case True
    then show ?thesis by (simp add: nat_str.simps [of n])
  next
    case False
    then have "digits_val (nat_str n) = digits_val (nat_str (n div 10) @ [digit_char (n mod 10)])"
      by (simp add: nat_str.simps [of n])
    also have "\<dots> = Some (10 * (n div 10) + n mod 10)"
      using 1 False by (subst digits_val_snoc) (auto simp: nat_str_digits)
    finally show ?thesis by simp
  qed
qed

lemma nat_str_inject [simp]: "nat_str m = nat_str n \<longleftrightarrow> m = n"
  by (metis digits_val_nat_str option.inject)

lemma digit_not_space: "is_digit c \<Longrightarrow> \<not> is_space c"
  by (auto simp: is_digit_def is_space_def)

lemma strip_digits: "\<forall>x \<in> set s. is_digit x \<Longrightarrow> strip s = s"
proof -
  assume "\<forall>x \<in> set s. is_digit x"
  then have "\<forall>x \<in> set s. \<not> is_space x" by (auto dest: digit_not_space)
  then have "dropWhile is_space s = s" "dropWhile is_space (rev s) = rev s"
    by (auto simp: dropWhile_eq_self_iff hd_rev)
  then show ?thesis by (simp add: strip_def)
qed

lemma py_int_nat_str [text_simps]: "py_int (nat_str n) = Some (int n)"
proof -
  have d: "\<forall>x \<in> set (nat_str n). is_digit x" by (simp add: nat_str_digits)
  obtain c t where ct: "nat_str n = c # t" by (cases "nat_str n") auto
  with d have "is_digit c" by simp
  then have "c \<noteq> CHR ''-''" "c \<noteq> CHR ''+''" by (auto simp: is_digit_def)
  moreover have "digits_val (c # t) = Some n" using digits_val_nat_str [of n] ct by simp
  ultimately show ?thesis using d by (simp add: py_int_def strip_digits ct del: digits_val.simps)
qed

subsection \<open>Lemmas on path names\<close>

lemma last_ext_append:
  "CHR ''.'' \<notin> set e \<Longrightarrow> last_ext (a @ CHR ''.'' # e) = e"
  unfolding last_ext_def by (simp add: takeWhile_append)

lemma stem_suffix_of_ext:
  assumes "CHR ''.'' \<notin> set e" "e \<noteq> []" "a \<noteq> []"
  shows path_stem_ext: "path_stem (a @ CHR ''.'' # e) = a"
    and path_suffix_ext: "path_suffix (a @ CHR ''.'' # e) = CHR ''.'' # e"
  using assms by (auto simp: path_stem_def path_suffix_def has_suffix_def last_ext_append)

lemma split_slash_no_slash: "CHR ''/'' \<notin> set s \<Longrightarrow> split_slash s = [s]"
  by (induction s) auto

lemma path_join_component:
  "CHR ''/'' \<notin> set s \<Longrightarrow> s \<noteq> [] \<Longrightarrow> s \<noteq> ''.'' \<Longrightarrow> path_join base s = base @ [s]"
  by (cases s) (auto simp: path_join_def split_slash_no_slash startswith_def)

lemma resolve_from_plain: "''..'' \<notin> set p \<Longrightarrow> resolve_from acc p = rev acc @ p"
  by (induction p arbitrary: acc) auto

lemma path_resolve_plain: "''..'' \<notin> set p \<Longrightarrow> path_resolve p = p"
  by (simp add: path_resolve_def resolve_from_plain)

lemma path_str_prefix: "base \<noteq> [] \<Longrightarrow> startswith (path_str (base @ p)) (path_str base)"
  by (simp add: path_str_def startswith_def)

end
