(* ===== verification/Tensor_State.thy ===== *)
theory Tensor_State
  imports Py_Text
begin

section \<open>State tensors, snapshot metadata and validation\<close>

text \<open>
  The data every tier stores and the check every tier runs on it: the dataclass
  \<open>MambaSnapshotMetadata\<close> with its dictionary form, \<open>ValidationResult\<close> and
  \<open>validate_state_tensors\<close> of \<open>snapshot/mamba_snapshot.py\<close>. PyTorch is not part of the
  repository: a tensor is a value of a type variable and the operations of PyTorch that
  the code calls are the fields of a record \<open>torch\<close>, an argument of every definition
  that uses one. Copies of a tensor (\<open>clone\<close>, \<open>cpu\<close>, \<open>to(device)\<close>) hold the same
  contents, so they are the same value here.
\<close>

subsection \<open>The operations of PyTorch the code calls\<close>

datatype tensor_dtype = Float32 | Bfloat16 | Float16 | Float8_e4m3fn | Other_dtype string

record 't torch =
  th_has_float8 :: bool                        \<comment> \<open>\<open>hasattr(torch, "float8_e4m3fn")\<close>\<close>
  th_numel :: "'t \<Rightarrow> nat"
  th_element_size :: "'t \<Rightarrow> nat"
  th_dtype :: "'t \<Rightarrow> tensor_dtype"
  th_to_float16 :: "'t \<Rightarrow> 't"
  th_isnan_any :: "'t \<Rightarrow> bool"                \<comment> \<open>\<open>torch.isnan(t).any()\<close>\<close>
  th_isinf_any :: "'t \<Rightarrow> bool"                \<comment> \<open>\<open>torch.isinf(t).any()\<close>\<close>
  th_abs_sum_zero :: "'t \<Rightarrow> bool"             \<comment> \<open>\<open>t.abs().sum() == 0\<close>\<close>
  th_shape :: "'t \<Rightarrow> nat list"
  th_col :: "'t \<Rightarrow> int \<Rightarrow> 't option"           \<comment> \<open>\<open>t[:, i]\<close>; \<open>None\<close> is \<open>IndexError\<close>\<close>
  th_set_col :: "'t \<Rightarrow> int \<Rightarrow> 't \<Rightarrow> 't"        \<comment> \<open>\<open>t[:, i] = s\<close>\<close>
  th_zero_col :: "'t \<Rightarrow> int \<Rightarrow> 't"            \<comment> \<open>\<open>t[:, i] = 0\<close>\<close>
  th_row_norm :: "'t \<Rightarrow> nat \<Rightarrow> real"          \<comment> \<open>\<open>torch.linalg.norm(t[i].float()).item()\<close>\<close>

text \<open>
  What the code relies on of slicing, as PyTorch documents it: writing a column of the
  same shape and dtype and reading it back gives the column, other columns and the
  tensor's own shape and dtype are unchanged, and the columns a tensor has do not change.
\<close>

definition torch_slicing :: "'t torch \<Rightarrow> bool" where
  "torch_slicing T =
     ((\<forall>t i s c. th_col T t i = Some c \<longrightarrow> th_shape T s = th_shape T c \<longrightarrow>
         th_dtype T s = th_dtype T c \<longrightarrow> th_col T (th_set_col T t i s) i = Some s) \<and>
      (\<forall>t i j s. i \<noteq> j \<longrightarrow> 0 \<le> i \<longrightarrow> 0 \<le> j \<longrightarrow> th_col T (th_set_col T t i s) j = th_col T t j))"

subsection \<open>JSON values and snapshot metadata\<close>

datatype jval =
    JNull
  | JBool bool
  | JInt int
  | JFloat real
  | JStr string
  | JList "jval list"
  | JObj "(string \<times> jval) list"

type_synonym pydict = "(string, jval) odict"

text \<open>\<open>d.get(k, default)\<close>\<close>

definition dict_get :: "pydict \<Rightarrow> string \<Rightarrow> jval \<Rightarrow> jval" where
  "dict_get d k dflt = (case od_get d k of None \<Rightarrow> dflt | Some v \<Rightarrow> v)"

record snapshot_metadata =
  md_conversation_id :: string
  md_turn_number :: "int option"
  md_timestamp :: real
  md_token_count :: int
  md_model_name :: string
  md_mamba_pool_idx :: int
  md_req_pool_idx :: int
  md_layer_config :: pydict
  md_active_tool_context :: "string option"
  md_branch_name :: "string option"
  md_parent_snapshot :: "string option"
  md_fill_ids :: "int list option"

definition j_opt_str :: "string option \<Rightarrow> jval" where
  "j_opt_str s = (case s of None \<Rightarrow> JNull | Some t \<Rightarrow> JStr t)"

definition j_opt_int :: "int option \<Rightarrow> jval" where
  "j_opt_int i = (case i of None \<Rightarrow> JNull | Some n \<Rightarrow> JInt n)"

definition j_opt_ints :: "int list option \<Rightarrow> jval" where
  "j_opt_ints ns = (case ns of None \<Rightarrow> JNull | Some xs \<Rightarrow> JList (map JInt xs))"

definition to_dict :: "snapshot_metadata \<Rightarrow> pydict" where
  "to_dict m =
     [(''conversation_id'', JStr (md_conversation_id m)),
      (''turn_number'', j_opt_int (md_turn_number m)),
      (''timestamp'', JFloat (md_timestamp m)),
      (''token_count'', JInt (md_token_count m)),
      (''model_name'', JStr (md_model_name m)),
      (''mamba_pool_idx'', JInt (md_mamba_pool_idx m)),
      (''req_pool_idx'', JInt (md_req_pool_idx m)),
      (''layer_config'', JObj (md_layer_config m)),
      (''active_tool_context'', j_opt_str (md_active_tool_context m)),
      (''branch_name'', j_opt_str (md_branch_name m)),
      (''parent_snapshot'', j_opt_str (md_parent_snapshot m)),
      (''fill_ids'', j_opt_ints (md_fill_ids m))]"

text \<open>
  The dataclass annotations are taken as the types of the fields: a value of another
  JSON type is refused with \<open>TypeError\<close>, as a missing or an unknown keyword is.
\<close>

fun as_str :: "jval \<Rightarrow> string option" where
  "as_str (JStr s) = Some s"
| "as_str _ = None"

fun as_int :: "jval \<Rightarrow> int option" where
  "as_int (JInt i) = Some i"
| "as_int _ = None"

fun as_float :: "jval \<Rightarrow> real option" where
  "as_float (JFloat r) = Some r"
| "as_float (JInt i) = Some (of_int i)"
| "as_float _ = None"

fun as_obj :: "jval \<Rightarrow> pydict option" where
  "as_obj (JObj d) = Some d"
| "as_obj _ = None"

fun as_opt_str :: "jval \<Rightarrow> string option option" where
  "as_opt_str JNull = Some None"
| "as_opt_str (JStr s) = Some (Some s)"
| "as_opt_str _ = None"

fun as_opt_int :: "jval \<Rightarrow> int option option" where
  "as_opt_int JNull = Some None"
| "as_opt_int (JInt i) = Some (Some i)"
| "as_opt_int _ = None"

fun as_ints :: "jval list \<Rightarrow> int list option" where
  "as_ints [] = Some []"
| "as_ints (JInt i # js) = map_option (\<lambda>is. i # is) (as_ints js)"
| "as_ints _ = None"

fun as_opt_ints :: "jval \<Rightarrow> int list option option" where
  "as_opt_ints JNull = Some None"
| "as_opt_ints (JList js) = map_option Some (as_ints js)"
| "as_opt_ints _ = None"

text \<open>A required keyword, and one with the default \<open>None\<close>.\<close>

definition kw_req :: "pydict \<Rightarrow> string \<Rightarrow> (jval \<Rightarrow> 'a option) \<Rightarrow> 'a option" where
  "kw_req d k f = Option.bind (od_get d k) f"

definition kw_opt :: "pydict \<Rightarrow> string \<Rightarrow> (jval \<Rightarrow> 'a option option) \<Rightarrow> 'a option option" where
  "kw_opt d k f = (case od_get d k of None \<Rightarrow> Some None | Some v \<Rightarrow> f v)"

definition metadata_fields :: "string list" where
  "metadata_fields =
     [''conversation_id'', ''turn_number'', ''timestamp'', ''token_count'', ''model_name'',
      ''mamba_pool_idx'', ''req_pool_idx'', ''layer_config'', ''active_tool_context'',
      ''branch_name'', ''parent_snapshot'', ''fill_ids'']"

definition from_dict :: "pydict \<Rightarrow> snapshot_metadata res" where
  "from_dict d =
     (if \<not> list_all (\<lambda>k. k \<in> set metadata_fields) (od_keys d) then Inl TypeError
      else case
        Option.bind (kw_req d ''conversation_id'' as_str) (\<lambda>cid.
        Option.bind (kw_req d ''turn_number'' as_opt_int) (\<lambda>turn.
        Option.bind (kw_req d ''timestamp'' as_float) (\<lambda>tm.
        Option.bind (kw_req d ''token_count'' as_int) (\<lambda>tc.
        Option.bind (kw_req d ''model_name'' as_str) (\<lambda>mn.
        Option.bind (kw_req d ''mamba_pool_idx'' as_int) (\<lambda>mi.
        Option.bind (kw_req d ''req_pool_idx'' as_int) (\<lambda>ri.
        Option.bind (kw_req d ''layer_config'' as_obj) (\<lambda>lc.
        Option.bind (kw_opt d ''active_tool_context'' as_opt_str) (\<lambda>atc.
        Option.bind (kw_opt d ''branch_name'' as_opt_str) (\<lambda>bn.
        Option.bind (kw_opt d ''parent_snapshot'' as_opt_str) (\<lambda>ps.
        Option.bind (kw_opt d ''fill_ids'' as_opt_ints) (\<lambda>fi.
          Some \<lparr>md_conversation_id = cid, md_turn_number = turn, md_timestamp = tm,
            md_token_count = tc, md_model_name = mn, md_mamba_pool_idx = mi,
            md_req_pool_idx = ri, md_layer_config = lc, md_active_tool_context = atc,
            md_branch_name = bn, md_parent_snapshot = ps, md_fill_ids = fi\<rparr>))))))))))))
        of None \<Rightarrow> Inl TypeError | Some m \<Rightarrow> Inr m)"

subsection \<open>Validation\<close>

datatype tensor_name = Conv_state nat | Temporal_states

datatype check_msg =
    Empty_conv_states string
  | Empty_tensor string tensor_name
  | Invalid_dtype string tensor_name tensor_dtype
  | Contains_nan string tensor_name
  | Contains_inf string tensor_name
  | All_zero string tensor_name

record validation_result =
  vr_is_valid :: bool
  vr_warnings :: "check_msg list"
  vr_errors :: "check_msg list"

definition allowed_dtypes :: "'t torch \<Rightarrow> tensor_dtype list" where
  "allowed_dtypes T = [Float32, Bfloat16, Float16] @ (if th_has_float8 T then [Float8_e4m3fn] else [])"

text \<open>The closure \<open>_check_tensor\<close>: what it appends to \<open>errors\<close> and to \<open>warnings\<close>.\<close>

definition check_tensor ::
  "'t torch \<Rightarrow> string \<Rightarrow> bool \<Rightarrow> 't \<Rightarrow> tensor_name \<Rightarrow> check_msg list \<times> check_msg list" where
  "check_tensor T cid strict t name =
     (if th_numel T t = 0 then ([Empty_tensor cid name], [])
      else if th_dtype T t \<notin> set (allowed_dtypes T) then ([Invalid_dtype cid name (th_dtype T t)], [])
      else
        let check_t = (if th_has_float8 T \<and> th_dtype T t = Float8_e4m3fn then th_to_float16 T t else t);
            nan = (if th_isnan_any T check_t then [Contains_nan cid name] else []);
            inf = (if th_isinf_any T check_t then [Contains_inf cid name] else []);
            zero = th_abs_sum_zero T check_t
        in (nan @ inf @ (if zero \<and> strict then [All_zero cid name] else []),
            (if zero \<and> \<not> strict then [All_zero cid name] else [])))"

fun check_tensors ::
  "'t torch \<Rightarrow> string \<Rightarrow> bool \<Rightarrow> nat \<Rightarrow> 't list \<Rightarrow> check_msg list \<times> check_msg list" where
  "check_tensors T cid strict i [] = ([], [])"
| "check_tensors T cid strict i (t # ts) =
     (let (e, w) = check_tensor T cid strict t (Conv_state i);
          (es, ws) = check_tensors T cid strict (Suc i) ts
      in (e @ es, w @ ws))"

definition validate_state_tensors ::
  "'t torch \<Rightarrow> 't list \<Rightarrow> 't \<Rightarrow> snapshot_metadata option \<Rightarrow> bool \<Rightarrow> validation_result" where
  "validate_state_tensors T conv_states temporal_states metadata strict =
     (let cid = (case metadata of None \<Rightarrow> ''unknown'' | Some m \<Rightarrow> md_conversation_id m)
      in if conv_states = []
         then \<lparr>vr_is_valid = False, vr_warnings = [], vr_errors = [Empty_conv_states cid]\<rparr>
         else
           let (es, ws) = check_tensors T cid strict 0 conv_states;
               (e, w) = check_tensor T cid strict temporal_states Temporal_states
           in \<lparr>vr_is_valid = (es @ e = []), vr_warnings = ws @ w, vr_errors = es @ e\<rparr>)"

subsection \<open>Lemmas\<close>

named_theorems valid_simps \<open>validity of state tensors\<close>

lemma as_ints_JInt [simp]: "as_ints (map JInt xs) = Some xs"
  by (induction xs) auto

lemma j_opt_round_trips [simp]:
  "as_opt_str (j_opt_str s) = Some s"
  "as_opt_int (j_opt_int i) = Some i"
  "as_opt_ints (j_opt_ints ns) = Some ns"
  by (auto simp: j_opt_str_def j_opt_int_def j_opt_ints_def split: option.split)

text \<open>What a tensor must satisfy to pass \<open>_check_tensor\<close> without an error.\<close>

definition tensor_ok :: "'t torch \<Rightarrow> bool \<Rightarrow> 't \<Rightarrow> bool" where
  "tensor_ok T strict t =
     (th_numel T t \<noteq> 0 \<and> th_dtype T t \<in> set (allowed_dtypes T) \<and>
      (let u = (if th_has_float8 T \<and> th_dtype T t = Float8_e4m3fn then th_to_float16 T t else t)
       in \<not> th_isnan_any T u \<and> \<not> th_isinf_any T u \<and> \<not> (strict \<and> th_abs_sum_zero T u)))"

definition state_ok :: "'t torch \<Rightarrow> bool \<Rightarrow> 't list \<Rightarrow> 't \<Rightarrow> bool" where
  "state_ok T strict cs t = (cs \<noteq> [] \<and> list_all (tensor_ok T strict) cs \<and> tensor_ok T strict t)"

lemma check_tensor_errors: "fst (check_tensor T cid strict t name) = [] \<longleftrightarrow> tensor_ok T strict t"
  by (auto simp: check_tensor_def tensor_ok_def Let_def)

lemma check_tensors_errors:
  "fst (check_tensors T cid strict i ts) = [] \<longleftrightarrow> list_all (tensor_ok T strict) ts"
proof (induction ts arbitrary: i)
  case (Cons t ts)
  then show ?case using check_tensor_errors [of T cid strict t "Conv_state i"]
    by (simp add: split_beta)
qed simp

lemma is_valid_iff [valid_simps]:
  "vr_is_valid (validate_state_tensors T cs t md strict) = state_ok T strict cs t"
  using check_tensors_errors [of T _ strict 0 cs] check_tensor_errors [of T _ strict t Temporal_states]
  by (auto simp: validate_state_tensors_def state_ok_def Let_def split_beta)

lemma errors_iff [valid_simps]:
  "vr_errors (validate_state_tensors T cs t md strict) = [] \<longleftrightarrow> state_ok T strict cs t"
proof -
  have "vr_is_valid (validate_state_tensors T cs t md strict) =
      (vr_errors (validate_state_tensors T cs t md strict) = [])"
    by (simp add: validate_state_tensors_def Let_def split_beta)
  then show ?thesis by (simp add: is_valid_iff)
qed

lemma state_ok_strict: "state_ok T True cs t \<Longrightarrow> state_ok T False cs t"
  by (auto simp: state_ok_def tensor_ok_def Let_def list_all_iff)

lemma state_ok_nonempty: "state_ok T strict cs t \<Longrightarrow> cs \<noteq> []"
  by (simp add: state_ok_def)

subsection \<open>A small tensor library for concrete runs\<close>

text \<open>
  An instance of the operations on matrices of integers (rows by columns of cells, one
  row per layer), on which the concrete runs of the properties are evaluated. Cell \<open>-1\<close>
  plays NaN and \<open>-2\<close> infinity.
\<close>

type_synonym mat = "int list list"

definition mat_torch :: "mat torch" where
  "mat_torch = \<lparr>th_has_float8 = False,
     th_numel = (\<lambda>m. length (concat m)),
     th_element_size = (\<lambda>m. 4),
     th_dtype = (\<lambda>m. Float32),
     th_to_float16 = (\<lambda>m. m),
     th_isnan_any = (\<lambda>m. list_ex (list_ex (\<lambda>x. x = - 1)) m),
     th_isinf_any = (\<lambda>m. list_ex (list_ex (\<lambda>x. x = - 2)) m),
     th_abs_sum_zero = list_all (list_all (\<lambda>x. x = 0)),
     th_shape = map length,
     th_col = (\<lambda>m i. if 0 \<le> i \<and> list_all (\<lambda>r. nat i < length r) m
                      then Some (map (\<lambda>r. [r ! nat i]) m) else None),
     th_set_col = (\<lambda>m i s. if length s = length m \<and> list_all (\<lambda>r. length r = 1) s
                            then map2 (\<lambda>r c. r[nat i := hd c]) m s else m),
     th_zero_col = (\<lambda>m i. map (\<lambda>r. r[nat i := 0]) m),
     th_row_norm = (\<lambda>m i. \<bar>of_int (sum_list (m ! i))\<bar>)\<rparr>"

lemma mat_col_set_same:
  "list_all (\<lambda>r. i < length r) m \<Longrightarrow> map length s = map (\<lambda>r. 1) m \<Longrightarrow>
     map (\<lambda>r. [r ! i]) (map2 (\<lambda>r c. r[i := hd c]) m s) = s"
proof (induction m arbitrary: s)
  case (Cons r m)
  then obtain x s' where s: "s = [x] # s'" by (cases s) (auto simp: length_Suc_conv)
  with Cons show ?case by auto
qed auto

lemma mat_range_set:
  "length s = length m \<Longrightarrow> 
     list_all (\<lambda>r. j < length r) (map2 (\<lambda>r c. r[i := hd c]) m s) = list_all (\<lambda>r. j < length r) m"
  by (induction m s rule: list_induct2') auto

lemma mat_col_set_other:
  "i \<noteq> j \<Longrightarrow> length s = length m \<Longrightarrow>
     map (\<lambda>r. [r ! j]) (map2 (\<lambda>r c. r[i := hd c]) m s) = map (\<lambda>r. [r ! j]) m"
  by (induction m s rule: list_induct2') auto

lemma map_length_1: "map length s = map (\<lambda>r. 1) m \<Longrightarrow> length s = length m \<and> list_all (\<lambda>r. length r = 1) s"
  by (induction s m rule: list_induct2') auto

lemma mat_torch_slicing: "torch_slicing mat_torch"
proof -
  have 1: "th_col mat_torch (th_set_col mat_torch t i s) i = Some s"
    if "th_col mat_torch t i = Some c" "th_shape mat_torch s = th_shape mat_torch c" for t i s c
  proof -
    have c: "c = map (\<lambda>r. [r ! nat i]) t" "0 \<le> i" "list_all (\<lambda>r. nat i < length r) t"
      using that by (auto simp: mat_torch_def split: if_splits)
    then have sh: "map length s = map (\<lambda>r. 1) t" using that(2) by (simp add: mat_torch_def comp_def)
    show ?thesis using c sh map_length_1 [OF sh] mat_col_set_same [OF c(3) sh]
      by (simp add: mat_torch_def mat_range_set)
  qed
  have 2: "th_col mat_torch (th_set_col mat_torch t i s) j = th_col mat_torch t j"
    if "i \<noteq> j" "0 \<le> i" "0 \<le> j" for t i j s
    using that mat_col_set_other [of "nat i" "nat j" s t] by (simp add: mat_torch_def mat_range_set)
  from 1 2 show ?thesis unfolding torch_slicing_def by blast
qed

subsection \<open>Properties\<close>

text \<open>
  Writing a snapshot's metadata as a dictionary and building the dataclass from that
  dictionary again gives the same metadata, whatever its fields hold.
\<close>

theorem metadata_round_trip: "from_dict (to_dict m) = Inr m"
  by (simp add: from_dict_def to_dict_def metadata_fields_def kw_req_def kw_opt_def)

text \<open>
  \<open>validate_state_tensors\<close> reports a state as valid exactly when there is a
  convolution tensor and every tensor is non-empty, of an accepted dtype and free of NaN
  and infinity (in strict mode also not all zero), and it reports an error message in
  every other case. The metadata argument never changes the verdict.
\<close>

theorem validate_state_tensors_correct:
  "vr_is_valid (validate_state_tensors T cs t md strict) = state_ok T strict cs t \<and>
   (vr_errors (validate_state_tensors T cs t md strict) = []) = state_ok T strict cs t \<and>
   vr_is_valid (validate_state_tensors T cs t md strict) =
     vr_is_valid (validate_state_tensors T cs t md' strict)"
  by (simp add: valid_simps)

end
