(* ===== verification/Host_Pool.thy ===== *)
theory Host_Pool
  imports Tensor_State
begin

section \<open>The host memory pool: warm snapshots\<close>

text \<open>
  \<open>HostPoolEntry\<close> and \<open>MambaHostPool\<close> of \<open>snapshot/mamba_host_pool.py\<close>: an LRU cache of
  conversation states in host memory, bounded by a number of conversations and by bytes.
  The \<open>OrderedDict\<close> is an association list in its order (least recently used first).
  Every public method runs under the pool's lock, so an operation is one function of the
  pool; \<open>time.time()\<close> is an argument. Copying a tensor to the host or cloning it gives
  the same value. The locale \<open>warm_cache\<close> is what the tier manager relies on.
\<close>

record 't host_entry =
  he_conversation_id :: string
  he_conv_states :: "'t list"
  he_temporal_states :: 't
  he_last_access_time :: real
  he_access_count :: nat
  he_metadata :: "pydict option"

definition tensor_bytes :: "'t torch \<Rightarrow> 't \<Rightarrow> int" where
  "tensor_bytes T t = int (th_element_size T t) * int (th_numel T t)"

definition memory_bytes :: "'t torch \<Rightarrow> 't host_entry \<Rightarrow> int" where
  "memory_bytes T e = sum_list (map (tensor_bytes T) (he_conv_states e)) + tensor_bytes T (he_temporal_states e)"

record 't host_pool =
  hp_max_conversations :: int
  hp_max_memory_bytes :: int
  hp_enable_cross_session_refs :: bool
  hp_pool :: "(string, 't host_entry) odict"
  hp_current_memory_bytes :: int
  hp_hits :: nat
  hp_misses :: nat
  hp_evictions :: nat

text \<open>Python's \<open>int(x)\<close> on a float truncates towards zero.\<close>

definition py_trunc :: "real \<Rightarrow> int" where
  "py_trunc x = (if 0 \<le> x then \<lfloor>x\<rfloor> else \<lceil>x\<rceil>)"

definition init_host_pool :: "int \<Rightarrow> real \<Rightarrow> bool \<Rightarrow> 't host_pool" where
  "init_host_pool max_conversations max_memory_gb enable_cross_session_refs =
     \<lparr>hp_max_conversations = max_conversations,
      hp_max_memory_bytes = py_trunc (max_memory_gb * 1024 * 1024 * 1024),
      hp_enable_cross_session_refs = enable_cross_session_refs,
      hp_pool = [], hp_current_memory_bytes = 0, hp_hits = 0, hp_misses = 0, hp_evictions = 0\<rparr>"

definition evict_lru :: "'t torch \<Rightarrow> 't host_pool \<Rightarrow> bool \<times> 't host_pool" where
  "evict_lru T P =
     (case hp_pool P of
        [] \<Rightarrow> (False, P)
      | (conversation_id, entry) # rest \<Rightarrow>
          (True, P\<lparr>hp_pool := rest,
                   hp_current_memory_bytes := hp_current_memory_bytes P - memory_bytes T entry,
                   hp_evictions := hp_evictions P + 1\<rparr>))"

text \<open>The condition of the \<open>while\<close> loop of \<open>save_state\<close>, and the loop.\<close>

definition must_evict :: "int \<Rightarrow> 't host_pool \<Rightarrow> bool" where
  "must_evict entry_size P =
     (int (length (hp_pool P)) \<ge> hp_max_conversations P \<or>
      hp_current_memory_bytes P + entry_size > hp_max_memory_bytes P)"

function make_space :: "'t torch \<Rightarrow> int \<Rightarrow> 't host_pool \<Rightarrow> bool \<times> 't host_pool" where
  "make_space T entry_size P =
     (if must_evict entry_size P
      then (case evict_lru T P of
              (False, P') \<Rightarrow> (False, P')
            | (True, P') \<Rightarrow> make_space T entry_size P')
      else (True, P))"
  by pat_completeness auto
termination
  by (relation "measure (\<lambda>(T, s, P). length (hp_pool P))") (auto simp: evict_lru_def split: list.splits)

declare make_space.simps [simp del]

definition save_state ::
  "'t torch \<Rightarrow> real \<Rightarrow> string \<Rightarrow> 't list \<Rightarrow> 't \<Rightarrow> pydict option \<Rightarrow> 't host_pool \<Rightarrow> bool \<times> 't host_pool" where
  "save_state T now conversation_id conv_states temporal_states metadata P =
     (let entry = \<lparr>he_conversation_id = conversation_id, he_conv_states = conv_states,
                   he_temporal_states = temporal_states, he_last_access_time = now,
                   he_access_count = 0, he_metadata = metadata\<rparr>;
          entry_size = memory_bytes T entry
      in case make_space T entry_size P of
           (False, P1) \<Rightarrow> (False, P1)
         | (True, P1) \<Rightarrow>
             let P2 = (case od_get (hp_pool P1) conversation_id of
                         None \<Rightarrow> P1
                       | Some old_entry \<Rightarrow>
                           P1\<lparr>hp_pool := od_del conversation_id (hp_pool P1),
                              hp_current_memory_bytes :=
                                hp_current_memory_bytes P1 - memory_bytes T old_entry\<rparr>)
             in (True, P2\<lparr>hp_pool := od_set conversation_id entry (hp_pool P2),
                          hp_current_memory_bytes := hp_current_memory_bytes P2 + entry_size\<rparr>))"

definition entry_state :: "'t host_entry \<Rightarrow> 't list \<times> 't \<times> pydict" where
  "entry_state e = (he_conv_states e, he_temporal_states e, case he_metadata e of None \<Rightarrow> [] | Some d \<Rightarrow> d)"

definition get_state ::
  "real \<Rightarrow> string \<Rightarrow> 't host_pool \<Rightarrow> ('t list \<times> 't \<times> pydict) option \<times> 't host_pool" where
  "get_state now conversation_id P =
     (case od_get (hp_pool P) conversation_id of
        None \<Rightarrow> (None, P\<lparr>hp_misses := hp_misses P + 1\<rparr>)
      | Some entry \<Rightarrow>
          let entry' = entry\<lparr>he_last_access_time := now, he_access_count := he_access_count entry + 1\<rparr>
          in (Some (entry_state entry'),
              P\<lparr>hp_pool := od_put_last conversation_id entry' (hp_pool P), hp_hits := hp_hits P + 1\<rparr>))"

definition get_state_for_reference ::
  "real \<Rightarrow> string \<Rightarrow> string \<Rightarrow> 't host_pool \<Rightarrow> ('t list \<times> 't \<times> pydict) option \<times> 't host_pool" where
  "get_state_for_reference now conversation_id target_conversation_id P =
     (if \<not> hp_enable_cross_session_refs P then (None, P) else get_state now target_conversation_id P)"

definition has_state :: "string \<Rightarrow> 't host_pool \<Rightarrow> bool" where
  "has_state conversation_id P = od_mem conversation_id (hp_pool P)"

definition remove_state :: "'t torch \<Rightarrow> string \<Rightarrow> 't host_pool \<Rightarrow> bool \<times> 't host_pool" where
  "remove_state T conversation_id P =
     (case od_get (hp_pool P) conversation_id of
        None \<Rightarrow> (False, P)
      | Some entry \<Rightarrow>
          (True, P\<lparr>hp_pool := od_del conversation_id (hp_pool P),
                   hp_current_memory_bytes := hp_current_memory_bytes P - memory_bytes T entry\<rparr>))"

definition pool_list_conversations :: "'t host_pool \<Rightarrow> string list" where
  "pool_list_conversations P = od_keys (hp_pool P)"

record conversation_info =
  ci_conversation_id :: string
  ci_last_access_time :: real
  ci_access_count :: nat
  ci_memory_bytes :: int
  ci_metadata :: "pydict option"

definition get_conversation_metadata :: "'t torch \<Rightarrow> string \<Rightarrow> 't host_pool \<Rightarrow> conversation_info option" where
  "get_conversation_metadata T conversation_id P =
     (case od_get (hp_pool P) conversation_id of
        None \<Rightarrow> None
      | Some e \<Rightarrow> Some \<lparr>ci_conversation_id = he_conversation_id e,
                        ci_last_access_time = he_last_access_time e,
                        ci_access_count = he_access_count e,
                        ci_memory_bytes = memory_bytes T e,
                        ci_metadata = he_metadata e\<rparr>)"

definition get_hit_rate :: "'t host_pool \<Rightarrow> real" where
  "get_hit_rate P =
     (if hp_hits P + hp_misses P = 0 then 0 else real (hp_hits P) / real (hp_hits P + hp_misses P))"

record pool_stats =
  ps_current_conversations :: nat
  ps_max_conversations :: int
  ps_current_memory_bytes :: int
  ps_max_memory_bytes :: int
  ps_memory_utilization :: real
  ps_hits :: nat
  ps_misses :: nat
  ps_hit_rate :: real
  ps_evictions :: nat

definition pool_get_stats :: "'t host_pool \<Rightarrow> pool_stats" where
  "pool_get_stats P =
     \<lparr>ps_current_conversations = length (hp_pool P),
      ps_max_conversations = hp_max_conversations P,
      ps_current_memory_bytes = hp_current_memory_bytes P,
      ps_max_memory_bytes = hp_max_memory_bytes P,
      ps_memory_utilization =
        (if hp_max_memory_bytes P > 0
         then of_int (hp_current_memory_bytes P) / of_int (hp_max_memory_bytes P) else 0),
      ps_hits = hp_hits P,
      ps_misses = hp_misses P,
      ps_hit_rate = get_hit_rate P,
      ps_evictions = hp_evictions P\<rparr>"

definition pool_clear :: "'t host_pool \<Rightarrow> 't host_pool" where
  "pool_clear P = P\<lparr>hp_pool := [], hp_current_memory_bytes := 0\<rparr>"

definition pool_len :: "'t host_pool \<Rightarrow> nat" where
  "pool_len P = length (hp_pool P)"

subsection \<open>The invariant\<close>

text \<open>
  The keys are distinct and every entry is filed under its own conversation id; the byte
  counter is the sum over the entries; and a pool that holds anything is within both bounds.
\<close>

definition pool_bytes :: "'t torch \<Rightarrow> (string, 't host_entry) odict \<Rightarrow> int" where
  "pool_bytes T d = sum_list (map (memory_bytes T) (od_values d))"

definition pool_ok :: "'t torch \<Rightarrow> 't host_pool \<Rightarrow> bool" where
  "pool_ok T P =
     (od_ok (hp_pool P) \<and>
      list_all (\<lambda>(k, e). he_conversation_id e = k) (hp_pool P) \<and>
      hp_current_memory_bytes P = pool_bytes T (hp_pool P) \<and>
      (hp_pool P \<noteq> [] \<longrightarrow>
         int (length (hp_pool P)) \<le> hp_max_conversations P \<and>
         hp_current_memory_bytes P \<le> hp_max_memory_bytes P))"

lemma tensor_bytes_nonneg [simp]: "0 \<le> tensor_bytes T t"
  by (simp add: tensor_bytes_def)

lemma memory_bytes_nonneg [simp]: "0 \<le> memory_bytes T e"
  by (auto simp: memory_bytes_def intro!: add_nonneg_nonneg sum_list_nonneg)

lemma pool_bytes_simps [simp]:
  "pool_bytes T [] = 0"
  "pool_bytes T ((k, e) # d) = memory_bytes T e + pool_bytes T d"
  "pool_bytes T (d @ d') = pool_bytes T d + pool_bytes T d'"
  by (simp_all add: pool_bytes_def)

lemma pool_bytes_nonneg [simp]: "0 \<le> pool_bytes T d"
  by (auto simp: pool_bytes_def intro!: sum_list_nonneg)

lemma pool_bytes_del:
  "od_ok d \<Longrightarrow> od_get d k = Some e \<Longrightarrow> pool_bytes T (od_del k d) = pool_bytes T d - memory_bytes T e"
proof (induction d)
  case (Cons p d)
  obtain k' e' where p: "p = (k', e')" by (cases p)
  show ?case
  proof (cases "k' = k")
    case True
    with Cons.prems p have "e' = e" "k \<notin> set (od_keys d)" by (auto simp: od_ok_def)
    then show ?thesis using p True od_del_absent [of k d] by (simp add: od_del_def)
  next
    case False
    with Cons.prems p have "od_ok d" "od_get d k = Some e" by (auto simp: od_ok_def)
    then show ?thesis using Cons.IH p False by (simp add: od_del_def)
  qed
qed simp

lemma pool_bytes_del_absent: "od_get d k = None \<Longrightarrow> pool_bytes T (od_del k d) = pool_bytes T d"
  by (simp add: od_del_absent map_of_eq_None_iff)

subsection \<open>Making space\<close>

text \<open>The pool after its \<open>k\<close> least recently used entries are evicted.\<close>

definition evicted :: "'t torch \<Rightarrow> nat \<Rightarrow> 't host_pool \<Rightarrow> 't host_pool" where
  "evicted T k P =
     P\<lparr>hp_pool := drop k (hp_pool P),
       hp_current_memory_bytes := hp_current_memory_bytes P - pool_bytes T (take k (hp_pool P)),
       hp_evictions := hp_evictions P + k\<rparr>"

lemma evicted_0 [simp]: "evicted T 0 P = P"
  by (simp add: evicted_def)

lemma evict_lru_eq:
  "evict_lru T P = (if hp_pool P = [] then (False, P) else (True, evicted T 1 P))"
  by (auto simp: evict_lru_def evicted_def split: list.split)

lemma evicted_evicted: "evicted T k (evicted T 1 P) = evicted T (Suc k) P" if "hp_pool P \<noteq> []"
  using that by (cases "hp_pool P") (auto simp: evicted_def)

lemma evicted_fields [simp]:
  "hp_pool (evicted T k P) = drop k (hp_pool P)"
  "hp_max_conversations (evicted T k P) = hp_max_conversations P"
  "hp_max_memory_bytes (evicted T k P) = hp_max_memory_bytes P"
  by (simp_all add: evicted_def)

text \<open>
  The loop evicts from the least recently used end, no more than it must, and fails only
  on an empty pool.
\<close>

lemma make_space_eq:
  "\<exists>k \<le> length (hp_pool P).
     make_space T sz P = (\<not> must_evict sz (evicted T k P), evicted T k P) \<and>
     (\<forall>j < k. must_evict sz (evicted T j P)) \<and>
     (must_evict sz (evicted T k P) \<longrightarrow> k = length (hp_pool P))"
proof (induction T sz P rule: make_space.induct)
  case (1 T sz P)
  show ?case
  proof (cases "must_evict sz P")
    case False
    then show ?thesis by (intro exI [of _ 0]) (simp add: make_space.simps [of T sz P])
  next
    case True
    show ?thesis
    proof (cases "hp_pool P = []")
      case True
      then show ?thesis using \<open>must_evict sz P\<close>
        by (intro exI [of _ 0]) (simp add: make_space.simps [of T sz P] evict_lru_eq)
    next
      case False
      note ev = evicted_evicted [OF False]
      have e: "evict_lru T P = (True, evicted T 1 P)" using False by (simp add: evict_lru_eq)
      obtain k where k: "k \<le> length (hp_pool (evicted T 1 P))"
        "make_space T sz (evicted T 1 P) = (\<not> must_evict sz (evicted T (Suc k) P), evicted T (Suc k) P)"
        "\<forall>j < k. must_evict sz (evicted T (Suc j) P)"
        "must_evict sz (evicted T (Suc k) P) \<longrightarrow> k = length (hp_pool (evicted T 1 P))"
        using "1.IH" [OF True e [symmetric], OF refl] ev by auto
      have "\<forall>j < Suc k. must_evict sz (evicted T j P)"
        using k(3) True by (simp add: All_less_Suc2)
      moreover have "make_space T sz P = (\<not> must_evict sz (evicted T (Suc k) P), evicted T (Suc k) P)"
        using True e k(2) by (simp add: make_space.simps [of T sz P])
      moreover have "Suc k \<le> length (hp_pool P)" using k(1) False by (cases "hp_pool P") simp_all
      moreover have "must_evict sz (evicted T (Suc k) P) \<longrightarrow> Suc k = length (hp_pool P)"
        using k(4) False by (cases "hp_pool P") simp_all
      ultimately show ?thesis by blast
    qed
  qed
qed

lemma pool_ok_evicted:
  assumes "pool_ok T P"
  shows "pool_ok T (evicted T k P)"
proof -
  have s: "pool_bytes T (take k (hp_pool P)) + pool_bytes T (drop k (hp_pool P)) = pool_bytes T (hp_pool P)"
    using pool_bytes_simps(3) [of T "take k (hp_pool P)" "drop k (hp_pool P)"] by simp
  have d: "od_ok (drop k (hp_pool P))" "list_all (\<lambda>(k, e). he_conversation_id e = k) (drop k (hp_pool P))"
    using assms by (auto simp: pool_ok_def od_ok_def drop_map [symmetric] list_all_iff dest: in_set_dropD)
  have e: "hp_current_memory_bytes (evicted T k P) = pool_bytes T (drop k (hp_pool P))"
    using assms s by (simp add: pool_ok_def evicted_def)
  have "pool_bytes T (drop k (hp_pool P)) \<le> pool_bytes T (hp_pool P)"
    using s pool_bytes_nonneg [of T "take k (hp_pool P)"] by linarith
  then show ?thesis using assms d by (auto simp: pool_ok_def e)
qed

text \<open>A state fits when the pool admits conversations at all and has room for its bytes.\<close>

definition fits :: "'t torch \<Rightarrow> 't list \<Rightarrow> 't \<Rightarrow> 't host_pool \<Rightarrow> bool" where
  "fits T cs t P =
     (0 < hp_max_conversations P \<and>
      sum_list (map (tensor_bytes T) cs) + tensor_bytes T t \<le> hp_max_memory_bytes P)"

abbreviation state_bytes :: "'t torch \<Rightarrow> 't list \<Rightarrow> 't \<Rightarrow> int" where
  "state_bytes T cs t \<equiv> sum_list (map (tensor_bytes T) cs) + tensor_bytes T t"

abbreviation new_entry :: "real \<Rightarrow> string \<Rightarrow> 't list \<Rightarrow> 't \<Rightarrow> pydict option \<Rightarrow> 't host_entry" where
  "new_entry now cid cs t md \<equiv>
     \<lparr>he_conversation_id = cid, he_conv_states = cs, he_temporal_states = t, he_last_access_time = now,
      he_access_count = 0, he_metadata = md\<rparr>"

lemma must_evict_empty:
  "pool_ok T P \<Longrightarrow> hp_pool P = [] \<Longrightarrow> must_evict (state_bytes T cs t) P = (\<not> fits T cs t P)"
  by (auto simp: must_evict_def fits_def pool_ok_def)

lemma fits_evicted [simp]: "fits T cs t (evicted T k P) = fits T cs t P"
  by (simp add: fits_def)

lemma fits_if_space: "pool_ok T P \<Longrightarrow> \<not> must_evict (state_bytes T cs t) P \<Longrightarrow> fits T cs t P"
  using pool_bytes_nonneg [of T "hp_pool P"] unfolding must_evict_def fits_def pool_ok_def by linarith

lemma make_space_fits:
  assumes "pool_ok T P"
  shows "fst (make_space T (state_bytes T cs t) P) = fits T cs t P"
proof -
  obtain k where k: "make_space T (state_bytes T cs t) P =
      (\<not> must_evict (state_bytes T cs t) (evicted T k P), evicted T k P)"
    "must_evict (state_bytes T cs t) (evicted T k P) \<longrightarrow> k = length (hp_pool P)"
    using make_space_eq by blast
  note ok = pool_ok_evicted [OF assms, of k]
  show ?thesis
  proof (cases "must_evict (state_bytes T cs t) (evicted T k P)")
    case True
    then have "hp_pool (evicted T k P) = []" using k(2) by simp
    then show ?thesis using k(1) True must_evict_empty [OF ok, of cs t] by simp
  next
    case False
    then show ?thesis using k(1) fits_if_space [OF ok False] by simp
  qed
qed

subsection \<open>The operations\<close>

text \<open>
  Saving, in one equation: evict the shortest prefix that makes room, then file the entry
  at the most recently used end.
\<close>

definition filed :: "'t torch \<Rightarrow> real \<Rightarrow> string \<Rightarrow> 't list \<Rightarrow> 't \<Rightarrow> pydict option \<Rightarrow> 't host_pool \<Rightarrow> 't host_pool" where
  "filed T now cid cs t md P =
     P\<lparr>hp_pool := od_del cid (hp_pool P) @ [(cid, new_entry now cid cs t md)],
       hp_current_memory_bytes :=
         hp_current_memory_bytes P - (case od_get (hp_pool P) cid of None \<Rightarrow> 0 | Some e \<Rightarrow> memory_bytes T e) +
         state_bytes T cs t\<rparr>"

lemma new_entry_bytes [simp]: "memory_bytes T (new_entry now cid cs t md) = state_bytes T cs t"
  by (simp add: memory_bytes_def)

lemma od_del_fresh: "cid \<notin> set (od_keys (od_del cid d))"
  by (simp add: od_keys_del)

lemma save_state_eq:
  "save_state T now cid cs t md P =
     (case make_space T (state_bytes T cs t) P of
        (b, P1) \<Rightarrow> (b, if b then filed T now cid cs t md P1 else P1))"
proof -
  obtain b P1 where m: "make_space T (state_bytes T cs t) P = (b, P1)" by fastforce
  have e: "memory_bytes T (new_entry now cid cs t md) = state_bytes T cs t" by simp
  show ?thesis
  proof (cases "od_get (hp_pool P1) cid")
    case None
    then have "cid \<notin> set (od_keys (hp_pool P1))" by (simp add: map_of_eq_None_iff)
    then show ?thesis using None
      by (simp add: save_state_def filed_def Let_def m e od_del_absent od_set_new split: bool.split)
  next
    case (Some old)
    then show ?thesis
      by (simp add: save_state_def filed_def Let_def m e od_set_new [OF od_del_fresh] split: bool.split)
  qed
qed

lemma list_all_del: "list_all Q d \<Longrightarrow> list_all Q (od_del k d)"
  by (auto simp: list_all_iff od_del_def)

lemma pool_ok_filed:
  assumes "pool_ok T P" "\<not> must_evict (state_bytes T cs t) P"
  shows "pool_ok T (filed T now cid cs t md P)"
proof -
  let ?d = "hp_pool P"
  have ok: "od_ok ?d" "list_all (\<lambda>(k, e). he_conversation_id e = k) ?d" "hp_current_memory_bytes P = pool_bytes T ?d"
    using assms(1) by (simp_all add: pool_ok_def)
  have old: "pool_bytes T (od_del cid ?d) =
      pool_bytes T ?d - (case od_get ?d cid of None \<Rightarrow> 0 | Some e \<Rightarrow> memory_bytes T e)"
    using ok(1) by (simp add: pool_bytes_del pool_bytes_del_absent split: option.split)
  have le: "pool_bytes T (od_del cid ?d) \<le> pool_bytes T ?d"
    unfolding old by (simp split: option.split)
  have sp: "int (length ?d) < hp_max_conversations P" "pool_bytes T ?d + state_bytes T cs t \<le> hp_max_memory_bytes P"
    using assms(2) ok(3) by (simp_all add: must_evict_def)
  have od: "od_ok (od_del cid ?d @ [(cid, new_entry now cid cs t md)])"
    using ok(1) od_ok_del [of ?d cid] od_del_fresh [of cid ?d] by (simp add: od_ok_def)
  show ?thesis
    unfolding pool_ok_def filed_def
    using od ok old le sp list_all_del [OF ok(2), of cid] od_del_length_le [of cid ?d] by simp
qed

lemma make_space_ok: "pool_ok T P \<Longrightarrow> pool_ok T (snd (make_space T sz P))"
  using make_space_eq [of P T sz] by (auto simp: pool_ok_evicted)

lemma make_space_True: "make_space T sz P = (True, P1) \<Longrightarrow> \<not> must_evict sz P1"
  using make_space_eq [of P T sz] by auto

lemma save_state_ok:
  assumes "pool_ok T P"
  shows "pool_ok T (snd (save_state T now cid cs t md P))"
proof -
  obtain b P1 where m: "make_space T (state_bytes T cs t) P = (b, P1)" by fastforce
  then have "pool_ok T P1" using make_space_ok [OF assms, of "state_bytes T cs t"] by simp
  moreover have "\<not> must_evict (state_bytes T cs t) P1" if b using m that make_space_True [of T "state_bytes T cs t" P P1] by simp
  ultimately show ?thesis using m by (simp add: save_state_eq pool_ok_filed)
qed

lemma pool_bytes_put_last:
  assumes "od_ok d" "od_get d k = Some e" "memory_bytes T e' = memory_bytes T e"
  shows "pool_bytes T (od_put_last k e' d) = pool_bytes T d"
  using assms by (simp add: od_put_last_eq pool_bytes_del)

lemma get_state_ok:
  assumes "pool_ok T P"
  shows "pool_ok T (snd (get_state now cid P))"
proof (cases "od_get (hp_pool P) cid")
  case None
  then show ?thesis using assms by (auto simp: get_state_def pool_ok_def)
next
  case (Some e)
  let ?e = "e\<lparr>he_last_access_time := now, he_access_count := he_access_count e + 1\<rparr>"
  have m: "memory_bytes T ?e = memory_bytes T e" by (simp add: memory_bytes_def)
  have ok: "od_ok (hp_pool P)" "list_all (\<lambda>(k, e). he_conversation_id e = k) (hp_pool P)"
    using assms by (simp_all add: pool_ok_def)
  have "(cid, e) \<in> set (hp_pool P)" using Some by (rule map_of_SomeD)
  then have "he_conversation_id e = cid" "hp_pool P \<noteq> []" using ok(2) by (auto simp: list_all_iff)
  moreover have "od_mem cid (hp_pool P)" using Some by (simp add: od_mem_iff)
  then have "length (od_del cid (hp_pool P)) + 1 = length (hp_pool P)"
    using ok(1) calculation(2) by (simp add: od_del_length)
  ultimately show ?thesis
    using assms Some pool_bytes_put_last [OF ok(1) Some m] od_ok_put_last [OF ok(1), of cid ?e]
      list_all_del [OF ok(2), of cid]
    by (simp add: get_state_def pool_ok_def Let_def od_put_last_eq)
qed

lemma remove_state_ok:
  assumes "pool_ok T P"
  shows "pool_ok T (snd (remove_state T cid P))"
proof (cases "od_get (hp_pool P) cid")
  case None
  then show ?thesis using assms by (simp add: remove_state_def)
next
  case (Some e)
  have ok: "od_ok (hp_pool P)" "list_all (\<lambda>(k, e). he_conversation_id e = k) (hp_pool P)"
    using assms by (simp_all add: pool_ok_def)
  have cur: "hp_current_memory_bytes P - memory_bytes T e = pool_bytes T (od_del cid (hp_pool P))"
    using assms pool_bytes_del [OF ok(1) Some, of T] by (simp add: pool_ok_def)
  have "hp_pool P \<noteq> []" using Some by auto
  then have "int (length (od_del cid (hp_pool P))) \<le> hp_max_conversations P"
    "hp_current_memory_bytes P - memory_bytes T e \<le> hp_max_memory_bytes P"
    using assms od_del_length_le [of cid "hp_pool P"] memory_bytes_nonneg [of T e]
    unfolding pool_ok_def by linarith+
  then show ?thesis
    using Some ok list_all_del [OF ok(2), of cid] cur by (simp add: pool_ok_def remove_state_def)
qed

lemma get_state_for_reference_ok:
  "pool_ok T P \<Longrightarrow> pool_ok T (snd (get_state_for_reference now cid target P))"
  by (simp add: get_state_for_reference_def get_state_ok)

lemma pool_clear_ok: "pool_ok T (pool_clear P)"
  by (simp add: pool_clear_def pool_ok_def)

lemma init_host_pool_ok: "pool_ok T (init_host_pool n gb refs)"
  by (simp add: init_host_pool_def pool_ok_def)

lemmas pool_ok_ops =
  save_state_ok get_state_ok remove_state_ok get_state_for_reference_ok pool_clear_ok init_host_pool_ok

subsection \<open>The pool as a cache\<close>

text \<open>
  The contract of a lossy cache: a value reported as stored is found under its key, other
  keys keep their value or lose it, a fetch returns what is there and loses nothing, a
  removal removes its key only.
\<close>

locale warm_cache =
  fixes lookup :: "'s \<Rightarrow> 'k \<Rightarrow> 'v option"
    and store :: "'k \<Rightarrow> 'v \<Rightarrow> 's \<Rightarrow> bool \<times> 's"
    and fetch :: "'k \<Rightarrow> 's \<Rightarrow> 'v option \<times> 's"
    and discard :: "'k \<Rightarrow> 's \<Rightarrow> bool \<times> 's"
    and ok :: "'s \<Rightarrow> bool"
  assumes store_hit: "ok s \<Longrightarrow> fst (store k v s) \<Longrightarrow> lookup (snd (store k v s)) k = Some v"
    and store_miss: "ok s \<Longrightarrow> \<not> fst (store k v s) \<Longrightarrow> lookup (snd (store k v s)) k = None"
    and store_others: "ok s \<Longrightarrow> k' \<noteq> k \<Longrightarrow>
      lookup (snd (store k v s)) k' = lookup s k' \<or> lookup (snd (store k v s)) k' = None"
    and store_ok: "ok s \<Longrightarrow> ok (snd (store k v s))"
    and fetch_value: "ok s \<Longrightarrow> fst (fetch k s) = lookup s k"
    and fetch_keeps: "ok s \<Longrightarrow> lookup (snd (fetch k s)) = lookup s"
    and fetch_ok: "ok s \<Longrightarrow> ok (snd (fetch k s))"
    and discard_value: "ok s \<Longrightarrow> fst (discard k s) = (lookup s k \<noteq> None)"
    and discard_lookup: "ok s \<Longrightarrow> lookup (snd (discard k s)) k' = (if k' = k then None else lookup s k')"
    and discard_ok: "ok s \<Longrightarrow> ok (snd (discard k s))"
begin

lemma store_fetch: "ok s \<Longrightarrow> fst (store k v s) \<Longrightarrow> fst (fetch k (snd (store k v s))) = Some v"
  by (simp add: fetch_value store_ok store_hit)

lemma store_discard: "ok s \<Longrightarrow> k' \<noteq> k \<Longrightarrow> lookup (snd (discard k (snd (store k v s)))) k' = Some w \<Longrightarrow> lookup s k' = Some w"
  using store_others [of s k' k v] by (auto simp: discard_lookup store_ok)

lemma store_provenance:
  "ok s \<Longrightarrow> lookup (snd (store k v s)) k' = Some w \<Longrightarrow> (if k' = k then w = v else lookup s k' = Some w)"
  using store_hit [of s k v] store_miss [of s k v] store_others [of s k' k v]
  by (cases "fst (store k v s)") auto

lemma stores_ok: "ok s \<Longrightarrow> ok (fold (\<lambda>(k, v) s. snd (store k v s)) kvs s)"
  by (induction kvs arbitrary: s) (auto simp: store_ok)

text \<open>After any sequence of stores, a key holds the last value stored under it or what it held before.\<close>

lemma stores_provenance:
  "ok s \<Longrightarrow> lookup (fold (\<lambda>(k, v) s. snd (store k v s)) kvs s) k = Some w \<Longrightarrow>
     (case map_of (rev kvs) k of None \<Rightarrow> lookup s k = Some w | Some v \<Rightarrow> w = v)"
proof (induction kvs arbitrary: s)
  case (Cons kv kvs)
  obtain k' v where kv: "kv = (k', v)" by (cases kv)
  have *: "case map_of (rev kvs) k of None \<Rightarrow> lookup (snd (store k' v s)) k = Some w | Some v \<Rightarrow> w = v"
    using Cons.IH [of "snd (store k' v s)"] Cons.prems by (simp add: kv store_ok)
  show ?case
  proof (cases "map_of (rev kvs) k")
    case None
    then have "if k = k' then w = v else lookup s k = Some w"
      using * store_provenance [OF Cons.prems(1), of k' v k w] by simp
    then show ?thesis using None by (simp add: kv map_add_def)
  next
    case (Some u)
    then show ?thesis using * by (simp add: kv map_add_def)
  qed
qed simp

end

definition pool_lookup :: "'t host_pool \<Rightarrow> string \<Rightarrow> ('t list \<times> 't \<times> pydict) option" where
  "pool_lookup P k = map_option entry_state (od_get (hp_pool P) k)"

definition store_entry ::
  "'t torch \<Rightarrow> real \<Rightarrow> string \<Rightarrow> 't list \<times> 't \<times> pydict \<Rightarrow> 't host_pool \<Rightarrow> bool \<times> 't host_pool" where
  "store_entry T now cid v P = (case v of (cs, t, d) \<Rightarrow> save_state T now cid cs t (Some d) P)"

lemma save_state_others:
  assumes "pool_ok T P" "k' \<noteq> cid"
  shows "od_get (hp_pool (snd (save_state T now cid cs t md P))) k' = od_get (hp_pool P) k' \<or>
    od_get (hp_pool (snd (save_state T now cid cs t md P))) k' = None"
proof -
  obtain k where k: "make_space T (state_bytes T cs t) P =
      (\<not> must_evict (state_bytes T cs t) (evicted T k P), evicted T k P)"
    using make_space_eq by blast
  have "od_ok (hp_pool P)" using assms(1) by (simp add: pool_ok_def)
  then show ?thesis using od_get_drop [of "hp_pool P" k k'] assms(2)
    by (auto simp: save_state_eq k filed_def map_add_def split: option.splits)
qed

lemma save_state_fst: "pool_ok T P \<Longrightarrow> fst (save_state T now cid cs t md P) = fits T cs t P"
  using make_space_fits [of T P cs t] by (auto simp: save_state_eq split: prod.split)

lemma save_state_hit:
  "fst (save_state T now cid cs t md P) \<Longrightarrow>
     od_get (hp_pool (snd (save_state T now cid cs t md P))) cid = Some (new_entry now cid cs t md)"
  by (auto simp: save_state_eq filed_def map_add_def split: prod.splits)

lemma save_state_miss:
  assumes "\<not> fst (save_state T now cid cs t md P)"
  shows "hp_pool (snd (save_state T now cid cs t md P)) = []"
proof -
  obtain k where k: "make_space T (state_bytes T cs t) P =
      (\<not> must_evict (state_bytes T cs t) (evicted T k P), evicted T k P)"
    "must_evict (state_bytes T cs t) (evicted T k P) \<longrightarrow> k = length (hp_pool P)"
    using make_space_eq by blast
  then show ?thesis using assms by (auto simp: save_state_eq)
qed

lemma get_state_value: "fst (get_state now cid P) = pool_lookup P cid"
  by (simp add: get_state_def pool_lookup_def Let_def entry_state_def split: option.split)

lemma get_state_keeps: "pool_lookup (snd (get_state now cid P)) = pool_lookup P"
  by (rule ext) (simp add: get_state_def pool_lookup_def Let_def entry_state_def split: option.split)

interpretation wc: warm_cache
  pool_lookup "store_entry T now" "get_state now" "remove_state T" "pool_ok T"
  for T :: "'t torch" and now :: real
proof (unfold_locales, goal_cases)
  case (1 s k v)
  obtain cs t d where v: "v = (cs, t, d)" by (cases v)
  then show ?case using 1(2) save_state_hit [of T now k cs t "Some d" s]
    by (simp add: store_entry_def pool_lookup_def entry_state_def)
next
  case (2 s k v)
  obtain cs t d where v: "v = (cs, t, d)" by (cases v)
  then show ?case using 2(2) save_state_miss [of T now k cs t "Some d" s]
    by (simp add: store_entry_def pool_lookup_def)
next
  case (3 s k' k v)
  obtain cs t d where v: "v = (cs, t, d)" by (cases v)
  then show ?case using save_state_others [OF 3, of now cs t "Some d"]
    by (auto simp: store_entry_def pool_lookup_def)
next
  case (4 s k v)
  then show ?case by (simp add: store_entry_def save_state_ok split: prod.split)
next
  case (8 s k)
  then show ?case by (simp add: remove_state_def pool_lookup_def split: option.split)
next
  case (9 s k k')
  then show ?case by (simp add: remove_state_def pool_lookup_def split: option.split)
qed (simp_all add: get_state_value get_state_keeps pool_ok_ops)

subsection \<open>Properties\<close>

text \<open>The pools that any sequence of calls can reach from a new pool.\<close>

inductive pool_reach :: "'t torch \<Rightarrow> 't host_pool \<Rightarrow> bool" for T where
  start: "pool_reach T (init_host_pool n gb refs)"
| save: "pool_reach T P \<Longrightarrow> pool_reach T (snd (save_state T now cid cs t md P))"
| get: "pool_reach T P \<Longrightarrow> pool_reach T (snd (get_state now cid P))"
| reference: "pool_reach T P \<Longrightarrow> pool_reach T (snd (get_state_for_reference now cid target P))"
| remove: "pool_reach T P \<Longrightarrow> pool_reach T (snd (remove_state T cid P))"
| clear: "pool_reach T P \<Longrightarrow> pool_reach T (pool_clear P)"

lemma pool_reach_ok: "pool_reach T P \<Longrightarrow> pool_ok T P"
  by (induction rule: pool_reach.induct) (simp_all add: pool_ok_ops)

text \<open>
  C35: whatever calls are made, the pool never exceeds the number of conversations or the
  bytes it was created with, its byte counter is the exact size of the states it holds, and
  it holds at most one entry per conversation, under that conversation's id.
\<close>

theorem host_pool_bounds:
  assumes "pool_reach T P"
  shows "distinct (pool_list_conversations P) \<and>
    (\<forall>(k, e) \<in> set (hp_pool P). he_conversation_id e = k) \<and>
    hp_current_memory_bytes P = (\<Sum>(k, e) \<leftarrow> hp_pool P. memory_bytes T e) \<and>
    (pool_len P \<noteq> 0 \<longrightarrow>
       int (pool_len P) \<le> hp_max_conversations P \<and> hp_current_memory_bytes P \<le> hp_max_memory_bytes P)"
  using pool_reach_ok [OF assms]
  by (auto simp: pool_ok_def od_ok_def pool_list_conversations_def pool_len_def pool_bytes_def
      list_all_iff comp_def split_def)

theorem host_pool_bounds_witness:
  "int (pool_len (snd (save_state mat_torch 0 ''b'' [[[1]]] [[2]] None
     (snd (save_state mat_torch 0 ''a'' [[[1]]] [[2]] None (init_host_pool 1 1 True)))))) = 1"
proof -
  let ?P0 = "init_host_pool 1 1 True"
  let ?P1 = "snd (save_state mat_torch 0 ''a'' [[[1]]] [[2]] None ?P0)"
  let ?P2 = "snd (save_state mat_torch 0 ''b'' [[[1]]] [[2]] None ?P1)"
  have r: "pool_reach mat_torch ?P2" by (intro pool_reach.save pool_reach.start)
  have "hp_max_conversations ?P2 = 1"
    by (simp add: save_state_def make_space.simps must_evict_def evict_lru_def init_host_pool_def Let_def
        memory_bytes_def tensor_bytes_def mat_torch_def py_trunc_def)
  moreover have "pool_len ?P2 \<noteq> 0"
    by (simp add: save_state_def make_space.simps must_evict_def evict_lru_def init_host_pool_def Let_def
        memory_bytes_def tensor_bytes_def mat_torch_def py_trunc_def pool_len_def)
  ultimately show ?thesis using host_pool_bounds [OF r] by linarith
qed

text \<open>
  C37: \<open>save_state\<close> succeeds exactly when the state alone fits the pool. It evicts from the
  least recently used end and no more than needed: before the last eviction the remaining
  entries left no room. The saved conversation becomes the most recently used one and
  \<open>get_state\<close> returns its state. A save that cannot succeed has emptied the whole pool.
\<close>

theorem save_state_lru:
  assumes "pool_ok T P"
  shows "\<exists>k \<le> pool_len P.
    fst (save_state T now cid cs t md P) = fits T cs t P \<and>
    (fits T cs t P \<longrightarrow>
       pool_list_conversations (snd (save_state T now cid cs t md P)) =
         filter (\<lambda>c. c \<noteq> cid) (drop k (pool_list_conversations P)) @ [cid] \<and>
       fst (get_state now' cid (snd (save_state T now cid cs t md P))) =
         Some (cs, t, case md of None \<Rightarrow> [] | Some d \<Rightarrow> d)) \<and>
    (\<not> fits T cs t P \<longrightarrow> pool_list_conversations (snd (save_state T now cid cs t md P)) = []) \<and>
    (\<forall>j < k. int (pool_len P - j) \<ge> hp_max_conversations P \<or>
       pool_bytes T (drop j (hp_pool P)) + state_bytes T cs t > hp_max_memory_bytes P)"
proof -
  obtain k where k: "k \<le> length (hp_pool P)" "make_space T (state_bytes T cs t) P =
      (\<not> must_evict (state_bytes T cs t) (evicted T k P), evicted T k P)"
    "\<forall>j < k. must_evict (state_bytes T cs t) (evicted T j P)"
    using make_space_eq by blast
  have f: "(\<not> must_evict (state_bytes T cs t) (evicted T k P)) = fits T cs t P"
    using make_space_fits [OF assms, of cs t] k(2) by simp
  have cur: "hp_current_memory_bytes (evicted T j P) = pool_bytes T (drop j (hp_pool P))" for j
    using pool_ok_evicted [OF assms, of j] by (simp add: pool_ok_def)
  have "\<forall>j < k. int (pool_len P - j) \<ge> hp_max_conversations P \<or>
      pool_bytes T (drop j (hp_pool P)) + state_bytes T cs t > hp_max_memory_bytes P"
    using k(3) by (simp add: must_evict_def cur pool_len_def)
  moreover have "fits T cs t P \<longrightarrow> pool_list_conversations (snd (save_state T now cid cs t md P)) =
      filter (\<lambda>c. c \<noteq> cid) (drop k (pool_list_conversations P)) @ [cid]"
    using f by (simp add: save_state_eq k(2) filed_def pool_list_conversations_def od_keys_del drop_map)
  moreover have "fits T cs t P \<longrightarrow> fst (get_state now' cid (snd (save_state T now cid cs t md P))) =
      Some (cs, t, case md of None \<Rightarrow> [] | Some d \<Rightarrow> d)"
    using save_state_hit [of T now cid cs t md P] save_state_fst [OF assms, of now cid cs t md]
    by (simp add: get_state_value pool_lookup_def entry_state_def)
  moreover have "\<not> fits T cs t P \<longrightarrow> pool_list_conversations (snd (save_state T now cid cs t md P)) = []"
    using save_state_miss [of T now cid cs t md P] save_state_fst [OF assms, of now cid cs t md]
    by (simp add: pool_list_conversations_def)
  ultimately show ?thesis using save_state_fst [OF assms] k(1) unfolding pool_len_def by blast
qed

theorem save_state_lru_witness:
  "fst (save_state mat_torch 1 ''a'' [[[1]]] [[2]] None (init_host_pool 1 1 True)) \<and>
   \<not> fst (save_state mat_torch 1 ''a'' [[[1]]] [[2]] None (init_host_pool 0 1 True))"
proof -
  have f: "fits mat_torch [[[1]]] [[2]] (init_host_pool 1 1 True)" "\<not> fits mat_torch [[[1]]] [[2]] (init_host_pool 0 1 True)"
    by (simp_all add: fits_def init_host_pool_def tensor_bytes_def mat_torch_def py_trunc_def)
  show ?thesis
    using save_state_lru [OF init_host_pool_ok [of mat_torch 1 1 True], of 1 "''a''" "[[[1]]]" "[[2]]" None 0]
      save_state_lru [OF init_host_pool_ok [of mat_torch 0 1 True], of 1 "''a''" "[[[1]]]" "[[2]]" None 0] f by blast
qed

text \<open>
  Saving a conversation that is already in a full pool still evicts another one. The
  room that replacing its own old entry would free is not counted, so the least recently
  used conversation is lost although the pool then holds fewer conversations than it may.
\<close>

theorem resave_evicts_another:
  assumes "pool_ok T P" and "int (pool_len P) = hp_max_conversations P"
    and "hp_pool P = (k, e) # d" and "k \<noteq> cid" and "od_mem cid d"
  shows "\<not> has_state k (snd (save_state T now cid cs t md P)) \<and>
    int (pool_len (snd (save_state T now cid cs t md P))) < hp_max_conversations P"
proof -
  let ?P' = "snd (save_state T now cid cs t md P)"
  obtain n where n: "n \<le> length (hp_pool P)" "make_space T (state_bytes T cs t) P =
      (\<not> must_evict (state_bytes T cs t) (evicted T n P), evicted T n P)"
    "must_evict (state_bytes T cs t) (evicted T n P) \<longrightarrow> n = length (hp_pool P)"
    using make_space_eq by blast
  have "must_evict (state_bytes T cs t) P" using assms(2) by (simp add: must_evict_def pool_len_def)
  then have n0: "0 < n" using n(3) assms(3) by (cases n) auto
  have "k \<notin> set (od_keys d)" using assms(1,3) by (simp add: pool_ok_def od_ok_def)
  then have k: "k \<notin> set (od_keys (drop n (hp_pool P)))"
    using n0 assms(3) by (auto simp: drop_Cons' dest: in_set_dropD)
  have keys: "od_keys (hp_pool ?P') = (if must_evict (state_bytes T cs t) (evicted T n P) then []
      else filter (\<lambda>c. c \<noteq> cid) (od_keys (drop n (hp_pool P))) @ [cid])"
    using n(3) by (simp add: save_state_eq n(2) filed_def od_keys_del)
  have "\<not> has_state k ?P'" using k assms(4) by (simp add: has_state_def od_mem_def keys del: set_map)
  moreover have "length (hp_pool ?P') < length (hp_pool P)"
  proof (cases "cid \<in> set (od_keys (drop n (hp_pool P)))")
    case True
    then have "length (filter (\<lambda>c. c \<noteq> cid) (od_keys (drop n (hp_pool P)))) < length (drop n (hp_pool P))"
      using length_filter_less [of cid "od_keys (drop n (hp_pool P))" "\<lambda>c. c \<noteq> cid"] by simp
    then show ?thesis using arg_cong [OF keys, of length] n0 assms(3) by auto
  next
    case False
    then have "n \<noteq> 1" using assms(3,5) by (auto simp: od_mem_def)
    then have "2 \<le> n" using n0 by simp
    moreover have "length (filter (\<lambda>c. c \<noteq> cid) (od_keys (drop n (hp_pool P)))) \<le> length (hp_pool P) - n"
      using length_filter_le [of "\<lambda>c. c \<noteq> cid" "od_keys (drop n (hp_pool P))"] by simp
    ultimately show ?thesis using arg_cong [OF keys, of length] n(1) assms(3) by (auto split: if_splits)
  qed
  ultimately show ?thesis using assms(2) by (simp add: pool_len_def)
qed

theorem resave_evicts_another_witness:
  "let P = \<lparr>hp_max_conversations = 2, hp_max_memory_bytes = 100, hp_enable_cross_session_refs = True,
            hp_pool = [(''a'', new_entry 0 ''a'' [[[1]]] [[2]] None), (''b'', new_entry 1 ''b'' [[[1]]] [[2]] None)],
            hp_current_memory_bytes = 16, hp_hits = 0, hp_misses = 0, hp_evictions = 0\<rparr>
   in has_state ''a'' P \<and> \<not> has_state ''a'' (snd (save_state mat_torch 2 ''b'' [[[3]]] [[2]] None P))"
proof -
  let ?P = "\<lparr>hp_max_conversations = 2, hp_max_memory_bytes = 100, hp_enable_cross_session_refs = True,
      hp_pool = [(''a'', new_entry 0 ''a'' [[[1]]] [[2]] None), (''b'', new_entry 1 ''b'' [[[1]]] [[2]] None)],
      hp_current_memory_bytes = 16, hp_hits = 0, hp_misses = 0, hp_evictions = 0\<rparr> :: mat host_pool"
  have "pool_ok mat_torch ?P"
    by (simp add: pool_ok_def od_ok_def memory_bytes_def tensor_bytes_def mat_torch_def)
  then have "\<not> has_state ''a'' (snd (save_state mat_torch 2 ''b'' [[[3]]] [[2]] None ?P))"
    using resave_evicts_another [of mat_torch ?P "''a''" "new_entry 0 ''a'' [[[1]]] [[2]] None"
        "[(''b'', new_entry 1 ''b'' [[[1]]] [[2]] None)]" "''b''" 2 "[[[3]]]" "[[2]]" None]
    by (simp add: pool_len_def od_mem_def)
  then show ?thesis by (simp add: has_state_def od_mem_def)
qed

end
