(* ===== verification/Conversation_Tracker.thy ===== *)
theory Conversation_Tracker
  imports Tensor_State
begin

section \<open>The conversation tracker: which tier a conversation is in\<close>

text \<open>
  \<open>ConversationTier\<close>, \<open>ConversationState\<close> and \<open>ConversationTracker\<close> of
  \<open>snapshot/conversation_tracker.py\<close>: the registry of conversations with their tier, the
  timestamps that drive demotion, and the counters of transitions. Every method runs under
  the tracker's lock, so an operation is one function of the tracker; \<open>time.time()\<close> is an
  argument.
\<close>

datatype conversation_tier = ACTIVE | WARM | COLD | ARCHIVED

fun tier_value :: "conversation_tier \<Rightarrow> string" where
  "tier_value ACTIVE = ''active''"
| "tier_value WARM = ''warm''"
| "tier_value COLD = ''cold''"
| "tier_value ARCHIVED = ''archived''"

record conversation_state =
  cs_conversation_id :: string
  cs_tier :: conversation_tier
  cs_last_access_time :: real
  cs_last_transition_time :: real
  cs_access_count :: nat
  cs_mamba_pool_idx :: "int option"
  cs_metadata :: "pydict option"

record tracker =
  ct_active_timeout :: real
  ct_warm_timeout :: real
  ct_cold_retention :: real
  ct_conversations :: "(string, conversation_state) odict"
  ct_tier_transitions :: "(string, nat) odict"

definition init_tracker :: "real \<Rightarrow> real \<Rightarrow> real \<Rightarrow> tracker" where
  "init_tracker active_timeout warm_timeout cold_retention =
     \<lparr>ct_active_timeout = active_timeout, ct_warm_timeout = warm_timeout,
      ct_cold_retention = cold_retention, ct_conversations = [],
      ct_tier_transitions = [(''active_to_warm'', 0), (''warm_to_cold'', 0),
        (''cold_to_archived'', 0), (''promotions'', 0)]\<rparr>"

text \<open>\<open>metadata or state.metadata\<close>: an empty dictionary is falsy.\<close>

definition dict_or :: "pydict option \<Rightarrow> pydict option \<Rightarrow> pydict option" where
  "dict_or d e = (case d of None \<Rightarrow> e | Some xs \<Rightarrow> if xs = [] then e else d)"

definition register_conversation ::
  "real \<Rightarrow> string \<Rightarrow> conversation_tier \<Rightarrow> int option \<Rightarrow> pydict option \<Rightarrow> tracker \<Rightarrow> tracker" where
  "register_conversation now conversation_id tier mamba_pool_idx metadata K =
     (case od_get (ct_conversations K) conversation_id of
        Some state \<Rightarrow>
          let old_tier = cs_tier state;
              state1 = state\<lparr>cs_tier := tier, cs_last_access_time := now,
                             cs_mamba_pool_idx := mamba_pool_idx,
                             cs_metadata := dict_or metadata (cs_metadata state)\<rparr>;
              state2 = (if old_tier \<noteq> tier then state1\<lparr>cs_last_transition_time := now\<rparr> else state1)
          in K\<lparr>ct_conversations := od_set conversation_id state2 (ct_conversations K)\<rparr>
      | None \<Rightarrow>
          K\<lparr>ct_conversations := od_set conversation_id
              \<lparr>cs_conversation_id = conversation_id, cs_tier = tier, cs_last_access_time = now,
               cs_last_transition_time = now, cs_access_count = 0,
               cs_mamba_pool_idx = mamba_pool_idx, cs_metadata = metadata\<rparr> (ct_conversations K)\<rparr>)"

definition mark_accessed :: "real \<Rightarrow> string \<Rightarrow> tracker \<Rightarrow> tracker" where
  "mark_accessed now conversation_id K =
     (case od_get (ct_conversations K) conversation_id of
        None \<Rightarrow> K
      | Some state \<Rightarrow>
          K\<lparr>ct_conversations := od_set conversation_id
              (state\<lparr>cs_last_access_time := now, cs_access_count := cs_access_count state + 1\<rparr>)
              (ct_conversations K)\<rparr>)"

definition count_transition :: "conversation_tier \<Rightarrow> conversation_tier \<Rightarrow> (string, nat) odict \<Rightarrow> (string, nat) odict" where
  "count_transition old_tier new_tier m =
     (let transition_key = tier_value old_tier @ ''_to_'' @ tier_value new_tier
      in case od_get m transition_key of
           Some n \<Rightarrow> od_set transition_key (n + 1) m
         | None \<Rightarrow>
             if new_tier = ACTIVE then od_set ''promotions'' (the (od_get m ''promotions'') + 1) m else m)"

definition transition_tier ::
  "real \<Rightarrow> string \<Rightarrow> conversation_tier \<Rightarrow> int option \<Rightarrow> tracker \<Rightarrow> bool \<times> tracker" where
  "transition_tier now conversation_id new_tier mamba_pool_idx K =
     (case od_get (ct_conversations K) conversation_id of
        None \<Rightarrow> (False, K)
      | Some state \<Rightarrow>
          let old_tier = cs_tier state
          in if old_tier = new_tier then (True, K)
             else
               (True, K\<lparr>ct_conversations := od_set conversation_id
                          (state\<lparr>cs_tier := new_tier, cs_last_transition_time := now,
                                 cs_mamba_pool_idx := mamba_pool_idx\<rparr>) (ct_conversations K),
                        ct_tier_transitions := count_transition old_tier new_tier (ct_tier_transitions K)\<rparr>))"

definition tracker_get_state :: "string \<Rightarrow> tracker \<Rightarrow> conversation_state option" where
  "tracker_get_state conversation_id K = od_get (ct_conversations K) conversation_id"

definition get_conversation_ids :: "tracker \<Rightarrow> string list" where
  "get_conversation_ids K =
     map fst (filter (\<lambda>(conversation_id, state). cs_tier state \<noteq> ARCHIVED) (ct_conversations K))"

definition get_tier :: "string \<Rightarrow> tracker \<Rightarrow> conversation_tier option" where
  "get_tier conversation_id K = map_option cs_tier (od_get (ct_conversations K) conversation_id)"

record transitions_needed =
  tn_active_to_warm :: "string list"
  tn_warm_to_cold :: "string list"
  tn_cold_to_archived :: "string list"

text \<open>The loop body of \<open>check_transitions_needed\<close>.\<close>

definition check_one :: "real \<Rightarrow> tracker \<Rightarrow> string \<times> conversation_state \<Rightarrow> transitions_needed \<Rightarrow> transitions_needed" where
  "check_one now K p r =
     (let (conv_id, state) = p;
          time_since_access = now - cs_last_access_time state
      in case cs_tier state of
           ACTIVE \<Rightarrow> (if time_since_access > ct_active_timeout K
                      then r\<lparr>tn_active_to_warm := tn_active_to_warm r @ [conv_id]\<rparr> else r)
         | WARM \<Rightarrow> (if time_since_access > ct_warm_timeout K
                    then r\<lparr>tn_warm_to_cold := tn_warm_to_cold r @ [conv_id]\<rparr> else r)
         | COLD \<Rightarrow> (if time_since_access > ct_cold_retention K
                    then r\<lparr>tn_cold_to_archived := tn_cold_to_archived r @ [conv_id]\<rparr> else r)
         | ARCHIVED \<Rightarrow> r)"

definition check_transitions_needed :: "real \<Rightarrow> tracker \<Rightarrow> transitions_needed" where
  "check_transitions_needed now K =
     fold (check_one now K) (ct_conversations K)
       \<lparr>tn_active_to_warm = [], tn_warm_to_cold = [], tn_cold_to_archived = []\<rparr>"

definition list_conversations_by_tier :: "conversation_tier \<Rightarrow> tracker \<Rightarrow> conversation_state list" where
  "list_conversations_by_tier tier K = filter (\<lambda>state. cs_tier state = tier) (od_values (ct_conversations K))"

record tracker_stats =
  ts_total_conversations :: nat
  ts_tier_counts :: "(string, nat) odict"
  ts_transitions :: "(string, nat) odict"
  ts_active_timeout :: real
  ts_warm_timeout :: real
  ts_cold_retention :: real

definition count_tier :: "conversation_state \<Rightarrow> (string, nat) odict \<Rightarrow> (string, nat) odict" where
  "count_tier state m = od_set (tier_value (cs_tier state)) (the (od_get m (tier_value (cs_tier state))) + 1) m"

definition tracker_get_stats :: "tracker \<Rightarrow> tracker_stats" where
  "tracker_get_stats K =
     \<lparr>ts_total_conversations = length (ct_conversations K),
      ts_tier_counts = fold count_tier (od_values (ct_conversations K))
        [(''active'', 0), (''warm'', 0), (''cold'', 0), (''archived'', 0)],
      ts_transitions = ct_tier_transitions K,
      ts_active_timeout = ct_active_timeout K,
      ts_warm_timeout = ct_warm_timeout K,
      ts_cold_retention = ct_cold_retention K\<rparr>"

definition remove_conversation :: "string \<Rightarrow> tracker \<Rightarrow> bool \<times> tracker" where
  "remove_conversation conversation_id K =
     (if od_mem conversation_id (ct_conversations K)
      then (True, K\<lparr>ct_conversations := od_del conversation_id (ct_conversations K)\<rparr>)
      else (False, K))"

definition tracker_clear :: "tracker \<Rightarrow> tracker" where
  "tracker_clear K = K\<lparr>ct_conversations := []\<rparr>"

subsection \<open>The invariant and the effect of each operation\<close>

named_theorems tracker_simps \<open>tiers and registries after an operation\<close>

text \<open>
  One record per conversation, filed under its own id, and the four counters of transitions.
\<close>

definition transition_keys :: "string list" where
  "transition_keys = [''active_to_warm'', ''warm_to_cold'', ''cold_to_archived'', ''promotions'']"

definition tracker_ok :: "tracker \<Rightarrow> bool" where
  "tracker_ok K =
     (od_ok (ct_conversations K) \<and>
      list_all (\<lambda>(k, s). cs_conversation_id s = k) (ct_conversations K) \<and>
      od_keys (ct_tier_transitions K) = transition_keys)"

lemma tracker_okI:
  assumes "od_ok (ct_conversations K)" "od_keys (ct_tier_transitions K) = transition_keys"
    and "\<And>k s. od_get (ct_conversations K) k = Some s \<Longrightarrow> cs_conversation_id s = k"
  shows "tracker_ok K"
  using assms by (auto simp: tracker_ok_def list_all_iff dest: od_get_in_set [THEN iffD2])

lemma tracker_okD:
  assumes "tracker_ok K"
  shows "od_ok (ct_conversations K)" "od_keys (ct_tier_transitions K) = transition_keys"
    "od_get (ct_conversations K) k = Some s \<Longrightarrow> cs_conversation_id s = k"
  using assms by (auto simp: tracker_ok_def list_all_iff dest!: map_of_SomeD)

lemma count_transition_keys [simp]:
  "od_keys m = transition_keys \<Longrightarrow> od_keys (count_transition a b m) = transition_keys"
  by (auto simp: count_transition_def Let_def od_keys_set transition_keys_def map_of_eq_None_iff
      dest!: map_of_SomeD split: option.split)

lemma tracker_ok_init: "tracker_ok (init_tracker a w c)"
  by (rule tracker_okI) (simp_all add: init_tracker_def transition_keys_def)

lemma tracker_ok_register: "tracker_ok K \<Longrightarrow> tracker_ok (register_conversation now cid tier idx md K)"
  by (rule tracker_okI)
    (auto simp: register_conversation_def Let_def dest: tracker_okD split: option.splits if_splits)

lemma tracker_ok_mark: "tracker_ok K \<Longrightarrow> tracker_ok (mark_accessed now cid K)"
  by (rule tracker_okI) (auto simp: mark_accessed_def dest: tracker_okD split: option.splits if_splits)

lemma tracker_ok_transition: "tracker_ok K \<Longrightarrow> tracker_ok (snd (transition_tier now cid tier idx K))"
  by (rule tracker_okI) (auto simp: transition_tier_def Let_def dest: tracker_okD split: option.splits if_splits)

lemma tracker_ok_remove: "tracker_ok K \<Longrightarrow> tracker_ok (snd (remove_conversation cid K))"
  by (rule tracker_okI) (auto simp: remove_conversation_def dest: tracker_okD split: if_splits)

lemma tracker_ok_clear: "tracker_ok K \<Longrightarrow> tracker_ok (tracker_clear K)"
  by (rule tracker_okI) (auto simp: tracker_clear_def dest: tracker_okD)

lemmas tracker_ok_ops =
  tracker_ok_init tracker_ok_register tracker_ok_mark tracker_ok_transition tracker_ok_remove tracker_ok_clear

lemma get_tier_register [tracker_simps]:
  "get_tier c (register_conversation now cid tier idx md K) = (if c = cid then Some tier else get_tier c K)"
  by (simp add: get_tier_def register_conversation_def Let_def split: option.split)

lemma get_tier_mark [tracker_simps]: "get_tier c (mark_accessed now cid K) = get_tier c K"
  by (simp add: get_tier_def mark_accessed_def split: option.split)

lemma get_tier_transition [tracker_simps]:
  "get_tier c (snd (transition_tier now cid tier idx K)) =
     (if c = cid \<and> get_tier cid K \<noteq> None then Some tier else get_tier c K)"
  by (auto simp: get_tier_def transition_tier_def Let_def split: option.split)

lemma transition_found [tracker_simps]:
  "fst (transition_tier now cid tier idx K) = (get_tier cid K \<noteq> None)"
  by (simp add: get_tier_def transition_tier_def Let_def split: option.split)

lemma get_tier_remove [tracker_simps]:
  "get_tier c (snd (remove_conversation cid K)) = (if c = cid then None else get_tier c K)"
  by (auto simp: get_tier_def remove_conversation_def od_mem_iff)

text \<open>The lists of \<open>check_transitions_needed\<close> without the loop.\<close>

definition overdue :: "real \<Rightarrow> tracker \<Rightarrow> conversation_tier \<Rightarrow> conversation_state \<Rightarrow> bool" where
  "overdue now K tier s =
     (cs_tier s = tier \<and>
      now - cs_last_access_time s >
        (case tier of ACTIVE \<Rightarrow> ct_active_timeout K | WARM \<Rightarrow> ct_warm_timeout K | _ \<Rightarrow> ct_cold_retention K))"

definition overdue_ids :: "real \<Rightarrow> tracker \<Rightarrow> conversation_tier \<Rightarrow> (string, conversation_state) odict \<Rightarrow> string list" where
  "overdue_ids now K tier d = map fst (filter (\<lambda>p. overdue now K tier (snd p)) d)"

lemma fold_check_one:
  "fold (check_one now K) d r =
     \<lparr>tn_active_to_warm = tn_active_to_warm r @ overdue_ids now K ACTIVE d,
      tn_warm_to_cold = tn_warm_to_cold r @ overdue_ids now K WARM d,
      tn_cold_to_archived = tn_cold_to_archived r @ overdue_ids now K COLD d\<rparr>"
proof (induction d arbitrary: r)
  case (Cons p d)
  then show ?case
    by (cases p; cases "cs_tier (snd p)") (simp_all add: check_one_def overdue_ids_def overdue_def)
qed (simp add: overdue_ids_def)

lemma check_transitions_needed_eq:
  "check_transitions_needed now K =
     \<lparr>tn_active_to_warm = overdue_ids now K ACTIVE (ct_conversations K),
      tn_warm_to_cold = overdue_ids now K WARM (ct_conversations K),
      tn_cold_to_archived = overdue_ids now K COLD (ct_conversations K)\<rparr>"
  by (simp add: check_transitions_needed_def fold_check_one)

lemma in_overdue_ids:
  "od_ok d \<Longrightarrow> c \<in> set (overdue_ids now K tier d) \<longleftrightarrow> (\<exists>s. od_get d c = Some s \<and> overdue now K tier s)"
  by (force simp: overdue_ids_def od_get_in_set)

lemma overdue_unique: "overdue now K a s \<Longrightarrow> overdue now K b s \<Longrightarrow> a = b"
  by (simp add: overdue_def)

lemma distinct_overdue_ids: "od_ok d \<Longrightarrow> distinct (overdue_ids now K tier d)"
  by (simp add: overdue_ids_def od_ok_def distinct_map_filter)

text \<open>The counts of \<open>get_stats\<close> without the loop.\<close>

lemma tier_value_inject [simp]: "tier_value a = tier_value b \<longleftrightarrow> a = b"
  by (cases a; cases b) simp_all

lemma fold_count_tier:
  assumes "\<And>t. od_get m (tier_value t) \<noteq> None"
  shows "od_get (fold count_tier ss m) (tier_value t) =
    Some (the (od_get m (tier_value t)) + length (filter (\<lambda>s. cs_tier s = t) ss))"
  using assms
proof (induction ss arbitrary: m)
  case (Cons s ss)
  have "od_get (count_tier s m) (tier_value t) \<noteq> None" for t
    using Cons.prems by (simp add: count_tier_def)
  from Cons.IH [OF this] show ?case by (auto simp: count_tier_def)
qed auto

subsection \<open>Properties\<close>

text \<open>
  C38: the sweep finds exactly the overdue conversations. A conversation is listed for
  demotion from its tier if and only if it is registered in that tier and was last accessed
  longer ago than the tier's timeout; no conversation is listed twice, in one list or in two.
\<close>

theorem check_transitions_exact:
  assumes "tracker_ok K"
  shows "(c \<in> set (tn_active_to_warm (check_transitions_needed now K)) \<longleftrightarrow>
      (\<exists>s. tracker_get_state c K = Some s \<and> cs_tier s = ACTIVE \<and> now - cs_last_access_time s > ct_active_timeout K)) \<and>
    (c \<in> set (tn_warm_to_cold (check_transitions_needed now K)) \<longleftrightarrow>
      (\<exists>s. tracker_get_state c K = Some s \<and> cs_tier s = WARM \<and> now - cs_last_access_time s > ct_warm_timeout K)) \<and>
    (c \<in> set (tn_cold_to_archived (check_transitions_needed now K)) \<longleftrightarrow>
      (\<exists>s. tracker_get_state c K = Some s \<and> cs_tier s = COLD \<and> now - cs_last_access_time s > ct_cold_retention K)) \<and>
    distinct (tn_active_to_warm (check_transitions_needed now K) @ tn_warm_to_cold (check_transitions_needed now K) @
      tn_cold_to_archived (check_transitions_needed now K))"
proof -
  note ok = tracker_okD(1) [OF assms]
  have "set (overdue_ids now K a (ct_conversations K)) \<inter> set (overdue_ids now K b (ct_conversations K)) = {}"
    if "a \<noteq> b" for a b
    using that overdue_unique [of now K a _ b] by (fastforce simp: in_overdue_ids [OF ok])
  then show ?thesis
    by (simp add: check_transitions_needed_eq in_overdue_ids [OF ok] distinct_overdue_ids [OF ok]
        tracker_get_state_def overdue_def Int_Un_distrib)
qed

theorem check_transitions_exact_witness:
  "tn_active_to_warm (check_transitions_needed 400
     (register_conversation 0 ''c1'' ACTIVE (Some 2) None (init_tracker 300 1800 604800))) = [''c1'']"
proof -
  let ?K = "register_conversation 0 ''c1'' ACTIVE (Some 2) None (init_tracker 300 1800 604800)"
  have "''c1'' \<in> set (tn_active_to_warm (check_transitions_needed 400 ?K))"
    using check_transitions_exact [OF tracker_ok_register [OF tracker_ok_init], of "''c1''" 400 0 "''c1''" ACTIVE "Some 2" None 300 1800 604800]
    by (simp add: register_conversation_def init_tracker_def tracker_get_state_def)
  then show ?thesis
    by (simp add: check_transitions_needed_eq overdue_ids_def register_conversation_def init_tracker_def overdue_def)
qed

text \<open>
  An access protects a conversation. If it was registered or marked as accessed at time
  \<open>now\<close>, then no sweep up to a time that is within every timeout of \<open>now\<close> demotes it.
\<close>

theorem access_defers_demotion:
  assumes "tracker_ok K" and "get_tier cid K \<noteq> None"
    and "later - now \<le> ct_active_timeout K" and "later - now \<le> ct_warm_timeout K"
    and "later - now \<le> ct_cold_retention K"
  shows "cid \<notin> set (tn_active_to_warm (check_transitions_needed later (mark_accessed now cid K)) @
      tn_warm_to_cold (check_transitions_needed later (mark_accessed now cid K)) @
      tn_cold_to_archived (check_transitions_needed later (mark_accessed now cid K)))"
proof -
  note ok = tracker_okD(1) [OF tracker_ok_mark [OF assms(1), of now cid]]
  obtain s where s: "od_get (ct_conversations K) cid = Some s" using assms(2) by (auto simp: get_tier_def)
  let ?s = "s\<lparr>cs_last_access_time := now, cs_access_count := cs_access_count s + 1\<rparr>"
  have g: "od_get (ct_conversations (mark_accessed now cid K)) cid = Some ?s"
    by (simp add: mark_accessed_def s)
  have "\<not> overdue later (mark_accessed now cid K) tier ?s" if "tier \<noteq> ARCHIVED" for tier
    using assms(3-5) s that by (cases tier) (simp_all add: overdue_def mark_accessed_def)
  then show ?thesis by (simp add: check_transitions_needed_eq in_overdue_ids [OF ok] g)
qed

theorem access_defers_demotion_witness:
  "tn_active_to_warm (check_transitions_needed 400 (mark_accessed 200 ''c1''
     (register_conversation 0 ''c1'' ACTIVE (Some 2) None (init_tracker 300 1800 604800)))) = []"
proof -
  let ?K = "register_conversation 0 ''c1'' ACTIVE (Some 2) None (init_tracker 300 1800 604800)"
  have "''c1'' \<notin> set (tn_active_to_warm (check_transitions_needed 400 (mark_accessed 200 ''c1'' ?K)))"
    using access_defers_demotion [of ?K "''c1''" 400 200]
    by (simp add: tracker_ok_ops) (simp add: register_conversation_def init_tracker_def get_tier_def)
  moreover have "ct_conversations (mark_accessed 200 ''c1'' ?K) = [(''c1'', the (tracker_get_state ''c1'' (mark_accessed 200 ''c1'' ?K)))]"
    by (simp add: register_conversation_def init_tracker_def tracker_get_state_def mark_accessed_def)
  ultimately show ?thesis by (auto simp: check_transitions_needed_eq overdue_ids_def split: if_splits)
qed

text \<open>
  The statistics add up. The count reported for a tier is the number of conversations
  \<open>list_conversations_by_tier\<close> returns for it, and the four counts sum to the total.
\<close>

theorem tracker_stats_exact:
  "od_get (ts_tier_counts (tracker_get_stats K)) (tier_value tier) = Some (length (list_conversations_by_tier tier K)) \<and>
   (\<Sum>t \<leftarrow> [ACTIVE, WARM, COLD, ARCHIVED]. the (od_get (ts_tier_counts (tracker_get_stats K)) (tier_value t))) =
     ts_total_conversations (tracker_get_stats K)"
proof -
  let ?m = "[(''active'', 0 :: nat), (''warm'', 0), (''cold'', 0), (''archived'', 0)]"
  have z: "od_get ?m (tier_value t) = Some 0" for t by (cases t) simp_all
  have c: "od_get (ts_tier_counts (tracker_get_stats K)) (tier_value t) = Some (length (list_conversations_by_tier t K))" for t
    using fold_count_tier [of ?m "od_values (ct_conversations K)" t] z
    by (simp add: tracker_get_stats_def list_conversations_by_tier_def)
  have "length (filter (\<lambda>s. cs_tier s = ACTIVE) ss) + length (filter (\<lambda>s. cs_tier s = WARM) ss) +
      length (filter (\<lambda>s. cs_tier s = COLD) ss) + length (filter (\<lambda>s. cs_tier s = ARCHIVED) ss) = length ss" for ss
  proof (induction ss)
    case (Cons s ss)
    then show ?case by (cases "cs_tier s") simp_all
  qed simp
  from this [of "od_values (ct_conversations K)"] c show ?thesis
    by (simp add: list_conversations_by_tier_def) (simp add: tracker_get_stats_def)
qed

end
