(* ===== verification/Snapshot_Store.thy ===== *)
theory Snapshot_Store
  imports Tensor_State
begin

section \<open>The snapshot manager: snapshots on disk\<close>

text \<open>
  \<open>MambaSnapshotManager\<close> of \<open>snapshot/mamba_snapshot.py\<close>. The directory tree below
  \<open>base_dir\<close> is a dictionary of conversation directories, each with its files by name
  and, once created, its \<open>branches\<close> directory. Reading a path creates the directories on
  the way, as the code does, so every operation returns the manager it leaves behind.
  A disk error during a save is an argument: the step of the save that raises, if any.
\<close>

datatype 't dfile =
    Json_file snapshot_metadata         \<comment> \<open>what \<open>to_json\<close> writes\<close>
  | Tensor_file "(string, 't) odict"    \<comment> \<open>what \<open>save_file\<close> writes\<close>
  | Bad_file                            \<comment> \<open>neither parser accepts it\<close>

record 't conv_dir =
  cd_files :: "(string, 't dfile) odict"
  cd_branches :: "(string, 't dfile) odict option"

record 't manager =
  sm_base_dir :: "string list"
  sm_dirs :: "(string, 't conv_dir) odict"

text \<open>A file of the tree: its conversation directory, whether it is under \<open>branches\<close>, its name.\<close>

type_synonym loc = "string \<times> bool \<times> string"

type_synonym 't snapshot = "'t list \<times> 't \<times> snapshot_metadata"

subsection \<open>Path names\<close>

definition path_char :: "char \<Rightarrow> bool" where
  "path_char c = ((48 \<le> (of_char c :: nat) \<and> (of_char c :: nat) \<le> 57) \<or>
     (65 \<le> (of_char c :: nat) \<and> (of_char c :: nat) \<le> 90) \<or>
     (97 \<le> (of_char c :: nat) \<and> (of_char c :: nat) \<le> 122) \<or>
     c = CHR ''_'' \<or> c = CHR ''.'' \<or> c = CHR ''-'')"

text \<open>
  \<open>re.match(r"^[a-zA-Z0-9_.-]+$", s)\<close>: the dollar sign also matches before a newline
  that ends the string.
\<close>

definition re_match_component :: "string \<Rightarrow> bool" where
  "re_match_component s =
     (let body = (if s \<noteq> [] \<and> last s = CHR 0x0A then butlast s else s)
      in body \<noteq> [] \<and> list_all path_char body)"

definition sanitize_path_component :: "string \<Rightarrow> string res" where
  "sanitize_path_component component =
     (if component = [] then Inl ValueError
      else if \<not> re_match_component component then Inl ValueError
      else if contains ''..'' component \<or> startswith component ''/'' \<or>
              startswith component [CHR 0x5C] then Inl ValueError
      else if length component > 255 then Inl ValueError
      else Inr component)"

definition empty_conv_dir :: "'t conv_dir" where
  "empty_conv_dir = \<lparr>cd_files = [], cd_branches = None\<rparr>"

text \<open>\<open>mkdir(parents=True, exist_ok=True)\<close> on a conversation directory and on its \<open>branches\<close>.\<close>

definition mkdir_conv :: "string \<Rightarrow> 't manager \<Rightarrow> 't manager" where
  "mkdir_conv d M =
     (if od_mem d (sm_dirs M) then M else M\<lparr>sm_dirs := od_set d empty_conv_dir (sm_dirs M)\<rparr>)"

definition mkdir_branches :: "string \<Rightarrow> 't manager \<Rightarrow> 't manager" where
  "mkdir_branches d M =
     (case od_get (sm_dirs M) d of
        None \<Rightarrow> M
      | Some cd \<Rightarrow>
          (case cd_branches cd of
             None \<Rightarrow> M\<lparr>sm_dirs := od_set d (cd\<lparr>cd_branches := Some []\<rparr>) (sm_dirs M)\<rparr>
           | Some _ \<Rightarrow> M))"

definition conv_dir_name :: "string \<Rightarrow> string" where
  "conv_dir_name cid = ''conversation_'' @ cid"

definition get_conversation_dir :: "string \<Rightarrow> 't manager \<Rightarrow> string res \<times> 't manager" where
  "get_conversation_dir conversation_id M =
     (case sanitize_path_component conversation_id of
        Inl e \<Rightarrow> (Inl e, M)
      | Inr safe_id \<Rightarrow>
          let conv_dir = path_join (sm_base_dir M) (conv_dir_name safe_id)
          in if \<not> startswith (path_str (path_resolve conv_dir)) (path_str (sm_base_dir M))
             then (Inl ValueError, M)
             else (Inr (conv_dir_name safe_id), mkdir_conv (conv_dir_name safe_id) M))"

definition turn_metadata_name :: "nat \<Rightarrow> string" where
  "turn_metadata_name n = ''turn_'' @ nat_str n @ ''_metadata.json''"

definition turn_state_name :: "nat \<Rightarrow> string" where
  "turn_state_name n = ''turn_'' @ nat_str n @ ''_state.safetensors''"

definition branch_metadata_name :: "string \<Rightarrow> string" where
  "branch_metadata_name b = b @ ''_metadata.json''"

definition branch_state_name :: "string \<Rightarrow> string" where
  "branch_state_name b = b @ ''_state.safetensors''"

definition get_snapshot_paths ::
  "string \<Rightarrow> int option \<Rightarrow> string option \<Rightarrow> 't manager \<Rightarrow> (loc \<times> loc) res \<times> 't manager" where
  "get_snapshot_paths conversation_id turn_number branch_name M =
     (case get_conversation_dir conversation_id M of
        (Inl e, M1) \<Rightarrow> (Inl e, M1)
      | (Inr d, M1) \<Rightarrow>
          if str_truthy branch_name then
            (case sanitize_path_component (the branch_name) of
               Inl e \<Rightarrow> (Inl e, M1)
             | Inr b \<Rightarrow>
                 let M2 = mkdir_branches d M1;
                     branch_dir = sm_base_dir M @ [d, ''branches''];
                     metadata_path = path_join branch_dir (branch_metadata_name b)
                 in if \<not> startswith (path_str (path_resolve metadata_path))
                                    (path_str (path_resolve branch_dir))
                    then (Inl ValueError, M2)
                    else (Inr ((d, True, branch_metadata_name b), (d, True, branch_state_name b)), M2))
          else
            (case turn_number of
               None \<Rightarrow> (Inl ValueError, M1)
             | Some n \<Rightarrow>
                 if n < 0 then (Inl ValueError, M1)
                 else (Inr ((d, False, turn_metadata_name (nat n)),
                            (d, False, turn_state_name (nat n))), M1)))"

subsection \<open>Files\<close>

definition dir_files :: "bool \<Rightarrow> 't conv_dir \<Rightarrow> (string, 't dfile) odict" where
  "dir_files br cd = (if br then (case cd_branches cd of None \<Rightarrow> [] | Some fs \<Rightarrow> fs) else cd_files cd)"

definition fs_read :: "'t manager \<Rightarrow> loc \<Rightarrow> 't dfile option" where
  "fs_read M l =
     (case l of (d, br, name) \<Rightarrow>
        (case od_get (sm_dirs M) d of None \<Rightarrow> None | Some cd \<Rightarrow> od_get (dir_files br cd) name))"

definition fs_exists :: "'t manager \<Rightarrow> loc \<Rightarrow> bool" where
  "fs_exists M l = (fs_read M l \<noteq> None)"

definition fs_update ::
  "((string, 't dfile) odict \<Rightarrow> (string, 't dfile) odict) \<Rightarrow> string \<Rightarrow> bool \<Rightarrow> 't manager \<Rightarrow> 't manager" where
  "fs_update f d br M =
     (case od_get (sm_dirs M) d of
        None \<Rightarrow> M
      | Some cd \<Rightarrow>
          M\<lparr>sm_dirs := od_set d (if br then cd\<lparr>cd_branches := map_option f (cd_branches cd)\<rparr>
                                 else cd\<lparr>cd_files := f (cd_files cd)\<rparr>) (sm_dirs M)\<rparr>)"

definition fs_write :: "loc \<Rightarrow> 't dfile \<Rightarrow> 't manager \<Rightarrow> 't manager" where
  "fs_write l c M = (case l of (d, br, name) \<Rightarrow> fs_update (od_set name c) d br M)"

definition fs_unlink :: "loc \<Rightarrow> 't manager \<Rightarrow> 't manager" where
  "fs_unlink l M = (case l of (d, br, name) \<Rightarrow> fs_update (od_del name) d br M)"

text \<open>\<open>src.rename(dst)\<close>, which replaces \<open>dst\<close>.\<close>

definition fs_rename :: "loc \<Rightarrow> loc \<Rightarrow> 't manager \<Rightarrow> 't manager" where
  "fs_rename src dst M =
     (case fs_read M src of None \<Rightarrow> M | Some c \<Rightarrow> fs_write dst c (fs_unlink src M))"

definition loc_with_suffix :: "loc \<Rightarrow> string \<Rightarrow> loc" where
  "loc_with_suffix l suf = (case l of (d, br, name) \<Rightarrow> (d, br, with_suffix name suf))"

subsection \<open>Saving\<close>

definition conv_key :: "nat \<Rightarrow> string" where
  "conv_key i = ''conv_layer_'' @ nat_str i"

fun add_conv_states :: "nat \<Rightarrow> 't list \<Rightarrow> (string, 't) odict \<Rightarrow> (string, 't) odict" where
  "add_conv_states i [] d = d"
| "add_conv_states i (t # ts) d = add_conv_states (Suc i) ts (od_set (conv_key i) t d)"

definition state_dict :: "'t list \<Rightarrow> 't \<Rightarrow> (string, 't) odict" where
  "state_dict conv_states temporal_states =
     add_conv_states 0 conv_states (od_set ''temporal'' temporal_states [])"

text \<open>The step of a save at which the disk raises.\<close>

datatype save_fault = Fail_save_file | Fail_rename_state | Fail_open_json | Fail_dump_json | Fail_rename_json

text \<open>
  The first \<open>try\<close> block: write the tensors to a temporary file and rename it; on an
  exception the temporary file is unlinked if it exists.
\<close>

definition write_state ::
  "save_fault option \<Rightarrow> loc \<Rightarrow> (string, 't) odict \<Rightarrow> 't manager \<Rightarrow> unit res \<times> 't manager" where
  "write_state fault state_path d M =
     (let temp = loc_with_suffix state_path ''.safetensors.tmp''
      in if fault = Some Fail_save_file then (Inl OSError, fs_unlink temp M)
         else
           let M1 = fs_write temp (Tensor_file d) M
           in if fault = Some Fail_rename_state then (Inl OSError, fs_unlink temp M1)
              else (Inr (), fs_rename temp state_path M1))"

text \<open>
  The second \<open>try\<close> block: on an exception the state file is unlinked if it exists, and
  the temporary metadata file stays as it is.
\<close>

definition write_metadata ::
  "save_fault option \<Rightarrow> loc \<Rightarrow> loc \<Rightarrow> snapshot_metadata \<Rightarrow> 't manager \<Rightarrow> unit res \<times> 't manager" where
  "write_metadata fault metadata_path state_path md M =
     (let temp = loc_with_suffix metadata_path ''.json.tmp''
      in if fault = Some Fail_open_json then (Inl OSError, fs_unlink state_path M)
         else if fault = Some Fail_dump_json
           then (Inl OSError, fs_unlink state_path (fs_write temp Bad_file M))
         else
           let M1 = fs_write temp (Json_file md) M
           in if fault = Some Fail_rename_json then (Inl OSError, fs_unlink state_path M1)
              else (Inr (), fs_rename temp metadata_path M1))"

definition save_snapshot ::
  "'t torch \<Rightarrow> save_fault option \<Rightarrow> 't list \<Rightarrow> 't \<Rightarrow> snapshot_metadata \<Rightarrow> 't manager \<Rightarrow>
     (loc \<times> loc) res \<times> 't manager" where
  "save_snapshot T fault conv_states temporal_states metadata M =
     (if conv_states = [] then (Inl ValueError, M)
      else if \<not> vr_is_valid (validate_state_tensors T conv_states temporal_states (Some metadata) False)
        then (Inl ValueError, M)
      else
        (case get_snapshot_paths (md_conversation_id metadata) (md_turn_number metadata)
                (md_branch_name metadata) M of
           (Inl e, M1) \<Rightarrow> (Inl e, M1)
         | (Inr (metadata_path, state_path), M1) \<Rightarrow>
             (case write_state fault state_path (state_dict conv_states temporal_states) M1 of
                (Inl e, M2) \<Rightarrow> (Inl e, M2)
              | (Inr _, M2) \<Rightarrow>
                  (case write_metadata fault metadata_path state_path metadata M2 of
                     (Inl e, M3) \<Rightarrow> (Inl e, M3)
                   | (Inr _, M3) \<Rightarrow> (Inr (metadata_path, state_path), M3)))))"

subsection \<open>Loading\<close>

text \<open>\<open>MambaSnapshotMetadata.from_json\<close>: a file that is not such a dictionary does not parse.\<close>

fun from_json :: "'t dfile \<Rightarrow> snapshot_metadata res" where
  "from_json (Json_file m) = Inr m"
| "from_json _ = Inl JSONDecodeError"

lemma conv_key_inject [simp]: "conv_key i = conv_key j \<longleftrightarrow> i = j"
  by (simp add: conv_key_def)

lemma finite_layers: "finite {j. i \<le> j \<and> od_get d (conv_key j) \<noteq> None}"
proof -
  have "conv_key ` {j. i \<le> j \<and> od_get d (conv_key j) \<noteq> None} \<subseteq> set (od_keys d)"
    by (auto simp: map_of_eq_None_iff)
  then have "finite (conv_key ` {j. i \<le> j \<and> od_get d (conv_key j) \<noteq> None})"
    by (rule finite_subset) simp
  then show ?thesis by (rule finite_imageD) (auto simp: inj_on_def)
qed

text \<open>The \<open>while\<close> loop over \<open>conv_layer_0\<close>, \<open>conv_layer_1\<close>, and so on.\<close>

function load_layers :: "(string, 't) odict \<Rightarrow> nat \<Rightarrow> 't list" where
  "load_layers d i =
     (case od_get d (conv_key i) of None \<Rightarrow> [] | Some t \<Rightarrow> t # load_layers d (Suc i))"
  by pat_completeness auto
termination
proof (relation "measure (\<lambda>(d, i). card {j. i \<le> j \<and> od_get d (conv_key j) \<noteq> None})")
  fix d :: "(string, 't) odict" and i t
  assume t: "od_get d (conv_key i) = Some t"
  let ?S = "\<lambda>i. {j. i \<le> j \<and> od_get d (conv_key j) \<noteq> None}"
  have "i \<in> ?S i" "i \<notin> ?S (Suc i)" "?S (Suc i) \<subseteq> ?S i" using t by auto
  then have "?S (Suc i) \<subset> ?S i" by blast
  then show "((d, Suc i), (d, i)) \<in> measure (\<lambda>(d, i). card {j. i \<le> j \<and> od_get d (conv_key j) \<noteq> None})"
    using finite_layers [of i d] by (simp add: psubset_card_mono)
qed simp

declare load_layers.simps [simp del]

definition load_snapshot ::
  "'t torch \<Rightarrow> string \<Rightarrow> int option \<Rightarrow> string option \<Rightarrow> 't manager \<Rightarrow> 't snapshot res \<times> 't manager" where
  "load_snapshot T conversation_id turn_number branch_name M =
     (case get_snapshot_paths conversation_id turn_number branch_name M of
        (Inl e, M1) \<Rightarrow> (Inl e, M1)
      | (Inr (metadata_path, state_path), M1) \<Rightarrow>
          (case (fs_read M1 metadata_path, fs_read M1 state_path) of
             (None, _) \<Rightarrow> (Inl FileNotFoundError, M1)
           | (Some _, None) \<Rightarrow> (Inl FileNotFoundError, M1)
           | (Some mf, Some sf) \<Rightarrow>
               (case (from_json mf, sf) of
                  (Inr md, Tensor_file d) \<Rightarrow>
                    (case od_get d ''temporal'' of
                       None \<Rightarrow> (Inl ValueError, M1)
                     | Some temporal \<Rightarrow>
                         let conv = load_layers d 0
                         in if conv = [] then (Inl ValueError, M1)
                            else if \<not> vr_is_valid (validate_state_tensors T conv temporal (Some md) False)
                              then (Inl SnapshotValidationError, M1)
                            else (Inr (conv, temporal, md), M1))
                | _ \<Rightarrow> (Inl ValueError, M1))))"

subsection \<open>Listing, deleting and sizes\<close>

definition list_conversations :: "'t manager \<Rightarrow> string list" where
  "list_conversations M =
     sort (map (remove_all ''conversation_'')
            (filter (\<lambda>d. startswith d ''conversation_'') (od_keys (sm_dirs M))))"

text \<open>The turn a file name of a conversation directory stands for, if any.\<close>

definition turn_of_name :: "string \<Rightarrow> int option" where
  "turn_of_name name =
     (if startswith name ''turn_'' \<and> path_suffix name = ''.json''
      then py_int (remove_all ''_metadata'' (remove_all ''turn_'' (path_stem name)))
      else None)"

definition list_snapshots :: "string \<Rightarrow> 't manager \<Rightarrow> int list res \<times> 't manager" where
  "list_snapshots conversation_id M =
     (case get_conversation_dir conversation_id M of
        (Inl e, M1) \<Rightarrow> (Inl e, M1)
      | (Inr d, M1) \<Rightarrow>
          (case od_get (sm_dirs M1) d of
             None \<Rightarrow> (Inr [], M1)
           | Some cd \<Rightarrow> (Inr (sort (List.map_filter turn_of_name (od_keys (cd_files cd)))), M1)))"

definition branch_of_name :: "string \<Rightarrow> string option" where
  "branch_of_name name =
     (if path_suffix name = ''.json'' then Some (remove_all ''_metadata'' (path_stem name)) else None)"

definition list_branches :: "string \<Rightarrow> 't manager \<Rightarrow> string list res \<times> 't manager" where
  "list_branches conversation_id M =
     (case get_conversation_dir conversation_id M of
        (Inl e, M1) \<Rightarrow> (Inl e, M1)
      | (Inr d, M1) \<Rightarrow>
          (case od_get (sm_dirs M1) d of
             None \<Rightarrow> (Inr [], M1)
           | Some cd \<Rightarrow>
               (case cd_branches cd of
                  None \<Rightarrow> (Inr [], M1)
                | Some fs \<Rightarrow> (Inr (sort (List.map_filter branch_of_name (od_keys fs))), M1))))"

definition load_metadata ::
  "string \<Rightarrow> int option \<Rightarrow> string option \<Rightarrow> 't manager \<Rightarrow> snapshot_metadata option res \<times> 't manager" where
  "load_metadata conversation_id turn_number branch_name M =
     (case get_snapshot_paths conversation_id turn_number branch_name M of
        (Inl e, M1) \<Rightarrow> (Inl e, M1)
      | (Inr (metadata_path, _), M1) \<Rightarrow>
          (case fs_read M1 metadata_path of
             None \<Rightarrow> (Inr None, M1)
           | Some mf \<Rightarrow> (case from_json mf of Inl _ \<Rightarrow> (Inr None, M1) | Inr m \<Rightarrow> (Inr (Some m), M1))))"

definition get_latest_snapshot ::
  "string \<Rightarrow> 't manager \<Rightarrow> (int \<times> snapshot_metadata) option res \<times> 't manager" where
  "get_latest_snapshot conversation_id M =
     (case list_snapshots conversation_id M of
        (Inl e, M1) \<Rightarrow> (Inl e, M1)
      | (Inr turns, M1) \<Rightarrow>
          if turns = [] then (Inr None, M1)
          else
            let latest_turn = last turns
            in (case get_snapshot_paths conversation_id (Some latest_turn) None M1 of
                  (Inl e, M2) \<Rightarrow> (Inl e, M2)
                | (Inr (metadata_path, _), M2) \<Rightarrow>
                    (case fs_read M2 metadata_path of
                       None \<Rightarrow> (Inl FileNotFoundError, M2)
                     | Some mf \<Rightarrow>
                         (case from_json mf of
                            Inl e \<Rightarrow> (Inl e, M2)
                          | Inr m \<Rightarrow> (Inr (Some (latest_turn, m)), M2)))))"

definition delete_snapshot ::
  "string \<Rightarrow> int option \<Rightarrow> string option \<Rightarrow> 't manager \<Rightarrow> bool res \<times> 't manager" where
  "delete_snapshot conversation_id turn_number branch_name M =
     (case get_snapshot_paths conversation_id turn_number branch_name M of
        (Inl e, M1) \<Rightarrow> (Inl e, M1)
      | (Inr (metadata_path, state_path), M1) \<Rightarrow>
          let found = (fs_exists M1 metadata_path \<or> fs_exists M1 state_path);
              M2 = (if fs_exists M1 metadata_path then fs_unlink metadata_path M1 else M1);
              M3 = (if fs_exists M2 state_path then fs_unlink state_path M2 else M2)
          in (Inr found, M3))"

text \<open>The size of a file on disk, \<open>stat().st_size\<close>, is an argument.\<close>

definition get_snapshot_size ::
  "('t dfile \<Rightarrow> nat) \<Rightarrow> string \<Rightarrow> int option \<Rightarrow> string option \<Rightarrow> 't manager \<Rightarrow> nat res \<times> 't manager" where
  "get_snapshot_size st_size conversation_id turn_number branch_name M =
     (case get_snapshot_paths conversation_id turn_number branch_name M of
        (Inl e, M1) \<Rightarrow> (Inl e, M1)
      | (Inr (metadata_path, state_path), M1) \<Rightarrow>
          (Inr ((case fs_read M1 metadata_path of None \<Rightarrow> 0 | Some f \<Rightarrow> st_size f) +
                (case fs_read M1 state_path of None \<Rightarrow> 0 | Some f \<Rightarrow> st_size f)), M1))"

subsection \<open>Lemmas on names\<close>

lemma path_char_slash: "\<not> path_char (CHR ''/'')"
  by (simp add: path_char_def)

lemma re_match_chars:
  assumes m: "re_match_component s" and c: "c \<in> set s"
  shows "path_char c \<or> c = CHR 0x0A"
proof (cases "s \<noteq> [] \<and> last s = CHR 0x0A")
  case True
  have "set s = insert (last s) (set (butlast s))"
    using True by (metis append_butlast_last_id list.simps(15) rotate1.simps(2) set_rotate1)
  moreover have "list_all path_char (butlast s)"
    using m True by (simp add: re_match_component_def Let_def)
  ultimately show ?thesis using c True by (auto simp: list_all_iff)
next
  case False
  then show ?thesis using m c by (auto simp: re_match_component_def Let_def list_all_iff)
qed

lemma sanitize_Inr:
  assumes "sanitize_path_component s = Inr s'"
  shows "s' = s" "s \<noteq> []" "CHR ''/'' \<notin> set s"
proof -
  show "s' = s" "s \<noteq> []" using assms by (simp_all add: sanitize_path_component_def split: if_splits)
  have "re_match_component s" using assms by (simp add: sanitize_path_component_def split: if_splits)
  then show "CHR ''/'' \<notin> set s" using re_match_chars [of s "CHR ''/''"] path_char_slash by auto
qed

lemma conv_dir_name_plain:
  "CHR ''/'' \<notin> set cid \<Longrightarrow> CHR ''/'' \<notin> set (conv_dir_name cid)"
  "conv_dir_name cid \<noteq> []" "conv_dir_name cid \<noteq> ''.''" "conv_dir_name cid \<noteq> ''..''"
  by (auto simp: conv_dir_name_def)

lemma conv_dir_name_inject [simp]: "conv_dir_name a = conv_dir_name b \<longleftrightarrow> a = b"
  by (simp add: conv_dir_name_def)

lemma branch_metadata_name_plain:
  "CHR ''/'' \<notin> set b \<Longrightarrow> CHR ''/'' \<notin> set (branch_metadata_name b)"
  "branch_metadata_name b \<noteq> []" "branch_metadata_name b \<noteq> ''.''" "branch_metadata_name b \<noteq> ''..''"
proof -
  have "length (branch_metadata_name b) > 2" by (simp add: branch_metadata_name_def)
  then show "branch_metadata_name b \<noteq> []" "branch_metadata_name b \<noteq> ''.''"
    "branch_metadata_name b \<noteq> ''..''" by auto
qed (auto simp: branch_metadata_name_def)

lemma name_stems:
  "turn_metadata_name n = (''turn_'' @ nat_str n @ ''_metadata'') @ CHR ''.'' # ''json''"
  "turn_state_name n = (''turn_'' @ nat_str n @ ''_state'') @ CHR ''.'' # ''safetensors''"
  "branch_metadata_name b = (b @ ''_metadata'') @ CHR ''.'' # ''json''"
  "branch_state_name b = (b @ ''_state'') @ CHR ''.'' # ''safetensors''"
  by (simp_all add: turn_metadata_name_def turn_state_name_def branch_metadata_name_def
      branch_state_name_def)

lemma name_parts [text_simps]:
  "path_suffix (turn_metadata_name n) = ''.json''"
  "path_suffix (turn_state_name n) = ''.safetensors''"
  "path_suffix (branch_metadata_name b) = ''.json''"
  "path_suffix (branch_state_name b) = ''.safetensors''"
  "path_stem (turn_metadata_name n) = ''turn_'' @ nat_str n @ ''_metadata''"
  "path_stem (turn_state_name n) = ''turn_'' @ nat_str n @ ''_state''"
  "path_stem (branch_metadata_name b) = b @ ''_metadata''"
  "path_stem (branch_state_name b) = b @ ''_state''"
  unfolding name_stems by (subst path_suffix_ext path_stem_ext; simp)+

lemma path_suffix_tmp: "a \<noteq> [] \<Longrightarrow> path_suffix (a @ ''.safetensors.tmp'') = ''.tmp''"
  "a \<noteq> [] \<Longrightarrow> path_suffix (a @ ''.json.tmp'') = ''.tmp''"
  using path_suffix_ext [of "''tmp''" "a @ ''.safetensors''"] path_suffix_ext [of "''tmp''" "a @ ''.json''"]
  by auto

lemma temp_suffixes [text_simps]:
  "path_suffix (with_suffix (turn_state_name n) ''.safetensors.tmp'') = ''.tmp''"
  "path_suffix (with_suffix (branch_state_name b) ''.safetensors.tmp'') = ''.tmp''"
  "path_suffix (with_suffix (turn_metadata_name n) ''.json.tmp'') = ''.tmp''"
  "path_suffix (with_suffix (branch_metadata_name b) ''.json.tmp'') = ''.tmp''"
  by (simp_all add: with_suffix_def name_parts path_suffix_tmp del: append.simps append_assoc)

lemma names_inject [simp]:
  "turn_metadata_name m = turn_metadata_name n \<longleftrightarrow> m = n"
  "turn_state_name m = turn_state_name n \<longleftrightarrow> m = n"
  "branch_metadata_name a = branch_metadata_name b \<longleftrightarrow> a = b"
  "branch_state_name a = branch_state_name b \<longleftrightarrow> a = b"
  by (simp_all add: turn_metadata_name_def turn_state_name_def branch_metadata_name_def
      branch_state_name_def)

lemma no_turn_prefix_in_digits:
  "is_digit c \<Longrightarrow> \<not> startswith (c # s) ''turn_''" "is_digit c \<Longrightarrow> \<not> startswith (c # s) ''_metadata''"
  by (auto simp: startswith_def is_digit_def)

lemma remove_all_digits:
  assumes "\<forall>x \<in> set ds. is_digit x"
  shows "remove_all ''turn_'' (ds @ s) = ds @ remove_all ''turn_'' s"
    "remove_all ''_metadata'' (ds @ s) = ds @ remove_all ''_metadata'' s"
proof -
  have *: "\<exists>c r. drop i ds @ s = c # r \<and> is_digit c" if "i < length ds" for i
    using that assms by (metis Cons_nth_drop_Suc append_Cons nth_mem)
  show "remove_all ''turn_'' (ds @ s) = ds @ remove_all ''turn_'' s"
    by (rule remove_all_skip) (use * no_turn_prefix_in_digits in fastforce)
  show "remove_all ''_metadata'' (ds @ s) = ds @ remove_all ''_metadata'' s"
    by (rule remove_all_skip) (use * no_turn_prefix_in_digits in fastforce)
qed

lemma turn_of_metadata_name [text_simps]: "turn_of_name (turn_metadata_name n) = Some (int n)"
proof -
  have sw: "startswith (turn_metadata_name n) ''turn_''" 
    by (simp add: turn_metadata_name_def startswith_def)
  have "remove_all ''turn_'' (''turn_'' @ nat_str n @ ''_metadata'') = nat_str n @ ''_metadata''"
    by (subst remove_all_prefix) (simp_all add: remove_all_digits nat_str_digits startswith_def)
  moreover have "remove_all ''_metadata'' (nat_str n @ ''_metadata'') = nat_str n"
    using remove_all_prefix [of "''_metadata''" "[]"] by (simp add: remove_all_digits nat_str_digits)
  ultimately show ?thesis using sw by (simp add: turn_of_name_def name_parts py_int_nat_str)
qed

lemma turn_of_other_name: "path_suffix name \<noteq> ''.json'' \<Longrightarrow> turn_of_name name = None"
  by (simp add: turn_of_name_def)

lemma branch_of_metadata_name [text_simps]:
  "\<not> contains ''_metadata'' b \<Longrightarrow> branch_of_name (branch_metadata_name b) = Some b"
  using remove_all_suffix [of "''_metadata''" "CHR ''_''" "''metadata''" b]
  by (simp add: branch_of_name_def name_parts)

subsection \<open>Lemmas on the file tree\<close>

named_theorems fs_simps \<open>reading after writing, unlinking, renaming and creating directories\<close>

text \<open>The directory a file lives in exists.\<close>

definition loc_ready :: "'t manager \<Rightarrow> loc \<Rightarrow> bool" where
  "loc_ready M l =
     (case l of (d, br, name) \<Rightarrow>
        (case od_get (sm_dirs M) d of None \<Rightarrow> False | Some cd \<Rightarrow> br \<longrightarrow> cd_branches cd \<noteq> None))"

lemma fs_read_update:
  "fs_read (fs_update f d br M) (d', br', name) =
     (if d' = d \<and> br' = br \<and> loc_ready M (d, br, name)
      then od_get (f (case od_get (sm_dirs M) d of None \<Rightarrow> [] | Some cd \<Rightarrow> dir_files br cd)) name
      else fs_read M (d', br', name))"
  by (auto simp: fs_read_def fs_update_def loc_ready_def dir_files_def split: option.splits)

lemma fs_read_dir: "od_get (sm_dirs M) d = Some cd \<Longrightarrow> fs_read M (d, br, n) = od_get (dir_files br cd) n"
  by (simp add: fs_read_def)

lemma loc_ready_name: "loc_ready M (d, br, n) = loc_ready M (d, br, n')"
  by (simp add: loc_ready_def)

lemma loc_readyE:
  assumes "loc_ready M (d, br, n)"
  obtains cd where "od_get (sm_dirs M) d = Some cd" "br \<longrightarrow> cd_branches cd \<noteq> None"
  using assms by (auto simp: loc_ready_def split: option.splits)

lemma fs_read_write [fs_simps]:
  assumes "loc_ready M l"
  shows "fs_read (fs_write l c M) l' = (if l' = l then Some c else fs_read M l')"
proof -
  obtain d br n d' br' n' where l: "l = (d, br, n)" "l' = (d', br', n')" by (cases l; cases l') auto
  with assms have r: "\<And>n. loc_ready M (d, br, n)" using loc_ready_name by blast
  then obtain cd where "od_get (sm_dirs M) d = Some cd" by (blast elim: loc_readyE)
  with r show ?thesis by (simp add: l fs_write_def fs_read_update fs_read_dir)
qed

lemma fs_read_not_ready: "\<not> loc_ready M l \<Longrightarrow> fs_read M l = None"
  by (cases l) (auto simp: loc_ready_def fs_read_def dir_files_def split: option.splits)

lemma fs_read_unlink [fs_simps]:
  "fs_read (fs_unlink l M) l' = (if l' = l then None else fs_read M l')"
proof -
  obtain d br n d' br' n' where l: "l = (d, br, n)" "l' = (d', br', n')" by (cases l; cases l') auto
  show ?thesis
  proof (cases "loc_ready M l")
    case True
    with l have r: "\<And>n. loc_ready M (d, br, n)" using loc_ready_name by blast
    then obtain cd where "od_get (sm_dirs M) d = Some cd" by (blast elim: loc_readyE)
    with r show ?thesis by (simp add: l fs_unlink_def fs_read_update fs_read_dir)
  next
    case False
    with l have r: "\<And>n. \<not> loc_ready M (d, br, n)" using loc_ready_name by blast
    with False show ?thesis by (simp add: l fs_unlink_def fs_read_update fs_read_not_ready)
  qed
qed

lemma loc_ready_update [fs_simps]: "loc_ready (fs_update f d br M) l = loc_ready M l"
  by (cases l) (auto simp: loc_ready_def fs_update_def split: option.splits)

lemma loc_ready_write [fs_simps]: "loc_ready (fs_write l c M) l' = loc_ready M l'"
  by (cases l) (simp add: fs_write_def loc_ready_update)

lemma loc_ready_unlink [fs_simps]: "loc_ready (fs_unlink l M) l' = loc_ready M l'"
  by (cases l) (simp add: fs_unlink_def loc_ready_update)

lemma loc_ready_rename [fs_simps]: "loc_ready (fs_rename a b M) l' = loc_ready M l'"
  by (simp add: fs_rename_def loc_ready_write loc_ready_unlink split: option.split)

lemma fs_read_rename [fs_simps]:
  "loc_ready M b \<Longrightarrow> a \<noteq> b \<Longrightarrow> fs_read (fs_rename a b M) l =
     (case fs_read M a of None \<Rightarrow> fs_read M l
      | Some c \<Rightarrow> if l = b then Some c else if l = a then None else fs_read M l)"
  by (simp add: fs_rename_def fs_simps split: option.split)

lemma fs_read_mkdir [fs_simps]:
  "fs_read (mkdir_conv d M) l = fs_read M l" "fs_read (mkdir_branches d M) l = fs_read M l"
  by (cases l; auto simp: fs_read_def mkdir_conv_def mkdir_branches_def od_mem_iff
      empty_conv_dir_def dir_files_def split: option.splits)+

lemma base_dir_ops [simp]:
  "sm_base_dir (mkdir_conv d M) = sm_base_dir M"
  "sm_base_dir (mkdir_branches d M) = sm_base_dir M"
  "sm_base_dir (fs_update f d br M) = sm_base_dir M"
  "sm_base_dir (fs_write l c M) = sm_base_dir M"
  "sm_base_dir (fs_unlink l M) = sm_base_dir M"
  "sm_base_dir (fs_rename l l' M) = sm_base_dir M"
  by (simp_all add: mkdir_conv_def mkdir_branches_def fs_update_def fs_write_def fs_unlink_def
      fs_rename_def split: option.split prod.split)

lemma loc_ready_mkdir [fs_simps]:
  "loc_ready (mkdir_conv d M) (d, False, n)"
  "loc_ready (mkdir_branches d (mkdir_conv d M)) (d, True, n)"
  "loc_ready (mkdir_branches d (mkdir_conv d M)) (d, False, n)"
  "loc_ready M l \<Longrightarrow> loc_ready (mkdir_conv d M) l"
  by (cases l; auto simp: loc_ready_def mkdir_conv_def mkdir_branches_def od_mem_iff empty_conv_dir_def
      split: option.splits)+

subsection \<open>The invariant of the tree\<close>

text \<open>
  The base directory is an absolute, resolved path; no directory holds two files of the
  same name; and a file that reads as a turn's metadata carries the name the manager
  gives it.
\<close>

definition own_turn_file :: "string \<Rightarrow> bool" where
  "own_turn_file name =
     (case turn_of_name name of None \<Rightarrow> True | Some n \<Rightarrow> 0 \<le> n \<and> name = turn_metadata_name (nat n))"

definition base_ok :: "'t manager \<Rightarrow> bool" where
  "base_ok M = (sm_base_dir M \<noteq> [] \<and> ''..'' \<notin> set (sm_base_dir M))"

definition conv_dir_ok :: "'t conv_dir \<Rightarrow> bool" where
  "conv_dir_ok cd =
     (od_ok (cd_files cd) \<and> list_all own_turn_file (od_keys (cd_files cd)) \<and>
      (case cd_branches cd of None \<Rightarrow> True | Some fs \<Rightarrow> od_ok fs))"

definition manager_ok :: "'t manager \<Rightarrow> bool" where
  "manager_ok M =
     (base_ok M \<and> od_ok (sm_dirs M) \<and> list_all conv_dir_ok (od_values (sm_dirs M)))"

lemma manager_okI:
  "base_ok M \<Longrightarrow> od_ok (sm_dirs M) \<Longrightarrow>
     (\<And>d cd. od_get (sm_dirs M) d = Some cd \<Longrightarrow> conv_dir_ok cd) \<Longrightarrow> manager_ok M"
  by (auto simp: manager_ok_def list_all_iff dest: od_get_in_set [THEN iffD2])

lemma manager_okD:
  "manager_ok M \<Longrightarrow> od_get (sm_dirs M) d = Some cd \<Longrightarrow> conv_dir_ok cd"
  by (auto simp: manager_ok_def list_all_iff dest!: map_of_SomeD)

lemma manager_ok_parts: "manager_ok M \<Longrightarrow> base_ok M" "manager_ok M \<Longrightarrow> od_ok (sm_dirs M)"
  by (simp_all add: manager_ok_def)

lemma manager_ok_set:
  "manager_ok M \<Longrightarrow> conv_dir_ok cd \<Longrightarrow> manager_ok (M\<lparr>sm_dirs := od_set d cd (sm_dirs M)\<rparr>)"
  by (rule manager_okI) (auto simp: base_ok_def dest: manager_ok_parts manager_okD split: if_splits)

lemma conv_dir_ok_empty: "conv_dir_ok empty_conv_dir"
  by (simp add: conv_dir_ok_def empty_conv_dir_def)

lemma manager_ok_mkdir_conv: "manager_ok M \<Longrightarrow> manager_ok (mkdir_conv d M)"
  by (simp add: mkdir_conv_def manager_ok_set conv_dir_ok_empty)

lemma manager_ok_mkdir_branches:
  assumes "manager_ok M"
  shows "manager_ok (mkdir_branches d M)"
proof (cases "od_get (sm_dirs M) d")
  case None
  then show ?thesis using assms by (simp add: mkdir_branches_def)
next
  case (Some cd)
  then have "conv_dir_ok cd" by (rule manager_okD [OF assms])
  then have "conv_dir_ok (cd\<lparr>cd_branches := Some []\<rparr>)" by (simp add: conv_dir_ok_def)
  then show ?thesis using assms Some by (simp add: mkdir_branches_def manager_ok_set split: option.split)
qed

lemma conv_dir_ok_files:
  "conv_dir_ok cd \<Longrightarrow> own_turn_file name \<Longrightarrow> conv_dir_ok (cd\<lparr>cd_files := od_set name c (cd_files cd)\<rparr>)"
  "conv_dir_ok cd \<Longrightarrow> conv_dir_ok (cd\<lparr>cd_files := od_del name (cd_files cd)\<rparr>)"
  by (simp_all add: conv_dir_ok_def od_keys_set od_keys_del) (auto simp: list_all_iff)

lemma conv_dir_ok_branches:
  "conv_dir_ok cd \<Longrightarrow> conv_dir_ok (cd\<lparr>cd_branches := map_option (od_set name c) (cd_branches cd)\<rparr>)"
  "conv_dir_ok cd \<Longrightarrow> conv_dir_ok (cd\<lparr>cd_branches := map_option (od_del name) (cd_branches cd)\<rparr>)"
  by (auto simp: conv_dir_ok_def split: option.splits)

lemma manager_ok_update:
  assumes "manager_ok M"
    and "\<And>cd. conv_dir_ok cd \<Longrightarrow> conv_dir_ok (if br then cd\<lparr>cd_branches := map_option f (cd_branches cd)\<rparr>
                                             else cd\<lparr>cd_files := f (cd_files cd)\<rparr>)"
  shows "manager_ok (fs_update f d br M)"
proof (cases "od_get (sm_dirs M) d")
  case None
  then show ?thesis using assms(1) by (simp add: fs_update_def)
next
  case (Some cd)
  then show ?thesis
    unfolding fs_update_def using manager_ok_set [OF assms(1) assms(2) [OF manager_okD [OF assms(1) Some]]]
    by simp
qed

lemma manager_ok_write:
  assumes "manager_ok M" "\<not> fst (snd l) \<longrightarrow> own_turn_file (snd (snd l))"
  shows "manager_ok (fs_write l c M)"
proof -
  obtain d br n where l: "l = (d, br, n)" by (cases l) auto
  show ?thesis unfolding l fs_write_def prod.case
    by (rule manager_ok_update [OF assms(1)])
      (use assms(2) l in \<open>cases br; simp add: conv_dir_ok_files conv_dir_ok_branches\<close>)
qed

lemma manager_ok_unlink:
  assumes "manager_ok M"
  shows "manager_ok (fs_unlink l M)"
proof -
  obtain d br n where l: "l = (d, br, n)" by (cases l) auto
  show ?thesis unfolding l fs_unlink_def prod.case
    by (rule manager_ok_update [OF assms(1)]) (cases br; simp add: conv_dir_ok_files conv_dir_ok_branches)
qed

lemma manager_ok_rename:
  "manager_ok M \<Longrightarrow> \<not> fst (snd b) \<longrightarrow> own_turn_file (snd (snd b)) \<Longrightarrow> manager_ok (fs_rename a b M)"
  by (simp add: fs_rename_def manager_ok_write manager_ok_unlink split: option.split)

lemmas manager_ok_ops =
  manager_ok_mkdir_conv manager_ok_mkdir_branches manager_ok_write manager_ok_unlink manager_ok_rename

subsection \<open>The paths of a snapshot\<close>

text \<open>
  Where a snapshot lives depends on its key only: the pure part of \<open>_get_snapshot_paths\<close>.
\<close>

definition paths_of :: "string \<Rightarrow> int option \<Rightarrow> string option \<Rightarrow> (loc \<times> loc) res" where
  "paths_of cid turn br =
     (case sanitize_path_component cid of
        Inl e \<Rightarrow> Inl e
      | Inr _ \<Rightarrow>
          let d = conv_dir_name cid
          in if str_truthy br then
               (case sanitize_path_component (the br) of
                  Inl e \<Rightarrow> Inl e
                | Inr b \<Rightarrow> Inr ((d, True, branch_metadata_name b), (d, True, branch_state_name b)))
             else
               (case turn of
                  None \<Rightarrow> Inl ValueError
                | Some n \<Rightarrow>
                    if n < 0 then Inl ValueError
                    else Inr ((d, False, turn_metadata_name (nat n)), (d, False, turn_state_name (nat n)))))"

lemma get_conversation_dir_eq:
  assumes "base_ok M"
  shows "get_conversation_dir cid M =
    (case sanitize_path_component cid of
       Inl e \<Rightarrow> (Inl e, M)
     | Inr _ \<Rightarrow> (Inr (conv_dir_name cid), mkdir_conv (conv_dir_name cid) M))"
proof (cases "sanitize_path_component cid")
  case (Inl e)
  then show ?thesis by (simp add: get_conversation_dir_def)
next
  case (Inr s)
  note s = sanitize_Inr [OF Inr]
  have "path_join (sm_base_dir M) (conv_dir_name cid) = sm_base_dir M @ [conv_dir_name cid]"
    by (rule path_join_component) (use s conv_dir_name_plain in auto)
  moreover have "path_resolve (sm_base_dir M @ [conv_dir_name cid]) = sm_base_dir M @ [conv_dir_name cid]"
    using assms conv_dir_name_plain(4) [of cid, symmetric] by (intro path_resolve_plain) (simp add: base_ok_def)
  moreover have "startswith (path_str (sm_base_dir M @ [conv_dir_name cid])) (path_str (sm_base_dir M))"
    using assms by (intro path_str_prefix) (simp add: base_ok_def)
  ultimately show ?thesis using Inr s(1) by (simp add: get_conversation_dir_def)
qed

lemma branch_path_inside:
  assumes "base_ok M" "CHR ''/'' \<notin> set b" "d \<noteq> ''..''"
  shows "startswith (path_str (path_resolve (path_join (sm_base_dir M @ [d, ''branches'']) (branch_metadata_name b))))
    (path_str (path_resolve (sm_base_dir M @ [d, ''branches''])))"
proof -
  let ?bd = "sm_base_dir M @ [d, ''branches'']"
  have j: "path_join ?bd (branch_metadata_name b) = ?bd @ [branch_metadata_name b]"
    by (rule path_join_component) (use assms branch_metadata_name_plain in auto)
  have "''..'' \<notin> set (?bd @ [branch_metadata_name b])"
    using assms branch_metadata_name_plain(4) [of b, symmetric] by (simp add: base_ok_def)
  then have r: "path_resolve (?bd @ [branch_metadata_name b]) = ?bd @ [branch_metadata_name b]"
    "path_resolve ?bd = ?bd"
    by (simp_all add: path_resolve_plain)
  show ?thesis unfolding j r by (rule path_str_prefix) simp
qed

text \<open>
  The directories a call creates on the way: the manager \<open>_get_snapshot_paths\<close> leaves.
\<close>

definition paths_mkdir :: "string \<Rightarrow> string option \<Rightarrow> 't manager \<Rightarrow> 't manager" where
  "paths_mkdir cid br M =
     (case sanitize_path_component cid of
        Inl e \<Rightarrow> M
      | Inr _ \<Rightarrow>
          let M1 = mkdir_conv (conv_dir_name cid) M
          in if str_truthy br then
               (case sanitize_path_component (the br) of
                  Inl e \<Rightarrow> M1 | Inr _ \<Rightarrow> mkdir_branches (conv_dir_name cid) M1)
             else M1)"

lemma get_snapshot_paths_eq:
  assumes "base_ok M"
  shows "get_snapshot_paths cid turn br M = (paths_of cid turn br, paths_mkdir cid br M)"
proof (cases "sanitize_path_component cid")
  case (Inl e)
  then show ?thesis using assms
    by (simp add: get_snapshot_paths_def get_conversation_dir_eq paths_of_def paths_mkdir_def)
next
  case (Inr s)
  show ?thesis
  proof (cases "str_truthy br")
    case False
    then show ?thesis using assms Inr
      by (simp add: get_snapshot_paths_def get_conversation_dir_eq paths_of_def paths_mkdir_def Let_def
          split: option.split)
  next
    case True
    show ?thesis
    proof (cases "sanitize_path_component (the br)")
      case (Inl e)
      then show ?thesis using assms Inr True
        by (simp add: get_snapshot_paths_def get_conversation_dir_eq paths_of_def paths_mkdir_def)
    next
      case (Inr b)
      note b = sanitize_Inr [OF Inr]
      then have "CHR ''/'' \<notin> set b" by simp
      from branch_path_inside [OF assms this conv_dir_name_plain(4) [of cid]]
      show ?thesis using assms Inr True \<open>sanitize_path_component cid = Inr s\<close>
        by (simp add: get_snapshot_paths_def get_conversation_dir_eq paths_of_def paths_mkdir_def Let_def)
    qed
  qed
qed

lemma fs_read_paths_mkdir [fs_simps]: "fs_read (paths_mkdir cid br M) l = fs_read M l"
  by (simp add: paths_mkdir_def fs_simps Let_def split: sum.split)

lemma base_dir_paths_mkdir [simp]: "sm_base_dir (paths_mkdir cid br M) = sm_base_dir M"
  by (simp add: paths_mkdir_def Let_def split: sum.split)

lemma base_ok_paths_mkdir [simp]: "base_ok (paths_mkdir cid br M) = base_ok M"
  by (simp add: base_ok_def)

lemma manager_ok_paths_mkdir: "manager_ok M \<Longrightarrow> manager_ok (paths_mkdir cid br M)"
  by (simp add: paths_mkdir_def Let_def manager_ok_ops split: sum.split)

lemma paths_ready:
  assumes "paths_of cid turn br = Inr (mp, sp)"
  shows "loc_ready (paths_mkdir cid br M) mp" "loc_ready (paths_mkdir cid br M) sp"
  using assms by (auto simp: paths_of_def paths_mkdir_def Let_def loc_ready_mkdir
      split: sum.splits option.splits if_splits)

text \<open>The two slots a snapshot can go to: a turn of the conversation or a named branch.\<close>

definition slot_of :: "int option \<Rightarrow> string option \<Rightarrow> nat + string" where
  "slot_of turn br = (if str_truthy br then Inr (the br) else Inl (nat (the turn)))"

definition meta_loc :: "string \<Rightarrow> nat + string \<Rightarrow> loc" where
  "meta_loc cid s =
     (case s of Inl n \<Rightarrow> (conv_dir_name cid, False, turn_metadata_name n)
              | Inr b \<Rightarrow> (conv_dir_name cid, True, branch_metadata_name b))"

definition state_loc :: "string \<Rightarrow> nat + string \<Rightarrow> loc" where
  "state_loc cid s =
     (case s of Inl n \<Rightarrow> (conv_dir_name cid, False, turn_state_name n)
              | Inr b \<Rightarrow> (conv_dir_name cid, True, branch_state_name b))"

lemma paths_of_Inr:
  assumes "paths_of cid turn br = Inr (mp, sp)"
  shows "mp = meta_loc cid (slot_of turn br)" "sp = state_loc cid (slot_of turn br)"
  using assms by (auto simp: paths_of_def slot_of_def meta_loc_def state_loc_def Let_def
      dest: sanitize_Inr(1) split: sum.splits option.splits if_splits)

abbreviation loc_suffix :: "loc \<Rightarrow> string" where
  "loc_suffix l \<equiv> path_suffix (snd (snd l))"

lemma loc_suffixes:
  "loc_suffix (meta_loc cid s) = ''.json''"
  "loc_suffix (state_loc cid s) = ''.safetensors''"
  "loc_suffix (loc_with_suffix (state_loc cid s) ''.safetensors.tmp'') = ''.tmp''"
  "loc_suffix (loc_with_suffix (meta_loc cid s) ''.json.tmp'') = ''.tmp''"
  by (simp_all add: meta_loc_def state_loc_def loc_with_suffix_def name_parts temp_suffixes split: sum.split)

lemma loc_suffix_differs: "loc_suffix a \<noteq> loc_suffix b \<Longrightarrow> a \<noteq> b"
  by auto

lemma locs_distinct [simp]:
  "meta_loc cid s \<noteq> state_loc cid' s'"
  "state_loc cid' s' \<noteq> meta_loc cid s"
  "loc_with_suffix (state_loc cid s) ''.safetensors.tmp'' \<noteq> meta_loc cid' s'"
  "loc_with_suffix (state_loc cid s) ''.safetensors.tmp'' \<noteq> state_loc cid' s'"
  "loc_with_suffix (meta_loc cid s) ''.json.tmp'' \<noteq> meta_loc cid' s'"
  "loc_with_suffix (meta_loc cid s) ''.json.tmp'' \<noteq> state_loc cid' s'"
  by (rule loc_suffix_differs, simp add: loc_suffixes)+

lemmas locs_distinct_sym [simp] = locs_distinct(3-6) [symmetric]

lemma locs_inject [simp]:
  "meta_loc cid s = meta_loc cid' s' \<longleftrightarrow> cid = cid' \<and> s = s'"
  "state_loc cid s = state_loc cid' s' \<longleftrightarrow> cid = cid' \<and> s = s'"
  by (auto simp: meta_loc_def state_loc_def split: sum.splits)

lemma loc_with_suffix_ready: "loc_ready M (loc_with_suffix l suf) = loc_ready M l"
  by (cases l) (simp add: loc_with_suffix_def loc_ready_def)

lemma own_turn_names:
  "own_turn_file (turn_metadata_name n)" "own_turn_file (turn_state_name n)"
  "own_turn_file (with_suffix (turn_state_name n) ''.safetensors.tmp'')"
  "own_turn_file (with_suffix (turn_metadata_name n) ''.json.tmp'')"
  by (simp_all add: own_turn_file_def turn_of_metadata_name turn_of_other_name name_parts temp_suffixes)

lemma own_locs:
  "\<not> fst (snd (meta_loc cid s)) \<longrightarrow> own_turn_file (snd (snd (meta_loc cid s)))"
  "\<not> fst (snd (state_loc cid s)) \<longrightarrow> own_turn_file (snd (snd (state_loc cid s)))"
  "\<not> fst (snd (loc_with_suffix (state_loc cid s) ''.safetensors.tmp'')) \<longrightarrow>
     own_turn_file (snd (snd (loc_with_suffix (state_loc cid s) ''.safetensors.tmp'')))"
  "\<not> fst (snd (loc_with_suffix (meta_loc cid s) ''.json.tmp'')) \<longrightarrow>
     own_turn_file (snd (snd (loc_with_suffix (meta_loc cid s) ''.json.tmp'')))"
  by (simp_all add: meta_loc_def state_loc_def loc_with_suffix_def own_turn_names split: sum.split)

subsection \<open>Saving and loading, as functions of the files\<close>

text \<open>What a pair of files holds, as \<open>load_snapshot\<close> reads it.\<close>

definition read_snapshot :: "'t torch \<Rightarrow> 't dfile option \<Rightarrow> 't dfile option \<Rightarrow> 't snapshot res" where
  "read_snapshot T mf sf =
     (case (mf, sf) of
        (Some (Json_file md), Some (Tensor_file d)) \<Rightarrow>
          (case od_get d ''temporal'' of
             None \<Rightarrow> Inl ValueError
           | Some temporal \<Rightarrow>
               if load_layers d 0 = [] then Inl ValueError
               else if \<not> state_ok T False (load_layers d 0) temporal then Inl SnapshotValidationError
               else Inr (load_layers d 0, temporal, md))
      | (None, _) \<Rightarrow> Inl FileNotFoundError
      | (Some _, None) \<Rightarrow> Inl FileNotFoundError
      | _ \<Rightarrow> Inl ValueError)"

definition disk_load :: "'t torch \<Rightarrow> 't manager \<Rightarrow> string \<Rightarrow> nat + string \<Rightarrow> 't snapshot res" where
  "disk_load T M cid s = read_snapshot T (fs_read M (meta_loc cid s)) (fs_read M (state_loc cid s))"

lemma load_snapshot_eq:
  assumes "base_ok M"
  shows "load_snapshot T cid turn br M =
    (case paths_of cid turn br of Inl e \<Rightarrow> Inl e | Inr _ \<Rightarrow> disk_load T M cid (slot_of turn br),
     paths_mkdir cid br M)"
proof (cases "paths_of cid turn br")
  case (Inl e)
  then show ?thesis using assms by (simp add: load_snapshot_def get_snapshot_paths_eq)
next
  case (Inr p)
  obtain mp sp where p: "p = (mp, sp)" by (cases p)
  note loc = paths_of_Inr [OF Inr [unfolded p]]
  show ?thesis using assms Inr p
    by (simp add: load_snapshot_def get_snapshot_paths_eq fs_simps disk_load_def read_snapshot_def
        is_valid_iff loc [symmetric] split: option.split dfile.split)
qed

lemma od_get_add_conv_states:
  "od_get (add_conv_states i ts d) (conv_key j) =
     (if i \<le> j \<and> j < i + length ts then Some (ts ! (j - i)) else od_get d (conv_key j))"
proof (induction ts arbitrary: i d j)
  case (Cons t ts)
  have nth: "Suc i \<le> j \<Longrightarrow> (t # ts) ! (j - i) = ts ! (j - Suc i)"
    by (simp add: nth_Cons')
  show ?case
  proof (cases "j = i")
    case True
    then show ?thesis by (simp add: Cons.IH)
  next
    case False
    then show ?thesis using nth by (auto simp: Cons.IH)
  qed
qed auto

lemma conv_key_temporal [simp]: "conv_key i \<noteq> ''temporal''" "''temporal'' \<noteq> conv_key i"
  by (simp_all add: conv_key_def)

lemma od_get_add_temporal: "od_get (add_conv_states i ts d) ''temporal'' = od_get d ''temporal''"
  by (induction ts arbitrary: i d) auto

lemma load_layers_all:
  assumes "\<And>j. j < length ts \<Longrightarrow> od_get d (conv_key (i + j)) = Some (ts ! j)"
    and "od_get d (conv_key (i + length ts)) = None"
  shows "load_layers d i = ts"
  using assms
proof (induction ts arbitrary: i)
  case Nil
  then show ?case by (simp add: load_layers.simps [of d i])
next
  case (Cons t ts)
  have "load_layers d (Suc i) = ts"
  proof (rule Cons.IH)
    show "od_get d (conv_key (Suc i + j)) = Some (ts ! j)" if "j < length ts" for j
      using Cons.prems(1) [of "Suc j"] that by simp
    show "od_get d (conv_key (Suc i + length ts)) = None" using Cons.prems(2) by simp
  qed
  moreover have "od_get d (conv_key i) = Some t" using Cons.prems(1) [of 0] by simp
  ultimately show ?case by (simp add: load_layers.simps [of d i])
qed

lemma load_layers_state_dict [simp]: "load_layers (state_dict cs t) 0 = cs"
  by (rule load_layers_all) (simp_all add: state_dict_def od_get_add_conv_states)

lemma state_dict_temporal [simp]: "od_get (state_dict cs t) ''temporal'' = Some t"
  by (simp add: state_dict_def od_get_add_temporal)

lemma read_snapshot_saved:
  "state_ok T False cs t \<Longrightarrow>
     read_snapshot T (Some (Json_file md)) (Some (Tensor_file (state_dict cs t))) = Inr (cs, t, md)"
  by (simp add: read_snapshot_def state_ok_nonempty)

text \<open>The paths of a snapshot's metadata, and the files a save without a disk error leaves.\<close>

abbreviation md_paths :: "snapshot_metadata \<Rightarrow> (loc \<times> loc) res" where
  "md_paths md \<equiv> paths_of (md_conversation_id md) (md_turn_number md) (md_branch_name md)"

abbreviation md_slot :: "snapshot_metadata \<Rightarrow> nat + string" where
  "md_slot md \<equiv> slot_of (md_turn_number md) (md_branch_name md)"

abbreviation tmp_state :: "string \<Rightarrow> nat + string \<Rightarrow> loc" where
  "tmp_state cid s \<equiv> loc_with_suffix (state_loc cid s) ''.safetensors.tmp''"

abbreviation tmp_meta :: "string \<Rightarrow> nat + string \<Rightarrow> loc" where
  "tmp_meta cid s \<equiv> loc_with_suffix (meta_loc cid s) ''.json.tmp''"

lemma write_state_ok:
  assumes "loc_ready M (state_loc cid s)"
  shows "fst (write_state None (state_loc cid s) d M) = Inr ()"
    "fs_read (snd (write_state None (state_loc cid s) d M)) l =
       (if l = state_loc cid s then Some (Tensor_file d)
        else if l = tmp_state cid s then None else fs_read M l)"
    "loc_ready (snd (write_state f (state_loc cid s) d M)) l' = loc_ready M l'"
  using assms by (simp_all add: write_state_def Let_def fs_simps loc_with_suffix_ready)

lemma write_metadata_ok:
  assumes "loc_ready M (meta_loc cid s)"
  shows "fst (write_metadata None (meta_loc cid s) sp md M) = Inr ()"
    "fs_read (snd (write_metadata None (meta_loc cid s) sp md M)) l =
       (if l = meta_loc cid s then Some (Json_file md)
        else if l = tmp_meta cid s then None else fs_read M l)"
  using assms by (simp_all add: write_metadata_def Let_def fs_simps loc_with_suffix_ready)

lemma save_snapshot_rejects:
  "\<not> state_ok T False cs t \<Longrightarrow> save_snapshot T f cs t md M = (Inl ValueError, M)"
  by (simp add: save_snapshot_def is_valid_iff)

lemma save_snapshot_bad_path:
  "base_ok M \<Longrightarrow> state_ok T False cs t \<Longrightarrow> md_paths md = Inl e \<Longrightarrow>
     save_snapshot T f cs t md M = (Inl e, paths_mkdir (md_conversation_id md) (md_branch_name md) M)"
  by (simp add: save_snapshot_def is_valid_iff state_ok_nonempty get_snapshot_paths_eq)

lemma save_snapshot_ok:
  assumes "base_ok M" "state_ok T False cs t" "md_paths md = Inr p"
  shows "fst (save_snapshot T None cs t md M) = Inr p"
    "fs_read (snd (save_snapshot T None cs t md M)) l =
       (if l = meta_loc (md_conversation_id md) (md_slot md) then Some (Json_file md)
        else if l = state_loc (md_conversation_id md) (md_slot md) then Some (Tensor_file (state_dict cs t))
        else if l = tmp_state (md_conversation_id md) (md_slot md) \<or>
                l = tmp_meta (md_conversation_id md) (md_slot md) then None
        else fs_read M l)"
proof -
  obtain mp sp where p: "p = (mp, sp)" by (cases p)
  let ?cid = "md_conversation_id md" and ?s = "md_slot md"
  note loc = paths_of_Inr [OF assms(3) [unfolded p]]
  let ?M1 = "paths_mkdir ?cid (md_branch_name md) M"
  have r: "loc_ready ?M1 (meta_loc ?cid ?s)" "loc_ready ?M1 (state_loc ?cid ?s)"
    using paths_ready [OF assms(3) [unfolded p]] loc by simp_all
  obtain u M2 where M2: "write_state None (state_loc ?cid ?s) (state_dict cs t) ?M1 = (u, M2)"
    by fastforce
  obtain v M3 where M3: "write_metadata None (meta_loc ?cid ?s) (state_loc ?cid ?s) md M2 = (v, M3)"
    by fastforce
  have r2: "loc_ready M2 (meta_loc ?cid ?s)"
    using write_state_ok(3) [OF r(2), of None "state_dict cs t" "meta_loc ?cid ?s"] r(1) M2 by simp
  have u: "u = Inr ()" using write_state_ok(1) [OF r(2), of "state_dict cs t"] M2 by simp
  have v: "v = Inr ()" using write_metadata_ok(1) [OF r2, of "state_loc ?cid ?s" md] M3 by simp
  have save: "save_snapshot T None cs t md M = (Inr (mp, sp), M3)"
    using assms M2 M3 u v by (simp add: save_snapshot_def is_valid_iff state_ok_nonempty
        get_snapshot_paths_eq p loc)
  then show "fst (save_snapshot T None cs t md M) = Inr p" by (simp add: p)
  show "fs_read (snd (save_snapshot T None cs t md M)) l =
       (if l = meta_loc ?cid ?s then Some (Json_file md)
        else if l = state_loc ?cid ?s then Some (Tensor_file (state_dict cs t))
        else if l = tmp_state ?cid ?s \<or> l = tmp_meta ?cid ?s then None else fs_read M l)"
    using write_state_ok(2) [OF r(2), of "state_dict cs t" l]
      write_metadata_ok(2) [OF r2, of "state_loc ?cid ?s" md l] save M2 M3
    by (auto simp: fs_simps)
qed

end
