(* ===== verification/Store_Laws.thy ===== *)
theory Store_Laws
  imports Snapshot_Store
begin

section \<open>Laws of the snapshot store\<close>

text \<open>
  What the operations of \<open>MambaSnapshotManager\<close> do to the snapshots on disk, stated over
  \<open>disk_load\<close> (the snapshot a slot holds) and the turns that are listed: every operation
  keeps \<open>manager_ok\<close>, a save and a delete change their own slot only, a failed save
  leaves no half-written snapshot, and the store is an archive of turns in the sense of
  the locale \<open>turn_archive\<close>, on which the snapshot policy relies.
\<close>

lemma manager_ok_write_state:
  "manager_ok M \<Longrightarrow> manager_ok (snd (write_state f (state_loc cid s) d M))"
  by (simp add: write_state_def Let_def manager_ok_ops own_locs)

lemma manager_ok_write_metadata:
  "manager_ok M \<Longrightarrow> manager_ok (snd (write_metadata f (meta_loc cid s) sp md M))"
  by (simp add: write_metadata_def Let_def manager_ok_ops own_locs)

lemma save_snapshot_manager_ok:
  assumes "manager_ok M"
  shows "manager_ok (snd (save_snapshot T f cs t md M))"
proof (cases "state_ok T False cs t")
  case False
  then show ?thesis using assms by (simp add: save_snapshot_rejects)
next
  case True
  let ?cid = "md_conversation_id md" and ?s = "md_slot md"
  let ?M1 = "paths_mkdir ?cid (md_branch_name md) M"
  have ok1: "manager_ok ?M1" using assms by (rule manager_ok_paths_mkdir)
  show ?thesis
  proof (cases "md_paths md")
    case (Inl e)
    then show ?thesis using assms True ok1 by (simp add: save_snapshot_bad_path manager_ok_parts)
  next
    case (Inr p)
    obtain mp sp where p: "p = (mp, sp)" by (cases p)
    note loc = paths_of_Inr [OF Inr [unfolded p]]
    obtain u M2 where M2: "write_state f (state_loc ?cid ?s) (state_dict cs t) ?M1 = (u, M2)"
      by fastforce
    obtain v M3 where M3: "write_metadata f (meta_loc ?cid ?s) (state_loc ?cid ?s) md M2 = (v, M3)"
      by fastforce
    have ok2: "manager_ok M2" using manager_ok_write_state [OF ok1] M2 by (metis snd_conv)
    have ok3: "manager_ok M3" using manager_ok_write_metadata [OF ok2] M3 by (metis snd_conv)
    show ?thesis using True assms Inr M2 M3 ok2 ok3
      by (simp add: save_snapshot_def is_valid_iff state_ok_nonempty get_snapshot_paths_eq
          manager_ok_parts p loc split: sum.split)
  qed
qed

lemma load_snapshot_manager_ok: "manager_ok M \<Longrightarrow> manager_ok (snd (load_snapshot T cid turn br M))"
  by (simp add: load_snapshot_eq manager_ok_parts manager_ok_paths_mkdir)

text \<open>A save that fails on disk touches nothing outside its own slot.\<close>

lemma write_state_frame:
  assumes "loc_ready M (state_loc cid s)" "l \<noteq> state_loc cid s" "l \<noteq> tmp_state cid s"
  shows "fs_read (snd (write_state f (state_loc cid s) d M)) l = fs_read M l"
  using assms by (simp add: write_state_def Let_def fs_simps loc_with_suffix_ready)

lemma write_metadata_frame:
  assumes "loc_ready M (meta_loc cid s)" "l \<noteq> meta_loc cid s" "l \<noteq> state_loc cid s" "l \<noteq> tmp_meta cid s"
  shows "fs_read (snd (write_metadata f (meta_loc cid s) (state_loc cid s) md M)) l = fs_read M l"
  using assms by (simp add: write_metadata_def Let_def fs_simps loc_with_suffix_ready)

text \<open>The two phases of a save whose arguments are accepted.\<close>

lemma save_snapshot_phases:
  assumes "base_ok M" "state_ok T False cs t" "md_paths md = Inr p"
  obtains M1 u M2 v M3 where
    "M1 = paths_mkdir (md_conversation_id md) (md_branch_name md) M"
    "loc_ready M1 (meta_loc (md_conversation_id md) (md_slot md))"
    "loc_ready M1 (state_loc (md_conversation_id md) (md_slot md))"
    "write_state f (state_loc (md_conversation_id md) (md_slot md)) (state_dict cs t) M1 = (u, M2)"
    "loc_ready M2 (meta_loc (md_conversation_id md) (md_slot md))"
    "write_metadata f (meta_loc (md_conversation_id md) (md_slot md))
       (state_loc (md_conversation_id md) (md_slot md)) md M2 = (v, M3)"
    "save_snapshot T f cs t md M =
       (case u of Inl e \<Rightarrow> (Inl e, M2) | Inr _ \<Rightarrow> (case v of Inl e \<Rightarrow> (Inl e, M3) | Inr _ \<Rightarrow> (Inr p, M3)))"
proof -
  obtain mp sp where p: "p = (mp, sp)" by (cases p)
  let ?cid = "md_conversation_id md" and ?s = "md_slot md"
  note loc = paths_of_Inr [OF assms(3) [unfolded p]]
  let ?M1 = "paths_mkdir ?cid (md_branch_name md) M"
  have r: "loc_ready ?M1 (meta_loc ?cid ?s)" "loc_ready ?M1 (state_loc ?cid ?s)"
    using paths_ready [OF assms(3) [unfolded p]] loc by simp_all
  obtain u M2 where M2: "write_state f (state_loc ?cid ?s) (state_dict cs t) ?M1 = (u, M2)"
    by fastforce
  obtain v M3 where M3: "write_metadata f (meta_loc ?cid ?s) (state_loc ?cid ?s) md M2 = (v, M3)"
    by fastforce
  have r2: "loc_ready M2 (meta_loc ?cid ?s)"
    using write_state_ok(3) [OF r(2), of f "state_dict cs t" "meta_loc ?cid ?s"] r(1) M2 by simp
  show thesis
    by (rule that [OF refl r M2 r2 M3])
      (use assms M2 M3 in \<open>simp add: save_snapshot_def is_valid_iff state_ok_nonempty
        get_snapshot_paths_eq p loc split: sum.split\<close>)
qed

lemma save_snapshot_frame:
  assumes "base_ok M" "cid' \<noteq> md_conversation_id md \<or> s' \<noteq> md_slot md"
  shows "disk_load T' (snd (save_snapshot T f cs t md M)) cid' s' = disk_load T' M cid' s'"
proof (cases "state_ok T False cs t")
  case False
  then show ?thesis by (simp add: save_snapshot_rejects)
next
  case True
  show ?thesis
  proof (cases "md_paths md")
    case (Inl e)
    then show ?thesis using assms(1) True
      by (simp add: save_snapshot_bad_path disk_load_def fs_simps)
  next
    case (Inr p)
    obtain M1 u M2 v M3 where ph:
      "M1 = paths_mkdir (md_conversation_id md) (md_branch_name md) M"
      "loc_ready M1 (meta_loc (md_conversation_id md) (md_slot md))"
      "loc_ready M1 (state_loc (md_conversation_id md) (md_slot md))"
      "write_state f (state_loc (md_conversation_id md) (md_slot md)) (state_dict cs t) M1 = (u, M2)"
      "loc_ready M2 (meta_loc (md_conversation_id md) (md_slot md))"
      "write_metadata f (meta_loc (md_conversation_id md) (md_slot md))
         (state_loc (md_conversation_id md) (md_slot md)) md M2 = (v, M3)"
      "save_snapshot T f cs t md M =
         (case u of Inl e \<Rightarrow> (Inl e, M2) | Inr _ \<Rightarrow> (case v of Inl e \<Rightarrow> (Inl e, M3) | Inr _ \<Rightarrow> (Inr p, M3)))"
      by (rule save_snapshot_phases [OF assms(1) True Inr])
    let ?ml = "meta_loc cid' s'" and ?sl = "state_loc cid' s'"
    have "fs_read M2 ?ml = fs_read M ?ml" "fs_read M2 ?sl = fs_read M ?sl"
      using write_state_frame [OF ph(3), of ?ml f "state_dict cs t"]
        write_state_frame [OF ph(3), of ?sl f "state_dict cs t"] ph(1,4) assms(2)
      by (auto simp: fs_simps)
    moreover have "fs_read M3 ?ml = fs_read M2 ?ml" "fs_read M3 ?sl = fs_read M2 ?sl"
      using write_metadata_frame [OF ph(5), of ?ml f md] write_metadata_frame [OF ph(5), of ?sl f md]
        ph(6) assms(2) by auto
    ultimately show ?thesis using ph(7) by (simp add: disk_load_def split: sum.split)
  qed
qed

subsection \<open>Deleting\<close>

lemma delete_snapshot_eq:
  assumes "base_ok M" "paths_of cid turn br = Inr p"
  shows "fst (delete_snapshot cid turn br M) =
      Inr (fs_exists M (meta_loc cid (slot_of turn br)) \<or> fs_exists M (state_loc cid (slot_of turn br)))"
    "fs_read (snd (delete_snapshot cid turn br M)) l =
      (if l = meta_loc cid (slot_of turn br) \<or> l = state_loc cid (slot_of turn br) then None
       else fs_read M l)"
proof -
  obtain mp sp where p: "p = (mp, sp)" by (cases p)
  note loc = paths_of_Inr [OF assms(2) [unfolded p]]
  show "fst (delete_snapshot cid turn br M) =
      Inr (fs_exists M (meta_loc cid (slot_of turn br)) \<or> fs_exists M (state_loc cid (slot_of turn br)))"
    using assms by (simp add: delete_snapshot_def get_snapshot_paths_eq p loc fs_exists_def fs_simps Let_def)
  show "fs_read (snd (delete_snapshot cid turn br M)) l =
      (if l = meta_loc cid (slot_of turn br) \<or> l = state_loc cid (slot_of turn br) then None
       else fs_read M l)"
    using assms by (auto simp: delete_snapshot_def get_snapshot_paths_eq p loc fs_exists_def fs_simps Let_def)
qed

lemma delete_snapshot_bad_path:
  "base_ok M \<Longrightarrow> paths_of cid turn br = Inl e \<Longrightarrow>
     delete_snapshot cid turn br M = (Inl e, paths_mkdir cid br M)"
  by (simp add: delete_snapshot_def get_snapshot_paths_eq)

lemma delete_snapshot_manager_ok:
  assumes "manager_ok M"
  shows "manager_ok (snd (delete_snapshot cid turn br M))"
proof (cases "paths_of cid turn br")
  case (Inl e)
  then show ?thesis using assms
    by (simp add: delete_snapshot_bad_path manager_ok_parts manager_ok_paths_mkdir)
next
  case (Inr p)
  obtain mp sp where p: "p = (mp, sp)" by (cases p)
  show ?thesis using assms Inr
    by (simp add: delete_snapshot_def get_snapshot_paths_eq manager_ok_parts manager_ok_paths_mkdir
        manager_ok_unlink p Let_def)
qed

subsection \<open>Listing\<close>

text \<open>The turns whose metadata file exists, in increasing order.\<close>

definition stored_turns :: "'t manager \<Rightarrow> string \<Rightarrow> int set" where
  "stored_turns M cid = {n. 0 \<le> n \<and> fs_exists M (meta_loc cid (Inl (nat n)))}"

lemma own_turn_keys:
  assumes "list_all own_turn_file ks" "distinct ks"
  shows "distinct (List.map_filter turn_of_name ks)"
    "set (List.map_filter turn_of_name ks) = {n. 0 \<le> n \<and> turn_metadata_name (nat n) \<in> set ks}"
proof -
  have inj: "turn_of_name k = Some n \<Longrightarrow> k \<in> set ks \<Longrightarrow> 0 \<le> n \<and> k = turn_metadata_name (nat n)" for k n
    using assms(1) by (auto simp: own_turn_file_def list_all_iff)
  show "distinct (List.map_filter turn_of_name ks)"
  proof -
    have "inj_on (the \<circ> turn_of_name) (set (filter (\<lambda>k. turn_of_name k \<noteq> None) ks))"
      by (auto simp: inj_on_def turn_of_metadata_name dest!: inj)
    then show ?thesis using assms(2) by (simp add: List.map_filter_def distinct_map)
  qed
  show "set (List.map_filter turn_of_name ks) = {n. 0 \<le> n \<and> turn_metadata_name (nat n) \<in> set ks}"
  proof (intro set_eqI iffI)
    fix n assume "n \<in> set (List.map_filter turn_of_name ks)"
    then obtain k where "k \<in> set ks" "turn_of_name k = Some n" by (auto simp: List.map_filter_def)
    then show "n \<in> {n. 0 \<le> n \<and> turn_metadata_name (nat n) \<in> set ks}" using inj by fastforce
  next
    fix n assume n: "n \<in> {n. 0 \<le> n \<and> turn_metadata_name (nat n) \<in> set ks}"
    then have "turn_of_name (turn_metadata_name (nat n)) = Some n" by (simp add: turn_of_metadata_name)
    then show "n \<in> set (List.map_filter turn_of_name ks)" using n
      by (auto simp: List.map_filter_def intro!: image_eqI [of _ _ "turn_metadata_name (nat n)"])
  qed
qed

lemma list_snapshots_eq:
  assumes "manager_ok M" "sanitize_path_component cid = Inr c"
  obtains ts where
    "list_snapshots cid M = (Inr ts, mkdir_conv (conv_dir_name cid) M)"
    "sorted ts" "distinct ts" "set ts = stored_turns M cid"
proof -
  let ?d = "conv_dir_name cid"
  let ?M1 = "mkdir_conv ?d M"
  have ok1: "manager_ok ?M1" using assms(1) by (rule manager_ok_ops)
  have "loc_ready ?M1 (?d, False, [])" by (rule loc_ready_mkdir)
  then obtain cd where cd: "od_get (sm_dirs ?M1) ?d = Some cd" by (rule loc_readyE)
  let ?ts = "List.map_filter turn_of_name (od_keys (cd_files cd))"
  have cdok: "list_all own_turn_file (od_keys (cd_files cd))" "distinct (od_keys (cd_files cd))"
    using manager_okD [OF ok1 cd] by (simp_all add: conv_dir_ok_def od_ok_def)
  note k = own_turn_keys [OF cdok]
  have ex: "fs_exists M (meta_loc cid (Inl n)) \<longleftrightarrow> turn_metadata_name n \<in> set (od_keys (cd_files cd))" for n
  proof -
    have "fs_read M (meta_loc cid (Inl n)) = od_get (cd_files cd) (turn_metadata_name n)"
      using fs_read_dir [OF cd, of False "turn_metadata_name n"]
      by (simp add: fs_simps meta_loc_def dir_files_def)
    then show ?thesis by (simp add: fs_exists_def map_of_eq_None_iff)
  qed
  have "list_snapshots cid M = (Inr (sort ?ts), ?M1)"
    using assms cd by (simp add: list_snapshots_def get_conversation_dir_eq manager_ok_parts)
  then show thesis using k ex by (intro that [of "sort ?ts"]) (auto simp: stored_turns_def)
qed

lemma list_snapshots_bad:
  "base_ok M \<Longrightarrow> sanitize_path_component cid = Inl e \<Longrightarrow> list_snapshots cid M = (Inl e, M)"
  by (simp add: list_snapshots_def get_conversation_dir_eq)

lemma list_snapshots_manager_ok:
  assumes "manager_ok M"
  shows "manager_ok (snd (list_snapshots cid M))"
proof (cases "sanitize_path_component cid")
  case (Inl e)
  then show ?thesis using assms by (simp add: list_snapshots_bad manager_ok_parts)
next
  case (Inr c)
  show ?thesis by (rule list_snapshots_eq [OF assms Inr]) (use assms in \<open>simp add: manager_ok_ops\<close>)
qed

subsection \<open>The store as an archive of turns\<close>

text \<open>
  What the retention policy relies on: the turns come sorted and without repetition,
  dropping a listed turn succeeds, removes that turn from the listing and leaves the
  others with their contents.
\<close>

locale turn_archive =
  fixes listing :: "'s \<Rightarrow> int list res \<times> 's"
    and drop_turn :: "int \<Rightarrow> 's \<Rightarrow> bool res \<times> 's"
    and content :: "'s \<Rightarrow> int \<Rightarrow> 'c"
    and ok :: "'s \<Rightarrow> bool"
  assumes listing_sorted: "ok s \<Longrightarrow> \<exists>ts. fst (listing s) = Inr ts \<and> sorted ts \<and> distinct ts"
    and listing_ok: "ok s \<Longrightarrow> ok (snd (listing s))"
    and listing_same: "ok s \<Longrightarrow> fst (listing (snd (listing s))) = fst (listing s)"
    and listing_content: "ok s \<Longrightarrow> content (snd (listing s)) = content s"
    and drop_succeeds: "ok s \<Longrightarrow> fst (listing s) = Inr ts \<Longrightarrow> n \<in> set ts \<Longrightarrow> fst (drop_turn n s) = Inr True"
    and drop_ok: "ok s \<Longrightarrow> ok (snd (drop_turn n s))"
    and drop_listing: "ok s \<Longrightarrow> fst (listing s) = Inr ts \<Longrightarrow> n \<in> set ts \<Longrightarrow>
           fst (listing (snd (drop_turn n s))) = Inr (filter (\<lambda>m. m \<noteq> n) ts)"
    and drop_content: "ok s \<Longrightarrow> fst (listing s) = Inr ts \<Longrightarrow> n \<in> set ts \<Longrightarrow> 0 \<le> m \<Longrightarrow> m \<noteq> n \<Longrightarrow>
           content (snd (drop_turn n s)) m = content s m"
begin

lemma drop_all_ok: "ok s \<Longrightarrow> ok (fold (\<lambda>n s. snd (drop_turn n s)) xs s)"
  by (induction xs arbitrary: s) (simp_all add: drop_ok)

lemma drop_all_listing:
  "ok s \<Longrightarrow> fst (listing s) = Inr ts \<Longrightarrow> set xs \<subseteq> set ts \<Longrightarrow> distinct xs \<Longrightarrow>
     fst (listing (fold (\<lambda>n s. snd (drop_turn n s)) xs s)) = Inr (filter (\<lambda>m. m \<notin> set xs) ts)"
proof (induction xs arbitrary: s ts)
  case (Cons x xs)
  have "fst (listing (snd (drop_turn x s))) = Inr (filter (\<lambda>m. m \<noteq> x) ts)"
    using Cons.prems by (simp add: drop_listing)
  moreover have "set xs \<subseteq> set (filter (\<lambda>m. m \<noteq> x) ts)" using Cons.prems by auto
  ultimately show ?case using Cons.IH [of "snd (drop_turn x s)"] Cons.prems
    by (simp add: drop_ok conj_commute)
qed simp

lemma drop_all_content:
  "ok s \<Longrightarrow> fst (listing s) = Inr ts \<Longrightarrow> set xs \<subseteq> set ts \<Longrightarrow> distinct xs \<Longrightarrow> 0 \<le> m \<Longrightarrow> m \<notin> set xs \<Longrightarrow>
     content (fold (\<lambda>n s. snd (drop_turn n s)) xs s) m = content s m"
proof (induction xs arbitrary: s ts)
  case (Cons x xs)
  have "fst (listing (snd (drop_turn x s))) = Inr (filter (\<lambda>m. m \<noteq> x) ts)"
    using Cons.prems by (simp add: drop_listing)
  moreover have "set xs \<subseteq> set (filter (\<lambda>m. m \<noteq> x) ts)" using Cons.prems by auto
  moreover have "content (snd (drop_turn x s)) m = content s m"
    using Cons.prems by (auto intro: drop_content)
  ultimately show ?case using Cons.IH [of "snd (drop_turn x s)"] Cons.prems by (simp add: drop_ok)
qed simp

text \<open>Dropping the first turns of the listing keeps exactly the newest ones.\<close>

lemma drop_oldest:
  assumes "ok s" "fst (listing s) = Inr ts"
  shows "fst (listing (fold (\<lambda>n s. snd (drop_turn n s)) (take k ts) s)) = Inr (drop k ts)"
proof -
  have d: "distinct ts" using listing_sorted [OF assms(1)] assms(2) by auto
  have "filter (\<lambda>m. m \<notin> set (take k ts)) ts = drop k ts"
  proof -
    have "filter (\<lambda>m. m \<notin> set (take k ts)) (take k ts @ drop k ts) = drop k ts"
      unfolding filter_append using set_take_disj_set_drop_if_distinct [OF d order.refl, of k]
      by (auto simp: filter_empty_conv filter_id_conv)
    then show ?thesis by simp
  qed
  then show ?thesis
    using drop_all_listing [OF assms, of "take k ts"] d by (simp add: set_take_subset)
qed

end

definition turn_content :: "'t torch \<Rightarrow> string \<Rightarrow> 't manager \<Rightarrow> int \<Rightarrow> 't snapshot res" where
  "turn_content T cid M n = disk_load T M cid (Inl (nat n))"

definition archive_ok :: "string \<Rightarrow> 't manager \<Rightarrow> bool" where
  "archive_ok cid M = (manager_ok M \<and> sanitize_path_component cid = Inr cid)"

lemma sorted_distinct_eq:
  "sorted xs \<Longrightarrow> distinct xs \<Longrightarrow> sorted ys \<Longrightarrow> distinct ys \<Longrightarrow> set xs = set ys \<Longrightarrow> xs = (ys :: int list)"
  by (metis sorted_distinct_set_unique)

lemma archive_listing:
  assumes "archive_ok cid M"
  shows "fst (list_snapshots cid M) = Inr ts \<longleftrightarrow> sorted ts \<and> distinct ts \<and> set ts = stored_turns M cid"
proof -
  have M: "manager_ok M" "sanitize_path_component cid = Inr cid" using assms by (simp_all add: archive_ok_def)
  obtain us where us: "list_snapshots cid M = (Inr us, mkdir_conv (conv_dir_name cid) M)"
    "sorted us" "distinct us" "set us = stored_turns M cid"
    by (rule list_snapshots_eq [OF M])
  then show ?thesis using sorted_distinct_eq [of us ts] by auto
qed

lemma archive_list_state:
  "archive_ok cid M \<Longrightarrow> snd (list_snapshots cid M) = mkdir_conv (conv_dir_name cid) M"
  by (auto simp: archive_ok_def elim: list_snapshots_eq)

lemma archive_paths:
  "archive_ok cid M \<Longrightarrow> 0 \<le> n \<Longrightarrow> \<exists>p. paths_of cid (Some n) None = Inr p"
  "slot_of (Some n) None = Inl (nat n)"
  by (auto simp: archive_ok_def paths_of_def slot_of_def str_truthy_def Let_def)

lemma stored_turns_cong:
  "(\<And>n. fs_read M (meta_loc cid (Inl n)) = fs_read M' (meta_loc cid (Inl n))) \<Longrightarrow>
     stored_turns M cid = stored_turns M' cid"
  by (simp add: stored_turns_def fs_exists_def)

lemma stored_turns_mkdir [simp]: "stored_turns (mkdir_conv d M) cid = stored_turns M cid"
  by (rule stored_turns_cong) (simp add: fs_simps)

lemma stored_turns_delete:
  assumes "archive_ok cid M" "0 \<le> n"
  shows "stored_turns (snd (delete_snapshot cid (Some n) None M)) cid = stored_turns M cid - {n}"
proof -
  obtain p where p: "paths_of cid (Some n) None = Inr p" using archive_paths(1) [OF assms] by blast
  have "base_ok M" using assms by (simp add: archive_ok_def manager_ok_parts)
  from delete_snapshot_eq(2) [OF this p] show ?thesis using assms(2)
    by (auto simp: stored_turns_def fs_exists_def archive_paths(2))
qed

lemma archive_delete:
  assumes "archive_ok cid M" "0 \<le> n"
  shows "fst (delete_snapshot cid (Some n) None M) =
      Inr (fs_exists M (meta_loc cid (Inl (nat n))) \<or> fs_exists M (state_loc cid (Inl (nat n))))"
    "cid' \<noteq> cid \<or> s \<noteq> Inl (nat n) \<Longrightarrow>
       disk_load T (snd (delete_snapshot cid (Some n) None M)) cid' s = disk_load T M cid' s"
proof -
  obtain p where p: "paths_of cid (Some n) None = Inr p" using archive_paths(1) [OF assms] by blast
  have b: "base_ok M" using assms by (simp add: archive_ok_def manager_ok_parts)
  show "fst (delete_snapshot cid (Some n) None M) =
      Inr (fs_exists M (meta_loc cid (Inl (nat n))) \<or> fs_exists M (state_loc cid (Inl (nat n))))"
    using delete_snapshot_eq(1) [OF b p] by (simp add: archive_paths(2))
  show "disk_load T (snd (delete_snapshot cid (Some n) None M)) cid' s = disk_load T M cid' s"
    if "cid' \<noteq> cid \<or> s \<noteq> Inl (nat n)"
    using that by (auto simp: disk_load_def delete_snapshot_eq(2) [OF b p] archive_paths(2))
qed

lemma archive_delete_ok: "archive_ok cid M \<Longrightarrow> archive_ok cid (snd (delete_snapshot cid' turn br M))"
  by (simp add: archive_ok_def delete_snapshot_manager_ok)

interpretation store: turn_archive
  "list_snapshots cid" "\<lambda>n. delete_snapshot cid (Some n) None" "turn_content T cid" "archive_ok cid"
  for cid :: string and T :: "'t torch"
proof (unfold_locales, goal_cases)
  case (1 s)
  then show ?case
    using archive_listing [OF 1] finite_subset
    by (auto simp: archive_ok_def elim: list_snapshots_eq [of s cid])
next
  case (2 s)
  then show ?case by (simp add: archive_ok_def list_snapshots_manager_ok)
next
  case (3 s)
  obtain ts where ts: "fst (list_snapshots cid s) = Inr ts"
    using 3 by (auto simp: archive_ok_def elim: list_snapshots_eq [of s cid])
  have "archive_ok cid (snd (list_snapshots cid s))" using 3 by (simp add: archive_ok_def list_snapshots_manager_ok)
  then show ?case using ts archive_listing [OF 3, of ts] 
    by (simp add: archive_list_state [OF 3] archive_listing)
next
  case (4 s)
  then show ?case by (simp add: archive_list_state turn_content_def disk_load_def fs_simps fun_eq_iff)
next
  case (5 s ts n)
  then have "n \<in> stored_turns s cid" by (simp add: archive_listing)
  then show ?case using 5 archive_delete(1) [of cid s n] by (simp add: stored_turns_def)
next
  case (6 s n)
  then show ?case by (rule archive_delete_ok)
next
  case (7 s ts n)
  then have "0 \<le> n" by (auto simp: archive_listing stored_turns_def)
  then show ?case using 7 by (auto simp: archive_listing archive_delete_ok stored_turns_delete sorted_wrt_filter)
next
  case (8 s ts n m)
  then have "0 \<le> n" by (auto simp: archive_listing stored_turns_def)
  with 8 have "nat m \<noteq> nat n" by simp
  then show ?case using archive_delete(2) [OF 8(1) \<open>0 \<le> n\<close>] by (simp add: turn_content_def)
qed

subsection \<open>Accepted keys and the results of each operation\<close>

text \<open>A conversation id with a turn number or a branch name that the manager accepts.\<close>

definition valid_component :: "string \<Rightarrow> bool" where
  "valid_component s = (sanitize_path_component s = Inr s)"

definition valid_key :: "string \<Rightarrow> int option \<Rightarrow> string option \<Rightarrow> bool" where
  "valid_key cid turn br =
     (valid_component cid \<and>
      (case (br, turn) of
         (Some (c # b), _) \<Rightarrow> valid_component (c # b)
       | (_, Some n) \<Rightarrow> 0 \<le> n
       | _ \<Rightarrow> False))"

lemma sanitize_cases: "sanitize_path_component s = (if valid_component s then Inr s else Inl ValueError)"
  by (simp add: valid_component_def sanitize_path_component_def)

lemma paths_of_valid:
  "paths_of cid turn br =
     (if valid_key cid turn br
      then Inr (meta_loc cid (slot_of turn br), state_loc cid (slot_of turn br)) else Inl ValueError)"
  by (auto simp: paths_of_def valid_key_def sanitize_cases meta_loc_def state_loc_def slot_of_def
      str_truthy_def Let_def split: option.split list.split)

abbreviation md_valid :: "snapshot_metadata \<Rightarrow> bool" where
  "md_valid md \<equiv> valid_key (md_conversation_id md) (md_turn_number md) (md_branch_name md)"

lemma load_snapshot_result:
  "base_ok M \<Longrightarrow> fst (load_snapshot T cid turn br M) =
     (if valid_key cid turn br then disk_load T M cid (slot_of turn br) else Inl ValueError)"
  by (simp add: load_snapshot_eq paths_of_valid)

text \<open>What a save leaves in its own slot, for every point of failure.\<close>

lemma disk_load_saved:
  assumes "base_ok M" "state_ok T False cs t" "md_valid md"
  shows "disk_load T (snd (save_snapshot T None cs t md M)) (md_conversation_id md) (md_slot md) = Inr (cs, t, md)"
proof -
  have p: "md_paths md = Inr (meta_loc (md_conversation_id md) (md_slot md), state_loc (md_conversation_id md) (md_slot md))"
    using assms(3) by (simp add: paths_of_valid)
  show ?thesis unfolding disk_load_def save_snapshot_ok(2) [OF assms(1,2) p]
    using assms(2) by (simp add: read_snapshot_saved)
qed

lemma disk_load_state_fault:
  assumes "base_ok M" "f \<in> {Fail_save_file, Fail_rename_state}"
    "state_ok T False cs t" "md_valid md"
  shows "fst (save_snapshot T (Some f) cs t md M) = Inl OSError"
    "disk_load T' (snd (save_snapshot T (Some f) cs t md M)) (md_conversation_id md) (md_slot md) =
       disk_load T' M (md_conversation_id md) (md_slot md)"
proof -
  let ?cid = "md_conversation_id md" and ?s = "md_slot md"
  have p: "md_paths md = Inr (meta_loc ?cid ?s, state_loc ?cid ?s)" using assms(4) by (simp add: paths_of_valid)
  have r: "loc_ready (paths_mkdir ?cid (md_branch_name md) M) (tmp_state ?cid ?s)"
    using paths_ready(2) [OF p] by (simp add: loc_with_suffix_ready)
  show "fst (save_snapshot T (Some f) cs t md M) = Inl OSError"
    using assms p by (auto simp: save_snapshot_def is_valid_iff state_ok_nonempty get_snapshot_paths_eq
        write_state_def Let_def)
  show "disk_load T' (snd (save_snapshot T (Some f) cs t md M)) ?cid ?s = disk_load T' M ?cid ?s"
    using assms p r by (auto simp: save_snapshot_def is_valid_iff state_ok_nonempty get_snapshot_paths_eq
        write_state_def Let_def disk_load_def fs_simps)
qed

lemma disk_load_metadata_fault:
  assumes "base_ok M" "f \<in> {Fail_open_json, Fail_dump_json, Fail_rename_json}"
    "state_ok T False cs t" "md_valid md"
  shows "fst (save_snapshot T (Some f) cs t md M) = Inl OSError"
    "disk_load T' (snd (save_snapshot T (Some f) cs t md M)) (md_conversation_id md) (md_slot md) =
       Inl FileNotFoundError"
proof -
  let ?cid = "md_conversation_id md" and ?s = "md_slot md"
  have p: "md_paths md = Inr (meta_loc ?cid ?s, state_loc ?cid ?s)" using assms(4) by (simp add: paths_of_valid)
  obtain M1 u M2 v M3 where ph:
    "loc_ready M1 (state_loc ?cid ?s)"
    "write_state (Some f) (state_loc ?cid ?s) (state_dict cs t) M1 = (u, M2)"
    "write_metadata (Some f) (meta_loc ?cid ?s) (state_loc ?cid ?s) md M2 = (v, M3)"
    "save_snapshot T (Some f) cs t md M =
       (case u of Inl e \<Rightarrow> (Inl e, M2) | Inr _ \<Rightarrow>
         (case v of Inl e \<Rightarrow> (Inl e, M3) | Inr _ \<Rightarrow> (Inr (meta_loc ?cid ?s, state_loc ?cid ?s), M3)))"
    by (rule save_snapshot_phases [OF assms(1,3) p, of "Some f"]) blast
  have u: "u = Inr ()" using ph(2) assms(2) by (auto simp: write_state_def Let_def)
  have v: "v = Inl OSError" "fs_read M3 (state_loc ?cid ?s) = None"
    using ph(3) assms(2) by (auto simp: write_metadata_def Let_def fs_simps)
  show "fst (save_snapshot T (Some f) cs t md M) = Inl OSError" using ph(4) u v by simp
  have "read_snapshot T' mf None = Inl FileNotFoundError" for mf
    by (simp add: read_snapshot_def split: option.split dfile.split)
  then show "disk_load T' (snd (save_snapshot T (Some f) cs t md M)) ?cid ?s = Inl FileNotFoundError"
    using ph(4) u v by (simp add: disk_load_def)
qed

lemma save_fault_cases:
  obtains "f = None" | g where "f = Some g" "g \<in> {Fail_save_file, Fail_rename_state}"
  | g where "f = Some g" "g \<in> {Fail_open_json, Fail_dump_json, Fail_rename_json}"
proof (cases f)
  case (Some g)
  then show thesis using that(2,3) by (cases g) auto
qed (use that in auto)

lemma save_snapshot_result:
  assumes "base_ok M"
  shows "fst (save_snapshot T f cs t md M) =
    (if \<not> state_ok T False cs t \<or> \<not> md_valid md then Inl ValueError
     else if f \<noteq> None then Inl OSError
     else Inr (meta_loc (md_conversation_id md) (md_slot md), state_loc (md_conversation_id md) (md_slot md)))"
proof (cases "state_ok T False cs t \<and> md_valid md")
  case False
  then show ?thesis using assms
    by (cases "state_ok T False cs t") (simp_all add: save_snapshot_rejects save_snapshot_bad_path paths_of_valid)
next
  case True
  then show ?thesis using assms
    by (cases rule: save_fault_cases [of f])
      (auto simp: save_snapshot_ok(1) paths_of_valid disk_load_state_fault disk_load_metadata_fault)
qed

lemma key_simps [simp]:
  "valid_key cid (Some n) None \<longleftrightarrow> valid_component cid \<and> 0 \<le> n"
  "valid_key cid None None = False"
  "valid_key cid turn (Some (c # b)) \<longleftrightarrow> valid_component cid \<and> valid_component (c # b)"
  "slot_of (Some n) None = Inl (nat n)"
  "slot_of turn (Some (c # b)) = Inr (c # b)"
  by (simp_all add: valid_key_def slot_of_def str_truthy_def)

lemma load_snapshot_frame:
  assumes "manager_ok M" "\<not> (cid' = md_conversation_id md \<and> slot_of turn' br' = md_slot md)"
  shows "fst (load_snapshot T' cid' turn' br' (snd (save_snapshot T f cs t md M))) =
    fst (load_snapshot T' cid' turn' br' M)"
proof -
  have "base_ok (snd (save_snapshot T f cs t md M))" using save_snapshot_manager_ok [OF assms(1)] by (rule manager_ok_parts)
  then show ?thesis using assms save_snapshot_frame [OF manager_ok_parts(1) [OF assms(1)], of cid' md "slot_of turn' br'" T' T f cs t]
    by (auto simp: load_snapshot_result manager_ok_parts)
qed

lemma stored_turns_save:
  assumes "base_ok M" "state_ok T False cs t" "md_valid md" "\<not> str_truthy (md_branch_name md)"
  shows "stored_turns (snd (save_snapshot T None cs t md M)) (md_conversation_id md) =
    insert (the (md_turn_number md)) (stored_turns M (md_conversation_id md))"
proof -
  let ?cid = "md_conversation_id md"
  have p: "md_paths md = Inr (meta_loc ?cid (md_slot md), state_loc ?cid (md_slot md))"
    using assms(3) by (simp add: paths_of_valid)
  have s: "md_slot md = Inl (nat (the (md_turn_number md)))" "0 \<le> the (md_turn_number md)"
    using assms(3,4) by (auto simp: slot_of_def valid_key_def str_truthy_def split: option.splits list.splits)
  show ?thesis using s
    by (auto simp: stored_turns_def fs_exists_def save_snapshot_ok(2) [OF assms(1,2) p])
qed

lemma get_latest_snapshot_eq:
  assumes "archive_ok cid M" "fst (list_snapshots cid M) = Inr ts"
  shows "fst (get_latest_snapshot cid M) =
    (if ts = [] then Inr None
     else case fs_read M (meta_loc cid (Inl (nat (last ts)))) of
            Some (Json_file md) \<Rightarrow> Inr (Some (last ts, md))
          | _ \<Rightarrow> Inl JSONDecodeError)"
proof (cases "ts = []")
  case True
  then show ?thesis using assms(2) by (cases "list_snapshots cid M") (simp add: get_latest_snapshot_def)
next
  case False
  let ?n = "last ts"
  have n: "?n \<in> stored_turns M cid" using False assms archive_listing [OF assms(1), of ts] last_in_set by blast
  then have n0: "0 \<le> ?n" and ex: "fs_read M (meta_loc cid (Inl (nat ?n))) \<noteq> None"
    by (simp_all add: stored_turns_def fs_exists_def)
  have M: "base_ok M" "valid_component cid"
    using assms(1) by (simp_all add: archive_ok_def manager_ok_parts valid_component_def)
  let ?M1 = "mkdir_conv (conv_dir_name cid) M"
  have l: "list_snapshots cid M = (Inr ts, ?M1)"
    using assms(2) archive_list_state [OF assms(1)] by (cases "list_snapshots cid M") simp
  have "base_ok ?M1" using M by (simp add: base_ok_def)
  moreover have "paths_of cid (Some ?n) None = Inr (meta_loc cid (Inl (nat ?n)), state_loc cid (Inl (nat ?n)))"
    using n0 M by (simp add: paths_of_valid valid_key_def slot_of_def str_truthy_def)
  ultimately show ?thesis using False ex l
    by (auto simp: get_latest_snapshot_def get_snapshot_paths_eq fs_simps Let_def split: option.split dfile.split)
qed


subsection \<open>Properties\<close>

text \<open>A store, a snapshot and metadata for concrete runs.\<close>

definition sample_manager :: "mat manager" where
  "sample_manager = \<lparr>sm_base_dir = [''snapshots''], sm_dirs = []\<rparr>"

definition sample_md :: "string \<Rightarrow> int option \<Rightarrow> string option \<Rightarrow> snapshot_metadata" where
  "sample_md cid turn br =
     \<lparr>md_conversation_id = cid, md_turn_number = turn, md_timestamp = 0, md_token_count = 2,
      md_model_name = ''m'', md_mamba_pool_idx = 1, md_req_pool_idx = 1, md_layer_config = [],
      md_active_tool_context = None, md_branch_name = br, md_parent_snapshot = None,
      md_fill_ids = Some [5, 7]\<rparr>"

lemma sample_manager_ok [simp]: "manager_ok sample_manager"
  by (simp add: sample_manager_def manager_ok_def base_ok_def)

lemma sample_state_ok [simp]: "state_ok mat_torch False [[[1]]] [[2]]"
  by (simp add: state_ok_def tensor_ok_def mat_torch_def allowed_dtypes_def)

lemma sample_component [simp]: "valid_component ''c1''" "valid_component ''b1''"
  by (simp_all add: valid_component_def sanitize_path_component_def re_match_component_def path_char_def
      contains_def startswith_def)

lemma sample_listing: "fst (list_snapshots ''c1'' sample_manager) = Inr []"
  using sample_component(1) [unfolded valid_component_def]
  by (simp add: archive_listing archive_ok_def stored_turns_def fs_exists_def fs_read_def
      sample_manager_def meta_loc_def manager_ok_def base_ok_def)

lemma sample_md_simps [simp]:
  "md_conversation_id (sample_md cid turn br) = cid" "md_turn_number (sample_md cid turn br) = turn"
  "md_branch_name (sample_md cid turn br) = br" "md_fill_ids (sample_md cid turn br) = Some [5, 7]"
  by (simp_all add: sample_md_def)

text \<open>
  C1: a snapshot that \<open>save_snapshot\<close> reports as saved is what \<open>load_snapshot\<close> then
  returns for the same conversation, turn and branch: the same layers in the same order,
  the same temporal state and the same metadata. Every other key loads what it loaded before.
\<close>

theorem save_load_round_trip:
  assumes "manager_ok M" and "save_snapshot T f cs t md M = (Inr p, M')"
  shows "fst (load_snapshot T (md_conversation_id md) (md_turn_number md) (md_branch_name md) M') = Inr (cs, t, md) \<and>
    (\<forall>cid' turn' br'. \<not> (cid' = md_conversation_id md \<and> slot_of turn' br' = md_slot md) \<longrightarrow>
      fst (load_snapshot T cid' turn' br' M') = fst (load_snapshot T cid' turn' br' M))"
proof -
  have M': "M' = snd (save_snapshot T f cs t md M)" and p: "fst (save_snapshot T f cs t md M) = Inr p"
    using assms(2) by simp_all
  have b: "base_ok M" using assms(1) by (rule manager_ok_parts)
  have c: "state_ok T False cs t" "md_valid md" "f = None"
    using p by (simp_all add: save_snapshot_result [OF b] split: if_splits)
  have "manager_ok M'" unfolding M' by (rule save_snapshot_manager_ok [OF assms(1)])
  then have b': "base_ok M'" by (rule manager_ok_parts)
  have "disk_load T M' (md_conversation_id md) (md_slot md) = Inr (cs, t, md)"
    using disk_load_saved [OF b c(1,2)] c(3) M' by simp
  with b' c(2) have "fst (load_snapshot T (md_conversation_id md) (md_turn_number md) (md_branch_name md) M') =
      Inr (cs, t, md)"
    by (simp add: load_snapshot_result)
  then show ?thesis using load_snapshot_frame [OF assms(1)] M' by blast
qed

theorem save_load_round_trip_witness:
  "fst (load_snapshot mat_torch ''c1'' (Some 3) None
     (snd (save_snapshot mat_torch None [[[1]]] [[2]] (sample_md ''c1'' (Some 3) None) sample_manager))) =
   Inr ([[[1]]], [[2]], sample_md ''c1'' (Some 3) None)"
proof -
  let ?md = "sample_md ''c1'' (Some 3) None"
  obtain p M' where s: "save_snapshot mat_torch None [[[1]]] [[2]] ?md sample_manager = (Inr p, M')"
    using save_snapshot_result [OF manager_ok_parts(1) [OF sample_manager_ok], of mat_torch None "[[[1]]]" "[[2]]" ?md]
    by (cases "save_snapshot mat_torch None [[[1]]] [[2]] ?md sample_manager") auto
  show ?thesis using save_load_round_trip [OF sample_manager_ok s] s by simp
qed



text \<open>
  C31: a save that the disk interrupts never leaves a mixture of old and new files behind a
  key. If the tensors could not be written the key loads what it did before; if they were
  written and the metadata was not, the key loads nothing. The second case also holds when
  the key held a good snapshot: it is lost.
\<close>

theorem interrupted_save:
  assumes "manager_ok M" and "state_ok T False cs t" and "md_valid md"
  shows "fst (save_snapshot T (Some f) cs t md M) = Inl OSError \<and>
    fst (load_snapshot T (md_conversation_id md) (md_turn_number md) (md_branch_name md)
           (snd (save_snapshot T (Some f) cs t md M))) =
      (if f \<in> {Fail_save_file, Fail_rename_state}
       then fst (load_snapshot T (md_conversation_id md) (md_turn_number md) (md_branch_name md) M)
       else Inl FileNotFoundError)"
proof -
  have b: "base_ok M" "base_ok (snd (save_snapshot T (Some f) cs t md M))"
    using assms(1) save_snapshot_manager_ok [OF assms(1)] by (auto intro: manager_ok_parts)
  have "f \<in> {Fail_save_file, Fail_rename_state} \<or> f \<in> {Fail_open_json, Fail_dump_json, Fail_rename_json}"
    by (cases f) auto
  then show ?thesis using assms b disk_load_state_fault [OF b(1) _ assms(2,3), of f]
      disk_load_metadata_fault [OF b(1) _ assms(2,3), of f]
    by (auto simp: load_snapshot_result)
qed

theorem interrupted_save_witness:
  "fst (load_snapshot mat_torch ''c1'' (Some 3) None
     (snd (save_snapshot mat_torch (Some Fail_dump_json) [[[1]]] [[2]] (sample_md ''c1'' (Some 3) None)
       (snd (save_snapshot mat_torch None [[[1]]] [[2]] (sample_md ''c1'' (Some 3) None) sample_manager))))) =
   Inl FileNotFoundError"
  using interrupted_save [OF save_snapshot_manager_ok [OF sample_manager_ok, of mat_torch None "[[[1]]]" "[[2]]"
        "sample_md ''c1'' (Some 3) None"] sample_state_ok, of "sample_md ''c1'' (Some 3) None" Fail_dump_json]
  by simp

text \<open>Full paths, and components that stay inside a directory.\<close>

definition full_path :: "'t manager \<Rightarrow> loc \<Rightarrow> string list" where
  "full_path M l = (case l of (d, br, name) \<Rightarrow> sm_base_dir M @ [d] @ (if br then [''branches''] else []) @ [name])"

definition plain_component :: "string \<Rightarrow> bool" where
  "plain_component s = (s \<noteq> [] \<and> s \<noteq> ''.'' \<and> s \<noteq> ''..'' \<and> CHR ''/'' \<notin> set s)"

lemma plain_long: "2 < length s \<Longrightarrow> CHR ''/'' \<notin> set s \<Longrightarrow> plain_component s"
  by (auto simp: plain_component_def)

lemma no_slash_digits: "CHR ''/'' \<notin> set (nat_str n)"
  using nat_str_digits [rule_format, of "CHR ''/''" n] by (auto simp: is_digit_def)

lemma valid_component_no_slash: "valid_component s \<Longrightarrow> CHR ''/'' \<notin> set s"
  unfolding valid_component_def by (rule sanitize_Inr)

lemma valid_key_branch: "valid_key cid turn br \<Longrightarrow> slot_of turn br = Inr b \<Longrightarrow> valid_component b"
  by (auto simp: slot_of_def valid_key_def str_truthy_def split: if_splits option.splits list.splits)

lemma key_names_plain:
  assumes "valid_key cid turn br"
  shows "plain_component (conv_dir_name cid)"
    "plain_component (snd (snd (meta_loc cid (slot_of turn br))))"
    "plain_component (snd (snd (state_loc cid (slot_of turn br))))"
proof -
  have "valid_component cid" using assms by (simp add: valid_key_def)
  then show "plain_component (conv_dir_name cid)"
    using conv_dir_name_plain [of cid] valid_component_no_slash by (auto simp: plain_component_def)
  have b: "slot_of turn br = Inr b \<Longrightarrow> CHR ''/'' \<notin> set b" for b
    using valid_key_branch [OF assms] valid_component_no_slash by blast
  show "plain_component (snd (snd (meta_loc cid (slot_of turn br))))"
    "plain_component (snd (snd (state_loc cid (slot_of turn br))))"
    using b by (cases "slot_of turn br"; simp add: meta_loc_def state_loc_def turn_metadata_name_def
        turn_state_name_def branch_metadata_name_def branch_state_name_def plain_long no_slash_digits)+
qed

lemma full_path_confined:
  assumes "base_ok M" "plain_component (fst l)" "plain_component (snd (snd l))"
  shows "\<exists>rel. full_path M l = sm_base_dir M @ rel \<and> rel \<noteq> [] \<and> list_all plain_component rel \<and>
      path_resolve (full_path M l) = full_path M l"
proof -
  let ?rel = "[fst l] @ (if fst (snd l) then [''branches''] else []) @ [snd (snd l)]"
  have r: "list_all plain_component ?rel" using assms by (simp add: plain_component_def)
  have "path_resolve (sm_base_dir M @ ?rel) = sm_base_dir M @ ?rel"
    using assms by (intro path_resolve_plain) (auto simp: base_ok_def plain_component_def)
  then show ?thesis using r by (intro exI [of _ ?rel]) (cases l, simp add: full_path_def)
qed

text \<open>
  C24: no conversation id and no branch name leads out of the snapshot directory. Whatever
  strings \<open>_get_snapshot_paths\<close> is given, the two paths it returns are the base directory
  followed by the conversation's directory, by \<open>branches\<close> for a branch, and by a file
  name; the components below the base contain no slash and are not a dot or two dots, so
  that resolving the path changes nothing.
\<close>

theorem snapshot_paths_confined:
  assumes "base_ok M" and "get_snapshot_paths cid turn br M = (Inr (mp, sp), M')"
  shows "\<forall>l \<in> {mp, sp}. \<exists>rel. full_path M l = sm_base_dir M @ rel \<and> rel \<noteq> [] \<and> list_all plain_component rel \<and>
      path_resolve (full_path M l) = full_path M l"
proof -
  have v: "valid_key cid turn br" and l: "mp = meta_loc cid (slot_of turn br)" "sp = state_loc cid (slot_of turn br)"
    using assms by (auto simp: get_snapshot_paths_eq paths_of_valid split: if_splits)
  have "fst mp = conv_dir_name cid" "fst sp = conv_dir_name cid"
    unfolding l by (simp_all add: meta_loc_def state_loc_def split: sum.split)
  then show ?thesis
    using full_path_confined [OF assms(1), of mp] full_path_confined [OF assms(1), of sp] key_names_plain [OF v] l
    by (simp del: ex_simps)
qed

theorem snapshot_paths_confined_witness:
  "\<exists>mp sp M'. get_snapshot_paths ''c1'' None (Some ''b1'') sample_manager = (Inr (mp, sp), M') \<and>
     path_resolve (full_path sample_manager mp) = full_path sample_manager mp"
proof -
  have b: "base_ok sample_manager" by (rule manager_ok_parts) simp
  let ?m = "meta_loc ''c1'' (Inr ''b1'')" and ?s = "state_loc ''c1'' (Inr ''b1'')"
  have g: "get_snapshot_paths ''c1'' None (Some ''b1'') sample_manager =
      (Inr (?m, ?s), paths_mkdir ''c1'' (Some ''b1'') sample_manager)"
    using b by (simp add: get_snapshot_paths_eq paths_of_valid)
  from snapshot_paths_confined [OF b g] have "path_resolve (full_path sample_manager ?m) = full_path sample_manager ?m"
    by blast
  with g show ?thesis by blast
qed

lemma last_sorted_ge: "sorted xs \<Longrightarrow> x \<in> set xs \<Longrightarrow> x \<le> last (xs :: int list)"
  by (induction xs) auto

lemma last_insort_insert:
  assumes "sorted ts"
  shows "last (insort_insert n ts) = (if \<forall>m \<in> set ts. m \<le> n then n else last (ts :: int list))"
proof -
  let ?u = "insort_insert n ts"
  have u: "sorted ?u" "set ?u = insert n (set ts)"
    using assms by (rule sorted_insort_insert, intro set_insort_insert)
  then have l: "last ?u \<in> insert n (set ts)" using last_in_set [of ?u] by (metis insert_not_empty set_empty)
  have ge: "m \<le> last ?u" if "m \<in> insert n (set ts)" for m
    by (rule last_sorted_ge [OF u(1)]) (use u(2) that in blast)
  show ?thesis
  proof (cases "\<forall>m \<in> set ts. m \<le> n")
    case True
    have "last ?u \<le> n" using l by (rule insertE) (use True in \<open>auto dest: bspec\<close>)
    then show ?thesis unfolding if_P [OF True] using ge [OF insertI1] by (rule order.antisym)
  next
    case False
    then obtain m where m: "m \<in> set ts" "\<not> m \<le> n" by blast
    then have "last ts \<in> set ts" by (cases ts) simp_all
    then have "last ts \<le> last ?u" by (intro ge insertI2)
    moreover have "last ?u \<noteq> n" using ge [OF insertI2 [OF m(1)]] m(2) by auto
    then have "last ?u \<in> set ts" using l by simp
    then have "last ?u \<le> last ts" by (rule last_sorted_ge [OF assms])
    ultimately show ?thesis unfolding if_not_P [OF False] by simp
  qed
qed

text \<open>A saved turn joins the index; the newest turn and its metadata are what is asked for.\<close>

lemma archive_save:
  assumes "archive_ok cid M" "state_ok T False cs t" "md_conversation_id md = cid" "md_turn_number md = Some n"
    "md_branch_name md = None" "0 \<le> n" "fst (list_snapshots cid M) = Inr ts"
  shows "archive_ok cid (snd (save_snapshot T None cs t md M))"
    "fst (list_snapshots cid (snd (save_snapshot T None cs t md M))) = Inr (insort_insert n ts)"
    "fst (get_latest_snapshot cid (snd (save_snapshot T None cs t md M))) =
        (if \<forall>m \<in> set ts. m \<le> n then Inr (Some (n, md)) else fst (get_latest_snapshot cid M))"
proof -
  let ?M' = "snd (save_snapshot T None cs t md M)"
  have M: "manager_ok M" "base_ok M" "md_valid md"
    using assms by (simp_all add: archive_ok_def manager_ok_parts valid_component_def)
  show A: "archive_ok cid ?M'" using assms(1) save_snapshot_manager_ok [OF M(1)] by (simp add: archive_ok_def)
  have ts: "sorted ts" "distinct ts" "set ts = stored_turns M cid"
    using assms(7) archive_listing [OF assms(1)] by simp_all
  have "stored_turns ?M' cid = insert n (set ts)"
    using stored_turns_save [OF M(2) assms(2) M(3)] assms ts by (simp add: str_truthy_def)
  then show L: "fst (list_snapshots cid ?M') = Inr (insort_insert n ts)"
    using ts by (simp add: archive_listing [OF A] sorted_insort_insert distinct_insort_insert set_insort_insert)
  have p: "md_paths md = Inr (meta_loc cid (md_slot md), state_loc cid (md_slot md))"
    using M(3) assms(3) by (simp add: paths_of_valid)
  have rd: "fs_read ?M' (meta_loc cid (Inl k)) = (if k = nat n then Some (Json_file md) else fs_read M (meta_loc cid (Inl k)))" for k
    using save_snapshot_ok(2) [OF M(2) assms(2) p [folded assms(3)], of "meta_loc cid (Inl k)"] assms by auto
  have ne: "insort_insert n ts \<noteq> []" using set_insort_insert [of n ts] by auto
  show "fst (get_latest_snapshot cid ?M') =
        (if \<forall>m \<in> set ts. m \<le> n then Inr (Some (n, md)) else fst (get_latest_snapshot cid M))"
  proof (cases "\<forall>m \<in> set ts. m \<le> n")
    case True
    then show ?thesis using ne
      by (simp add: get_latest_snapshot_eq [OF A L] last_insort_insert [OF ts(1)] rd)
  next
    case False
    then have "ts \<noteq> []" by auto
    moreover have "last ts \<in> set ts" using calculation by simp
    moreover have "n < last ts" using False last_sorted_ge [OF ts(1)] by force
    moreover have "0 \<le> last ts" using calculation(2) ts(3) by (simp add: stored_turns_def)
    moreover have l: "last (insort_insert n ts) = last ts" using False last_insort_insert [OF ts(1)] by auto
    ultimately have "nat (last ts) \<noteq> nat n" using assms(6) by simp
    then have "fst (get_latest_snapshot cid ?M') = fst (get_latest_snapshot cid M)"
      unfolding get_latest_snapshot_eq [OF A L] get_latest_snapshot_eq [OF assms(1,7)] l rd
      using ne \<open>ts \<noteq> []\<close> by simp
    then show ?thesis unfolding if_not_P [OF False] .
  qed
qed

text \<open>
  C26: \<open>list_snapshots\<close> is an exact index of the turns on disk. It returns the turns in
  increasing order without repetition; saving a turn adds exactly that turn to the list,
  deleting a listed turn reports success and removes exactly that turn; and
  \<open>get_latest_snapshot\<close> answers with the greatest turn of the list and the metadata saved for it.
\<close>

theorem list_snapshots_index:
  assumes "manager_ok M" and "valid_component cid" and "fst (list_snapshots cid M) = Inr ts"
  shows "sorted ts \<and> distinct ts \<and>
    (state_ok T False cs t \<and> md_conversation_id md = cid \<and> md_turn_number md = Some n \<and>
     md_branch_name md = None \<and> 0 \<le> n \<longrightarrow>
       fst (list_snapshots cid (snd (save_snapshot T None cs t md M))) = Inr (insort_insert n ts) \<and>
       fst (get_latest_snapshot cid (snd (save_snapshot T None cs t md M))) =
         (if \<forall>m \<in> set ts. m \<le> n then Inr (Some (n, md))
          else fst (get_latest_snapshot cid M))) \<and>
    (n \<in> set ts \<longrightarrow>
       fst (delete_snapshot cid (Some n) None M) = Inr True \<and>
       fst (list_snapshots cid (snd (delete_snapshot cid (Some n) None M))) = Inr (filter (\<lambda>m. m \<noteq> n) ts))"
proof -
  have A: "archive_ok cid M" using assms(1,2) by (simp add: archive_ok_def valid_component_def)
  have "sorted ts" "distinct ts" using assms(3) archive_listing [OF A] by simp_all
  moreover note archive_save(2,3) [OF A _ _ _ _ _ assms(3), of T cs t md n]
  moreover note store.drop_succeeds [OF A assms(3), of n] store.drop_listing [OF A assms(3), of n]
  ultimately show ?thesis by simp
qed

theorem list_snapshots_index_witness:
  "fst (list_snapshots ''c1''
     (snd (save_snapshot mat_torch None [[[1]]] [[2]] (sample_md ''c1'' (Some 3) None) sample_manager))) = Inr [3]"
  using list_snapshots_index [OF sample_manager_ok sample_component(1) sample_listing,
      of mat_torch "[[[1]]]" "[[2]]" "sample_md ''c1'' (Some 3) None" 3]
  by (simp add: insort_insert_key_def)

lemma saved_loads:
  assumes "manager_ok M" "state_ok T False cs t" "md_valid md"
  shows "fst (load_snapshot T (md_conversation_id md) (md_turn_number md) (md_branch_name md)
           (snd (save_snapshot T None cs t md M))) = Inr (cs, t, md)"
  using disk_load_saved [OF manager_ok_parts(1) [OF assms(1)] assms(2,3)] assms(3)
    manager_ok_parts(1) [OF save_snapshot_manager_ok [OF assms(1)]]
  by (simp add: load_snapshot_result)

text \<open>
  The listings do not invert the names the manager itself gives. A conversation whose
  id contains \<open>conversation_\<close> and a branch whose name contains \<open>_metadata\<close> are saved and
  loaded, yet are listed under another name, since the listings remove every occurrence of
  the marker and not only the one the manager added.
\<close>

theorem listings_lose_names:
  "fst (load_snapshot mat_torch ''conversation_1'' (Some 0) None
      (snd (save_snapshot mat_torch None [[[1]]] [[2]] (sample_md ''conversation_1'' (Some 0) None) sample_manager))) =
    Inr ([[[1]]], [[2]], sample_md ''conversation_1'' (Some 0) None) \<and>
   list_conversations
      (snd (save_snapshot mat_torch None [[[1]]] [[2]] (sample_md ''conversation_1'' (Some 0) None) sample_manager)) =
    [''1''] \<and>
   fst (list_branches ''c1''
      (snd (save_snapshot mat_torch None [[[1]]] [[2]] (sample_md ''c1'' None (Some ''a_metadata_b'')) sample_manager))) =
    Inr [''a_b'']"
proof (intro conjI)
  have "valid_component ''conversation_1''" by code_simp
  then show "fst (load_snapshot mat_torch ''conversation_1'' (Some 0) None
      (snd (save_snapshot mat_torch None [[[1]]] [[2]] (sample_md ''conversation_1'' (Some 0) None) sample_manager))) =
    Inr ([[[1]]], [[2]], sample_md ''conversation_1'' (Some 0) None)"
    using saved_loads [OF sample_manager_ok sample_state_ok, of "sample_md ''conversation_1'' (Some 0) None"] by simp
  show "list_conversations
      (snd (save_snapshot mat_torch None [[[1]]] [[2]] (sample_md ''conversation_1'' (Some 0) None) sample_manager)) =
    [''1'']"
    by code_simp
  show "fst (list_branches ''c1''
      (snd (save_snapshot mat_torch None [[[1]]] [[2]] (sample_md ''c1'' None (Some ''a_metadata_b'')) sample_manager))) =
    Inr [''a_b'']"
    by code_simp
qed

end
