(* ===== verification/Snapshot_Policy.thy ===== *)
theory Snapshot_Policy
  imports Store_Laws
begin

section \<open>The retention policy: when to snapshot, what to keep\<close>

text \<open>
  \<open>SnapshotTriggerPolicy\<close>, \<open>SnapshotRetentionConfig\<close> and \<open>SnapshotRetentionPolicy\<close> of
  \<open>snapshot/snapshot_policy.py\<close>. The policy holds a reference to the snapshot manager that
  the rest of the system uses too, so the manager is an argument and a result of the
  operations that reach it. An \<open>except Exception\<close> clause catches every error of the model.
\<close>

datatype snapshot_trigger_policy = EVERY_TURN | EVERY_N_TURNS | ON_TOOL_CALL | MANUAL_ONLY

record retention_config =
  rc_max_snapshots_per_conversation :: int
  rc_snapshot_trigger_policy :: snapshot_trigger_policy
  rc_snapshot_every_n_turns :: int
  rc_enable_auto_pruning :: bool
  rc_min_snapshot_interval_seconds :: real
  rc_keep_named_branches :: bool

record retention_policy =
  rp_config :: retention_config
  rp_last_snapshot_time :: "(string, real) odict"

definition init_retention_policy :: "retention_config \<Rightarrow> retention_policy" where
  "init_retention_policy config = \<lparr>rp_config = config, rp_last_snapshot_time = []\<rparr>"

text \<open>The attributes of a request that \<open>should_snapshot\<close> reads; \<open>None\<close> is a missing attribute.\<close>

record request_attrs =
  ra_conversation_id :: "string option"
  ra_rid :: "string option"

fun j_truthy :: "jval \<Rightarrow> bool" where
  "j_truthy JNull = False"
| "j_truthy (JBool b) = b"
| "j_truthy (JInt n) = (n \<noteq> 0)"
| "j_truthy (JFloat x) = (x \<noteq> 0)"
| "j_truthy (JStr s) = (s \<noteq> [])"
| "j_truthy (JList xs) = (xs \<noteq> [])"
| "j_truthy (JObj kvs) = (kvs \<noteq> [])"

definition request_key :: "request_attrs \<Rightarrow> string option \<Rightarrow> string" where
  "request_key req conversation_id =
     (case conversation_id of
        Some c \<Rightarrow> c
      | None \<Rightarrow>
          (case ra_conversation_id req of
             Some c \<Rightarrow> c
           | None \<Rightarrow> (case ra_rid req of Some r \<Rightarrow> r | None \<Rightarrow> ''default'')))"

definition should_snapshot ::
  "real \<Rightarrow> request_attrs \<Rightarrow> int \<Rightarrow> string option \<Rightarrow> pydict option \<Rightarrow> retention_policy \<Rightarrow> bool res" where
  "should_snapshot now req turn_number conversation_id additional_context R =
     (let cid = request_key req conversation_id;
          last_time = (case od_get (rp_last_snapshot_time R) cid of None \<Rightarrow> 0 | Some t \<Rightarrow> t)
      in if now - last_time < rc_min_snapshot_interval_seconds (rp_config R) then Inr False
         else
           case rc_snapshot_trigger_policy (rp_config R) of
             MANUAL_ONLY \<Rightarrow> Inr False
           | EVERY_TURN \<Rightarrow> Inr True
           | EVERY_N_TURNS \<Rightarrow>
               let n = rc_snapshot_every_n_turns (rp_config R)
               in if n = 0 then Inl ZeroDivisionError else Inr (turn_number mod n = 0)
           | ON_TOOL_CALL \<Rightarrow>
               (case additional_context of
                  None \<Rightarrow> Inr False
                | Some d \<Rightarrow> Inr (j_truthy (dict_get d ''tool_call_made'' (JBool False)))))"

definition mark_snapshot_taken :: "real \<Rightarrow> string \<Rightarrow> retention_policy \<Rightarrow> retention_policy" where
  "mark_snapshot_taken now conversation_id R =
     R\<lparr>rp_last_snapshot_time := od_set conversation_id now (rp_last_snapshot_time R)\<rparr>"

text \<open>
  The loop that deletes turns and counts the deletions that raise nothing; the loop of
  \<open>cleanup_all_snapshots\<close> over branches is the same over names.
\<close>

fun delete_turns :: "string \<Rightarrow> int list \<Rightarrow> nat \<Rightarrow> 't manager \<Rightarrow> nat \<times> 't manager" where
  "delete_turns cid [] deleted_count M = (deleted_count, M)"
| "delete_turns cid (n # ns) deleted_count M =
     (case delete_snapshot cid (Some n) None M of
        (Inl e, M1) \<Rightarrow> delete_turns cid ns deleted_count M1
      | (Inr _, M1) \<Rightarrow> delete_turns cid ns (deleted_count + 1) M1)"

fun delete_branches :: "string \<Rightarrow> string list \<Rightarrow> nat \<Rightarrow> 't manager \<Rightarrow> nat \<times> 't manager" where
  "delete_branches cid [] deleted M = (deleted, M)"
| "delete_branches cid (b # bs) deleted M =
     (case delete_snapshot cid None (Some b) M of
        (Inl e, M1) \<Rightarrow> delete_branches cid bs deleted M1
      | (Inr _, M1) \<Rightarrow> delete_branches cid bs (deleted + 1) M1)"

definition prune_old_snapshots ::
  "retention_policy \<Rightarrow> string \<Rightarrow> 't manager \<Rightarrow> nat res \<times> 't manager" where
  "prune_old_snapshots R conversation_id M =
     (if \<not> rc_enable_auto_pruning (rp_config R) then (Inr 0, M)
      else
        (case list_snapshots conversation_id M of
           (Inl e, M1) \<Rightarrow> (Inl e, M1)
         | (Inr snapshots, M1) \<Rightarrow>
             let limit = rc_max_snapshots_per_conversation (rp_config R)
             in if int (length snapshots) \<le> limit then (Inr 0, M1)
                else
                  let to_delete = int (length snapshots) - limit;
                      (deleted_count, M2) =
                        delete_turns conversation_id (take (nat to_delete) (sort snapshots)) 0 M1
                  in (Inr deleted_count, M2)))"

definition branch_metadata :: "real \<Rightarrow> string \<Rightarrow> string \<Rightarrow> int \<Rightarrow> snapshot_metadata \<Rightarrow> snapshot_metadata" where
  "branch_metadata now conversation_id branch_name source_turn source_metadata =
     \<lparr>md_conversation_id = conversation_id,
      md_turn_number = md_turn_number source_metadata,
      md_timestamp = now,
      md_token_count = md_token_count source_metadata,
      md_model_name = md_model_name source_metadata,
      md_mamba_pool_idx = md_mamba_pool_idx source_metadata,
      md_req_pool_idx = md_req_pool_idx source_metadata,
      md_layer_config = md_layer_config source_metadata,
      md_active_tool_context = None,
      md_branch_name = Some branch_name,
      md_parent_snapshot = Some (''turn_'' @ int_str source_turn),
      md_fill_ids = None\<rparr>"

text \<open>
  The source turn: the one given, or the latest. An exception of \<open>get_latest_snapshot\<close> is
  not caught.
\<close>

definition branch_source :: "string \<Rightarrow> int option \<Rightarrow> 't manager \<Rightarrow> int option res \<times> 't manager" where
  "branch_source conversation_id source_turn M =
     (case source_turn of
        Some n \<Rightarrow> (Inr (Some n), M)
      | None \<Rightarrow>
          (case get_latest_snapshot conversation_id M of
             (Inl e, M1) \<Rightarrow> (Inl e, M1)
           | (Inr None, M1) \<Rightarrow> (Inr None, M1)
           | (Inr (Some (n, _)), M1) \<Rightarrow> (Inr (Some n), M1)))"

definition create_branch ::
  "'t torch \<Rightarrow> save_fault option \<Rightarrow> real \<Rightarrow> string \<Rightarrow> string \<Rightarrow> int option \<Rightarrow> 't manager \<Rightarrow> bool res \<times> 't manager" where
  "create_branch T fault now conversation_id branch_name source_turn M =
     (case branch_source conversation_id source_turn M of
        (Inl e, M1) \<Rightarrow> (Inl e, M1)
      | (Inr None, M1) \<Rightarrow> (Inr False, M1)
      | (Inr (Some n), M1) \<Rightarrow>
          (case load_snapshot T conversation_id (Some n) None M1 of
             (Inl e, M2) \<Rightarrow> (Inr False, M2)
           | (Inr (conv_states, temporal_states, source_metadata), M2) \<Rightarrow>
               (case save_snapshot T fault conv_states temporal_states
                       (branch_metadata now conversation_id branch_name n source_metadata) M2 of
                  (Inl e, M3) \<Rightarrow> (Inr False, M3)
                | (Inr _, M3) \<Rightarrow> (Inr True, M3))))"

definition delete_branch :: "string \<Rightarrow> string \<Rightarrow> 't manager \<Rightarrow> bool \<times> 't manager" where
  "delete_branch conversation_id branch_name M =
     (case delete_snapshot conversation_id None (Some branch_name) M of
        (Inl e, M1) \<Rightarrow> (False, M1)
      | (Inr _, M1) \<Rightarrow> (True, M1))"

definition policy_list_branches :: "string \<Rightarrow> 't manager \<Rightarrow> string list res \<times> 't manager" where
  "policy_list_branches conversation_id M = list_branches conversation_id M"

fun sum_sizes ::
  "('t dfile \<Rightarrow> nat) \<Rightarrow> string \<Rightarrow> (int option \<times> string option) list \<Rightarrow> nat \<Rightarrow> 't manager \<Rightarrow> nat res \<times> 't manager" where
  "sum_sizes st_size cid [] total_size M = (Inr total_size, M)"
| "sum_sizes st_size cid ((turn, br) # ks) total_size M =
     (case get_snapshot_size st_size cid turn br M of
        (Inl e, M1) \<Rightarrow> (Inl e, M1)
      | (Inr n, M1) \<Rightarrow> sum_sizes st_size cid ks (total_size + n) M1)"

definition get_total_snapshot_size ::
  "('t dfile \<Rightarrow> nat) \<Rightarrow> string \<Rightarrow> 't manager \<Rightarrow> nat res \<times> 't manager" where
  "get_total_snapshot_size st_size conversation_id M =
     (case list_snapshots conversation_id M of
        (Inl e, M1) \<Rightarrow> (Inl e, M1)
      | (Inr turns, M1) \<Rightarrow>
          (case sum_sizes st_size conversation_id (map (\<lambda>n. (Some n, None)) turns) 0 M1 of
             (Inl e, M2) \<Rightarrow> (Inl e, M2)
           | (Inr turn_total, M2) \<Rightarrow>
               (case list_branches conversation_id M2 of
                  (Inl e, M3) \<Rightarrow> (Inl e, M3)
                | (Inr bs, M3) \<Rightarrow> sum_sizes st_size conversation_id (map (\<lambda>b. (None, Some b)) bs) turn_total M3)))"

definition cleanup_all_snapshots :: "string \<Rightarrow> 't manager \<Rightarrow> nat res \<times> 't manager" where
  "cleanup_all_snapshots conversation_id M =
     (case list_snapshots conversation_id M of
        (Inl e, M1) \<Rightarrow> (Inl e, M1)
      | (Inr turns, M1) \<Rightarrow>
          let (deleted, M2) = delete_turns conversation_id turns 0 M1
          in (case list_branches conversation_id M2 of
                (Inl e, M3) \<Rightarrow> (Inl e, M3)
              | (Inr bs, M3) \<Rightarrow>
                  let (deleted', M4) = delete_branches conversation_id bs deleted M3
                  in (Inr deleted', M4)))"

subsection \<open>Deleting many snapshots\<close>

abbreviation drop_turns :: "string \<Rightarrow> int list \<Rightarrow> 't manager \<Rightarrow> 't manager" where
  "drop_turns cid ns M \<equiv> fold (\<lambda>n M. snd (delete_snapshot cid (Some n) None M)) ns M"

lemma delete_turns_state: "snd (delete_turns cid ns c M) = drop_turns cid ns M"
  by (induction ns arbitrary: c M) (auto split: prod.splits sum.splits)

lemma delete_turns_count:
  "archive_ok cid M \<Longrightarrow> \<forall>n \<in> set ns. 0 \<le> n \<Longrightarrow> fst (delete_turns cid ns c M) = c + length ns"
proof (induction ns arbitrary: c M)
  case (Cons n ns)
  obtain b M1 where d: "delete_snapshot cid (Some n) None M = (Inr b, M1)"
    using archive_delete(1) [OF Cons.prems(1), of n] Cons.prems(2)
    by (cases "delete_snapshot cid (Some n) None M") auto
  have "archive_ok cid M1" using archive_delete_ok [OF Cons.prems(1), of cid "Some n" None] d by simp
  then show ?case using Cons.IH [of M1 "c + 1"] Cons.prems(2) d by simp
qed simp

lemma drop_turns_frame:
  "archive_ok cid M \<Longrightarrow> \<forall>n \<in> set ns. 0 \<le> n \<Longrightarrow> cid' \<noteq> cid \<or> (\<forall>n \<in> set ns. s \<noteq> Inl (nat n)) \<Longrightarrow>
     disk_load T (drop_turns cid ns M) cid' s = disk_load T M cid' s"
proof (induction ns arbitrary: M)
  case (Cons n ns)
  have "disk_load T (drop_turns cid ns (snd (delete_snapshot cid (Some n) None M))) cid' s =
      disk_load T (snd (delete_snapshot cid (Some n) None M)) cid' s"
    using Cons.prems by (intro Cons.IH archive_delete_ok) auto
  also have "\<dots> = disk_load T M cid' s"
    using Cons.prems by (intro archive_delete(2)) auto
  finally show ?case by simp
qed simp

text \<open>The whole effect of pruning.\<close>

lemma prune_old_snapshots_eq:
  assumes "archive_ok cid M" "fst (list_snapshots cid M) = Inr ts" "rc_enable_auto_pruning (rp_config R)"
    and "k = nat (int (length ts) - rc_max_snapshots_per_conversation (rp_config R))"
  shows "fst (prune_old_snapshots R cid M) = Inr (length (take k ts))"
    "snd (prune_old_snapshots R cid M) = drop_turns cid (take k ts) (snd (list_snapshots cid M))"
proof -
  obtain M1 where l: "list_snapshots cid M = (Inr ts, M1)"
    using assms(2) by (cases "list_snapshots cid M") simp
  have A1: "archive_ok cid M1" using store.listing_ok [OF assms(1)] l by simp
  have ts: "sort ts = ts" "\<forall>n \<in> set ts. 0 \<le> n"
    using assms(2) archive_listing [OF assms(1), of ts] by (auto simp: sorted_sort_id stored_turns_def)
  have take: "\<forall>n \<in> set (take k ts). 0 \<le> n" using ts(2) by (meson in_set_takeD)
  show "fst (prune_old_snapshots R cid M) = Inr (length (take k ts))"
    "snd (prune_old_snapshots R cid M) = drop_turns cid (take k ts) (snd (list_snapshots cid M))"
    using assms(3,4) l ts delete_turns_count [OF A1 take, of 0] delete_turns_state [of cid "take k ts" 0 M1]
    by (auto simp: prune_old_snapshots_def Let_def split: prod.split)
qed

subsection \<open>Properties\<close>



lemma load_state_ok:
  "disk_load T M cid s = Inr (cs, t, md) \<Longrightarrow> state_ok T False cs t"
  by (auto simp: disk_load_def read_snapshot_def split: option.splits dfile.splits if_splits)

text \<open>
  A branch is a full copy of its source turn. If the source turn loads and the branch
  name is accepted, \<open>create_branch\<close> succeeds, the branch loads the same tensors with the
  source turn recorded as its parent, and no other snapshot changes; the token ids of the
  source (\<open>fill_ids\<close>) are not copied.
\<close>

theorem create_branch_copies:
  assumes "manager_ok M" and "valid_component (c # b)"
    and "fst (load_snapshot T cid (Some n) None M) = Inr (cs, t, md)"
  shows "fst (create_branch T None now cid (c # b) (Some n) M) = Inr True \<and>
    (\<exists>md'. fst (load_snapshot T cid None (Some (c # b)) (snd (create_branch T None now cid (c # b) (Some n) M))) =
       Inr (cs, t, md') \<and> md_parent_snapshot md' = Some (''turn_'' @ int_str n) \<and>
       md_token_count md' = md_token_count md \<and> md_fill_ids md' = None) \<and>
    (\<forall>cid' s. \<not> (cid' = cid \<and> s = Inr (c # b)) \<longrightarrow>
       disk_load T (snd (create_branch T None now cid (c # b) (Some n) M)) cid' s = disk_load T M cid' s)"
proof -
  have b: "base_ok M" using assms(1) by (rule manager_ok_parts)
  have v: "valid_component cid" "disk_load T M cid (Inl (nat n)) = Inr (cs, t, md)"
    using assms(3) by (auto simp: load_snapshot_result [OF b] split: if_splits)
  let ?M2 = "snd (load_snapshot T cid (Some n) None M)"
  have M2: "manager_ok ?M2" "\<And>c s. disk_load T ?M2 c s = disk_load T M c s"
    using load_snapshot_manager_ok [OF assms(1)] by (simp_all add: load_snapshot_eq [OF b] disk_load_def fs_simps)
  let ?bm = "branch_metadata now cid (c # b) n md"
  have bm: "md_valid ?bm" "md_slot ?bm = Inr (c # b)" "md_conversation_id ?bm = cid"
    using v(1) assms(2) by (simp_all add: branch_metadata_def)
  have ok: "state_ok T False cs t" by (rule load_state_ok [OF v(2)])
  have s: "fst (save_snapshot T None cs t ?bm ?M2) = Inr (meta_loc cid (Inr (c # b)), state_loc cid (Inr (c # b)))"
    using save_snapshot_result [OF manager_ok_parts(1) [OF M2(1)], of T None cs t ?bm] ok bm by simp
  have cr: "create_branch T None now cid (c # b) (Some n) M = (Inr True, snd (save_snapshot T None cs t ?bm ?M2))"
    using assms(3) s unfolding create_branch_def branch_source_def
    by (cases "load_snapshot T cid (Some n) None M"; cases "save_snapshot T None cs t ?bm ?M2") simp
  have "fst (load_snapshot T cid None (Some (c # b)) (snd (save_snapshot T None cs t ?bm ?M2))) = Inr (cs, t, ?bm)"
    using disk_load_saved [OF manager_ok_parts(1) [OF M2(1)] ok bm(1)] bm v(1) assms(2)
      manager_ok_parts(1) [OF save_snapshot_manager_ok [OF M2(1)]]
    by (simp add: load_snapshot_result)
  moreover have "disk_load T (snd (save_snapshot T None cs t ?bm ?M2)) cid' s = disk_load T M cid' s"
    if "\<not> (cid' = cid \<and> s = Inr (c # b))" for cid' s
    using save_snapshot_frame [OF manager_ok_parts(1) [OF M2(1)], of cid' ?bm s T T None cs t] that bm M2(2) by auto
  ultimately show ?thesis using cr by (auto simp: branch_metadata_def)
qed

theorem create_branch_copies_witness:
  "fst (create_branch mat_torch None 5 ''c1'' ''b1'' (Some 3)
     (snd (save_snapshot mat_torch None [[[1]]] [[2]] (sample_md ''c1'' (Some 3) None) sample_manager))) = Inr True"
proof -
  let ?M = "snd (save_snapshot mat_torch None [[[1]]] [[2]] (sample_md ''c1'' (Some 3) None) sample_manager)"
  have "fst (load_snapshot mat_torch ''c1'' (Some 3) None ?M) = Inr ([[[1]]], [[2]], sample_md ''c1'' (Some 3) None)"
    using saved_loads [OF sample_manager_ok sample_state_ok, of "sample_md ''c1'' (Some 3) None"] by simp
  from create_branch_copies [OF save_snapshot_manager_ok [OF sample_manager_ok] sample_component(2) this, of 5]
  show ?thesis by simp
qed

text \<open>
  Snapshots of a conversation are rate limited. After a snapshot is marked at time
  \<open>now\<close>, no request of that conversation is told to snapshot before the minimum interval
  has passed, under every trigger policy; once it has, the answer is the trigger policy's
  alone, and a period of zero turns raises \<open>ZeroDivisionError\<close>.
\<close>

theorem should_snapshot_rate_limit:
  "let R' = mark_snapshot_taken now (request_key req cid) R
   in should_snapshot later req turn cid ctx R' =
     (if later - now < rc_min_snapshot_interval_seconds (rp_config R) then Inr False
      else case rc_snapshot_trigger_policy (rp_config R) of
             MANUAL_ONLY \<Rightarrow> Inr False
           | EVERY_TURN \<Rightarrow> Inr True
           | EVERY_N_TURNS \<Rightarrow>
               if rc_snapshot_every_n_turns (rp_config R) = 0 then Inl ZeroDivisionError
               else Inr (rc_snapshot_every_n_turns (rp_config R) dvd turn)
           | ON_TOOL_CALL \<Rightarrow>
               Inr (case ctx of None \<Rightarrow> False
                    | Some d \<Rightarrow> \<exists>v. od_get d ''tool_call_made'' = Some v \<and> j_truthy v))"
  by (auto simp: should_snapshot_def mark_snapshot_taken_def Let_def dict_get_def dvd_eq_mod_eq_0
      split: snapshot_trigger_policy.split option.split)

lemma delete_snapshot_cases:
  assumes "base_ok M"
  shows "fs_read (snd (delete_snapshot cid turn br M)) l =
    (if valid_key cid turn br \<and> (l = meta_loc cid (slot_of turn br) \<or> l = state_loc cid (slot_of turn br))
     then None else fs_read M l)"
proof (cases "valid_key cid turn br")
  case True
  then have "paths_of cid turn br = Inr (meta_loc cid (slot_of turn br), state_loc cid (slot_of turn br))"
    by (simp add: paths_of_valid)
  from delete_snapshot_eq(2) [OF assms this] True show ?thesis by simp
next
  case False
  then have "paths_of cid turn br = Inl ValueError" by (simp add: paths_of_valid)
  from delete_snapshot_bad_path [OF assms this] False show ?thesis by (simp add: fs_simps)
qed

lemma delete_snapshot_shrinks:
  "base_ok M \<Longrightarrow> fs_read M l = None \<Longrightarrow> fs_read (snd (delete_snapshot cid turn br M)) l = None"
  by (simp add: delete_snapshot_cases)

lemma delete_snapshot_others:
  "base_ok M \<Longrightarrow> cid' \<noteq> cid \<Longrightarrow> disk_load T (snd (delete_snapshot cid turn br M)) cid' s = disk_load T M cid' s"
  by (simp add: disk_load_def delete_snapshot_cases)

lemma delete_branches_step:
  "snd (delete_branches cid (b # bs) c M) =
     snd (delete_branches cid bs c (snd (delete_snapshot cid None (Some b) M)))"
proof -
  have "snd (delete_branches cid bs c M) = snd (delete_branches cid bs c' M)" for bs c c' and M :: "'a manager"
  proof (induction bs arbitrary: c c' M)
    case (Cons b bs)
    show ?case
      by (simp split: prod.split sum.split) (use Cons.IH in blast)
  qed simp
  then show ?thesis by (auto split: prod.splits sum.splits)
qed

lemma delete_branches_manager_ok: "manager_ok M \<Longrightarrow> manager_ok (snd (delete_branches cid bs c M))"
  by (induction bs arbitrary: c M) (simp_all add: delete_branches_step delete_snapshot_manager_ok del: delete_branches.simps(2))

lemma delete_branches_gone:
  assumes "manager_ok M" "fs_read M l = None \<or> (\<exists>b \<in> set bs. valid_key cid None (Some b) \<and> l = meta_loc cid (slot_of None (Some b)))"
  shows "fs_read (snd (delete_branches cid bs c M)) l = None"
  using assms
proof (induction bs arbitrary: c M)
  case (Cons b bs)
  have base: "base_ok M" using Cons.prems(1) by (rule manager_ok_parts)
  let ?M1 = "snd (delete_snapshot cid None (Some b) M)"
  have ok: "manager_ok ?M1" by (rule delete_snapshot_manager_ok [OF Cons.prems(1)])
  have "fs_read ?M1 l = None \<or> (\<exists>b \<in> set bs. valid_key cid None (Some b) \<and> l = meta_loc cid (slot_of None (Some b)))"
    using Cons.prems(2) delete_snapshot_cases [OF base, of cid None "Some b" l] by auto
  from Cons.IH [OF ok this] show ?case by (simp only: delete_branches_step)
qed simp

lemma delete_branches_others:
  "manager_ok M \<Longrightarrow> cid' \<noteq> cid \<Longrightarrow> disk_load T (snd (delete_branches cid bs c M)) cid' s = disk_load T M cid' s"
  by (induction bs arbitrary: c M)
    (simp_all add: delete_branches_step delete_snapshot_manager_ok delete_snapshot_others manager_ok_parts
      del: delete_branches.simps(2))

lemma list_branches_eq:
  assumes "base_ok M" "valid_component cid"
  obtains bs where "list_branches cid M = (Inr bs, mkdir_conv (conv_dir_name cid) M)"
    "\<And>b. \<not> contains ''_metadata'' b \<Longrightarrow> fs_exists M (meta_loc cid (Inr b)) \<Longrightarrow> b \<in> set bs"
proof -
  let ?d = "conv_dir_name cid"
  let ?M1 = "mkdir_conv ?d M"
  have "loc_ready ?M1 (?d, False, [])" by (rule loc_ready_mkdir)
  then obtain cd where cd: "od_get (sm_dirs ?M1) ?d = Some cd" by (rule loc_readyE)
  have c: "get_conversation_dir cid M = (Inr ?d, ?M1)"
    using assms by (simp add: get_conversation_dir_eq valid_component_def)
  have rd: "fs_read M (meta_loc cid (Inr b)) = od_get (dir_files True cd) (branch_metadata_name b)" for b
    using fs_read_dir [OF cd, of True "branch_metadata_name b"] by (simp add: fs_simps meta_loc_def)
  show thesis
  proof (cases "cd_branches cd")
    case None
    then have "list_branches cid M = (Inr [], ?M1)" by (simp add: list_branches_def c cd)
    then show thesis by (rule that) (simp add: fs_exists_def rd dir_files_def None)
  next
    case (Some fs)
    then have l: "list_branches cid M = (Inr (sort (List.map_filter branch_of_name (od_keys fs))), ?M1)"
      by (simp add: list_branches_def c cd)
    have "b \<in> set (List.map_filter branch_of_name (od_keys fs))"
      if "\<not> contains ''_metadata'' b" "fs_exists M (meta_loc cid (Inr b))" for b
    proof -
      have "branch_metadata_name b \<in> set (od_keys fs)"
        using that(2) by (simp add: fs_exists_def rd dir_files_def Some map_of_eq_None_iff)
      moreover have "branch_of_name (branch_metadata_name b) = Some b"
        using that(1) by (rule branch_of_metadata_name)
      ultimately show ?thesis by (force simp: List.map_filter_def)
    qed
    then show thesis by (intro that [OF l]) simp
  qed
qed

lemma delete_listed_branches:
  assumes "manager_ok M" "valid_component cid" "list_branches cid M = (Inr bs, M')"
    and "valid_component b" "\<not> contains ''_metadata'' b"
  shows "fs_read (snd (delete_branches cid bs c M')) (meta_loc cid (Inr b)) = None"
proof -
  have M': "M' = mkdir_conv (conv_dir_name cid) M" "fs_exists M (meta_loc cid (Inr b)) \<Longrightarrow> b \<in> set bs"
    using list_branches_eq [OF manager_ok_parts(1) [OF assms(1)] assms(2)] assms(3,5) by (auto elim!: meta_mp)
  then have "manager_ok M'" using assms(1) by (simp add: manager_ok_ops)
  then show ?thesis
  proof (rule delete_branches_gone)
    obtain x y where xy: "b = x # y"
      using assms(4) by (cases b) (auto simp: valid_component_def sanitize_path_component_def)
    show "fs_read M' (meta_loc cid (Inr b)) = None \<or>
        (\<exists>b' \<in> set bs. valid_key cid None (Some b') \<and> meta_loc cid (Inr b) = meta_loc cid (slot_of None (Some b')))"
    proof (cases "fs_exists M (meta_loc cid (Inr b))")
      case True
      then show ?thesis using M'(2) assms(2,4) xy by (intro disjI2 bexI [of _ b]) simp_all
    next
      case False
      then show ?thesis by (simp add: M'(1) fs_exists_def fs_simps)
    qed
  qed
qed

text \<open>
  \<open>cleanup_all_snapshots\<close> leaves no turn of the conversation, and no named branch
  except possibly one whose name contains \<open>_metadata\<close>; it never raises for an accepted id
  and touches no other conversation.
\<close>

theorem cleanup_all_removes:
  assumes "manager_ok M" and "valid_component cid"
  shows "(\<exists>n. fst (cleanup_all_snapshots cid M) = Inr n) \<and>
    fst (list_snapshots cid (snd (cleanup_all_snapshots cid M))) = Inr [] \<and>
    (\<forall>b. valid_component b \<and> \<not> contains ''_metadata'' b \<longrightarrow>
       fst (load_snapshot T cid None (Some b) (snd (cleanup_all_snapshots cid M))) = Inl FileNotFoundError) \<and>
    (\<forall>cid' s. cid' \<noteq> cid \<longrightarrow> disk_load T (snd (cleanup_all_snapshots cid M)) cid' s = disk_load T M cid' s)"
proof -
  have A: "archive_ok cid M" using assms by (simp add: archive_ok_def valid_component_def)
  obtain ts where ts: "fst (list_snapshots cid M) = Inr ts" using store.listing_sorted [OF A] by blast
  let ?M1 = "snd (list_snapshots cid M)" and ?M2 = "snd (delete_turns cid ts 0 (snd (list_snapshots cid M)))"
  have A1: "archive_ok cid ?M1" and L1: "fst (list_snapshots cid ?M1) = Inr ts"
    using store.listing_ok [OF A] store.listing_same [OF A] ts by simp_all
  have d: "distinct ts" "\<forall>n \<in> set ts. 0 \<le> n"
    using ts archive_listing [OF A, of ts] by (auto simp: stored_turns_def)
  have A2: "archive_ok cid ?M2" unfolding delete_turns_state by (rule store.drop_all_ok [OF A1])
  have L2: "fst (list_snapshots cid ?M2) = Inr []"
    unfolding delete_turns_state using store.drop_all_listing [OF A1 L1 order.refl d(1)] by (simp add: filter_empty_conv)
  have ok2: "manager_ok ?M2" using A2 by (simp add: archive_ok_def)
  obtain bs where bs: "list_branches cid ?M2 = (Inr bs, mkdir_conv (conv_dir_name cid) ?M2)"
    using list_branches_eq [OF manager_ok_parts(1) [OF ok2] assms(2)] by blast
  let ?M3 = "mkdir_conv (conv_dir_name cid) ?M2" and ?c = "fst (delete_turns cid ts 0 ?M1)"
  let ?M4 = "snd (delete_branches cid bs ?c ?M3)"
  have eq: "cleanup_all_snapshots cid M = (Inr (fst (delete_branches cid bs ?c ?M3)), ?M4)"
    using ts bs unfolding cleanup_all_snapshots_def
    by (cases "list_snapshots cid M"; cases "delete_turns cid ts 0 ?M1") (simp add: split_beta)
  have ok3: "manager_ok ?M3" using ok2 by (rule manager_ok_ops)
  have ok4: "manager_ok ?M4" by (rule delete_branches_manager_ok [OF ok3])
  have A4: "archive_ok cid ?M4" using ok4 A by (simp add: archive_ok_def)
  have "stored_turns ?M4 cid = {}"
    using L2 archive_listing [OF A2, of "[]"] delete_branches_gone [OF ok3, of "meta_loc cid (Inl _)" bs cid ?c]
    by (auto simp: stored_turns_def fs_exists_def fs_simps)
  then have L4: "fst (list_snapshots cid ?M4) = Inr []" by (simp add: archive_listing [OF A4])
  have "fs_read ?M4 (meta_loc cid (Inr b)) = None" if "valid_component b" "\<not> contains ''_metadata'' b" for b
    by (rule delete_listed_branches [OF ok2 assms(2) bs that])
  then have "fst (load_snapshot T cid None (Some b) ?M4) = Inl FileNotFoundError"
    if "valid_component b" "\<not> contains ''_metadata'' b" for b
    using that assms(2) manager_ok_parts(1) [OF ok4]
    by (cases b) (auto simp: load_snapshot_result disk_load_def read_snapshot_def valid_component_def
        sanitize_path_component_def split: if_splits)
  moreover have "disk_load T ?M4 cid' s = disk_load T M cid' s" if "cid' \<noteq> cid" for cid' s
    using that delete_branches_others [OF ok3 that] drop_turns_frame [OF A1 d(2), of cid' s T]
    by (simp add: disk_load_def fs_simps delete_turns_state archive_list_state [OF A])
  ultimately show ?thesis using eq L4 by simp
qed

theorem cleanup_all_removes_witness:
  "fst (list_snapshots ''c1'' (snd (cleanup_all_snapshots ''c1''
     (snd (save_snapshot mat_torch None [[[1]]] [[2]] (sample_md ''c1'' (Some 3) None) sample_manager))))) = Inr []"
  using cleanup_all_removes [OF save_snapshot_manager_ok [OF sample_manager_ok] sample_component(1)] by blast

end
