(* ===== verification/Tier_Manager.thy ===== *)
theory Tier_Manager
  imports Host_Pool Conversation_Tracker Snapshot_Policy
begin

section \<open>The tier manager: warm and cold copies of a conversation\<close>

text \<open>
  \<open>TierManager\<close> and \<open>restore_latest_snapshots_to_warm_tier\<close> of \<open>snapshot/tier_manager.py\<close>. The
  manager holds references to the tracker, the host pool and the snapshot manager; they are
  fields of one record here, so that an operation is a function of the whole. Every public
  method runs under one lock, so calls from the scheduler and from the background thread
  interleave at the level of whole operations: the relation \<open>tier_reach\<close> of the theory \<open>Tier_Properties\<close>. One reading
  of the clock serves all the calls inside an operation. Model names and turn numbers in a
  metadata dictionary are JSON values, as the code stores them.
\<close>

record 't tiers =
  tm_tracker :: tracker
  tm_host_pool :: "'t host_pool"
  tm_manager :: "'t manager"
  tm_cleanup_interval :: real
  tm_model_path :: "string option"
  tm_cleanup_running :: bool

definition start_background_cleanup :: "'t tiers \<Rightarrow> 't tiers" where
  "start_background_cleanup S = (if tm_cleanup_running S then S else S\<lparr>tm_cleanup_running := True\<rparr>)"

definition stop_background_cleanup :: "'t tiers \<Rightarrow> 't tiers" where
  "stop_background_cleanup S = (if \<not> tm_cleanup_running S then S else S\<lparr>tm_cleanup_running := False\<rparr>)"

definition init_tiers ::
  "tracker \<Rightarrow> 't host_pool \<Rightarrow> 't manager \<Rightarrow> bool \<Rightarrow> real \<Rightarrow> string option \<Rightarrow> 't tiers" where
  "init_tiers conversation_tracker host_pool snapshot_manager enable_background_cleanup cleanup_interval model_path =
     (let S = \<lparr>tm_tracker = conversation_tracker, tm_host_pool = host_pool, tm_manager = snapshot_manager,
               tm_cleanup_interval = cleanup_interval, tm_model_path = model_path, tm_cleanup_running = False\<rparr>
      in if enable_background_cleanup then start_background_cleanup S else S)"

definition save_to_warm_tier ::
  "'t torch \<Rightarrow> real \<Rightarrow> string \<Rightarrow> 't list \<Rightarrow> 't \<Rightarrow> pydict option \<Rightarrow> string \<Rightarrow> 't tiers \<Rightarrow> bool res \<times> 't tiers" where
  "save_to_warm_tier T now conversation_id conv_states temporal_states metadata validation_policy S =
     (if \<not> vr_is_valid (validate_state_tensors T conv_states temporal_states None False) then
        (if validation_policy = ''raise'' then Inl SnapshotValidationError else Inr False, S)
      else
        let (success, P) = save_state T now conversation_id conv_states temporal_states metadata (tm_host_pool S);
            S1 = S\<lparr>tm_host_pool := P\<rparr>
        in if success then
             (Inr True,
              S1\<lparr>tm_tracker :=
                (if tracker_get_state conversation_id (tm_tracker S1) = None
                 then register_conversation now conversation_id WARM None metadata (tm_tracker S1)
                 else snd (transition_tier now conversation_id WARM None (tm_tracker S1)))\<rparr>)
           else (Inr False, S1))"

definition save_to_cold_tier ::
  "'t torch \<Rightarrow> save_fault option \<Rightarrow> real \<Rightarrow> string \<Rightarrow> 't list \<Rightarrow> 't \<Rightarrow> snapshot_metadata \<Rightarrow> 't tiers \<Rightarrow>
     bool \<times> 't tiers" where
  "save_to_cold_tier T fault now conversation_id conv_states temporal_states metadata S =
     (case save_snapshot T fault conv_states temporal_states metadata (tm_manager S) of
        (Inl e, M) \<Rightarrow> (False, S\<lparr>tm_manager := M\<rparr>)
      | (Inr _, M) \<Rightarrow>
          (True, S\<lparr>tm_manager := M,
                   tm_tracker := snd (transition_tier now conversation_id COLD None (tm_tracker S))\<rparr>))"

text \<open>\<open>self.model_path and model_name and model_name != self.model_path\<close>\<close>

definition model_mismatch :: "string option \<Rightarrow> jval \<Rightarrow> bool" where
  "model_mismatch model_path model_name =
     (str_truthy model_path \<and> j_truthy model_name \<and> model_name \<noteq> JStr (the model_path))"

definition restore_from_warm_tier ::
  "real \<Rightarrow> string \<Rightarrow> 't tiers \<Rightarrow> ('t list \<times> 't \<times> pydict) option res \<times> 't tiers" where
  "restore_from_warm_tier now conversation_id S =
     (case get_state now conversation_id (tm_host_pool S) of
        (None, P) \<Rightarrow> (Inr None, S\<lparr>tm_host_pool := P\<rparr>)
      | (Some (conv_states, temporal_states, metadata), P) \<Rightarrow>
          let S1 = S\<lparr>tm_host_pool := P\<rparr>
          in if model_mismatch (tm_model_path S1) (dict_get metadata ''model_name'' JNull)
             then (Inl ValueError, S1)
             else (Inr (Some (conv_states, temporal_states, metadata)),
                   S1\<lparr>tm_tracker := mark_accessed now conversation_id (tm_tracker S1)\<rparr>))"

text \<open>The body of the \<open>try\<close> block of \<open>restore_from_cold_tier\<close>.\<close>

definition cold_turn :: "string \<Rightarrow> int option \<Rightarrow> 't manager \<Rightarrow> int option res \<times> 't manager" where
  "cold_turn conversation_id turn_number M =
     (case turn_number of
        Some n \<Rightarrow> (Inr (Some n), M)
      | None \<Rightarrow>
          (case get_latest_snapshot conversation_id M of
             (Inl e, M1) \<Rightarrow> (Inl e, M1)
           | (Inr None, M1) \<Rightarrow> (Inr None, M1)
           | (Inr (Some (n, _)), M1) \<Rightarrow> (Inr (Some n), M1)))"

definition restore_cold_body ::
  "'t torch \<Rightarrow> real \<Rightarrow> string \<Rightarrow> int option \<Rightarrow> 't tiers \<Rightarrow> 't snapshot option res \<times> 't tiers" where
  "restore_cold_body T now conversation_id turn_number S =
     (case cold_turn conversation_id turn_number (tm_manager S) of
        (Inl e, M) \<Rightarrow> (Inl e, S\<lparr>tm_manager := M\<rparr>)
      | (Inr None, M) \<Rightarrow> (Inr None, S\<lparr>tm_manager := M\<rparr>)
      | (Inr (Some n), M) \<Rightarrow>
          (case load_snapshot T conversation_id (Some n) None M of
             (Inl e, M1) \<Rightarrow> (Inl e, S\<lparr>tm_manager := M1\<rparr>)
           | (Inr (conv_states, temporal_states, metadata), M1) \<Rightarrow>
               let S1 = S\<lparr>tm_manager := M1\<rparr>
               in if model_mismatch (tm_model_path S1) (JStr (md_model_name metadata))
                  then (Inl ValueError, S1)
                  else (Inr (Some (conv_states, temporal_states, metadata)),
                        S1\<lparr>tm_tracker := mark_accessed now conversation_id (tm_tracker S1)\<rparr>)))"

definition restore_from_cold_tier ::
  "'t torch \<Rightarrow> real \<Rightarrow> string \<Rightarrow> int option \<Rightarrow> 't tiers \<Rightarrow> 't snapshot option res \<times> 't tiers" where
  "restore_from_cold_tier T now conversation_id turn_number S =
     (case restore_cold_body T now conversation_id turn_number S of
        (Inl e, S1) \<Rightarrow> (if is_ValueError e then Inl e else Inr None, S1)
      | (Inr r, S1) \<Rightarrow> (Inr r, S1))"

definition restore_conversation ::
  "'t torch \<Rightarrow> real \<Rightarrow> string \<Rightarrow> int option \<Rightarrow> 't tiers \<Rightarrow> ('t list \<times> 't \<times> pydict) option res \<times> 't tiers" where
  "restore_conversation T now conversation_id turn_number S =
     (let tier = get_tier conversation_id (tm_tracker S);
          (warm, S1) = (if tier = Some WARM \<or> has_state conversation_id (tm_host_pool S)
                        then restore_from_warm_tier now conversation_id S else (Inr None, S))
      in case warm of
           Inl e \<Rightarrow> (Inl e, S1)
         | Inr (Some result) \<Rightarrow> (Inr (Some result), S1)
         | Inr None \<Rightarrow>
             if tier = Some COLD \<or> turn_number \<noteq> None then
               (case restore_from_cold_tier T now conversation_id turn_number S1 of
                  (Inl e, S2) \<Rightarrow> (Inl e, S2)
                | (Inr None, S2) \<Rightarrow> (Inr None, S2)
                | (Inr (Some (conv_states, temporal_states, metadata)), S2) \<Rightarrow>
                    (Inr (Some (conv_states, temporal_states, to_dict metadata)),
                     snd (save_to_warm_tier T now conversation_id conv_states temporal_states
                            (Some (to_dict metadata)) ''log_and_continue'' S2)))
             else (Inr None, S1))"

definition load_cross_session_reference ::
  "'t torch \<Rightarrow> real \<Rightarrow> string \<Rightarrow> string \<Rightarrow> 't tiers \<Rightarrow> ('t list \<times> 't \<times> pydict) option res \<times> 't tiers" where
  "load_cross_session_reference T now current_conversation_id reference_conversation_id S =
     (case get_state_for_reference now current_conversation_id reference_conversation_id (tm_host_pool S) of
        (Some result, P) \<Rightarrow> (Inr (Some result), S\<lparr>tm_host_pool := P\<rparr>)
      | (None, P) \<Rightarrow> restore_conversation T now reference_conversation_id None (S\<lparr>tm_host_pool := P\<rparr>))"

text \<open>
  The metadata of a demoted snapshot, from the dictionary kept with the warm state; \<open>None\<close>
  when a value does not have the type of its field, which makes the save below raise.
\<close>

definition demoted_metadata :: "real \<Rightarrow> string \<Rightarrow> pydict \<Rightarrow> snapshot_metadata option" where
  "demoted_metadata now conversation_id metadata =
     Option.bind (as_opt_int (dict_get metadata ''turn_number'' (JInt 0))) (\<lambda>turn.
     Option.bind (as_int (dict_get metadata ''token_count'' (JInt 0))) (\<lambda>tokens.
     Option.bind (as_str (dict_get metadata ''model_name'' (JStr ''unknown''))) (\<lambda>model.
     Option.bind (as_int (dict_get metadata ''mamba_pool_idx'' (JInt 0))) (\<lambda>mi.
     Option.bind (as_int (dict_get metadata ''req_pool_idx'' (JInt 0))) (\<lambda>ri.
     Option.bind (as_obj (dict_get metadata ''layer_config'' (JObj []))) (\<lambda>lc.
       Some \<lparr>md_conversation_id = conversation_id, md_turn_number = turn, md_timestamp = now,
             md_token_count = tokens, md_model_name = model, md_mamba_pool_idx = mi,
             md_req_pool_idx = ri, md_layer_config = lc, md_active_tool_context = None,
             md_branch_name = None, md_parent_snapshot = None, md_fill_ids = None\<rparr>))))))"

definition demote_to_cold_tier ::
  "'t torch \<Rightarrow> save_fault option \<Rightarrow> real \<Rightarrow> string \<Rightarrow> 't tiers \<Rightarrow> bool \<times> 't tiers" where
  "demote_to_cold_tier T fault now conversation_id S =
     (case get_state now conversation_id (tm_host_pool S) of
        (None, P) \<Rightarrow> (False, S\<lparr>tm_host_pool := P\<rparr>)
      | (Some (conv_states, temporal_states, metadata), P) \<Rightarrow>
          let S1 = S\<lparr>tm_host_pool := P\<rparr>
          in case demoted_metadata now conversation_id metadata of
               None \<Rightarrow> (False, S1)
             | Some snapshot_metadata \<Rightarrow>
                 (case save_to_cold_tier T fault now conversation_id conv_states temporal_states
                         snapshot_metadata S1 of
                    (False, S2) \<Rightarrow> (False, S2)
                  | (True, S2) \<Rightarrow>
                      (True, S2\<lparr>tm_host_pool := snd (remove_state T conversation_id (tm_host_pool S2))\<rparr>)))"

subsection \<open>The cleanup cycle\<close>

fun demote_all ::
  "'t torch \<Rightarrow> (string \<Rightarrow> save_fault option) \<Rightarrow> real \<Rightarrow> string list \<Rightarrow> nat \<Rightarrow> 't tiers \<Rightarrow> nat \<times> 't tiers" where
  "demote_all T fault now [] n S = (n, S)"
| "demote_all T fault now (c # cs) n S =
     (case demote_to_cold_tier T (fault c) now c S of
        (True, S1) \<Rightarrow> demote_all T fault now cs (n + 1) S1
      | (False, S1) \<Rightarrow> demote_all T fault now cs n S1)"

text \<open>Deleting the turns of a conversation; the first exception ends the loop.\<close>

fun delete_each :: "string \<Rightarrow> int list \<Rightarrow> 't manager \<Rightarrow> unit res \<times> 't manager" where
  "delete_each cid [] M = (Inr (), M)"
| "delete_each cid (n # ns) M =
     (case delete_snapshot cid (Some n) None M of
        (Inl e, M1) \<Rightarrow> (Inl e, M1)
      | (Inr _, M1) \<Rightarrow> delete_each cid ns M1)"

definition archive_one :: "real \<Rightarrow> string \<Rightarrow> 't tiers \<Rightarrow> bool \<times> 't tiers" where
  "archive_one now conv_id S =
     (case list_snapshots conv_id (tm_manager S) of
        (Inl e, M) \<Rightarrow> (False, S\<lparr>tm_manager := M\<rparr>)
      | (Inr snapshots, M) \<Rightarrow>
          (case delete_each conv_id snapshots M of
             (Inl e, M1) \<Rightarrow> (False, S\<lparr>tm_manager := M1\<rparr>)
           | (Inr _, M1) \<Rightarrow>
               (True, S\<lparr>tm_manager := M1,
                        tm_tracker := snd (transition_tier now conv_id ARCHIVED None (tm_tracker S))\<rparr>)))"

fun archive_all :: "real \<Rightarrow> string list \<Rightarrow> nat \<Rightarrow> 't tiers \<Rightarrow> nat \<times> 't tiers" where
  "archive_all now [] n S = (n, S)"
| "archive_all now (c # cs) n S =
     (case archive_one now c S of
        (True, S1) \<Rightarrow> archive_all now cs (n + 1) S1
      | (False, S1) \<Rightarrow> archive_all now cs n S1)"

record cleanup_results =
  cr_warm_to_cold :: nat
  cr_cold_to_archived :: nat

definition run_cleanup_cycle ::
  "'t torch \<Rightarrow> (string \<Rightarrow> save_fault option) \<Rightarrow> real \<Rightarrow> 't tiers \<Rightarrow> cleanup_results \<times> 't tiers" where
  "run_cleanup_cycle T fault now S =
     (let transitions_needed = check_transitions_needed now (tm_tracker S);
          (demoted, S1) = demote_all T fault now (tn_warm_to_cold transitions_needed) 0 S;
          (archived, S2) = archive_all now (tn_cold_to_archived transitions_needed) 0 S1
      in (\<lparr>cr_warm_to_cold = demoted, cr_cold_to_archived = archived\<rparr>, S2))"

text \<open>One iteration of the background thread, after its sleep.\<close>

definition background_tick ::
  "'t torch \<Rightarrow> (string \<Rightarrow> save_fault option) \<Rightarrow> real \<Rightarrow> 't tiers \<Rightarrow> 't tiers" where
  "background_tick T fault now S =
     (if tm_cleanup_running S then snd (run_cleanup_cycle T fault now S) else S)"

record tiers_stats =
  tst_tracker :: tracker_stats
  tst_host_pool :: pool_stats
  tst_cleanup_interval :: real
  tst_cleanup_running :: bool

definition tiers_get_stats :: "'t tiers \<Rightarrow> tiers_stats" where
  "tiers_get_stats S =
     \<lparr>tst_tracker = tracker_get_stats (tm_tracker S), tst_host_pool = pool_get_stats (tm_host_pool S),
      tst_cleanup_interval = tm_cleanup_interval S, tst_cleanup_running = tm_cleanup_running S\<rparr>"

subsection \<open>Restoring at startup\<close>

text \<open>One conversation of the loop; every exception is caught and the loop goes on.\<close>

definition restore_latest :: "'t torch \<Rightarrow> real \<Rightarrow> string \<Rightarrow> 't tiers \<Rightarrow> bool \<times> 't tiers" where
  "restore_latest T now conv_id S =
     (case get_latest_snapshot conv_id (tm_manager S) of
        (Inl e, M) \<Rightarrow> (False, S\<lparr>tm_manager := M\<rparr>)
      | (Inr None, M) \<Rightarrow> (False, S\<lparr>tm_manager := M\<rparr>)
      | (Inr (Some (turn_number, metadata)), M) \<Rightarrow>
          (case restore_conversation T now conv_id (Some turn_number) (S\<lparr>tm_manager := M\<rparr>) of
             (Inr (Some _), S1) \<Rightarrow> (True, S1)
           | (_, S1) \<Rightarrow> (False, S1)))"

fun restore_each :: "'t torch \<Rightarrow> real \<Rightarrow> string list \<Rightarrow> nat \<Rightarrow> 't tiers \<Rightarrow> nat \<times> 't tiers" where
  "restore_each T now [] restored_count S = (restored_count, S)"
| "restore_each T now (c # cs) restored_count S =
     (case restore_latest T now c S of
        (True, S1) \<Rightarrow> restore_each T now cs (restored_count + 1) S1
      | (False, S1) \<Rightarrow> restore_each T now cs restored_count S1)"

definition restore_latest_snapshots_to_warm_tier :: "'t torch \<Rightarrow> real \<Rightarrow> 't tiers \<Rightarrow> nat \<times> 't tiers" where
  "restore_latest_snapshots_to_warm_tier T now S =
     restore_each T now (list_conversations (tm_manager S)) 0 S"

end
