(* ===== verification/Mamba_Pool.thy ===== *)
theory Mamba_Pool
  imports Tensor_State "HOL-Library.Multiset"
begin

section \<open>The GPU pools: slots of requests and of Mamba states\<close>

text \<open>
  \<open>ReqToTokenPool\<close>, \<open>MambaPool\<close> and \<open>HybridReqToTokenPool\<close> of \<open>mem_cache/memory_pool.py\<close> as
  far as slots and state tensors go, and \<open>extract_state_from_pool\<close> and
  \<open>inject_state_to_pool\<close> of \<open>snapshot/mamba_snapshot.py\<close>, which copy a slot's state out of
  and into the pool. A tensor of slot indices is a list of integers. Sizes, dtypes and
  devices of the tensors, token tables and the speculative buffers are not part of it.
\<close>

record req =
  rq_rid :: string
  rq_conversation_id :: "string option"
  rq_req_pool_idx :: "int option"
  rq_mamba_pool_idx :: "int option"
  rq_mamba_ping_pong_track_buffer :: "int list option"
  rq_mamba_next_track_idx :: "int option"
  rq_mamba_needs_clear :: bool
  rq_mamba_has_restored_state :: bool
  rq_inflight_middle_chunks :: int
  rq_kv_committed_len :: int
  rq_fill_ids :: "int list option"
  rq_origin_input_ids :: "int list"
  rq_output_ids :: "int list"
  rq_priority :: "int option"
  rq_wait_queue_entry_time :: real
  rq_max_new_tokens :: "int option"
  rq_stateful_generate :: bool
  rq_to_finish_abort :: bool   \<comment> \<open>\<open>to_finish\<close> is a \<open>FINISH_ABORT\<close>\<close>

subsection \<open>Request slots\<close>

record req_pool =
  rp_alloc_size :: nat
  rp_free_slots :: "int list"

definition init_req_pool :: "nat \<Rightarrow> req_pool" where
  "init_req_pool n = \<lparr>rp_alloc_size = n + 1, rp_free_slots = map int [1..<n + 1]\<rparr>"

text \<open>The loop that gives each request without a slot the next selected one.\<close>

fun assign_slots :: "'a req_scheme list \<Rightarrow> int list \<Rightarrow> 'a req_scheme list" where
  "assign_slots [] select_index = []"
| "assign_slots (r # rs) select_index =
     (case rq_req_pool_idx r of
        None \<Rightarrow> r\<lparr>rq_req_pool_idx := Some (hd select_index)\<rparr> # assign_slots rs (tl select_index)
      | Some _ \<Rightarrow> r # assign_slots rs select_index)"

definition req_pool_alloc ::
  "'a req_scheme list \<Rightarrow> req_pool \<Rightarrow> int list option res \<times> 'a req_scheme list \<times> req_pool" where
  "req_pool_alloc reqs P =
     (let reusing = filter (\<lambda>r. rq_req_pool_idx r \<noteq> None) reqs
      in if \<not> list_all (\<lambda>r. rq_inflight_middle_chunks r > 0 \<or> rq_kv_committed_len r > 0) reusing
         then (Inl AssertionError, reqs, P)
         else
           let need_size = length reqs - length reusing
           in if need_size > length (rp_free_slots P) then (Inr None, reqs, P)
              else
                let select_index = take need_size (rp_free_slots P);
                    reqs' = assign_slots reqs select_index
                in (Inr (Some (map (\<lambda>r. the (rq_req_pool_idx r)) reqs')), reqs',
                    P\<lparr>rp_free_slots := drop need_size (rp_free_slots P)\<rparr>))"

definition req_pool_free :: "'a req_scheme \<Rightarrow> req_pool \<Rightarrow> unit res \<times> 'a req_scheme \<times> req_pool" where
  "req_pool_free r P =
     (case rq_req_pool_idx r of
        None \<Rightarrow> (Inl AssertionError, r, P)
      | Some i \<Rightarrow> (Inr (), r\<lparr>rq_req_pool_idx := None\<rparr>, P\<lparr>rp_free_slots := rp_free_slots P @ [i]\<rparr>))"

definition req_pool_clear :: "req_pool \<Rightarrow> req_pool" where
  "req_pool_clear P = P\<lparr>rp_free_slots := map int [1..<rp_alloc_size P]\<rparr>"

subsection \<open>Mamba slots\<close>

record 't mamba_pool =
  mp_size :: nat
  mp_free_slots :: "int list"
  mp_conv :: "'t list"
  mp_temporal :: 't
  mp_num_mamba_layers :: nat

definition init_mamba_pool :: "nat \<Rightarrow> 't list \<Rightarrow> 't \<Rightarrow> nat \<Rightarrow> 't mamba_pool" where
  "init_mamba_pool n conv temporal num_mamba_layers =
     \<lparr>mp_size = n, mp_free_slots = map int [1..<n + 1], mp_conv = conv, mp_temporal = temporal,
      mp_num_mamba_layers = num_mamba_layers\<rparr>"

definition mamba_alloc :: "nat \<Rightarrow> 't mamba_pool \<Rightarrow> int list option \<times> 't mamba_pool" where
  "mamba_alloc need_size P =
     (if need_size > length (mp_free_slots P) then (None, P)
      else (Some (take need_size (mp_free_slots P)), P\<lparr>mp_free_slots := drop need_size (mp_free_slots P)\<rparr>))"

definition clear_slots :: "'t torch \<Rightarrow> int list \<Rightarrow> 't mamba_pool \<Rightarrow> 't mamba_pool" where
  "clear_slots T indices P =
     P\<lparr>mp_conv := map (\<lambda>t. fold (\<lambda>i t. th_zero_col T t i) indices t) (mp_conv P),
       mp_temporal := fold (\<lambda>i t. th_zero_col T t i) indices (mp_temporal P)\<rparr>"

definition mamba_free :: "int list \<Rightarrow> 't mamba_pool \<Rightarrow> 't mamba_pool" where
  "mamba_free free_index P =
     (if free_index = [] then P else P\<lparr>mp_free_slots := mp_free_slots P @ free_index\<rparr>)"

definition mamba_clear :: "'t mamba_pool \<Rightarrow> 't mamba_pool" where
  "mamba_clear P = P\<lparr>mp_free_slots := map int [1..<mp_size P + 1]\<rparr>"

text \<open>\<open>t[:, dst] = t[:, src]\<close>: all columns are read before any is written.\<close>

definition copy_cols :: "'t torch \<Rightarrow> int list \<Rightarrow> int list \<Rightarrow> 't \<Rightarrow> 't res" where
  "copy_cols T src_indices dst_indices t =
     (if \<exists>i \<in> set (src_indices @ dst_indices). th_col T t i = None then Inl IndexError
      else Inr (fold (\<lambda>(d, c) u. th_set_col T u d c)
                  (zip dst_indices (map (\<lambda>i. the (th_col T t i)) src_indices)) t))"

fun copy_convs :: "'t torch \<Rightarrow> int list \<Rightarrow> int list \<Rightarrow> 't list \<Rightarrow> unit res \<times> 't list" where
  "copy_convs T src dst [] = (Inr (), [])"
| "copy_convs T src dst (t # ts) =
     (case copy_cols T src dst t of
        Inl e \<Rightarrow> (Inl e, t # ts)
      | Inr t' \<Rightarrow> let (r, ts') = copy_convs T src dst ts in (r, t' # ts'))"

definition copy_from :: "'t torch \<Rightarrow> int list \<Rightarrow> int list \<Rightarrow> 't mamba_pool \<Rightarrow> unit res \<times> 't mamba_pool" where
  "copy_from T src_indices dst_indices P =
     (case copy_convs T src_indices dst_indices (mp_conv P) of
        (Inl e, cs) \<Rightarrow> (Inl e, P\<lparr>mp_conv := cs\<rparr>)
      | (Inr _, cs) \<Rightarrow>
          (case copy_cols T src_indices dst_indices (mp_temporal P) of
             Inl e \<Rightarrow> (Inl e, P\<lparr>mp_conv := cs\<rparr>)
           | Inr t \<Rightarrow> (Inr (), P\<lparr>mp_conv := cs, mp_temporal := t\<rparr>)))"

subsection \<open>Request and Mamba slots together\<close>

text \<open>
  \<open>req_index_to_mamba_index_mapping\<close> and its ping-pong counterpart are tables indexed by
  the request slot.
\<close>

record 't hybrid_pool =
  hy_req_pool :: req_pool
  hy_mamba_pool :: "'t mamba_pool"
  hy_mamba_index :: "int list"
  hy_ping_pong :: "int list list"
  hy_enable_mamba_extra_buffer :: bool
  hy_ping_pong_size :: nat

text \<open>One iteration of the loop of \<open>alloc\<close>: the request's own slot, then its track buffer.\<close>

definition alloc_idx :: "req \<Rightarrow> 't mamba_pool \<Rightarrow> unit res \<times> req \<times> 't mamba_pool" where
  "alloc_idx r P =
     (case rq_mamba_pool_idx r of
        Some _ \<Rightarrow> (Inr (), r, P)
      | None \<Rightarrow>
          (case mamba_alloc 1 P of
             (None, P) \<Rightarrow> (Inl AssertionError, r, P)
           | (Some mid, P) \<Rightarrow>
               (Inr (), r\<lparr>rq_mamba_pool_idx := Some (hd mid), rq_mamba_needs_clear := True\<rparr>, P)))"

definition alloc_mamba_for :: "req \<Rightarrow> 't hybrid_pool \<Rightarrow> unit res \<times> req \<times> 't hybrid_pool" where
  "alloc_mamba_for r H =
     (case alloc_idx r (hy_mamba_pool H) of
        (Inl e, r1, P1) \<Rightarrow> (Inl e, r1, H\<lparr>hy_mamba_pool := P1\<rparr>)
      | (Inr _, r1, P1) \<Rightarrow>
          if hy_enable_mamba_extra_buffer H \<and> rq_mamba_ping_pong_track_buffer r1 = None then
            (case mamba_alloc (hy_ping_pong_size H) P1 of
               (None, P2) \<Rightarrow> (Inl AssertionError, r1, H\<lparr>hy_mamba_pool := P2\<rparr>)
             | (Some xs, P2) \<Rightarrow>
                 (Inr (), r1\<lparr>rq_mamba_ping_pong_track_buffer := Some xs, rq_mamba_next_track_idx := Some 0\<rparr>,
                  H\<lparr>hy_mamba_pool := P2\<rparr>))
          else (Inr (), r1, H\<lparr>hy_mamba_pool := P1\<rparr>))"

fun alloc_mamba_all :: "req list \<Rightarrow> 't hybrid_pool \<Rightarrow> unit res \<times> req list \<times> 't hybrid_pool" where
  "alloc_mamba_all [] H = (Inr (), [], H)"
| "alloc_mamba_all (r # rs) H =
     (case alloc_mamba_for r H of
        (Inl e, r', H') \<Rightarrow> (Inl e, r' # rs, H')
      | (Inr _, r', H') \<Rightarrow>
          let (x, rs', H'') = alloc_mamba_all rs H' in (x, r' # rs', H''))"

definition record_slots :: "req list \<Rightarrow> 't hybrid_pool \<Rightarrow> 't hybrid_pool" where
  "record_slots reqs H =
     fold (\<lambda>r H. H\<lparr>hy_mamba_index := (hy_mamba_index H)[nat (the (rq_req_pool_idx r)) := the (rq_mamba_pool_idx r)],
                   hy_ping_pong := (if hy_enable_mamba_extra_buffer H
                      then (hy_ping_pong H)[nat (the (rq_req_pool_idx r)) := the (rq_mamba_ping_pong_track_buffer r)]
                      else hy_ping_pong H)\<rparr>) reqs H"

definition hybrid_alloc ::
  "req list \<Rightarrow> 't hybrid_pool \<Rightarrow> int list option res \<times> req list \<times> 't hybrid_pool" where
  "hybrid_alloc reqs H =
     (case req_pool_alloc reqs (hy_req_pool H) of
        (Inl e, reqs1, P1) \<Rightarrow> (Inl e, reqs1, H\<lparr>hy_req_pool := P1\<rparr>)
      | (Inr None, reqs1, P1) \<Rightarrow> (Inr None, reqs1, H\<lparr>hy_req_pool := P1\<rparr>)
      | (Inr (Some select_index), reqs1, P1) \<Rightarrow>
          (case alloc_mamba_all reqs1 (H\<lparr>hy_req_pool := P1\<rparr>) of
             (Inl e, reqs2, H2) \<Rightarrow> (Inl e, reqs2, H2)
           | (Inr _, reqs2, H2) \<Rightarrow> (Inr (Some select_index), reqs2, record_slots reqs2 H2)))"

text \<open>
  The part of the track buffer that \<open>free_mamba_cache\<close> frees: all of it, or, when one entry
  is to be kept, the other one.
\<close>

definition buffer_to_free :: "nat \<Rightarrow> int option \<Rightarrow> int list \<Rightarrow> int list res" where
  "buffer_to_free buffer_size to_keep buffer =
     (case to_keep of
        None \<Rightarrow> Inr buffer
      | Some k \<Rightarrow>
          if k \<noteq> 0 \<and> k \<noteq> 1 then Inl AssertionError
          else if buffer_size = 2 then Inr (take 1 (drop (nat (1 - k)) buffer))
          else if buffer_size \<noteq> 1 \<or> k \<noteq> 0 then Inl AssertionError
          else Inr [])"

definition free_mamba_cache ::
  "req \<Rightarrow> int option \<Rightarrow> 't hybrid_pool \<Rightarrow> unit res \<times> req \<times> 't hybrid_pool" where
  "free_mamba_cache r to_keep H =
     (case rq_mamba_pool_idx r of
        None \<Rightarrow> (Inl AssertionError, r, H)
      | Some mamba_index \<Rightarrow>
          let P1 = mamba_free [mamba_index] (hy_mamba_pool H);
              r1 = r\<lparr>rq_mamba_pool_idx := None\<rparr>
          in if \<not> hy_enable_mamba_extra_buffer H then (Inr (), r1, H\<lparr>hy_mamba_pool := P1\<rparr>)
             else
               (case buffer_to_free (hy_ping_pong_size H) to_keep
                       (hy_ping_pong H ! nat (the (rq_req_pool_idx r))) of
                  Inl e \<Rightarrow> (Inl e, r1, H\<lparr>hy_mamba_pool := P1\<rparr>)
                | Inr xs \<Rightarrow> (Inr (), r1, H\<lparr>hy_mamba_pool := mamba_free xs P1\<rparr>)))"

definition hybrid_clear :: "'t hybrid_pool \<Rightarrow> 't hybrid_pool" where
  "hybrid_clear H =
     H\<lparr>hy_req_pool := req_pool_clear (hy_req_pool H), hy_mamba_pool := mamba_clear (hy_mamba_pool H),
       hy_mamba_index := map (\<lambda>_. 0) (hy_mamba_index H),
       hy_ping_pong := (if hy_enable_mamba_extra_buffer H
                        then map (map (\<lambda>_. 0)) (hy_ping_pong H) else hy_ping_pong H)\<rparr>"

subsection \<open>Copying a state out of a slot and into one\<close>

fun extract_cols :: "'t torch \<Rightarrow> int \<Rightarrow> 't list \<Rightarrow> 't list res" where
  "extract_cols T idx [] = Inr []"
| "extract_cols T idx (t # ts) =
     (case th_col T t idx of
        None \<Rightarrow> Inl IndexError
      | Some c \<Rightarrow> (case extract_cols T idx ts of Inl e \<Rightarrow> Inl e | Inr cs \<Rightarrow> Inr (c # cs)))"

definition extract_state_from_pool :: "'t torch \<Rightarrow> 't mamba_pool \<Rightarrow> int \<Rightarrow> ('t list \<times> 't) res" where
  "extract_state_from_pool T P mamba_pool_idx =
     (case extract_cols T mamba_pool_idx (mp_conv P) of
        Inl e \<Rightarrow> Inl e
      | Inr conv_states \<Rightarrow>
          (case th_col T (mp_temporal P) mamba_pool_idx of
             None \<Rightarrow> Inl IndexError
           | Some temporal_states \<Rightarrow>
               if \<not> vr_is_valid (validate_state_tensors T conv_states temporal_states None False)
               then Inl ValueError
               else Inr (conv_states, temporal_states)))"

text \<open>The loop over the convolution states: each is checked and written before the next.\<close>

fun inject_convs :: "'t torch \<Rightarrow> int \<Rightarrow> 't list \<Rightarrow> 't list \<Rightarrow> unit res \<times> 't list" where
  "inject_convs T idx (c # cs) (p # ps) =
     (case th_col T p idx of
        None \<Rightarrow> (Inl IndexError, p # ps)
      | Some old \<Rightarrow>
          if th_shape T c \<noteq> th_shape T old then (Inl ValueError, p # ps)
          else let (r, ps') = inject_convs T idx cs ps in (r, th_set_col T p idx c # ps'))"
| "inject_convs T idx _ ps = (Inr (), ps)"

definition inject_state_to_pool ::
  "'t torch \<Rightarrow> 't list \<Rightarrow> 't \<Rightarrow> int \<Rightarrow> 't mamba_pool \<Rightarrow> unit res \<times> 't mamba_pool" where
  "inject_state_to_pool T conv_states temporal_states mamba_pool_idx P =
     (if mamba_pool_idx < 1 \<or> mamba_pool_idx > int (mp_size P) then (Inl RuntimeError, P)
      else if length conv_states \<noteq> length (mp_conv P) then (Inl ValueError, P)
      else if \<not> vr_is_valid (validate_state_tensors T conv_states temporal_states None False)
        then (Inl ValueError, P)
      else
        (case inject_convs T mamba_pool_idx conv_states (mp_conv P) of
           (Inl e, cs) \<Rightarrow> (Inl e, P\<lparr>mp_conv := cs\<rparr>)
         | (Inr _, cs) \<Rightarrow>
             (case th_col T (mp_temporal P) mamba_pool_idx of
                None \<Rightarrow> (Inl IndexError, P\<lparr>mp_conv := cs\<rparr>)
              | Some old \<Rightarrow>
                  if th_shape T temporal_states \<noteq> th_shape T old then (Inl ValueError, P\<lparr>mp_conv := cs\<rparr>)
                  else (Inr (), P\<lparr>mp_conv := cs,
                                  mp_temporal := th_set_col T (mp_temporal P) mamba_pool_idx temporal_states\<rparr>))))"

subsection \<open>Ownership of slots\<close>

text \<open>
  A pool of slots: taking some removes them from the free list, giving them back returns
  them. Every slot is free or held, and only once: the free list and what the clients hold
  make up the slots of the pool.
\<close>

locale slot_pool =
  fixes free :: "'s \<Rightarrow> int list"
    and slots :: "'s \<Rightarrow> int list"
    and acquire :: "nat \<Rightarrow> 's \<Rightarrow> int list option \<times> 's"
    and give_back :: "int list \<Rightarrow> 's \<Rightarrow> 's"
  assumes acquire_none: "fst (acquire n s) = None \<longleftrightarrow> length (free s) < n"
    and acquire_fail: "fst (acquire n s) = None \<Longrightarrow> snd (acquire n s) = s"
    and acquire_some: "fst (acquire n s) = Some xs \<Longrightarrow>
      length xs = n \<and> mset (free s) = mset xs + mset (free (snd (acquire n s)))"
    and give_back_free: "mset (free (give_back xs s)) = mset (free s) + mset xs"
    and acquire_slots: "slots (snd (acquire n s)) = slots s"
    and give_back_slots: "slots (give_back xs s) = slots s"
    and slots_distinct: "distinct (slots s)"
begin

definition conserved :: "'s \<Rightarrow> int list \<Rightarrow> bool" where
  "conserved s held \<longleftrightarrow> mset (free s) + mset held = mset (slots s)"

lemma acquire_conserved:
  "conserved s held \<Longrightarrow> fst (acquire n s) = Some xs \<Longrightarrow> conserved (snd (acquire n s)) (xs @ held)"
  using acquire_some [of n s xs] by (simp add: conserved_def acquire_slots union_ac)

lemma give_back_conserved: "conserved s (xs @ held) \<Longrightarrow> conserved (give_back xs s) held"
  by (simp add: conserved_def give_back_slots give_back_free union_ac)

lemma conserved_distinct: "conserved s held \<Longrightarrow> distinct (free s @ held)"
proof -
  assume "conserved s held"
  then have "mset (free s @ held) = mset (slots s)" by (simp add: conserved_def)
  from mset_eq_imp_distinct_iff [OF this] show ?thesis using slots_distinct by simp
qed

lemma acquire_fresh:
  "conserved s held \<Longrightarrow> fst (acquire n s) = Some xs \<Longrightarrow>
     distinct xs \<and> set xs \<inter> set held = {} \<and> set xs \<subseteq> set (slots s)"
proof -
  assume c: "conserved s held" and a: "fst (acquire n s) = Some xs"
  have c': "conserved (snd (acquire n s)) (xs @ held)" by (rule acquire_conserved [OF c a])
  then have "mset (free (snd (acquire n s)) @ xs @ held) = mset (slots s)"
    by (simp add: conserved_def acquire_slots)
  then have "set (free (snd (acquire n s)) @ xs @ held) = set (slots s)" by (rule mset_eq_setD)
  then have "set xs \<subseteq> set (slots s)" by auto
  then show ?thesis using conserved_distinct [OF c'] by auto
qed

lemma acquire_give_back:
  "fst (acquire n s) = Some xs \<Longrightarrow> mset (free (give_back xs (snd (acquire n s)))) = mset (free s)"
  using acquire_some [of n s xs] by (simp add: give_back_free union_ac)

end

lemma take_drop_mset: "mset (take n xs) + mset (drop n xs) = mset xs"
  by (simp add: mset_append [symmetric] del: mset_append)

definition mamba_slots :: "'t mamba_pool \<Rightarrow> int list" where
  "mamba_slots P = map int [1..<mp_size P + 1]"

interpretation ms: slot_pool mp_free_slots mamba_slots mamba_alloc mamba_free
proof (unfold_locales, goal_cases)
  case (3 n s xs)
  then show ?case by (auto simp: mamba_alloc_def take_drop_mset split: if_splits)
qed (auto simp: mamba_alloc_def mamba_free_def mamba_slots_def distinct_map)

text \<open>Request slots, taken for requests that have none.\<close>

definition req_slots :: "req_pool \<Rightarrow> int list" where
  "req_slots P = map int [1..<rp_alloc_size P]"

definition acquire_req :: "nat \<Rightarrow> req_pool \<Rightarrow> int list option \<times> req_pool" where
  "acquire_req n P =
     (if n > length (rp_free_slots P) then (None, P)
      else (Some (take n (rp_free_slots P)), P\<lparr>rp_free_slots := drop n (rp_free_slots P)\<rparr>))"

definition give_back_req :: "int list \<Rightarrow> req_pool \<Rightarrow> req_pool" where
  "give_back_req xs P = P\<lparr>rp_free_slots := rp_free_slots P @ xs\<rparr>"

interpretation rs: slot_pool rp_free_slots req_slots acquire_req give_back_req
proof (unfold_locales, goal_cases)
  case (3 n s xs)
  then show ?case by (auto simp: acquire_req_def take_drop_mset split: if_splits)
qed (auto simp: acquire_req_def give_back_req_def req_slots_def distinct_map)

text \<open>The slots a list of requests holds.\<close>

definition held_req_slots :: "'a req_scheme list \<Rightarrow> int list" where
  "held_req_slots rs = List.map_filter rq_req_pool_idx rs"

definition held_mamba_slots :: "'a req_scheme list \<Rightarrow> int list" where
  "held_mamba_slots rs =
     List.map_filter rq_mamba_pool_idx rs @
     concat (List.map_filter rq_mamba_ping_pong_track_buffer rs)"

lemma map_filter_Cons: "List.map_filter f (x # xs) = (case f x of None \<Rightarrow> [] | Some y \<Rightarrow> [y]) @ List.map_filter f xs"
  by (simp add: List.map_filter_def split: option.split)

lemma map_filter_Nil [simp]: "List.map_filter f [] = []"
  by (simp add: List.map_filter_def)

lemma assign_slots_held:
  "length (filter (\<lambda>r. rq_req_pool_idx r = None) rs) = length xs \<Longrightarrow>
     mset (held_req_slots (assign_slots rs xs)) = mset (held_req_slots rs) + mset xs \<and>
     list_all (\<lambda>r. rq_req_pool_idx r \<noteq> None) (assign_slots rs xs) \<and> length (assign_slots rs xs) = length rs"
proof (induction rs arbitrary: xs)
  case (Cons r rs)
  show ?case
  proof (cases "rq_req_pool_idx r")
    case None
    with Cons.prems obtain y ys where xs: "xs = y # ys" by (cases xs) auto
    then show ?thesis using Cons.IH [of ys] Cons.prems None
      by (simp add: held_req_slots_def map_filter_Cons)
  next
    case (Some i)
    then show ?thesis using Cons.IH [of xs] Cons.prems by (simp add: held_req_slots_def map_filter_Cons)
  qed
qed (simp add: held_req_slots_def)

lemma mamba_alloc_one:
  "mamba_alloc 1 P = (Some mid, P') \<Longrightarrow> mid = [hd mid]"
  by (cases "mp_free_slots P") (auto simp: mamba_alloc_def split: if_splits)

text \<open>The slots one request holds.\<close>

definition own_slots :: "req \<Rightarrow> int list" where
  "own_slots r = (case rq_mamba_pool_idx r of None \<Rightarrow> [] | Some i \<Rightarrow> [i]) @
     (case rq_mamba_ping_pong_track_buffer r of None \<Rightarrow> [] | Some xs \<Rightarrow> xs)"

lemma held_mamba_Cons: "mset (held_mamba_slots (r # rs)) = mset (own_slots r) + mset (held_mamba_slots rs)"
  by (simp add: held_mamba_slots_def own_slots_def map_filter_Cons union_ac split: option.split)

text \<open>
  The two allocations for one request, and the loop over all of them, keep every Mamba slot
  free or held by one request, in every outcome.
\<close>

lemma alloc_idx_conserved:
  assumes "ms.conserved P (own_slots r @ other)" "alloc_idx r P = (res, r', P')"
  shows "ms.conserved P' (own_slots r' @ other) \<and> rq_req_pool_idx r' = rq_req_pool_idx r \<and>
    (res = Inr () \<longrightarrow> rq_mamba_pool_idx r' \<noteq> None) \<and>
    rq_mamba_ping_pong_track_buffer r' = rq_mamba_ping_pong_track_buffer r"
proof (cases "rq_mamba_pool_idx r")
  case (Some i)
  then show ?thesis using assms by (simp add: alloc_idx_def)
next
  case None
  obtain x P1 where a: "mamba_alloc 1 P = (x, P1)" by fastforce
  show ?thesis
  proof (cases x)
    case None
    then have "P1 = P" using a ms.acquire_fail [of 1 P] by simp
    then show ?thesis using assms a None \<open>rq_mamba_pool_idx r = None\<close> by (auto simp: alloc_idx_def)
  next
    case (Some mid)
    have mid: "mid = [hd mid]" using mamba_alloc_one a Some by blast
    have "ms.conserved P1 (mid @ own_slots r @ other)"
      using ms.acquire_conserved [OF assms(1), of 1 mid] a Some by simp
    then have "ms.conserved P1 ((hd mid # own_slots r) @ other)" using mid by (metis append_Cons append_Nil)
    then show ?thesis using assms(2) a Some None by (auto simp: alloc_idx_def own_slots_def)
  qed
qed

lemma alloc_mamba_for_conserved:
  assumes "ms.conserved (hy_mamba_pool H) (own_slots r @ other)" "alloc_mamba_for r H = (res, r', H')"
  shows "ms.conserved (hy_mamba_pool H') (own_slots r' @ other) \<and> hy_req_pool H' = hy_req_pool H \<and>
    rq_req_pool_idx r' = rq_req_pool_idx r \<and> (res = Inr () \<longrightarrow> rq_mamba_pool_idx r' \<noteq> None)"
proof -
  obtain res1 r1 P1 where a: "alloc_idx r (hy_mamba_pool H) = (res1, r1, P1)" using prod_cases3 by blast
  note c = alloc_idx_conserved [OF assms(1) a]
  show ?thesis
  proof (cases "res1 = Inr () \<and> hy_enable_mamba_extra_buffer H \<and> rq_mamba_ping_pong_track_buffer r1 = None")
    case False
    then show ?thesis using assms(2) a c by (auto simp: alloc_mamba_for_def split: sum.splits if_splits)
  next
    case True
    obtain x P2 where b: "mamba_alloc (hy_ping_pong_size H) P1 = (x, P2)" by fastforce
    show ?thesis
    proof (cases x)
      case None
      then have "P2 = P1" using b ms.acquire_fail [of "hy_ping_pong_size H" P1] by simp
      then show ?thesis using assms(2) a b c True None by (auto simp: alloc_mamba_for_def)
    next
      case (Some xs)
      have cs: "ms.conserved P2 (xs @ own_slots r1 @ other)"
        using ms.acquire_conserved [of P1 "own_slots r1 @ other" "hy_ping_pong_size H" xs] c b Some by simp
      have r': "r' = r1\<lparr>rq_mamba_ping_pong_track_buffer := Some xs, rq_mamba_next_track_idx := Some 0\<rparr>"
        "hy_mamba_pool H' = P2" "hy_req_pool H' = hy_req_pool H"
        using assms(2) a b True Some by (auto simp: alloc_mamba_for_def)
      have "mset (own_slots r') = mset xs + mset (own_slots r1)"
        using True by (simp add: own_slots_def r'(1) union_ac split: option.split)
      then have "ms.conserved P2 (own_slots r' @ other)" using cs by (simp add: ms.conserved_def union_ac)
      then show ?thesis using r' c True by auto
    qed
  qed
qed

lemma alloc_mamba_all_conserved:
  "ms.conserved (hy_mamba_pool H) (held_mamba_slots rs @ other) \<Longrightarrow> alloc_mamba_all rs H = (res, rs', H') \<Longrightarrow>
     ms.conserved (hy_mamba_pool H') (held_mamba_slots rs' @ other) \<and> hy_req_pool H' = hy_req_pool H \<and>
     map rq_req_pool_idx rs' = map rq_req_pool_idx rs \<and>
     (res = Inr () \<longrightarrow> list_all (\<lambda>r. rq_mamba_pool_idx r \<noteq> None) rs')"
proof (induction rs arbitrary: H other res rs' H')
  case (Cons r rs)
  obtain x r1 H1 where a: "alloc_mamba_for r H = (x, r1, H1)" using prod_cases3 by blast
  have "ms.conserved (hy_mamba_pool H) (own_slots r @ held_mamba_slots rs @ other)"
    using Cons.prems(1) by (simp add: ms.conserved_def held_mamba_Cons union_ac)
  note c = alloc_mamba_for_conserved [OF this a]
  show ?case
  proof (cases x)
    case (Inl e)
    then have e: "rs' = r1 # rs" "H' = H1" "res = Inl e" using Cons.prems(2) a by auto
    have "ms.conserved (hy_mamba_pool H1) (held_mamba_slots (r1 # rs) @ other)"
      using c by (simp add: ms.conserved_def held_mamba_Cons union_ac)
    then show ?thesis using c e by simp
  next
    case (Inr u)
    obtain y rs1 H2 where b: "alloc_mamba_all rs H1 = (y, rs1, H2)" using prod_cases3 by blast
    have "ms.conserved (hy_mamba_pool H1) (held_mamba_slots rs @ own_slots r1 @ other)"
      using c by (simp add: ms.conserved_def union_ac)
    note d = Cons.IH [OF this b]
    have e: "rs' = r1 # rs1" "H' = H2" "res = y" using Cons.prems(2) a b Inr by auto
    have "ms.conserved (hy_mamba_pool H2) (held_mamba_slots (r1 # rs1) @ other)"
      using d by (simp add: ms.conserved_def held_mamba_Cons union_ac)
    then show ?thesis using c d e Inr by simp
  qed
qed simp

lemma assign_slots_mamba [simp]:
  "map rq_mamba_pool_idx (assign_slots rs xs) = map rq_mamba_pool_idx rs"
  "map rq_mamba_ping_pong_track_buffer (assign_slots rs xs) = map rq_mamba_ping_pong_track_buffer rs"
  by (induction rs xs rule: assign_slots.induct) (auto split: option.split)

lemma map_filter_map: "List.map_filter f xs = List.map_filter id (map f xs)"
  by (induction xs) (simp_all add: map_filter_Cons split: option.split)

lemma held_mamba_cong:
  "map rq_mamba_pool_idx rs = map rq_mamba_pool_idx rs' \<Longrightarrow>
   map rq_mamba_ping_pong_track_buffer rs = map rq_mamba_ping_pong_track_buffer rs' \<Longrightarrow>
     held_mamba_slots rs = held_mamba_slots rs'"
  unfolding held_mamba_slots_def map_filter_map [of rq_mamba_pool_idx] map_filter_map [of rq_mamba_ping_pong_track_buffer]
  by simp

lemma held_req_cong: "map rq_req_pool_idx rs = map rq_req_pool_idx rs' \<Longrightarrow> held_req_slots rs = held_req_slots rs'"
  unfolding held_req_slots_def map_filter_map [of rq_req_pool_idx] by simp

lemma list_all_not_None: "list_all (\<lambda>r. f r \<noteq> None) rs \<longleftrightarrow> None \<notin> set (map f rs)"
  by (induction rs) auto

lemma filter_partition_length: "length (filter P xs) + length (filter (\<lambda>x. \<not> P x) xs) = length xs"
  by (induction xs) simp_all

lemma req_pool_alloc_conserved:
  assumes "rs.conserved P (held_req_slots reqs @ other)" "req_pool_alloc reqs P = (res, reqs', P')"
  shows "rs.conserved P' (held_req_slots reqs' @ other)"
    "held_mamba_slots reqs' = held_mamba_slots reqs"
    "res = Inr (Some xs) \<Longrightarrow> list_all (\<lambda>r. rq_req_pool_idx r \<noteq> None) reqs' \<and> xs = map (\<lambda>r. the (rq_req_pool_idx r)) reqs'"
proof -
  let ?n = "length reqs - length (filter (\<lambda>r. rq_req_pool_idx r \<noteq> None) reqs)"
  have n: "length (filter (\<lambda>r. rq_req_pool_idx r = None) reqs) = ?n"
    using filter_partition_length [of "\<lambda>r. rq_req_pool_idx r \<noteq> None" reqs] by simp
  consider "reqs' = reqs" "P' = P" "\<forall>ys. res \<noteq> Inr (Some ys)"
    | "?n \<le> length (rp_free_slots P)" "reqs' = assign_slots reqs (take ?n (rp_free_slots P))"
      "P' = P\<lparr>rp_free_slots := drop ?n (rp_free_slots P)\<rparr>"
      "res = Inr (Some (map (\<lambda>r. the (rq_req_pool_idx r)) reqs'))"
    using assms(2) by (fastforce simp: req_pool_alloc_def Let_def split: if_splits)
  then have "rs.conserved P' (held_req_slots reqs' @ other) \<and> held_mamba_slots reqs' = held_mamba_slots reqs \<and>
    (res = Inr (Some xs) \<longrightarrow> list_all (\<lambda>r. rq_req_pool_idx r \<noteq> None) reqs' \<and> xs = map (\<lambda>r. the (rq_req_pool_idx r)) reqs')"
  proof cases
    case 1
    then show ?thesis using assms(1) by simp
  next
    case 2
    let ?xs = "take ?n (rp_free_slots P)"
    have as: "mset (held_req_slots reqs') = mset (held_req_slots reqs) + mset ?xs"
      "list_all (\<lambda>r. rq_req_pool_idx r \<noteq> None) reqs'"
      using assign_slots_held [of reqs ?xs] n 2(1,2) by simp_all
    have "mset (rp_free_slots P) = mset ?xs + mset (rp_free_slots P')"
      using take_drop_mset [of ?n "rp_free_slots P"] 2(3) by simp
    then have "rs.conserved P' (held_req_slots reqs' @ other)"
      using assms(1) as(1) 2(3) by (simp add: rs.conserved_def req_slots_def union_ac)
    moreover have "held_mamba_slots reqs' = held_mamba_slots reqs" unfolding 2(2) by (rule held_mamba_cong) simp_all
    ultimately show ?thesis using as(2) 2(4) by auto
  qed
  then show "rs.conserved P' (held_req_slots reqs' @ other)" "held_mamba_slots reqs' = held_mamba_slots reqs"
    "res = Inr (Some xs) \<Longrightarrow> list_all (\<lambda>r. rq_req_pool_idx r \<noteq> None) reqs' \<and> xs = map (\<lambda>r. the (rq_req_pool_idx r)) reqs'"
    by auto
qed

lemma record_slots_pools [simp]:
  "hy_req_pool (record_slots rs H) = hy_req_pool H" "hy_mamba_pool (record_slots rs H) = hy_mamba_pool H"
  unfolding record_slots_def by (induction rs arbitrary: H) simp_all

subsection \<open>Properties\<close>

text \<open>A request and a pool of two slots for concrete runs.\<close>

definition sample_req :: "string \<Rightarrow> req" where
  "sample_req rid =
     \<lparr>rq_rid = rid, rq_conversation_id = None, rq_req_pool_idx = None, rq_mamba_pool_idx = None,
      rq_mamba_ping_pong_track_buffer = None, rq_mamba_next_track_idx = None, rq_mamba_needs_clear = False,
      rq_mamba_has_restored_state = False, rq_inflight_middle_chunks = 0, rq_kv_committed_len = 0,
      rq_fill_ids = None, rq_origin_input_ids = [], rq_output_ids = [], rq_priority = None,
      rq_wait_queue_entry_time = 0, rq_max_new_tokens = None, rq_stateful_generate = False,
      rq_to_finish_abort = False\<rparr>"

definition sample_hybrid :: "mat hybrid_pool" where
  "sample_hybrid =
     \<lparr>hy_req_pool = init_req_pool 2, hy_mamba_pool = init_mamba_pool 2 [[[0, 0, 0]]] [[0, 0, 0]] 1,
      hy_mamba_index = [0, 0, 0], hy_ping_pong = [], hy_enable_mamba_extra_buffer = False,
      hy_ping_pong_size = 2\<rparr>"

text \<open>
  C29: \<open>HybridReqToTokenPool.alloc\<close> neither loses nor shares slots. If before the call every
  request slot and every Mamba slot is either free or held by exactly one request, the same
  holds after it, whether it succeeds, runs out of slots or fails an assertion half way. On
  success every request has both a request slot and a Mamba slot, and the slots of
  different requests are different.
\<close>

theorem hybrid_alloc_conserves:
  assumes "rs.conserved (hy_req_pool H) (held_req_slots reqs @ others)"
    and "ms.conserved (hy_mamba_pool H) (held_mamba_slots reqs @ others')"
    and "hybrid_alloc reqs H = (res, reqs', H')"
  shows "rs.conserved (hy_req_pool H') (held_req_slots reqs' @ others) \<and>
    ms.conserved (hy_mamba_pool H') (held_mamba_slots reqs' @ others') \<and>
    (\<forall>xs. res = Inr (Some xs) \<longrightarrow>
       list_all (\<lambda>r. rq_req_pool_idx r \<noteq> None \<and> rq_mamba_pool_idx r \<noteq> None) reqs' \<and>
       distinct (held_req_slots reqs' @ others) \<and> distinct (held_mamba_slots reqs' @ others'))"
proof -
  obtain res1 reqs1 P1 where a: "req_pool_alloc reqs (hy_req_pool H) = (res1, reqs1, P1)" using prod_cases3 by blast
  note r = req_pool_alloc_conserved [OF assms(1) a]
  let ?H1 = "H\<lparr>hy_req_pool := P1\<rparr>"
  show ?thesis
  proof (cases "\<exists>ys. res1 = Inr (Some ys)")
    case False
    then have "H' = ?H1" "reqs' = reqs1" "\<forall>xs. res \<noteq> Inr (Some xs)"
      using assms(3) a by (auto simp: hybrid_alloc_def split: sum.splits option.splits)
    then show ?thesis using r(1,2) assms(2) by simp
  next
    case True
    then obtain ys where ys: "res1 = Inr (Some ys)" by blast
    obtain x reqs2 H2 where b: "alloc_mamba_all reqs1 ?H1 = (x, reqs2, H2)" using prod_cases3 by blast
    have "ms.conserved (hy_mamba_pool ?H1) (held_mamba_slots reqs1 @ others')" using assms(2) r(2) by simp
    note m = alloc_mamba_all_conserved [OF this b]
    have H': "hy_req_pool H' = P1" "hy_mamba_pool H' = hy_mamba_pool H2" "reqs' = reqs2"
      "\<And>xs. res = Inr (Some xs) \<Longrightarrow> x = Inr ()"
      using assms(3) a ys b m by (auto simp: hybrid_alloc_def split: sum.splits)
    have idx: "held_req_slots reqs2 = held_req_slots reqs1" by (rule held_req_cong) (use m in simp)
    have c: "rs.conserved (hy_req_pool H') (held_req_slots reqs' @ others)"
      "ms.conserved (hy_mamba_pool H') (held_mamba_slots reqs' @ others')"
      using r(1) m H'(1-3) idx by simp_all
    have "list_all (\<lambda>r. rq_req_pool_idx r \<noteq> None) reqs2"
      using r(3) [OF ys] m unfolding list_all_not_None by metis
    then show ?thesis
      using c m H' rs.conserved_distinct [OF c(1)] ms.conserved_distinct [OF c(2)]
      by (auto simp: list_all_iff)
  qed
qed

theorem hybrid_alloc_conserves_witness:
  "\<exists>rs' H'. hybrid_alloc [sample_req ''a'', sample_req ''b''] sample_hybrid = (Inr (Some [1, 2]), rs', H') \<and>
     distinct (held_mamba_slots rs')"
proof -
  let ?rs = "[sample_req ''a'', sample_req ''b'']"
  have c: "rs.conserved (hy_req_pool sample_hybrid) (held_req_slots ?rs @ [])"
    "ms.conserved (hy_mamba_pool sample_hybrid) (held_mamba_slots ?rs @ [])"
    by (simp_all add: rs.conserved_def ms.conserved_def held_req_slots_def held_mamba_slots_def map_filter_Cons
        sample_req_def sample_hybrid_def init_req_pool_def init_mamba_pool_def req_slots_def mamba_slots_def)
  obtain res rs' H' where a: "hybrid_alloc ?rs sample_hybrid = (res, rs', H')" using prod_cases3 by blast
  have "fst (hybrid_alloc ?rs sample_hybrid) = Inr (Some [1, 2])"
    by (simp add: hybrid_alloc_def req_pool_alloc_def init_req_pool_def init_mamba_pool_def alloc_mamba_for_def
        sample_req_def sample_hybrid_def alloc_idx_def mamba_alloc_def upt_conv_Cons numeral_2_eq_2 Let_def)
  with a have "res = Inr (Some [1, 2])" by simp
  then show ?thesis using hybrid_alloc_conserves [OF c a] a by simp
qed

lemma slicing_same:
  "torch_slicing T \<Longrightarrow> th_col T p idx = Some old \<Longrightarrow> th_shape T c = th_shape T old \<Longrightarrow>
     th_dtype T c = th_dtype T old \<Longrightarrow> th_col T (th_set_col T p idx c) idx = Some c"
  by (simp add: torch_slicing_def)

lemma slicing_other:
  "torch_slicing T \<Longrightarrow> idx \<noteq> j \<Longrightarrow> 0 \<le> idx \<Longrightarrow> 0 \<le> j \<Longrightarrow> th_col T (th_set_col T p idx c) j = th_col T p j"
  by (simp add: torch_slicing_def)

text \<open>The tensors have the dtypes of the pool's columns, so that writing them converts nothing.\<close>

definition same_dtypes :: "'t torch \<Rightarrow> int \<Rightarrow> 't list \<Rightarrow> 't list \<Rightarrow> bool" where
  "same_dtypes T idx cs ps =
     list_all2 (\<lambda>c p. case th_col T p idx of None \<Rightarrow> False | Some old \<Rightarrow> th_dtype T c = th_dtype T old) cs ps"

lemma inject_convs_Cons:
  "inject_convs T idx (c # cs) (p # ps) = (Inr (), ps') \<longleftrightarrow>
     (\<exists>old qs. th_col T p idx = Some old \<and> th_shape T c = th_shape T old \<and>
        inject_convs T idx cs ps = (Inr (), qs) \<and> ps' = th_set_col T p idx c # qs)"
  by (auto split: option.split prod.split)

lemma inject_convs_extract:
  assumes T: "torch_slicing T"
  shows "same_dtypes T idx cs ps \<Longrightarrow> inject_convs T idx cs ps = (Inr (), ps') \<Longrightarrow> extract_cols T idx ps' = Inr cs"
proof (induction cs arbitrary: ps ps')
  case (Cons c cs)
  obtain p qs where ps: "ps = p # qs" using Cons.prems(1) by (auto simp: same_dtypes_def list_all2_Cons1)
  obtain old rs where old: "th_col T p idx = Some old" "th_shape T c = th_shape T old"
    "inject_convs T idx cs qs = (Inr (), rs)" "ps' = th_set_col T p idx c # rs"
    using Cons.prems(2) unfolding ps inject_convs_Cons by blast
  have d: "th_dtype T c = th_dtype T old" "same_dtypes T idx cs qs"
    using Cons.prems(1) old(1) by (simp_all add: same_dtypes_def ps)
  show ?case using Cons.IH [OF d(2) old(3)] slicing_same [OF T old(1,2) d(1)] old(4) by simp
qed (auto simp: same_dtypes_def)

lemma inject_convs_other:
  assumes T: "torch_slicing T" "idx \<noteq> j" "0 \<le> idx" "0 \<le> j"
  shows "extract_cols T j (snd (inject_convs T idx cs ps)) = extract_cols T j ps"
proof (induction cs arbitrary: ps)
  case (Cons c cs)
  show ?case
  proof (cases ps)
    case (Cons p qs)
    then show ?thesis using Cons.IH [of qs] slicing_other [OF T]
      by (auto simp: split_beta split: option.split)
  qed simp
qed simp

lemma extract_cong:
  "extract_cols T j (mp_conv P') = extract_cols T j (mp_conv P) \<Longrightarrow>
   th_col T (mp_temporal P') j = th_col T (mp_temporal P) j \<Longrightarrow>
     extract_state_from_pool T P' j = extract_state_from_pool T P j"
proof -
  assume a: "extract_cols T j (mp_conv P') = extract_cols T j (mp_conv P)"
    and b: "th_col T (mp_temporal P') j = th_col T (mp_temporal P) j"
  show ?thesis unfolding extract_state_from_pool_def a b ..
qed

lemma inject_frame:
  assumes "torch_slicing T" "j \<noteq> idx" "0 \<le> j"
  shows "extract_state_from_pool T (snd (inject_state_to_pool T cs t idx P)) j = extract_state_from_pool T P j"
    "mp_free_slots (snd (inject_state_to_pool T cs t idx P)) = mp_free_slots P"
    "mp_size (snd (inject_state_to_pool T cs t idx P)) = mp_size P"
proof -
  show "extract_state_from_pool T (snd (inject_state_to_pool T cs t idx P)) j = extract_state_from_pool T P j"
  proof (cases "idx < 1")
    case True
    then show ?thesis by (simp add: inject_state_to_pool_def)
  next
    case False
    then have i: "0 \<le> idx" by simp
    note c = inject_convs_other [OF assms(1) assms(2) [symmetric] i assms(3), of cs "mp_conv P"]
    show ?thesis
      by (rule extract_cong)
        (use c slicing_other [OF assms(1) assms(2) [symmetric] i assms(3)] in
          \<open>auto simp: inject_state_to_pool_def split_beta split: sum.split option.split\<close>)
  qed
qed (auto simp: inject_state_to_pool_def split_beta split: sum.split option.split)

lemma inject_extract:
  assumes "torch_slicing T" "inject_state_to_pool T cs t idx P = (Inr (), P')"
    and "same_dtypes T idx (cs @ [t]) (mp_conv P @ [mp_temporal P])"
  shows "extract_state_from_pool T P' idx = Inr (cs, t)"
proof -
  have len: "length cs = length (mp_conv P)" using assms(2) by (auto simp: inject_state_to_pool_def split: if_splits)
  have d: "same_dtypes T idx cs (mp_conv P)" "same_dtypes T idx [t] [mp_temporal P]"
    using assms(3) len by (simp_all add: same_dtypes_def list_all2_append)
  have ok: "state_ok T False cs t" using assms(2) by (auto simp: inject_state_to_pool_def is_valid_iff split: if_splits)
  obtain ps' old where i: "inject_convs T idx cs (mp_conv P) = (Inr (), ps')" "th_col T (mp_temporal P) idx = Some old"
    "th_shape T t = th_shape T old"
    "P' = P\<lparr>mp_conv := ps', mp_temporal := th_set_col T (mp_temporal P) idx t\<rparr>"
    using assms(2) by (auto simp: inject_state_to_pool_def split: if_splits prod.splits sum.splits option.splits)
  have "th_dtype T t = th_dtype T old" using d(2) i(2) by (simp add: same_dtypes_def)
  then have "th_col T (th_set_col T (mp_temporal P) idx t) idx = Some t"
    by (rule slicing_same [OF assms(1) i(2,3)])
  then show ?thesis
    using inject_convs_extract [OF assms(1) d(1) i(1)] ok i(4)
    by (simp add: extract_state_from_pool_def is_valid_iff)
qed

text \<open>
  C18: a state injected into a slot is the state extracted from it. If \<open>inject_state_to_pool\<close>
  returns and the tensors have the pool's dtypes, \<open>extract_state_from_pool\<close> on that slot
  gives exactly the injected tensors; every other slot gives what it gave before, and no
  slot is allocated or freed.
\<close>

theorem inject_extract_round_trip:
  assumes "torch_slicing T" and "inject_state_to_pool T cs t idx P = (Inr (), P')"
    and "same_dtypes T idx (cs @ [t]) (mp_conv P @ [mp_temporal P])"
  shows "extract_state_from_pool T P' idx = Inr (cs, t) \<and>
    (\<forall>j. 0 \<le> j \<and> j \<noteq> idx \<longrightarrow> extract_state_from_pool T P' j = extract_state_from_pool T P j) \<and>
    mp_free_slots P' = mp_free_slots P"
proof -
  have P': "P' = snd (inject_state_to_pool T cs t idx P)" using assms(2) by simp
  have "mp_free_slots P' = mp_free_slots P"
    unfolding P' by (auto simp: inject_state_to_pool_def split_beta split: sum.split option.split)
  then show ?thesis using inject_extract [OF assms] inject_frame(1) [OF assms(1)] P' by blast
qed

theorem inject_extract_round_trip_witness:
  "\<exists>P'. inject_state_to_pool mat_torch [[[7]]] [[9]] 1 (hy_mamba_pool sample_hybrid) = (Inr (), P') \<and>
     extract_state_from_pool mat_torch P' 1 = Inr ([[[7]]], [[9]])"
proof -
  let ?P = "hy_mamba_pool sample_hybrid"
  have "fst (inject_state_to_pool mat_torch [[[7]]] [[9]] 1 ?P) = Inr ()" by code_simp
  then obtain P' where i: "inject_state_to_pool mat_torch [[[7]]] [[9]] 1 ?P = (Inr (), P')"
    by (cases "inject_state_to_pool mat_torch [[[7]]] [[9]] 1 ?P") simp
  have "same_dtypes mat_torch 1 ([[[7]]] @ [[[9]]]) (mp_conv ?P @ [mp_temporal ?P])" by code_simp
  from inject_extract_round_trip [OF mat_torch_slicing i this] i show ?thesis by blast
qed

text \<open>
  A rejected injection is not without effect. The tensors are checked and written one
  after the other, so a shape mismatch found late raises \<open>ValueError\<close> after earlier tensors
  have already replaced the slot's state: the slot then holds a mixture of two states.
\<close>

theorem rejected_inject_overwrites:
  "let P = hy_mamba_pool sample_hybrid;
       (r, P') = inject_state_to_pool mat_torch [[[7]]] [[9], [9]] 1 P
   in r = Inl ValueError \<and> mp_conv P = [[[0, 0, 0]]] \<and> mp_conv P' = [[[0, 7, 0]]] \<and>
      mp_temporal P' = mp_temporal P"
  by code_simp

text \<open>
  A Mamba slot is freed once. Without track buffers \<open>free_mamba_cache\<close> returns the
  request's slot to the pool and clears the request's index, so that no slot is lost or
  shared; freeing a request that holds none fails an assertion and changes nothing.
\<close>

theorem free_mamba_cache_once:
  assumes "ms.conserved (hy_mamba_pool H) (own_slots r @ others)"
    and "\<not> hy_enable_mamba_extra_buffer H" and "rq_mamba_ping_pong_track_buffer r = None"
  shows "case free_mamba_cache r to_keep H of
      (res, r', H') \<Rightarrow>
        ms.conserved (hy_mamba_pool H') (own_slots r' @ others) \<and> rq_mamba_pool_idx r' = None \<and>
        (res = Inr () \<longleftrightarrow> rq_mamba_pool_idx r \<noteq> None) \<and>
        free_mamba_cache r' to_keep H' = (Inl AssertionError, r', H')"
proof (cases "rq_mamba_pool_idx r")
  case None
  then show ?thesis using assms(1) by (simp add: free_mamba_cache_def)
next
  case (Some i)
  then have "ms.conserved (mamba_free [i] (hy_mamba_pool H)) others"
    using ms.give_back_conserved [of "hy_mamba_pool H" "[i]" others] assms by (simp add: own_slots_def)
  then show ?thesis using Some assms(2,3) by (simp add: free_mamba_cache_def own_slots_def)
qed

theorem free_mamba_cache_once_witness:
  "let r = (sample_req ''a'')\<lparr>rq_mamba_pool_idx := Some 1\<rparr>;
       H = sample_hybrid\<lparr>hy_mamba_pool := snd (mamba_alloc 1 (hy_mamba_pool sample_hybrid))\<rparr>
   in fst (free_mamba_cache r None H) = Inr ()"
proof -
  let ?r = "(sample_req ''a'')\<lparr>rq_mamba_pool_idx := Some 1\<rparr>"
  let ?H = "sample_hybrid\<lparr>hy_mamba_pool := snd (mamba_alloc 1 (hy_mamba_pool sample_hybrid))\<rparr>"
  have "ms.conserved (hy_mamba_pool ?H) (own_slots ?r @ [])"
    by (simp add: ms.conserved_def own_slots_def sample_req_def sample_hybrid_def init_mamba_pool_def mamba_slots_def
        mamba_alloc_def upt_conv_Cons numeral_2_eq_2)
  from free_mamba_cache_once [OF this, of None] show ?thesis
    by (simp add: sample_hybrid_def sample_req_def split: prod.splits)
qed

end
