(* ===== verification/State_Health.thy ===== *)
theory State_Health
  imports Tensor_State
begin

section \<open>State health: norm baselines per layer\<close>

text \<open>
  \<open>NormBaseline\<close>, \<open>HealthCheckResult\<close> and \<open>StateHealthMonitor\<close> of
  \<open>snapshot/state_health.py\<close>. A window is a list with the oldest norm first; floats are
  reals, so rounding and overflow of norms are outside the model. The window size is a
  natural number, as \<open>deque(maxlen=...)\<close> requires.
\<close>

record norm_baseline =
  nb_windows :: "(nat, real list) odict"
  nb_window_size :: nat

definition init_norm_baseline :: "nat \<Rightarrow> norm_baseline" where
  "init_norm_baseline window_size = \<lparr>nb_windows = [], nb_window_size = window_size\<rparr>"

text \<open>\<open>append\<close> on a \<open>deque\<close> with \<open>maxlen\<close>: the oldest elements beyond it are discarded.\<close>

definition deque_append :: "nat \<Rightarrow> 'a list \<Rightarrow> 'a \<Rightarrow> 'a list" where
  "deque_append maxlen xs x = (let ys = xs @ [x] in drop (length ys - maxlen) ys)"

definition update_norm :: "nat \<Rightarrow> real \<Rightarrow> norm_baseline \<Rightarrow> norm_baseline" where
  "update_norm layer_idx norm_value B =
     (let window = (case od_get (nb_windows B) layer_idx of None \<Rightarrow> [] | Some w \<Rightarrow> w)
      in B\<lparr>nb_windows := od_set layer_idx (deque_append (nb_window_size B) window norm_value) (nb_windows B)\<rparr>)"

definition norm_stats :: "nat \<Rightarrow> norm_baseline \<Rightarrow> real \<times> real \<times> nat" where
  "norm_stats layer_idx B =
     (case od_get (nb_windows B) layer_idx of
        None \<Rightarrow> (0, 0, 0)
      | Some window \<Rightarrow>
          if length window = 0 then (0, 0, 0)
          else
            let count = length window;
                mean = sum_list window / real count
            in if count < 2 then (mean, 0, count)
               else
                 let variance = sum_list (map (\<lambda>x. (x - mean)\<^sup>2) window) / real (count - 1)
                 in (mean, sqrt variance, count))"

definition is_anomalous :: "nat \<Rightarrow> real \<Rightarrow> real \<Rightarrow> norm_baseline \<Rightarrow> bool" where
  "is_anomalous layer_idx norm_value sigma_threshold B =
     (case od_get (nb_windows B) layer_idx of
        None \<Rightarrow> False
      | Some window \<Rightarrow>
          if length window < 2 then False
          else
            let (mean, std, _) = norm_stats layer_idx B
            in if std = 0 then norm_value \<noteq> mean
               else \<bar>norm_value - mean\<bar> > sigma_threshold * std)"

definition clear_baseline :: "norm_baseline \<Rightarrow> norm_baseline" where
  "clear_baseline B = B\<lparr>nb_windows := []\<rparr>"

datatype norm_source = From_conv_state | From_temporal_states

record anomaly =
  an_norm :: real
  an_mean :: real
  an_std :: real
  an_sigma_deviation :: "real option"   \<comment> \<open>\<open>None\<close> is \<open>float("inf")\<close>\<close>
  an_source :: norm_source

datatype health_details = Structural_errors "check_msg list" | Layer_details "(nat, anomaly) odict"

record health_result =
  hr_healthy :: bool
  hr_anomalous_layers :: "nat list"
  hr_details :: health_details
  hr_timestamp :: real
  hr_conversation_id :: string
  hr_turn_number :: int

record health_monitor =
  hm_baselines :: "(string, norm_baseline) odict"
  hm_window_size :: nat
  hm_sigma_threshold :: real

definition init_health_monitor :: "nat \<Rightarrow> real \<Rightarrow> health_monitor" where
  "init_health_monitor window_size sigma_threshold =
     \<lparr>hm_baselines = [], hm_window_size = window_size, hm_sigma_threshold = sigma_threshold\<rparr>"

definition get_baseline :: "string \<Rightarrow> health_monitor \<Rightarrow> norm_baseline" where
  "get_baseline conversation_id H =
     (case od_get (hm_baselines H) conversation_id of
        None \<Rightarrow> init_norm_baseline (hm_window_size H)
      | Some B \<Rightarrow> B)"

text \<open>The locals of \<open>check_state_health\<close> that its loops change.\<close>

record health_scan =
  sc_layer_idx :: nat
  sc_baseline :: norm_baseline
  sc_anomalous_layers :: "nat list"
  sc_details :: "(nat, anomaly) odict"

text \<open>One iteration, on row \<open>i\<close> of a tensor.\<close>

definition check_row :: "'t torch \<Rightarrow> real \<Rightarrow> norm_source \<Rightarrow> 't \<Rightarrow> nat \<Rightarrow> health_scan \<Rightarrow> health_scan" where
  "check_row T sigma_threshold source tensor i s =
     (let layer_idx = sc_layer_idx s;
          baseline = sc_baseline s;
          norm = th_row_norm T tensor i;
          (mean, std, count) = norm_stats layer_idx baseline
      in (if is_anomalous layer_idx norm sigma_threshold baseline
          then s\<lparr>sc_anomalous_layers := sc_anomalous_layers s @ [layer_idx],
                 sc_details := od_set layer_idx
                   \<lparr>an_norm = norm, an_mean = mean, an_std = std,
                    an_sigma_deviation = (if std > 0 then Some (\<bar>norm - mean\<bar> / std) else None),
                    an_source = source\<rparr> (sc_details s),
                 sc_layer_idx := layer_idx + 1\<rparr>
          else s\<lparr>sc_baseline := update_norm layer_idx norm baseline, sc_layer_idx := layer_idx + 1\<rparr>))"

text \<open>\<open>tensor.shape[0]\<close> raises on a tensor without dimensions.\<close>

fun check_layers ::
  "'t torch \<Rightarrow> real \<Rightarrow> (norm_source \<times> 't) list \<Rightarrow> health_scan \<Rightarrow> unit res \<times> health_scan" where
  "check_layers T thr [] s = (Inr (), s)"
| "check_layers T thr ((source, tensor) # ts) s =
     (case th_shape T tensor of
        [] \<Rightarrow> (Inl IndexError, s)
      | num_layers # _ \<Rightarrow>
          check_layers T thr ts (fold (check_row T thr source tensor) [0..<num_layers] s))"

definition check_state_health ::
  "'t torch \<Rightarrow> real \<Rightarrow> string \<Rightarrow> 't list \<Rightarrow> 't \<Rightarrow> int \<Rightarrow> health_monitor \<Rightarrow> health_result res \<times> health_monitor" where
  "check_state_health T now conversation_id conv_states temporal_states turn_number H =
     (let validation = validate_state_tensors T conv_states temporal_states None False
      in if \<not> vr_is_valid validation
         then (Inr \<lparr>hr_healthy = False, hr_anomalous_layers = [],
                    hr_details = Structural_errors (vr_errors validation), hr_timestamp = now,
                    hr_conversation_id = conversation_id, hr_turn_number = turn_number\<rparr>, H)
         else
           let (r, s) = check_layers T (hm_sigma_threshold H)
                 (map (Pair From_conv_state) conv_states @ [(From_temporal_states, temporal_states)])
                 \<lparr>sc_layer_idx = 0, sc_baseline = get_baseline conversation_id H,
                  sc_anomalous_layers = [], sc_details = []\<rparr>;
               H' = H\<lparr>hm_baselines := od_set conversation_id (sc_baseline s) (hm_baselines H)\<rparr>
           in case r of
                Inl e \<Rightarrow> (Inl e, H')
              | Inr _ \<Rightarrow>
                  (Inr \<lparr>hr_healthy = (length (sc_anomalous_layers s) = 0),
                        hr_anomalous_layers = sc_anomalous_layers s,
                        hr_details = Layer_details (sc_details s), hr_timestamp = now,
                        hr_conversation_id = conversation_id, hr_turn_number = turn_number\<rparr>, H'))"

definition get_conversation_health :: "string \<Rightarrow> health_monitor \<Rightarrow> norm_baseline option" where
  "get_conversation_health conversation_id H = od_get (hm_baselines H) conversation_id"

definition reset_baseline :: "string \<Rightarrow> health_monitor \<Rightarrow> health_monitor" where
  "reset_baseline conversation_id H =
     (case od_get (hm_baselines H) conversation_id of
        None \<Rightarrow> H
      | Some B \<Rightarrow> H\<lparr>hm_baselines := od_set conversation_id (clear_baseline B) (hm_baselines H)\<rparr>)"

subsection \<open>The scan without its loops\<close>

text \<open>The norms a check looks at, in the order of the layer index.\<close>

definition row_norms :: "'t torch \<Rightarrow> 't \<Rightarrow> real list" where
  "row_norms T t = (case th_shape T t of [] \<Rightarrow> [] | n # _ \<Rightarrow> map (th_row_norm T t) [0..<n])"

definition state_norms :: "'t torch \<Rightarrow> 't list \<Rightarrow> 't \<Rightarrow> real list" where
  "state_norms T cs t = concat (map (row_norms T) (cs @ [t]))"

text \<open>The window of a layer, and the one after it sees a norm.\<close>

definition window_of :: "norm_baseline \<Rightarrow> nat \<Rightarrow> real list" where
  "window_of B l = (case od_get (nb_windows B) l of None \<Rightarrow> [] | Some w \<Rightarrow> w)"

definition learn :: "real \<Rightarrow> norm_baseline \<Rightarrow> nat \<Rightarrow> real \<Rightarrow> real list" where
  "learn thr B l x =
     (if is_anomalous l x thr B then window_of B l else deque_append (nb_window_size B) (window_of B l) x)"

lemma window_update: "window_of (update_norm l x B) l' =
    (if l' = l then deque_append (nb_window_size B) (window_of B l) x else window_of B l')"
  by (simp add: window_of_def update_norm_def Let_def)

lemma window_size_update [simp]: "nb_window_size (update_norm l x B) = nb_window_size B"
  by (simp add: update_norm_def Let_def)

lemma is_anomalous_cong:
  "od_get (nb_windows B) l = od_get (nb_windows B') l \<Longrightarrow> is_anomalous l x thr B = is_anomalous l x thr B'"
proof -
  assume w: "od_get (nb_windows B) l = od_get (nb_windows B') l"
  then have st: "norm_stats l B = norm_stats l B'" by (simp add: norm_stats_def)
  show ?thesis unfolding is_anomalous_def w st ..
qed

lemma od_get_update_other:
  "l' \<noteq> l \<Longrightarrow> od_get (nb_windows (update_norm l x B)) l' = od_get (nb_windows B) l'"
  by (simp add: update_norm_def Let_def)

text \<open>
  A scan that has looked at the norms \<open>xs\<close> of a baseline \<open>B\<close>: it stands at the next layer,
  it has flagged exactly the anomalous layers, it has taught the others their norm, and the
  layers ahead are as they were.
\<close>

definition scanned :: "real \<Rightarrow> norm_baseline \<Rightarrow> real list \<Rightarrow> health_scan \<Rightarrow> bool" where
  "scanned thr B xs s =
     (sc_layer_idx s = length xs \<and>
      nb_window_size (sc_baseline s) = nb_window_size B \<and>
      sc_anomalous_layers s = filter (\<lambda>l. is_anomalous l (xs ! l) thr B) [0..<length xs] \<and>
      od_keys (sc_details s) = sc_anomalous_layers s \<and>
      (\<forall>l < length xs. window_of (sc_baseline s) l = learn thr B l (xs ! l)) \<and>
      (\<forall>l \<ge> length xs. od_get (nb_windows (sc_baseline s)) l = od_get (nb_windows B) l))"

lemma filter_upt_snoc:
  "filter (\<lambda>l. P l ((xs @ [x]) ! l)) [0..<length xs] = filter (\<lambda>l. P l (xs ! l)) [0..<length xs]"
  by (rule filter_cong) (simp_all add: nth_append)

lemma check_row_fields:
  "sc_layer_idx (check_row T thr src t i s) = sc_layer_idx s + 1"
  "sc_anomalous_layers (check_row T thr src t i s) = sc_anomalous_layers s @
     (if is_anomalous (sc_layer_idx s) (th_row_norm T t i) thr (sc_baseline s) then [sc_layer_idx s] else [])"
  "sc_baseline (check_row T thr src t i s) =
     (if is_anomalous (sc_layer_idx s) (th_row_norm T t i) thr (sc_baseline s) then sc_baseline s
      else update_norm (sc_layer_idx s) (th_row_norm T t i) (sc_baseline s))"
  "sc_layer_idx s \<notin> set (od_keys (sc_details s)) \<Longrightarrow> od_keys (sc_details (check_row T thr src t i s)) =
     od_keys (sc_details s) @
     (if is_anomalous (sc_layer_idx s) (th_row_norm T t i) thr (sc_baseline s) then [sc_layer_idx s] else [])"
  by (simp_all add: check_row_def Let_def split_beta od_keys_set)

lemma scanned_row:
  assumes "scanned thr B xs s"
  shows "scanned thr B (xs @ [th_row_norm T t i]) (check_row T thr src t i s)"
proof -
  let ?l = "length xs" and ?x = "th_row_norm T t i"
  have s: "sc_layer_idx s = ?l" "od_get (nb_windows (sc_baseline s)) ?l = od_get (nb_windows B) ?l"
    "nb_window_size (sc_baseline s) = nb_window_size B"
    using assms by (simp_all add: scanned_def)
  have a: "is_anomalous ?l ?x thr (sc_baseline s) = is_anomalous ?l ?x thr B"
    by (rule is_anomalous_cong) (rule s(2))
  have w: "window_of (sc_baseline s) ?l = window_of B ?l" using s(2) by (simp add: window_of_def)
  have fresh: "?l \<notin> set (od_keys (sc_details s))" using assms by (simp add: scanned_def del: set_map)
  have "window_of (sc_baseline (check_row T thr src t i s)) l = learn thr B l ((xs @ [?x]) ! l)"
    if "l < length (xs @ [?x])" for l
    using that assms w s(1,3)
    by (auto simp: check_row_fields scanned_def a window_update learn_def nth_append less_Suc_eq)
  moreover have "od_get (nb_windows (sc_baseline (check_row T thr src t i s))) l = od_get (nb_windows B) l"
    if "l \<ge> length (xs @ [?x])" for l
    using that assms s(1) by (auto simp: check_row_fields scanned_def od_get_update_other)
  moreover have "filter (\<lambda>l. is_anomalous l ((xs @ [?x]) ! l) thr B) [0..<length (xs @ [?x])] =
      filter (\<lambda>l. is_anomalous l (xs ! l) thr B) [0..<length xs] @ (if is_anomalous ?l ?x thr B then [?l] else [])"
    using filter_upt_snoc [of "\<lambda>l x. is_anomalous l x thr B" xs ?x] by simp
  moreover have "od_keys (sc_details (check_row T thr src t i s)) = sc_anomalous_layers (check_row T thr src t i s)"
    using assms fresh s(1) by (simp add: scanned_def check_row_fields a)
  ultimately show ?thesis
    using assms s(1,3) unfolding scanned_def by (simp add: check_row_fields a)
qed

lemma scanned_rows:
  "scanned thr B xs s \<Longrightarrow>
     scanned thr B (xs @ map (th_row_norm T t) [0..<n]) (fold (check_row T thr src t) [0..<n] s)"
proof (induction n)
  case (Suc n)
  have "scanned thr B (xs @ map (th_row_norm T t) [0..<n]) (fold (check_row T thr src t) [0..<n] s)"
    by (rule Suc.IH [OF Suc.prems])
  from scanned_row [OF this, of T t n src] show ?case by simp
qed simp

lemma scanned_layers:
  assumes "scanned thr B xs s" "\<forall>t \<in> snd ` set ts. th_shape T t \<noteq> []"
  shows "fst (check_layers T thr ts s) = Inr ()"
    "scanned thr B (xs @ concat (map (row_norms T \<circ> snd) ts)) (snd (check_layers T thr ts s))"
proof -
  have "fst (check_layers T thr ts s) = Inr () \<and>
    scanned thr B (xs @ concat (map (row_norms T \<circ> snd) ts)) (snd (check_layers T thr ts s))"
    using assms
  proof (induction ts arbitrary: xs s)
    case (Cons p ts)
    obtain src t where p: "p = (src, t)" by (cases p)
    obtain n r where n: "th_shape T t = n # r" using Cons.prems(2) p by (cases "th_shape T t") auto
    from Cons.IH [OF scanned_rows [OF Cons.prems(1), of T t n src]] Cons.prems(2)
    show ?case by (simp add: p n row_norms_def)
  qed simp
  then show "fst (check_layers T thr ts s) = Inr ()"
    "scanned thr B (xs @ concat (map (row_norms T \<circ> snd) ts)) (snd (check_layers T thr ts s))" by auto
qed

subsection \<open>The windows stay bounded\<close>

definition windows_bounded :: "nat \<Rightarrow> norm_baseline \<Rightarrow> bool" where
  "windows_bounded n B = (nb_window_size B = n \<and> (\<forall>l w. od_get (nb_windows B) l = Some w \<longrightarrow> length w \<le> n))"

definition monitor_ok :: "health_monitor \<Rightarrow> bool" where
  "monitor_ok H = (\<forall>c B. od_get (hm_baselines H) c = Some B \<longrightarrow> windows_bounded (hm_window_size H) B)"

lemma deque_append_length: "length (deque_append n xs x) \<le> n"
  by (simp add: deque_append_def Let_def)

lemma bounded_update: "windows_bounded n B \<Longrightarrow> windows_bounded n (update_norm l x B)"
  by (auto simp: windows_bounded_def update_norm_def Let_def deque_append_length)

lemma bounded_rows:
  "windows_bounded n (sc_baseline s) \<Longrightarrow> windows_bounded n (sc_baseline (fold (check_row T thr src t) is s))"
  by (induction "is" arbitrary: s) (auto simp: check_row_fields bounded_update)

lemma bounded_layers:
  "windows_bounded n (sc_baseline s) \<Longrightarrow> windows_bounded n (sc_baseline (snd (check_layers T thr ts s)))"
proof (induction ts arbitrary: s)
  case (Cons p ts)
  then show ?case by (cases p) (simp add: bounded_rows split: list.split)
qed simp

lemma bounded_empty: "windows_bounded n (init_norm_baseline n)"
  by (simp add: windows_bounded_def init_norm_baseline_def)

lemma get_baseline_ok: "monitor_ok H \<Longrightarrow> windows_bounded (hm_window_size H) (get_baseline c H)"
  by (simp add: monitor_ok_def get_baseline_def bounded_empty split: option.split)

lemma monitor_ok_set:
  "monitor_ok H \<Longrightarrow> windows_bounded (hm_window_size H) B \<Longrightarrow>
     monitor_ok (H\<lparr>hm_baselines := od_set c B (hm_baselines H)\<rparr>)"
  by (simp add: monitor_ok_def)

lemma check_state_health_ok:
  "monitor_ok H \<Longrightarrow> monitor_ok (snd (check_state_health T now cid cs t turn H))"
  by (auto simp: check_state_health_def Let_def split_beta intro!: monitor_ok_set bounded_layers get_baseline_ok
      split: sum.split)

lemma reset_baseline_ok: "monitor_ok H \<Longrightarrow> monitor_ok (reset_baseline cid H)"
  by (auto simp: reset_baseline_def clear_baseline_def windows_bounded_def monitor_ok_def
      intro!: monitor_ok_set split: option.split)

inductive health_reach :: "'t torch \<Rightarrow> health_monitor \<Rightarrow> bool" for T where
  start: "health_reach T (init_health_monitor n thr)"
| check: "health_reach T H \<Longrightarrow> health_reach T (snd (check_state_health T now cid cs t turn H))"
| reset: "health_reach T H \<Longrightarrow> health_reach T (reset_baseline cid H)"

lemma health_reach_ok: "health_reach T H \<Longrightarrow> monitor_ok H"
  by (induction rule: health_reach.induct)
    (simp_all add: check_state_health_ok reset_baseline_ok init_health_monitor_def monitor_ok_def [of "init_health_monitor _ _"]
      monitor_ok_def [of "\<lparr>hm_baselines = [], hm_window_size = _, hm_sigma_threshold = _\<rparr>"])

subsection \<open>Properties\<close>

text \<open>
  C39: what a health check decides and what it learns. A state that fails validation is
  unhealthy and changes no baseline. Otherwise the layers reported are exactly those whose
  norm is anomalous for the conversation's baseline as it was before the check; the state is
  healthy if there are none; every other layer adds its norm to its window, an anomalous
  layer's window stays as it was, and the baselines of other conversations do not change.
\<close>

theorem health_check_exact:
  assumes "\<forall>u \<in> set (cs @ [t]). th_shape T u \<noteq> []"
  shows "(\<not> state_ok T False cs t \<longrightarrow>
      snd (check_state_health T now cid cs t turn H) = H \<and>
      (\<exists>r. fst (check_state_health T now cid cs t turn H) = Inr r \<and> \<not> hr_healthy r)) \<and>
    (state_ok T False cs t \<longrightarrow>
      (let xs = state_norms T cs t; B = get_baseline cid H; thr = hm_sigma_threshold H;
           H' = snd (check_state_health T now cid cs t turn H)
       in (\<exists>r. fst (check_state_health T now cid cs t turn H) = Inr r \<and>
             hr_anomalous_layers r = filter (\<lambda>l. is_anomalous l (xs ! l) thr B) [0..<length xs] \<and>
             hr_healthy r = (\<forall>l < length xs. \<not> is_anomalous l (xs ! l) thr B)) \<and>
          (\<forall>l < length xs. window_of (get_baseline cid H') l =
             (if is_anomalous l (xs ! l) thr B then window_of B l
              else deque_append (nb_window_size B) (window_of B l) (xs ! l))) \<and>
          (\<forall>c. c \<noteq> cid \<longrightarrow> get_conversation_health c H' = get_conversation_health c H)))"
proof -
  let ?B = "get_baseline cid H" and ?thr = "hm_sigma_threshold H"
  let ?ts = "map (Pair From_conv_state) cs @ [(From_temporal_states, t)]"
  let ?s = "\<lparr>sc_layer_idx = 0, sc_baseline = ?B, sc_anomalous_layers = [], sc_details = []\<rparr>"
  have "scanned ?thr ?B [] ?s" by (simp add: scanned_def)
  moreover have "\<forall>u \<in> snd ` set ?ts. th_shape T u \<noteq> []" using assms by auto
  ultimately have f: "fst (check_layers T ?thr ?ts ?s) = Inr ()"
    and sc: "scanned ?thr ?B (concat (map (row_norms T \<circ> snd) ?ts)) (snd (check_layers T ?thr ?ts ?s))"
    using scanned_layers [of ?thr ?B "[]" ?s ?ts T] by simp_all
  have n: "concat (map (row_norms T \<circ> snd) ?ts) = state_norms T cs t"
    by (simp add: state_norms_def comp_def)
  obtain s' where s': "check_layers T ?thr ?ts ?s = (Inr (), s')"
    using f by (cases "check_layers T ?thr ?ts ?s") simp
  show ?thesis
    using sc s' unfolding n
    by (auto simp: check_state_health_def is_valid_iff scanned_def learn_def get_baseline_def
        get_conversation_health_def filter_empty_conv Let_def)
qed

theorem health_check_exact_witness:
  "\<exists>r. fst (check_state_health mat_torch 0 ''c1'' [[[1]]] [[2]] 1 (init_health_monitor 100 3)) = Inr r \<and> hr_healthy r"
proof -
  have sh: "\<forall>u \<in> set ([[[1]]] @ [[[2]]]). th_shape mat_torch u \<noteq> []" by (simp add: mat_torch_def)
  have ok: "state_ok mat_torch False [[[1]]] [[2]]"
    by (simp add: state_ok_def tensor_ok_def mat_torch_def allowed_dtypes_def)
  have B: "get_baseline ''c1'' (init_health_monitor 100 3) = init_norm_baseline 100"
    by (simp add: get_baseline_def init_health_monitor_def)
  have "\<not> is_anomalous l x thr (init_norm_baseline 100)" for l x thr
    by (simp add: is_anomalous_def init_norm_baseline_def)
  then show ?thesis
    using health_check_exact [OF sh, of 0 "''c1''" 1 "init_health_monitor 100 3"] ok B by (auto simp: Let_def)
qed

text \<open>
  The memory of the monitor is bounded: after any sequence of checks and resets, also
  ones that raise, no layer's window is longer than the window size.
\<close>

theorem health_windows_bounded:
  assumes "health_reach T H" and "get_conversation_health cid H = Some B"
  shows "length (window_of B l) \<le> hm_window_size H"
  using health_reach_ok [OF assms(1)] assms(2)
  by (auto simp: monitor_ok_def windows_bounded_def get_conversation_health_def window_of_def split: option.split)

theorem health_windows_bounded_witness:
  "length (window_of (get_baseline ''c1'' (snd (check_state_health mat_torch 0 ''c1'' [[[1]]] [[2]] 1
     (init_health_monitor 1 3)))) 0) \<le> 1"
proof -
  let ?H = "snd (check_state_health mat_torch 0 ''c1'' [[[1]]] [[2]] 1 (init_health_monitor 1 3))"
  have r: "health_reach mat_torch ?H" by (intro health_reach.check health_reach.start)
  have g: "get_conversation_health ''c1'' ?H = Some (get_baseline ''c1'' ?H)" and w: "hm_window_size ?H = 1"
    by (simp_all add: check_state_health_def init_health_monitor_def Let_def split_beta is_valid_iff state_ok_def
        tensor_ok_def mat_torch_def allowed_dtypes_def get_conversation_health_def get_baseline_def)
  from health_windows_bounded [OF r g, of 0] w show ?thesis by simp
qed

end
