(* ===== verification/Pending_Restore.thy ===== *)
theory Pending_Restore
  imports Tensor_State
begin

section \<open>The registry of pending restores\<close>

text \<open>
  \<open>PendingRestoreEntry\<close> of \<open>managers/scheduler_pending_restore.py\<close> and the functions of
  \<open>managers/scheduler_snapshot_handlers.py\<close> that keep the registry: an \<open>OrderedDict\<close> of
  staged states keyed by request id (which may be \<open>None\<close>), bounded by \<open>PENDING_RESTORE_REGISTRY_MAX\<close> entries, and a
  dictionary of aliases from conversation ids to those keys. The attributes always exist:
  \<open>init_snapshot_system\<close> sets them before anything else.
\<close>

definition PENDING_RESTORE_REGISTRY_MAX :: nat where
  "PENDING_RESTORE_REGISTRY_MAX = 256"

record 't pending_entry =
  pe_conv_states :: "'t list"
  pe_temporal_states :: 't
  pe_fill_ids :: "int list option"
  pe_conversation_id :: string
  pe_timestamp :: real

record 't pending =
  pr_registry :: "(string option, 't pending_entry) odict"
  pr_aliases :: "(string, string option) odict"

definition init_pending :: "'t pending" where
  "init_pending = \<lparr>pr_registry = [], pr_aliases = []\<rparr>"

text \<open>The loop that deletes every alias of a canonical key, and popping the key with it.\<close>

definition drop_aliases :: "string option \<Rightarrow> 't pending \<Rightarrow> 't pending" where
  "drop_aliases canonical P = P\<lparr>pr_aliases := od_del_value canonical (pr_aliases P)\<rparr>"

definition forget :: "string option \<Rightarrow> 't pending \<Rightarrow> 't pending" where
  "forget canonical P = drop_aliases canonical (P\<lparr>pr_registry := od_del canonical (pr_registry P)\<rparr>)"

text \<open>The \<open>while\<close> loop that keeps the bound.\<close>

function evict_pending :: "'t pending \<Rightarrow> 't pending" where
  "evict_pending P =
     (if length (pr_registry P) > PENDING_RESTORE_REGISTRY_MAX
      then (case pr_registry P of
              [] \<Rightarrow> P
            | (evicted_canonical, _) # rest \<Rightarrow>
                evict_pending (drop_aliases evicted_canonical (P\<lparr>pr_registry := rest\<rparr>)))
      else P)"
  by pat_completeness auto
termination
  by (relation "measure (\<lambda>P. length (pr_registry P))") (auto simp: drop_aliases_def)

declare evict_pending.simps [simp del]

text \<open>\<open>d.get(k)\<close> for a dictionary whose values may be \<open>None\<close>: an absent key and a \<open>None\<close> look the same.\<close>

definition dict_get_opt :: "('k, 'v option) odict \<Rightarrow> 'k \<Rightarrow> 'v option" where
  "dict_get_opt d k = (case od_get d k of None \<Rightarrow> None | Some v \<Rightarrow> v)"

text \<open>
  The cases of \<open>_stage_pending_restore\<close> in which an id is already in use: the new key is an
  alias of another entry; the new conversation id is a key, or an alias of another entry.
\<close>

definition release_alias :: "string option \<Rightarrow> 't pending \<Rightarrow> 't pending" where
  "release_alias canonical P =
     (case Option.bind canonical (od_get (pr_aliases P)) of
        None \<Rightarrow> P
      | Some other_canonical \<Rightarrow>
          drop_aliases other_canonical
            (if other_canonical \<noteq> canonical
             then P\<lparr>pr_registry := od_del other_canonical (pr_registry P)\<rparr> else P))"

definition link_conversation :: "string option \<Rightarrow> string \<Rightarrow> 't pending \<Rightarrow> 't pending" where
  "link_conversation canonical conversation_id P =
     (if conversation_id \<noteq> [] \<and> Some conversation_id \<noteq> canonical then
        let P1 = (if od_mem (Some conversation_id) (pr_registry P) then forget (Some conversation_id) P else P);
            P2 = (case dict_get_opt (pr_aliases P1) conversation_id of
                    None \<Rightarrow> P1
                  | Some old_canonical \<Rightarrow>
                      if Some old_canonical \<noteq> canonical then forget (Some old_canonical) P1 else P1)
        in P2\<lparr>pr_aliases := od_set conversation_id canonical (pr_aliases P2)\<rparr>
      else P)"

definition stage_pending_restore ::
  "real \<Rightarrow> string option \<Rightarrow> string \<Rightarrow> 't list \<Rightarrow> 't \<Rightarrow> int list option \<Rightarrow> 't pending \<Rightarrow> 't pending" where
  "stage_pending_restore now rid conversation_id conv_states temporal_states fill_ids P =
     (let canonical = rid;
          P1 = release_alias canonical (forget canonical P);
          entry = \<lparr>pe_conv_states = conv_states, pe_temporal_states = temporal_states, pe_fill_ids = fill_ids,
                   pe_conversation_id = conversation_id, pe_timestamp = now\<rparr>;
          P2 = P1\<lparr>pr_registry := od_set canonical entry (pr_registry P1)\<rparr>
      in evict_pending (link_conversation canonical conversation_id P2))"

text \<open>Resolving a request to a canonical key, in \<open>_maybe_hydrate_from_pending_restore\<close>; the flag is \<open>matched_via_rid\<close>.\<close>

definition find_pending :: "string \<Rightarrow> string option \<Rightarrow> 't pending \<Rightarrow> (string \<times> bool) option" where
  "find_pending rid conv_id P =
     (if od_mem (Some rid) (pr_registry P) then Some (rid, True)
      else
        case (if str_truthy conv_id \<and> conv_id \<noteq> Some rid then dict_get_opt (pr_aliases P) (the conv_id) else None) of
          None \<Rightarrow> None
        | Some canonical \<Rightarrow> if od_mem (Some canonical) (pr_registry P) then Some (canonical, False) else None)"

definition clear_pending_restore :: "string option \<Rightarrow> string option \<Rightarrow> 't pending \<Rightarrow> 't pending" where
  "clear_pending_restore rid conversation_id P =
     (if pr_registry P = [] then P
      else
        let canonical0 = (if od_mem rid (pr_registry P) then rid else None);
            canonical = (if canonical0 = None \<and> str_truthy conversation_id \<and> pr_aliases P \<noteq> []
                         then dict_get_opt (pr_aliases P) (the conversation_id) else canonical0)
        in if canonical = None \<or> \<not> od_mem canonical (pr_registry P) then P
           else forget canonical P)"

text \<open>\<open>registry.move_to_end\<close> after a hydration.\<close>

definition touch_pending :: "string option \<Rightarrow> 't pending \<Rightarrow> 't pending" where
  "touch_pending canonical P = P\<lparr>pr_registry := od_move_to_end canonical (pr_registry P)\<rparr>"

subsection \<open>The invariant\<close>

text \<open>
  Every entry is filed under a request id; the aliases are exactly the conversation ids of
  the staged entries that differ from the entry's key, and no alias is itself a key.
\<close>

definition pending_wf :: "'t pending \<Rightarrow> bool" where
  "pending_wf P =
     (od_ok (pr_registry P) \<and> od_ok (pr_aliases P) \<and>
      (\<forall>a k. od_get (pr_aliases P) a = Some k \<longleftrightarrow>
         (\<exists>e. od_get (pr_registry P) k = Some e \<and> pe_conversation_id e = a \<and> a \<noteq> [] \<and> Some a \<noteq> k)) \<and>
      (\<forall>a. od_get (pr_aliases P) a \<noteq> None \<longrightarrow> od_get (pr_registry P) (Some a) = None) \<and>
      od_get (pr_registry P) None = None)"

lemma pending_wfD:
  assumes "pending_wf P"
  shows "od_ok (pr_registry P)" "od_ok (pr_aliases P)"
    "od_get (pr_aliases P) a = Some k \<longleftrightarrow>
       (\<exists>e. od_get (pr_registry P) k = Some e \<and> pe_conversation_id e = a \<and> a \<noteq> [] \<and> Some a \<noteq> k)"
    "od_get (pr_aliases P) a = Some k \<Longrightarrow> od_get (pr_registry P) (Some a) = None"
    "od_get (pr_registry P) None = None"
    "od_get (pr_aliases P) a \<noteq> Some None"
  using assms by (auto simp: pending_wf_def)

lemma pending_wf_init: "pending_wf init_pending"
  by (simp add: pending_wf_def init_pending_def)

lemma forget_parts [simp]:
  "pr_registry (forget k P) = od_del k (pr_registry P)"
  "pr_aliases (forget k P) = od_del_value k (pr_aliases P)"
  by (simp_all add: forget_def drop_aliases_def)

lemma pending_wf_forget:
  assumes "pending_wf P"
  shows "pending_wf (forget k P)"
proof -
  note wf = pending_wfD [OF assms]
  have al: "od_get (pr_aliases (forget k P)) a = Some k' \<longleftrightarrow> od_get (pr_aliases P) a = Some k' \<and> k' \<noteq> k" for a k'
    using wf(2) by (auto simp: od_get_del_value)
  have re: "od_get (pr_registry (forget k P)) k' = (if k' = k then None else od_get (pr_registry P) k')" for k' by simp
  show ?thesis unfolding pending_wf_def al re
    using wf(1,2) wf(3) wf(4) wf(5) al by (simp add: re) (metis not_None_eq)
qed

lemma pending_wf_touch: "pending_wf P \<Longrightarrow> pending_wf (touch_pending k P)"
  by (simp add: pending_wf_def touch_pending_def)

lemma drop_head:
  "pr_registry P = (k, e) # rest \<Longrightarrow> od_ok (pr_registry P) \<Longrightarrow>
     drop_aliases k (P\<lparr>pr_registry := rest\<rparr>) = forget k P"
  using od_del_absent [of k rest] by (simp add: forget_def drop_aliases_def od_ok_def od_del_def)

lemma pending_wf_evict: "pending_wf P \<Longrightarrow> pending_wf (evict_pending P)"
proof (induction P rule: evict_pending.induct)
  case (1 P)
  show ?case
  proof (cases "length (pr_registry P) > PENDING_RESTORE_REGISTRY_MAX")
    case True
    then obtain k e rest where R: "pr_registry P = (k, e) # rest" by (cases "pr_registry P") auto
    note h = drop_head [OF R pending_wfD(1) [OF "1.prems"]]
    have "pending_wf (evict_pending (forget k P))"
      using "1.IH" [OF True R refl] pending_wf_forget [OF "1.prems"] h by simp
    then show ?thesis using True R h by (simp add: evict_pending.simps [of P])
  qed (use "1.prems" in \<open>simp add: evict_pending.simps [of P]\<close>)
qed

text \<open>The loop keeps the newest entries.\<close>

lemma evict_registry:
  "pr_registry (evict_pending P) =
     drop (length (pr_registry P) - PENDING_RESTORE_REGISTRY_MAX) (pr_registry P)"
proof (induction P rule: evict_pending.induct)
  case (1 P)
  show ?case
  proof (cases "length (pr_registry P) > PENDING_RESTORE_REGISTRY_MAX")
    case True
    then obtain k e rest where R: "pr_registry P = (k, e) # rest" by (cases "pr_registry P") auto
    have "length (pr_registry P) - PENDING_RESTORE_REGISTRY_MAX = Suc (length rest - PENDING_RESTORE_REGISTRY_MAX)"
      using True R by simp
    then show ?thesis using "1.IH" [OF True R refl] True R by (simp add: evict_pending.simps [of P] drop_aliases_def)
  qed (simp add: evict_pending.simps [of P])
qed

subsection \<open>Staging\<close>

text \<open>
  Resolving an alias and forgetting the entry behind it removes every entry of that
  conversation that is filed under another key.
\<close>

definition purge :: "string \<Rightarrow> 't pending \<Rightarrow> 't pending" where
  "purge a P = (case od_get (pr_aliases P) a of None \<Rightarrow> P | Some k \<Rightarrow> forget k P)"

lemma pending_wf_purge: "pending_wf P \<Longrightarrow> pending_wf (purge a P)"
  by (simp add: purge_def pending_wf_forget split: option.split)

lemma purge_registry:
  assumes "pending_wf P"
  shows "pr_registry (purge a P) =
    filter (\<lambda>(k, e). \<not> (a \<noteq> [] \<and> pe_conversation_id e = a \<and> k \<noteq> Some a)) (pr_registry P)"
proof -
  note wf = pending_wfD [OF assms]
  have al: "od_get (pr_aliases P) a = Some k"
    if "(k, e) \<in> set (pr_registry P)" "a \<noteq> []" "pe_conversation_id e = a" "k \<noteq> Some a" for k e
    using that wf(1) wf(3) [of a k] by (auto simp: od_get_in_set)
  show ?thesis
  proof (cases "od_get (pr_aliases P) a")
    case None
    then have "filter (\<lambda>(k, e). \<not> (a \<noteq> [] \<and> pe_conversation_id e = a \<and> k \<noteq> Some a)) (pr_registry P) = pr_registry P"
      using al by (intro filter_True) fastforce
    then show ?thesis using None by (simp add: purge_def)
  next
    case (Some k)
    then obtain e where e: "od_get (pr_registry P) k = Some e" "pe_conversation_id e = a" "a \<noteq> []" "Some a \<noteq> k"
      using wf(3) by blast
    have "filter (\<lambda>p. fst p \<noteq> k) (pr_registry P) =
        filter (\<lambda>(k, e). \<not> (a \<noteq> [] \<and> pe_conversation_id e = a \<and> k \<noteq> Some a)) (pr_registry P)"
    proof (rule filter_cong [OF refl])
      fix p
      assume p: "p \<in> set (pr_registry P)"
      obtain k' e' where p': "p = (k', e')" by (cases p)
      show "(fst p \<noteq> k) = (case p of (k, e) \<Rightarrow> \<not> (a \<noteq> [] \<and> pe_conversation_id e = a \<and> k \<noteq> Some a))"
      proof (cases "k' = k")
        case True
        then have "e' = e" using p p' e(1) wf(1) od_get_in_set [of "pr_registry P" k e'] by simp
        then show ?thesis using True p' e by simp
      next
        case False
        then show ?thesis using al [of k' e'] p p' Some by auto
      qed
    qed
    then show ?thesis using Some by (simp add: purge_def od_del_def)
  qed
qed

lemma purge_alias: "pending_wf P \<Longrightarrow> od_get (pr_aliases (purge a P)) a = None"
  by (simp add: purge_def od_get_del_value pending_wfD(2) split: option.split)

text \<open>Adding an entry under a key that nothing refers to.\<close>

definition added :: "string \<Rightarrow> 't pending_entry \<Rightarrow> 't pending \<Rightarrow> 't pending" where
  "added rid e P =
     P\<lparr>pr_registry := od_set (Some rid) e (pr_registry P),
       pr_aliases := (if pe_conversation_id e \<noteq> [] \<and> pe_conversation_id e \<noteq> rid
         then od_set (pe_conversation_id e) (Some rid) (pr_aliases P) else pr_aliases P)\<rparr>"

lemma pending_wf_added:
  assumes "pending_wf P" "od_get (pr_registry P) (Some rid) = None" "od_get (pr_aliases P) rid = None"
    and "pe_conversation_id e \<noteq> [] \<Longrightarrow> pe_conversation_id e \<noteq> rid \<Longrightarrow>
      od_get (pr_registry P) (Some (pe_conversation_id e)) = None \<and> od_get (pr_aliases P) (pe_conversation_id e) = None"
  shows "pending_wf (added rid e P)"
proof -
  let ?c = "pe_conversation_id e"
  note wf = pending_wfD [OF assms(1)]
  have al: "od_get (pr_aliases (added rid e P)) a = Some k \<longleftrightarrow>
      (a = ?c \<and> k = Some rid \<and> a \<noteq> [] \<and> a \<noteq> rid) \<or> od_get (pr_aliases P) a = Some k" for a k
    using assms(4) by (auto simp: added_def)
  have re: "od_get (pr_registry (added rid e P)) k = (if k = Some rid then Some e else od_get (pr_registry P) k)" for k
    by (simp add: added_def)
  have "(od_get (pr_aliases (added rid e P)) a = Some k) =
      (\<exists>e'. od_get (pr_registry (added rid e P)) k = Some e' \<and> pe_conversation_id e' = a \<and> a \<noteq> [] \<and> Some a \<noteq> k)" for a k
    unfolding al re wf(3) using assms(2) by auto
  moreover have "od_get (pr_registry (added rid e P)) (Some a) = None" if "od_get (pr_aliases (added rid e P)) a = Some k" for a k
    using that assms(3,4) wf(4) unfolding al re by auto
  moreover have "od_ok (pr_registry (added rid e P))" "od_ok (pr_aliases (added rid e P))"
    using wf(1,2) by (simp_all add: added_def)
  moreover have "od_get (pr_registry (added rid e P)) None = None" using wf(5) by (simp add: re)
  ultimately show ?thesis by (fastforce simp: pending_wf_def)
qed

abbreviation staged_entry :: "real \<Rightarrow> string \<Rightarrow> 't list \<Rightarrow> 't \<Rightarrow> int list option \<Rightarrow> 't pending_entry" where
  "staged_entry now cid cs t fi \<equiv>
     \<lparr>pe_conv_states = cs, pe_temporal_states = t, pe_fill_ids = fi, pe_conversation_id = cid, pe_timestamp = now\<rparr>"

definition cleaned :: "string \<Rightarrow> string \<Rightarrow> 't pending \<Rightarrow> 't pending" where
  "cleaned rid cid P =
     (let Q = purge rid (forget (Some rid) P)
      in if cid \<noteq> [] \<and> cid \<noteq> rid then purge cid (forget (Some cid) Q) else Q)"

lemma pending_wf_cleaned: "pending_wf P \<Longrightarrow> pending_wf (cleaned rid cid P)"
  by (simp add: cleaned_def Let_def pending_wf_purge pending_wf_forget)

lemma forget_absent: "pending_wf P \<Longrightarrow> od_get (pr_registry P) k = None \<Longrightarrow> forget k P = P"
proof -
  assume wf: "pending_wf P" and n: "od_get (pr_registry P) k = None"
  have "snd p \<noteq> k" if "p \<in> set (pr_aliases P)" for p
  proof
    assume "snd p = k"
    then have "(fst p, k) \<in> set (pr_aliases P)" using that by (metis prod.collapse)
    then have "od_get (pr_aliases P) (fst p) = Some k" using pending_wfD(2) [OF wf] by (simp add: od_get_in_set)
    then show False using pending_wfD(3) [OF wf, of "fst p" k] n by simp
  qed
  then have "od_del_value k (pr_aliases P) = pr_aliases P" by (simp add: od_del_value_def filter_True)
  moreover have "od_del k (pr_registry P) = pr_registry P" using n by (simp add: od_del_absent map_of_eq_None_iff)
  ultimately show ?thesis by (simp add: forget_def drop_aliases_def)
qed

lemma cleaned_lookup:
  assumes "pending_wf P"
  shows "od_get (pr_registry (cleaned rid cid P)) (Some rid) = None" "od_get (pr_aliases (cleaned rid cid P)) rid = None"
    "cid \<noteq> [] \<Longrightarrow> cid \<noteq> rid \<Longrightarrow>
       od_get (pr_registry (cleaned rid cid P)) (Some cid) = None \<and> od_get (pr_aliases (cleaned rid cid P)) cid = None"
proof -
  let ?Q = "purge rid (forget (Some rid) P)"
  have Q: "pending_wf ?Q" by (intro pending_wf_purge pending_wf_forget assms)
  have r: "od_get (pr_registry ?Q) (Some rid) = None"
    by (auto simp: purge_def split: option.split)
  have a: "od_get (pr_aliases ?Q) rid = None" by (intro purge_alias pending_wf_forget assms)
  have keep: "od_get (pr_registry (purge c (forget k ?Q))) x = None" if "od_get (pr_registry ?Q) x = None" for c k x
    using that by (auto simp: purge_def split: option.split)
  have keepa: "od_get (pr_aliases (purge c (forget k ?Q))) x = None" if "od_get (pr_aliases ?Q) x = None" for c k x
    using that pending_wfD(2) [OF Q] pending_wfD(2) [OF pending_wf_forget [OF Q, of k]]
    by (auto simp: purge_def od_get_del_value split: option.split)
  show "od_get (pr_registry (cleaned rid cid P)) (Some rid) = None" "od_get (pr_aliases (cleaned rid cid P)) rid = None"
    using r a keep keepa by (simp_all add: cleaned_def Let_def)
  show "od_get (pr_registry (cleaned rid cid P)) (Some cid) = None \<and> od_get (pr_aliases (cleaned rid cid P)) cid = None"
    if "cid \<noteq> []" "cid \<noteq> rid"
    using that purge_alias [OF pending_wf_forget [OF Q]] by (auto simp: cleaned_def Let_def purge_def split: option.split)
qed

text \<open>Inserting first and cleaning up afterwards, as the code does, comes to the same.\<close>

lemma od_set_del: "k \<noteq> k' \<Longrightarrow> od_set k v (od_del k' d) = od_del k' (od_set k v d)"
  by (induction d) (auto simp: od_del_def)

lemma release_alias_eq:
  assumes "pending_wf P" "od_get (pr_registry P) (Some rid) = None"
  shows "release_alias (Some rid) P = purge rid P"
proof -
  have "k \<noteq> Some rid" if "od_get (pr_aliases P) rid = Some k" for k
    using that assms(2) pending_wfD(3) [OF assms(1), of rid k] by auto
  then show ?thesis by (simp add: release_alias_def purge_def forget_def split: option.split)
qed

definition inserted :: "string \<Rightarrow> 't pending_entry \<Rightarrow> 't pending \<Rightarrow> 't pending" where
  "inserted rid e P = P\<lparr>pr_registry := od_set (Some rid) e (pr_registry P)\<rparr>"

lemma forget_inserted: "k \<noteq> Some rid \<Longrightarrow> forget k (inserted rid e P) = inserted rid e (forget k P)"
  by (simp add: inserted_def forget_def drop_aliases_def od_set_del)

lemma link_old:
  assumes "pending_wf R" "od_get (pr_registry R) (Some rid) = None"
  shows "(case dict_get_opt (pr_aliases R) cid of None \<Rightarrow> inserted rid e R
      | Some k \<Rightarrow> if Some k \<noteq> Some rid then forget (Some k) (inserted rid e R) else inserted rid e R) =
    inserted rid e (purge cid R)"
proof (cases "od_get (pr_aliases R) cid")
  case None
  then show ?thesis by (simp add: dict_get_opt_def purge_def)
next
  case (Some k)
  then obtain r where r: "k = Some r" using pending_wfD(6) [OF assms(1), of cid] by (cases k) auto
  have "Some r \<noteq> Some rid" using Some r pending_wfD(3) [OF assms(1), of cid k] assms(2) by auto
  then show ?thesis using Some r forget_inserted [of "Some r" rid e R] by (simp add: dict_get_opt_def purge_def)
qed

lemma link_conversation_eq:
  assumes "pending_wf Q" "od_get (pr_registry Q) (Some rid) = None" "pe_conversation_id e = cid"
  shows "link_conversation (Some rid) cid (inserted rid e Q) =
    added rid e (if cid \<noteq> [] \<and> cid \<noteq> rid then purge cid (forget (Some cid) Q) else Q)"
proof (cases "cid \<noteq> [] \<and> cid \<noteq> rid")
  case False
  then show ?thesis using assms(3) by (auto simp: link_conversation_def added_def inserted_def)
next
  case True
  let ?R = "forget (Some cid) Q"
  have R: "pending_wf ?R" by (rule pending_wf_forget [OF assms(1)])
  have m: "(if od_mem (Some cid) (pr_registry (inserted rid e Q)) then forget (Some cid) (inserted rid e Q) else inserted rid e Q) =
      inserted rid e ?R"
    using True forget_absent [OF assms(1), of "Some cid"] forget_inserted [of "Some cid" rid e Q]
    by (cases "od_get (pr_registry Q) (Some cid)") (simp_all add: od_mem_iff inserted_def)
  have a: "pr_aliases (inserted rid e ?R) = pr_aliases ?R" by (simp add: inserted_def)
  have n: "od_get (pr_registry ?R) (Some rid) = None" using assms(2) by simp
  have "link_conversation (Some rid) cid (inserted rid e Q) =
      (inserted rid e (purge cid ?R))\<lparr>pr_aliases := od_set cid (Some rid) (pr_aliases (purge cid ?R))\<rparr>"
    using True unfolding link_conversation_def Let_def m a link_old [OF R n] by (simp add: inserted_def)
  then show ?thesis using True assms(3) by (simp add: added_def inserted_def)
qed

lemma stage_eq:
  assumes "pending_wf P"
  shows "stage_pending_restore now (Some rid) cid cs t fi P =
    evict_pending (added rid (staged_entry now cid cs t fi) (cleaned rid cid P))"
proof -
  let ?Q = "purge rid (forget (Some rid) P)" and ?e = "staged_entry now cid cs t fi"
  have wf1: "pending_wf (forget (Some rid) P)" by (rule pending_wf_forget [OF assms])
  have Q: "release_alias (Some rid) (forget (Some rid) P) = ?Q" by (rule release_alias_eq [OF wf1]) simp
  have "od_get (pr_registry ?Q) (Some rid) = None" by (auto simp: purge_def split: option.split)
  from link_conversation_eq [OF pending_wf_purge [OF wf1] this, of ?e cid]
  have "link_conversation (Some rid) cid (inserted rid ?e ?Q) = added rid ?e (cleaned rid cid P)"
    by (simp add: cleaned_def Let_def)
  then show ?thesis unfolding stage_pending_restore_def Let_def Q inserted_def by simp
qed

lemma pending_wf_stage:
  assumes "pending_wf P"
  shows "pending_wf (stage_pending_restore now (Some rid) cid cs t fi P)"
  unfolding stage_eq [OF assms] using cleaned_lookup [OF assms]
  by (intro pending_wf_evict pending_wf_added pending_wf_cleaned assms) simp_all

text \<open>Two stagings are in conflict when a request id or a conversation id of one is one of the other.\<close>

definition conflicts :: "string \<Rightarrow> string \<Rightarrow> string option \<times> 't pending_entry \<Rightarrow> bool" where
  "conflicts rid cid p =
     (fst p = Some rid \<or> (cid \<noteq> [] \<and> fst p = Some cid) \<or>
      (pe_conversation_id (snd p) \<noteq> [] \<and> pe_conversation_id (snd p) \<in> {rid, cid}))"

lemma cleaned_registry:
  assumes "pending_wf P"
  shows "pr_registry (cleaned rid cid P) = filter (\<lambda>p. \<not> conflicts rid cid p) (pr_registry P)"
proof -
  let ?Q = "purge rid (forget (Some rid) P)"
  have Q: "pending_wf ?Q" by (intro pending_wf_purge pending_wf_forget assms)
  have Qr: "pr_registry ?Q = filter (\<lambda>p. \<not> (fst p = Some rid \<or> (pe_conversation_id (snd p) \<noteq> [] \<and> pe_conversation_id (snd p) = rid)))
      (pr_registry P)"
    unfolding purge_registry [OF pending_wf_forget [OF assms]]
    by (simp add: od_del_def, rule filter_cong) auto
  show ?thesis
  proof (cases "cid \<noteq> [] \<and> cid \<noteq> rid")
    case False
    then have "pr_registry (cleaned rid cid P) = pr_registry ?Q" by (auto simp: cleaned_def Let_def)
    then show ?thesis using False unfolding Qr by (auto simp: conflicts_def intro!: filter_cong)
  next
    case True
    then show ?thesis unfolding cleaned_def Let_def
      by (simp add: purge_registry [OF pending_wf_forget [OF Q]] Qr od_del_def, intro filter_cong)
        (auto simp: conflicts_def)
  qed
qed

subsection \<open>Properties\<close>

text \<open>The registries that stagings under a request id, clears and uses can reach.\<close>

inductive pending_reach :: "'t pending \<Rightarrow> bool" where
  start: "pending_reach init_pending"
| stage: "pending_reach P \<Longrightarrow> pending_reach (stage_pending_restore now (Some rid) cid cs t fi P)"
| clear: "pending_reach P \<Longrightarrow> pending_reach (clear_pending_restore r cid P)"
| touch: "pending_reach P \<Longrightarrow> pending_reach (touch_pending k P)"

lemma pending_wf_clear: "pending_wf P \<Longrightarrow> pending_wf (clear_pending_restore r cid P)"
  by (simp add: clear_pending_restore_def Let_def pending_wf_forget)

lemma pending_reach_wf: "pending_reach P \<Longrightarrow> pending_wf P"
  by (induction rule: pending_reach.induct)
    (simp_all add: pending_wf_init pending_wf_stage pending_wf_clear pending_wf_touch)

lemma stage_registry:
  assumes "pending_wf P"
  shows "pr_registry (stage_pending_restore now (Some rid) cid cs t fi P) =
    (let l = filter (\<lambda>p. \<not> conflicts rid cid p) (pr_registry P) @ [(Some rid, staged_entry now cid cs t fi)]
     in drop (length l - PENDING_RESTORE_REGISTRY_MAX) l)"
proof -
  have "Some rid \<notin> set (od_keys (pr_registry (cleaned rid cid P)))"
    using cleaned_lookup(1) [OF assms, of rid cid] by (simp add: map_of_eq_None_iff)
  then show ?thesis
    by (simp add: stage_eq [OF assms] evict_registry added_def od_set_new cleaned_registry [OF assms] Let_def)
qed

lemma stage_lookup:
  assumes "pending_wf P"
  shows "od_get (pr_registry (stage_pending_restore now (Some rid) cid cs t fi P)) (Some rid) = Some (staged_entry now cid cs t fi)"
proof -
  let ?l = "filter (\<lambda>p. \<not> conflicts rid cid p) (pr_registry P) @ [(Some rid, staged_entry now cid cs t fi)]"
  let ?n = "length ?l - PENDING_RESTORE_REGISTRY_MAX"
  have "?n \<le> length (filter (\<lambda>p. \<not> conflicts rid cid p) (pr_registry P))"
    by (simp add: PENDING_RESTORE_REGISTRY_MAX_def)
  then have "(Some rid, staged_entry now cid cs t fi) \<in> set (pr_registry (stage_pending_restore now (Some rid) cid cs t fi P))"
    by (simp add: stage_registry [OF assms] Let_def)
  then show ?thesis using pending_wfD(1) [OF pending_wf_stage [OF assms]] by (simp add: od_get_in_set)
qed

text \<open>
  C25: the registry and its aliases implement a bounded list of stagings. Staging removes
  exactly the entries that share a request id or a conversation id with the new one, appends
  the new one and keeps the newest 256; the aliases play no role in what is kept. In every
  reachable registry (all stagings under a request id) no two entries belong to the same
  conversation.
\<close>

theorem staging_refines_list:
  assumes "pending_reach P"
  shows "pr_registry (stage_pending_restore now (Some rid) cid cs t fi P) =
      (let l = filter (\<lambda>p. \<not> conflicts rid cid p) (pr_registry P) @ [(Some rid, staged_entry now cid cs t fi)]
       in drop (length l - 256) l) \<and>
    length (pr_registry (stage_pending_restore now (Some rid) cid cs t fi P)) \<le> 256 \<and>
    (\<forall>k k' e e'. od_get (pr_registry P) k = Some e \<and> od_get (pr_registry P) k' = Some e' \<and>
       pe_conversation_id e = pe_conversation_id e' \<and> pe_conversation_id e \<noteq> [] \<longrightarrow> k = k')"
proof -
  note wf = pending_reach_wf [OF assms]
  have "k = k'" if "od_get (pr_registry P) k = Some e" "od_get (pr_registry P) k' = Some e'"
    "pe_conversation_id e = pe_conversation_id e'" "pe_conversation_id e \<noteq> []" for k k' e e'
  proof (rule ccontr)
    assume ne: "k \<noteq> k'"
    have al: "od_get (pr_aliases P) (pe_conversation_id e) = Some x"
      if "od_get (pr_registry P) x = Some y" "pe_conversation_id y = pe_conversation_id e" "Some (pe_conversation_id e) \<noteq> x" for x y
      using that \<open>pe_conversation_id e \<noteq> []\<close> pending_wfD(3) [OF wf, of "pe_conversation_id e" x] by auto
    show False
      using al [of k e] al [of k' e'] that ne pending_wfD(4) [OF wf, of "pe_conversation_id e"] by force
  qed
  then show ?thesis using stage_registry [OF wf, of now rid cid cs t fi]
    by (auto simp: Let_def PENDING_RESTORE_REGISTRY_MAX_def)
qed

text \<open>A registry with one staged state.\<close>

definition sample_pending :: "mat pending" where
  "sample_pending = stage_pending_restore 0 (Some ''r1'') ''c1'' [[[1]]] [[2]] None init_pending"

lemma sample_pending_reach: "pending_reach sample_pending"
  unfolding sample_pending_def by (intro pending_reach.stage pending_reach.start)

lemma sample_pending_registry:
  "pr_registry sample_pending = [(Some ''r1'', staged_entry 0 ''c1'' [[[1]]] [[2]] None)]"
  unfolding sample_pending_def stage_registry [OF pending_wf_init]
  by (simp add: init_pending_def PENDING_RESTORE_REGISTRY_MAX_def)

theorem staging_refines_list_witness:
  "map fst (pr_registry (stage_pending_restore 1 (Some ''r2'') ''c1'' [[[1]]] [[2]] None sample_pending)) = [Some ''r2'']"
  using staging_refines_list [OF sample_pending_reach, of 1 "''r2''" "''c1''" "[[[1]]]" "[[2]]" None]
  by (simp add: conflicts_def sample_pending_registry)



text \<open>
  A state staged without a request id is never used. The code accepts a restore that names
  only a conversation and files the state under the key \<open>None\<close>, with the conversation id
  as an alias of \<open>None\<close>; a request that looks for its conversation then reads the alias as a
  missing one. Whatever the registry held, what a request then finds was there before.
\<close>

theorem staging_without_rid_is_lost:
  assumes "pending_reach P" and "find_pending rid c (stage_pending_restore now None cid cs t fi P) = Some (k, b)"
  shows "od_get (pr_registry (stage_pending_restore now None cid cs t fi P)) (Some k) = od_get (pr_registry P) (Some k) \<and>
    od_mem (Some k) (pr_registry P)"
proof -
  define Q where "Q = link_conversation None cid
    ((forget None P)\<lparr>pr_registry := od_set None (staged_entry now cid cs t fi) (pr_registry (forget None P))\<rparr>)"
  have s: "stage_pending_restore now None cid cs t fi P = evict_pending Q"
    by (simp add: stage_pending_restore_def release_alias_def Let_def Q_def)
  have ok: "od_ok (pr_registry P)" by (rule pending_wfD(1) [OF pending_reach_wf [OF assms(1)]])
  then have okQ: "od_ok (pr_registry Q)"
    by (simp add: Q_def link_conversation_def Let_def split: option.split)
  have Q: "od_get (pr_registry Q) (Some k) = None \<or> od_get (pr_registry Q) (Some k) = od_get (pr_registry P) (Some k)"
    by (auto simp: Q_def link_conversation_def Let_def split: option.split)
  have "od_mem (Some k) (pr_registry (evict_pending Q))"
    using assms(2) by (auto simp: s find_pending_def split: if_splits option.splits)
  then show ?thesis
    using Q od_get_drop [OF okQ, of "length (pr_registry Q) - PENDING_RESTORE_REGISTRY_MAX" "Some k"]
    by (auto simp: s evict_registry od_mem_iff)
qed

theorem staging_without_rid_is_lost_witness:
  "find_pending ''r9'' (Some ''c2'') (stage_pending_restore 1 None ''c2'' [[[1]]] [[2]] None sample_pending) = None"
proof (rule ccontr)
  let ?P = "stage_pending_restore 1 None ''c2'' [[[1]]] [[2]] None sample_pending"
  assume "find_pending ''r9'' (Some ''c2'') ?P \<noteq> None"
  then obtain k b where f: "find_pending ''r9'' (Some ''c2'') ?P = Some (k, b)" by auto
  from staging_without_rid_is_lost [OF sample_pending_reach f]
  have "k = ''r1''" by (auto simp: sample_pending_registry od_mem_def)
  moreover have "pr_aliases sample_pending = [(''c1'', Some ''r1'')]"
    unfolding sample_pending_def stage_eq [OF pending_wf_init]
    by (simp add: added_def cleaned_def purge_def forget_def
        drop_aliases_def init_pending_def od_del_value_def od_del_def Let_def evict_pending.simps
        PENDING_RESTORE_REGISTRY_MAX_def)
  ultimately show False using f
    by (simp add: find_pending_def stage_pending_restore_def release_alias_def link_conversation_def Let_def
        sample_pending_registry od_mem_def evict_pending.simps PENDING_RESTORE_REGISTRY_MAX_def dict_get_opt_def
        od_del_value_def str_truthy_def od_del_def split: if_splits option.splits)
qed

text \<open>
  Clearing after a live restore. The entry of the request id is removed; without one, the
  entry of the conversation is. When the request id has an entry, an entry of the conversation
  under another request id survives, and the next request of that conversation still finds it.
\<close>

theorem clear_pending_effect:
  assumes "pending_reach P"
  shows "find_pending rid None (clear_pending_restore (Some rid) cid P) = None \<and>
    (\<not> od_mem (Some rid) (pr_registry P) \<and> \<not> od_mem (Some rid') (pr_registry P) \<longrightarrow>
       find_pending rid' cid (clear_pending_restore (Some rid) cid P) = None) \<and>
    find_pending ''r9'' (Some ''c1'') (clear_pending_restore (Some ''r2'') (Some ''c1'')
      (stage_pending_restore 1 (Some ''r2'') ''c2'' [[[1]]] [[2]] None sample_pending)) = Some (''r1'', False)"
proof -
  note wf = pending_reach_wf [OF assms]
  let ?Q = "clear_pending_restore (Some rid) cid P"
  let ?S = "stage_pending_restore 1 (Some ''r2'') ''c2'' [[[1]]] [[2]] None sample_pending"
  have "find_pending rid None ?Q = None"
    by (auto simp: find_pending_def clear_pending_restore_def Let_def od_mem_iff str_truthy_def split: option.split)
  moreover have "find_pending rid' cid ?Q = None" if "\<not> od_mem (Some rid) (pr_registry P)" "\<not> od_mem (Some rid') (pr_registry P)"
    using that pending_wfD(2) [OF wf]
    by (auto simp: find_pending_def clear_pending_restore_def Let_def od_mem_iff dict_get_opt_def od_get_del_value
        split: option.splits if_splits)
  moreover have "find_pending ''r9'' (Some ''c1'') (clear_pending_restore (Some ''r2'') (Some ''c1'') ?S) = Some (''r1'', False)"
  proof -
    have wfS: "pending_wf ?S" by (intro pending_wf_stage pending_reach_wf sample_pending_reach)
    have S: "pr_registry ?S = [(Some ''r1'', staged_entry 0 ''c1'' [[[1]]] [[2]] None), (Some ''r2'', staged_entry 1 ''c2'' [[[1]]] [[2]] None)]"
      unfolding stage_registry [OF pending_reach_wf [OF sample_pending_reach]]
      by (simp add: sample_pending_registry conflicts_def PENDING_RESTORE_REGISTRY_MAX_def)
    then have c: "clear_pending_restore (Some ''r2'') (Some ''c1'') ?S = forget (Some ''r2'') ?S"
      by (simp add: clear_pending_restore_def od_mem_def Let_def)
    have "od_get (pr_aliases (forget (Some ''r2'') ?S)) ''c1'' = Some (Some ''r1'')"
      unfolding pending_wfD(3) [OF pending_wf_forget [OF wfS]] by (simp add: S)
    then show ?thesis by (simp add: c find_pending_def S od_mem_iff dict_get_opt_def str_truthy_def)
  qed
  ultimately show ?thesis by blast
qed

theorem clear_pending_effect_witness:
  "find_pending ''r1'' None (clear_pending_restore (Some ''r1'') (Some ''c1'') sample_pending) = None"
  using clear_pending_effect [OF sample_pending_reach, of "''r1''" "Some ''c1''"] by blast

end
