(* ===== verification/Scheduler_State.thy ===== *)
theory Scheduler_State
  imports Tier_Manager Mamba_Pool State_Health Pending_Restore
begin

section \<open>The scheduler: its requests, its waiting queue, its snapshot components\<close>

text \<open>
  The part of \<open>Scheduler\<close> (\<open>managers/scheduler.py\<close>) that the snapshot system works on, and its
  functions that put a request into the waiting queue. Requests are objects that several
  batches share and that handlers change in place: \<open>sd_reqs\<close> is the heap of requests and a
  batch or queue is a list of addresses. A Python reference never dangles, so the branches
  for an address without an object (\<open>KeyError\<close>) are not taken. The snapshot manager, the host pool and the tracker
  are those of \<open>sd_tiers\<close>; \<open>sd_snapshot_manager\<close> and \<open>sd_tier_manager\<close> say whether the
  attributes of these names are set. The queue is that of a server without disaggregation and
  without hierarchical cache, whose prefetch does nothing. Messages sent to the tokenizer are
  kept in \<open>sd_sent\<close>.
\<close>

record server_args =
  sa_model_path :: string
  sa_page_size :: int                        \<comment> \<open>positive\<close>
  sa_max_req_len :: int
  sa_max_req_input_len :: int
  sa_max_total_num_tokens :: int
  sa_max_queued_requests :: "int option"
  sa_enable_priority_scheduling :: bool
  sa_schedule_low_priority_values_first :: bool
  sa_abort_on_priority_when_disabled :: bool
  sa_allow_auto_truncate :: bool
  sa_snapshot_health_check_interval :: int
  sa_snapshot_health_failure_policy :: string

datatype abort_reason = Priority_disabled | Queue_full | Preempted

record abort_req =
  ab_rid :: string
  ab_reason :: abort_reason

record 't scheduler =
  sd_args :: server_args
  sd_snapshot_manager :: bool
  sd_tier_manager :: bool
  sd_tiers :: "'t tiers"
  sd_mamba_pool :: "'t mamba_pool option"
  sd_policy :: retention_policy
  sd_health_monitor :: "health_monitor option"
  sd_health_check_counter :: "(string, int) odict"
  sd_pending :: "'t pending"
  sd_reqs :: "(nat, req) odict"
  sd_next_req :: nat
  sd_running_batch :: "nat list"
  sd_cur_batch :: "nat list option"
  sd_last_batch :: "nat list option"
  sd_waiting_queue :: "nat list"
  sd_sent :: "abort_req list"

abbreviation sd_manager :: "'t scheduler \<Rightarrow> 't manager" where
  "sd_manager S \<equiv> tm_manager (sd_tiers S)"

definition set_manager :: "'t manager \<Rightarrow> 't scheduler \<Rightarrow> 't scheduler" where
  "set_manager M S = S\<lparr>sd_tiers := (sd_tiers S)\<lparr>tm_manager := M\<rparr>\<rparr>"

definition set_req :: "nat \<Rightarrow> req \<Rightarrow> 't scheduler \<Rightarrow> 't scheduler" where
  "set_req i r S = S\<lparr>sd_reqs := od_set i r (sd_reqs S)\<rparr>"

text \<open>A new object on the heap.\<close>

definition new_req_object :: "req \<Rightarrow> 't scheduler \<Rightarrow> nat \<times> 't scheduler" where
  "new_req_object r S = (sd_next_req S, set_req (sd_next_req S) r (S\<lparr>sd_next_req := Suc (sd_next_req S)\<rparr>))"

subsection \<open>Finding a request\<close>

definition has_rid :: "'t scheduler \<Rightarrow> string option \<Rightarrow> nat \<Rightarrow> bool" where
  "has_rid S rid i = (case od_get (sd_reqs S) i of None \<Rightarrow> False | Some r \<Rightarrow> Some (rq_rid r) = rid)"

definition batch_reqs :: "nat list option \<Rightarrow> nat list" where
  "batch_reqs b = (case b of None \<Rightarrow> [] | Some is \<Rightarrow> is)"

text \<open>A batch searched before gives no request again, so \<open>seen_batches\<close> has no effect on the result.\<close>

definition find_request_by_rid :: "string option \<Rightarrow> 't scheduler \<Rightarrow> nat option" where
  "find_request_by_rid rid S =
     (case List.find (has_rid S rid)
             (sd_running_batch S @ batch_reqs (sd_cur_batch S) @ batch_reqs (sd_last_batch S)) of
        Some i \<Rightarrow> Some i
      | None \<Rightarrow> List.find (has_rid S rid) (sd_waiting_queue S))"

subsection \<open>The length of a request\<close>

text \<open>\<open>-(-n // p) * p\<close> rounds up to a multiple of the page size.\<close>

definition init_req_max_new_tokens :: "server_args \<Rightarrow> req \<Rightarrow> req" where
  "init_req_max_new_tokens A r =
     (let input_len = int (length (rq_origin_input_ids r));
          paged_input_len = - ((- input_len) div sa_page_size A) * sa_page_size A;
          wanted = (case rq_max_new_tokens r of None \<Rightarrow> 2 ^ 30 | Some n \<Rightarrow> n)
      in r\<lparr>rq_max_new_tokens :=
             Some (max 0 (min wanted
                     (min (sa_max_req_len A - input_len - 1)
                          (sa_max_total_num_tokens A - paged_input_len - sa_page_size A - 1))))\<rparr>)"

definition set_finish_with_abort :: "req \<Rightarrow> req" where
  "set_finish_with_abort r = r\<lparr>rq_origin_input_ids := [0], rq_to_finish_abort := True\<rparr>"

text \<open>The flag is whether there is an error message. A negative bound slices off the end of the list.\<close>

definition validate_input_length :: "req \<Rightarrow> int \<Rightarrow> bool \<Rightarrow> bool \<times> req" where
  "validate_input_length r max_req_input_len allow_auto_truncate =
     (let n = int (length (rq_origin_input_ids r))
      in if n \<ge> max_req_input_len then
           (if allow_auto_truncate
            then (False, r\<lparr>rq_origin_input_ids :=
                    take (nat (if max_req_input_len < 0 then n + max_req_input_len else max_req_input_len))
                      (rq_origin_input_ids r)\<rparr>)
            else (True, r))
         else (False, r))"

subsection \<open>The waiting queue\<close>

text \<open>\<open>send_to_tokenizer.send_output(AbortReq(...), req)\<close>\<close>

definition send_abort :: "string \<Rightarrow> abort_reason \<Rightarrow> 't scheduler \<Rightarrow> 't scheduler" where
  "send_abort rid reason S = S\<lparr>sd_sent := sd_sent S @ [\<lparr>ab_rid = rid, ab_reason = reason\<rparr>]\<rparr>"

definition set_or_validate_priority :: "nat \<Rightarrow> req \<Rightarrow> 't scheduler \<Rightarrow> bool \<times> 't scheduler" where
  "set_or_validate_priority i r S =
     (if sa_enable_priority_scheduling (sd_args S) \<and> rq_priority r = None then
        (True, set_req i
           (r\<lparr>rq_priority := Some (if sa_schedule_low_priority_values_first (sd_args S)
                                  then sys_maxsize else - sys_maxsize - 1)\<rparr>) S)
      else if \<not> sa_enable_priority_scheduling (sd_args S) \<and> rq_priority r \<noteq> None \<and>
              sa_abort_on_priority_when_disabled (sd_args S) then
        (False, send_abort (rq_rid r) Priority_disabled S)
      else (True, S))"

text \<open>
  \<open>max(enumerate(queue), key=...)\<close>: the first position whose key is not exceeded. An empty
  queue raises \<open>ValueError\<close>, a request without priority \<open>TypeError\<close>.
\<close>

definition queue_key :: "int \<Rightarrow> req \<Rightarrow> (int \<times> real) option" where
  "queue_key direction r = map_option (\<lambda>p. (direction * p, rq_wait_queue_entry_time r)) (rq_priority r)"

definition key_less :: "int \<times> real \<Rightarrow> int \<times> real \<Rightarrow> bool" where
  "key_less a b = (fst a < fst b \<or> fst a = fst b \<and> snd a < snd b)"

fun max_key :: "(nat \<times> int \<times> real) list \<Rightarrow> nat \<times> int \<times> real \<Rightarrow> nat \<times> int \<times> real" where
  "max_key [] best = best"
| "max_key (x # xs) best = max_key xs (if key_less (snd best) (snd x) then x else best)"

definition queue_keys :: "int \<Rightarrow> 't scheduler \<Rightarrow> (nat \<times> int \<times> real) list option" where
  "queue_keys direction S =
     those (map (\<lambda>(idx, i). map_option (Pair idx) (Option.bind (od_get (sd_reqs S) i) (queue_key direction)))
              (enumerate 0 (sd_waiting_queue S)))"

definition least_preferred :: "int \<Rightarrow> 't scheduler \<Rightarrow> nat res" where
  "least_preferred direction S =
     (case queue_keys direction S of
        None \<Rightarrow> Inl TypeError
      | Some [] \<Rightarrow> Inl ValueError
      | Some (x # xs) \<Rightarrow> Inr (fst (max_key xs x)))"

text \<open>The comparison of \<open>direction * priority\<close> of two requests.\<close>

definition preempts :: "int \<Rightarrow> req \<Rightarrow> req \<Rightarrow> bool res" where
  "preempts direction r c =
     (case (rq_priority r, rq_priority c) of
        (Some p, Some q) \<Rightarrow> Inr (direction * p < direction * q)
      | _ \<Rightarrow> Inl TypeError)"

definition abort_on_queued_limit :: "req \<Rightarrow> 't scheduler \<Rightarrow> bool res \<times> 't scheduler" where
  "abort_on_queued_limit r S =
     (let queue = sd_waiting_queue S
      in if (case sa_max_queued_requests (sd_args S) of
               None \<Rightarrow> True | Some m \<Rightarrow> int (length queue) + 1 \<le> m) then (Inr False, S)
         else if \<not> sa_enable_priority_scheduling (sd_args S) then
           (Inr True, send_abort (rq_rid r) Queue_full S)
         else
           let direction = (if sa_schedule_low_priority_values_first (sd_args S) then 1 else - 1)
           in case least_preferred direction S of
                Inl e \<Rightarrow> (Inl e, S)
              | Inr idx \<Rightarrow>
                  (case od_get (sd_reqs S) (queue ! idx) of
                     None \<Rightarrow> (Inl KeyError, S)
                   | Some candidate \<Rightarrow>
                       (case preempts direction r candidate of
                          Inl e \<Rightarrow> (Inl e, S)
                        | Inr True \<Rightarrow>
                            (Inr (rq_rid candidate = rq_rid r),
                             send_abort (rq_rid candidate) Preempted
                               (S\<lparr>sd_waiting_queue := take idx queue @ drop (Suc idx) queue\<rparr>))
                        | Inr False \<Rightarrow> (Inr True, send_abort (rq_rid r) Queue_full S))))"

definition add_request_to_queue :: "real \<Rightarrow> nat \<Rightarrow> 't scheduler \<Rightarrow> unit res \<times> 't scheduler" where
  "add_request_to_queue now i S =
     (case od_get (sd_reqs S) i of
        None \<Rightarrow> (Inl KeyError, S)
      | Some r0 \<Rightarrow>
          (case set_or_validate_priority i r0 S of
             (False, S1) \<Rightarrow> (Inr (), S1)
           | (True, S1) \<Rightarrow>
               (case od_get (sd_reqs S1) i of
                  None \<Rightarrow> (Inl KeyError, S1)
                | Some r \<Rightarrow>
                    (case abort_on_queued_limit r S1 of
                       (Inl e, S2) \<Rightarrow> (Inl e, S2)
                     | (Inr True, S2) \<Rightarrow> (Inr (), S2)
                     | (Inr False, S2) \<Rightarrow>
                         (Inr (), set_req i (r\<lparr>rq_wait_queue_entry_time := now\<rparr>)
                            (S2\<lparr>sd_waiting_queue := sd_waiting_queue S2 @ [i]\<rparr>))))))"

text \<open>
  A scheduler for concrete runs: two slots, of which a running request of the conversation
  \<open>c1\<close> holds the first; a waiting queue of at most one request.
\<close>

definition sample_args :: server_args where
  "sample_args =
     \<lparr>sa_model_path = ''m'', sa_page_size = 4, sa_max_req_len = 64, sa_max_req_input_len = 32,
      sa_max_total_num_tokens = 100, sa_max_queued_requests = Some 1, sa_enable_priority_scheduling = False,
      sa_schedule_low_priority_values_first = False, sa_abort_on_priority_when_disabled = False,
      sa_allow_auto_truncate = False, sa_snapshot_health_check_interval = 0,
      sa_snapshot_health_failure_policy = ''log_and_continue''\<rparr>"

definition sample_live :: req where
  "sample_live =
     (sample_req ''r1'')\<lparr>rq_conversation_id := Some ''c1'', rq_req_pool_idx := Some 1,
        rq_mamba_pool_idx := Some 1, rq_fill_ids := Some [5, 6], rq_origin_input_ids := [5, 6]\<rparr>"

definition sample_pool :: "mat mamba_pool" where
  "sample_pool =
     \<lparr>mp_size = 2, mp_free_slots = [2], mp_conv = [[[0, 7, 0]]], mp_temporal = [[0, 9, 0]],
      mp_num_mamba_layers = 1\<rparr>"

definition sample_scheduler :: "mat scheduler" where
  "sample_scheduler =
     \<lparr>sd_args = sample_args, sd_snapshot_manager = True, sd_tier_manager = True,
      sd_tiers = init_tiers (init_tracker 1 2 3) (init_host_pool 2 1 True) sample_manager False 60 (Some ''m''),
      sd_mamba_pool = Some sample_pool,
      sd_policy = init_retention_policy
        \<lparr>rc_max_snapshots_per_conversation = 2, rc_snapshot_trigger_policy = EVERY_TURN,
         rc_snapshot_every_n_turns = 1, rc_enable_auto_pruning = True, rc_min_snapshot_interval_seconds = 0,
         rc_keep_named_branches = True\<rparr>,
      sd_health_monitor = None, sd_health_check_counter = [], sd_pending = init_pending,
      sd_reqs = [(0, sample_live), (1, (sample_req ''r2'')\<lparr>rq_conversation_id := Some ''c1''\<rparr>)],
      sd_next_req = 2, sd_running_batch = [0], sd_cur_batch = None, sd_last_batch = None,
      sd_waiting_queue = [], sd_sent = []\<rparr>"

end
