(* ===== verification/Snapshot_Handlers.thy ===== *)
theory Snapshot_Handlers
  imports Scheduler_State
begin

section \<open>The handlers of the snapshot requests\<close>

text \<open>
  The request and reply types of \<open>managers/io_struct.py\<close> and the handlers of
  \<open>managers/scheduler_snapshot_handlers.py\<close>. A handler takes the scheduler and returns its
  reply and the new scheduler; \<open>time.time()\<close> is the argument \<open>now\<close>, the random part of a new
  request id the argument \<open>uid\<close>, and a failure of the disk during a save the argument \<open>fault\<close>. Texts of
  messages are constructors. A request id is a string or absent. Values of a metadata
  dictionary have the types \<open>to_dict\<close> gives them; another type is a \<open>TypeError\<close> here.
\<close>

subsection \<open>Requests and replies\<close>

record save_input =
  si_rid :: "string option"
  si_snapshot_id :: "string option"
  si_conversation_id :: "string option"
  si_turn_number :: "int option"
  si_branch_name :: "string option"

datatype save_message =
    Save_not_enabled
  | Saved_from_warm_tier
  | Request_not_found "string option"
  | No_mamba_state
  | No_mamba_pool
  | Saved
  | Save_error py_error

record save_output =
  so_success :: bool
  so_snapshot_id :: "string option"
  so_message :: save_message

record snapshot_ref =
  sr_conversation_id :: string
  sr_turn_number :: "int option"
  sr_branch_name :: "string option"

datatype query_message = Query_not_enabled | Query_not_found | Query_error py_error

record list_output =
  lo_success :: bool
  lo_snapshots :: "pydict list option"
  lo_message :: "query_message option"

record info_output =
  io_success :: bool
  io_metadata :: "pydict option"
  io_message :: "query_message option"

datatype delete_message = Delete_not_enabled | Deleted | Delete_not_found | Delete_error py_error

record delete_output =
  do_success :: bool
  do_message :: delete_message

record restore_input =
  ri_rid :: "string option"
  ri_conversation_id :: "string option"
  ri_turn_number :: "int option"
  ri_branch_name :: "string option"
  ri_create_new_request :: bool
  ri_continuation_ids :: "int list option"
  ri_max_new_tokens :: "int option"

text \<open>\<open>RestoreSnapshotReqInput.__post_init__\<close>\<close>

definition check_restore_input :: "restore_input \<Rightarrow> restore_input res" where
  "check_restore_input q =
     (if \<not> (str_truthy (ri_rid q) \<or> str_truthy (ri_conversation_id q)) then Inl ValueError
      else if \<not> ri_create_new_request q then
        (if ri_continuation_ids q \<noteq> None \<or> ri_max_new_tokens q \<noteq> None then Inl ValueError else Inr q)
      else if ri_max_new_tokens q = None then Inl ValueError
      else if ri_continuation_ids q = None then Inl ValueError
      else Inr q)"

datatype restore_message =
    Restore_not_enabled
  | Pool_not_available
  | No_snapshots
  | Snapshot_not_found
  | Model_mismatch
  | No_free_slots
  | Fill_ids_missing
  | Input_too_long nat
  | Created_new_request string int
  | Create_error py_error
  | Staged
  | Request_running
  | State_not_allocated
  | Restored
  | Restore_error py_error

record restore_output =
  ro_success :: bool
  ro_message :: restore_message
  ro_token_count :: jval
  ro_rid :: "string option"
  ro_mamba_pool_idx :: "int option"

definition restore_fail :: "restore_message \<Rightarrow> restore_output" where
  "restore_fail msg =
     \<lparr>ro_success = False, ro_message = msg, ro_token_count = JNull, ro_rid = None, ro_mamba_pool_idx = None\<rparr>"

text \<open>\<open>recv_req.conversation_id or recv_req.rid\<close>\<close>

definition conv_or_rid :: "string option \<Rightarrow> string option \<Rightarrow> string option" where
  "conv_or_rid conversation_id rid = (if str_truthy conversation_id then conversation_id else rid)"

definition opt_str :: "string option \<Rightarrow> string" where
  "opt_str s = (case s of None \<Rightarrow> ''None'' | Some t \<Rightarrow> t)"

subsection \<open>Saving\<close>

text \<open>\<open>turn_number or 0\<close>, and \<open>turn_number or meta_dict.get("turn_number", 0)\<close>: a turn 0 counts as absent.\<close>

definition effective_snapshot_id :: "save_input \<Rightarrow> string" where
  "effective_snapshot_id q =
     str_or (si_snapshot_id q)
       (opt_str (conv_or_rid (si_conversation_id q) (si_rid q)) @ ''-t'' @
        int_str (case si_turn_number q of None \<Rightarrow> 0 | Some n \<Rightarrow> n))"

definition warm_turn :: "int option \<Rightarrow> pydict \<Rightarrow> int option option" where
  "warm_turn turn_number meta_dict =
     (if turn_number \<noteq> None \<and> turn_number \<noteq> Some 0 then Some turn_number
      else as_opt_int (dict_get meta_dict ''turn_number'' (JInt 0)))"

definition warm_metadata :: "real \<Rightarrow> string \<Rightarrow> string \<Rightarrow> save_input \<Rightarrow> pydict \<Rightarrow> snapshot_metadata option" where
  "warm_metadata now model_path cid q meta_dict =
     Option.bind (warm_turn (si_turn_number q) meta_dict) (\<lambda>turn.
     Option.bind (as_int (dict_get meta_dict ''token_count'' (JInt 0))) (\<lambda>tokens.
     Option.bind (as_int (dict_get meta_dict ''mamba_pool_idx'' (JInt 0))) (\<lambda>mi.
     Option.bind (as_int (dict_get meta_dict ''req_pool_idx'' (JInt 0))) (\<lambda>ri.
     Option.bind (as_obj (dict_get meta_dict ''layer_config'' (JObj []))) (\<lambda>lc.
     Option.bind (as_opt_ints (dict_get meta_dict ''fill_ids'' JNull)) (\<lambda>ids.
       Some \<lparr>md_conversation_id = cid, md_turn_number = turn, md_timestamp = now,
             md_token_count = tokens, md_model_name = model_path, md_mamba_pool_idx = mi,
             md_req_pool_idx = ri, md_layer_config = lc, md_active_tool_context = None,
             md_branch_name = si_branch_name q, md_parent_snapshot = None, md_fill_ids = ids\<rparr>))))))"

definition save_fail :: "save_message \<Rightarrow> save_output" where
  "save_fail msg = \<lparr>so_success = False, so_snapshot_id = None, so_message = msg\<rparr>"

text \<open>The save itself, with the reply for its outcome.\<close>

definition save_and_reply ::
  "'t torch \<Rightarrow> save_fault option \<Rightarrow> save_input \<Rightarrow> save_message \<Rightarrow> 't list \<Rightarrow> 't \<Rightarrow> snapshot_metadata \<Rightarrow>
     't scheduler \<Rightarrow> save_output \<times> 't scheduler" where
  "save_and_reply T fault q msg conv_states temporal_states metadata S =
     (case save_snapshot T fault conv_states temporal_states metadata (sd_manager S) of
        (Inl e, M) \<Rightarrow> (save_fail (Save_error e), set_manager M S)
      | (Inr _, M) \<Rightarrow>
          (\<lparr>so_success = True, so_snapshot_id = Some (effective_snapshot_id q), so_message = msg\<rparr>,
           set_manager M S))"

definition save_from_warm ::
  "'t torch \<Rightarrow> save_fault option \<Rightarrow> real \<Rightarrow> save_input \<Rightarrow> 't scheduler \<Rightarrow> save_output \<times> 't scheduler" where
  "save_from_warm T fault now q S =
     (case conv_or_rid (si_conversation_id q) (si_rid q) of
        None \<Rightarrow> (save_fail (Request_not_found (si_rid q)), S)
      | Some cid \<Rightarrow>
          if sd_tier_manager S \<and> has_state cid (tm_host_pool (sd_tiers S)) then
            (case restore_from_warm_tier now cid (sd_tiers S) of
               (Inl e, W) \<Rightarrow> (save_fail (Save_error e), S\<lparr>sd_tiers := W\<rparr>)
             | (Inr None, W) \<Rightarrow> (save_fail (Request_not_found (si_rid q)), S\<lparr>sd_tiers := W\<rparr>)
             | (Inr (Some (conv_states_w, temporal_states_w, meta_dict)), W) \<Rightarrow>
                 (case warm_metadata now (sa_model_path (sd_args S)) cid q meta_dict of
                    None \<Rightarrow> (save_fail (Save_error TypeError), S\<lparr>sd_tiers := W\<rparr>)
                  | Some snap_meta \<Rightarrow>
                      save_and_reply T fault q Saved_from_warm_tier conv_states_w temporal_states_w snap_meta
                        (S\<lparr>sd_tiers := W\<rparr>)))
          else (save_fail (Request_not_found (si_rid q)), S))"

definition layer_config_of :: "'t mamba_pool \<Rightarrow> pydict" where
  "layer_config_of P = [(''num_layers'', JInt (int (mp_num_mamba_layers P))), (''model_type'', JStr ''hybrid'')]"

text \<open>\<open>len(req.fill_ids)\<close> and \<open>int(req.req_pool_idx)\<close> raise \<open>TypeError\<close> on \<open>None\<close>.\<close>

definition live_metadata ::
  "real \<Rightarrow> string \<Rightarrow> string \<Rightarrow> save_input \<Rightarrow> req \<Rightarrow> int \<Rightarrow> 't mamba_pool \<Rightarrow> snapshot_metadata option" where
  "live_metadata now model_path cid q r idx P =
     (case (rq_fill_ids r, rq_req_pool_idx r) of
        (Some ids, Some ri) \<Rightarrow>
          Some \<lparr>md_conversation_id = cid, md_turn_number = si_turn_number q, md_timestamp = now,
                md_token_count = int (length ids), md_model_name = model_path, md_mamba_pool_idx = idx,
                md_req_pool_idx = ri, md_layer_config = layer_config_of P, md_active_tool_context = None,
                md_branch_name = si_branch_name q, md_parent_snapshot = None, md_fill_ids = Some ids\<rparr>
      | _ \<Rightarrow> None)"

definition save_live ::
  "'t torch \<Rightarrow> save_fault option \<Rightarrow> real \<Rightarrow> save_input \<Rightarrow> string \<Rightarrow> req \<Rightarrow> 't scheduler \<Rightarrow> save_output \<times> 't scheduler" where
  "save_live T fault now q cid r S =
     (case rq_mamba_pool_idx r of
        None \<Rightarrow> (save_fail No_mamba_state, S)
      | Some idx \<Rightarrow>
          (case sd_mamba_pool S of
             None \<Rightarrow> (save_fail No_mamba_pool, S)
           | Some P \<Rightarrow>
               (case extract_state_from_pool T P idx of
                  Inl e \<Rightarrow> (save_fail (Save_error e), S)
                | Inr (conv_states, temporal_states) \<Rightarrow>
                    (case live_metadata now (sa_model_path (sd_args S)) cid q r idx P of
                       None \<Rightarrow> (save_fail (Save_error TypeError), S)
                     | Some metadata \<Rightarrow>
                         save_and_reply T fault q Saved conv_states temporal_states metadata S))))"

definition handle_save_snapshot ::
  "'t torch \<Rightarrow> save_fault option \<Rightarrow> real \<Rightarrow> save_input \<Rightarrow> 't scheduler \<Rightarrow> save_output \<times> 't scheduler" where
  "handle_save_snapshot T fault now q S =
     (if \<not> sd_snapshot_manager S then (save_fail Save_not_enabled, S)
      else
        case Option.bind (find_request_by_rid (si_rid q) S) (od_get (sd_reqs S)) of
          None \<Rightarrow> save_from_warm T fault now q S
        | Some r \<Rightarrow> save_live T fault now q (str_or (si_conversation_id q) (rq_rid r)) r S)"

subsection \<open>Listing, reading and deleting\<close>

fun load_each :: "string \<Rightarrow> (int option \<times> string option) list \<Rightarrow> 't manager \<Rightarrow> pydict list res \<times> 't manager" where
  "load_each cid [] M = (Inr [], M)"
| "load_each cid ((turn, br) # keys) M =
     (case load_metadata cid turn br M of
        (Inl e, M1) \<Rightarrow> (Inl e, M1)
      | (Inr md, M1) \<Rightarrow>
          (case load_each cid keys M1 of
             (Inl e, M2) \<Rightarrow> (Inl e, M2)
           | (Inr ds, M2) \<Rightarrow> (Inr (case md of None \<Rightarrow> ds | Some m \<Rightarrow> to_dict m # ds), M2)))"

definition list_all_metadata :: "string \<Rightarrow> 't manager \<Rightarrow> pydict list res \<times> 't manager" where
  "list_all_metadata cid M =
     (case list_snapshots cid M of
        (Inl e, M1) \<Rightarrow> (Inl e, M1)
      | (Inr turns, M1) \<Rightarrow>
          (case load_each cid (map (\<lambda>n. (Some n, None)) turns) M1 of
             (Inl e, M2) \<Rightarrow> (Inl e, M2)
           | (Inr ds, M2) \<Rightarrow>
               (case list_branches cid M2 of
                  (Inl e, M3) \<Rightarrow> (Inl e, M3)
                | (Inr branches, M3) \<Rightarrow>
                    (case load_each cid (map (\<lambda>b. (None, Some b)) branches) M3 of
                       (Inl e, M4) \<Rightarrow> (Inl e, M4)
                     | (Inr ds', M4) \<Rightarrow> (Inr (ds @ ds'), M4)))))"

definition handle_list_snapshots :: "string \<Rightarrow> 't scheduler \<Rightarrow> list_output \<times> 't scheduler" where
  "handle_list_snapshots conversation_id S =
     (if \<not> sd_snapshot_manager S
      then (\<lparr>lo_success = False, lo_snapshots = None, lo_message = Some Query_not_enabled\<rparr>, S)
      else
        case list_all_metadata conversation_id (sd_manager S) of
          (Inl e, M) \<Rightarrow>
            (\<lparr>lo_success = False, lo_snapshots = None, lo_message = Some (Query_error e)\<rparr>, set_manager M S)
        | (Inr ds, M) \<Rightarrow> (\<lparr>lo_success = True, lo_snapshots = Some ds, lo_message = None\<rparr>, set_manager M S))"

definition handle_get_snapshot_info :: "snapshot_ref \<Rightarrow> 't scheduler \<Rightarrow> info_output \<times> 't scheduler" where
  "handle_get_snapshot_info q S =
     (if \<not> sd_snapshot_manager S
      then (\<lparr>io_success = False, io_metadata = None, io_message = Some Query_not_enabled\<rparr>, S)
      else
        case load_metadata (sr_conversation_id q) (sr_turn_number q) (sr_branch_name q) (sd_manager S) of
          (Inl e, M) \<Rightarrow>
            (\<lparr>io_success = False, io_metadata = None, io_message = Some (Query_error e)\<rparr>, set_manager M S)
        | (Inr None, M) \<Rightarrow>
            (\<lparr>io_success = False, io_metadata = None, io_message = Some Query_not_found\<rparr>, set_manager M S)
        | (Inr (Some m), M) \<Rightarrow>
            (\<lparr>io_success = True, io_metadata = Some (to_dict m), io_message = None\<rparr>, set_manager M S))"

definition handle_delete_snapshot :: "snapshot_ref \<Rightarrow> 't scheduler \<Rightarrow> delete_output \<times> 't scheduler" where
  "handle_delete_snapshot q S =
     (if \<not> sd_snapshot_manager S then (\<lparr>do_success = False, do_message = Delete_not_enabled\<rparr>, S)
      else
        case delete_snapshot (sr_conversation_id q) (sr_turn_number q) (sr_branch_name q) (sd_manager S) of
          (Inl e, M) \<Rightarrow> (\<lparr>do_success = False, do_message = Delete_error e\<rparr>, set_manager M S)
        | (Inr True, M) \<Rightarrow> (\<lparr>do_success = True, do_message = Deleted\<rparr>, set_manager M S)
        | (Inr False, M) \<Rightarrow> (\<lparr>do_success = False, do_message = Delete_not_found\<rparr>, set_manager M S))"

subsection \<open>Restoring\<close>

definition reset_health :: "string \<Rightarrow> 't scheduler \<Rightarrow> 't scheduler" where
  "reset_health conversation_id S =
     (case sd_health_monitor S of
        None \<Rightarrow> S
      | Some H \<Rightarrow>
          S\<lparr>sd_health_monitor := Some (reset_baseline conversation_id H),
            sd_health_check_counter := od_set conversation_id 0 (sd_health_check_counter S)\<rparr>)"

text \<open>
  A request id or conversation id is present: \<open>check_restore_input\<close> refuses the others. For
  the file system an absent id and an empty one are the same.
\<close>

definition effective_conv_id :: "restore_input \<Rightarrow> string" where
  "effective_conv_id q =
     (case conv_or_rid (ri_conversation_id q) (ri_rid q) of None \<Rightarrow> [] | Some c \<Rightarrow> c)"

definition wrong_model :: "'t scheduler \<Rightarrow> jval \<Rightarrow> bool" where
  "wrong_model S snap_model = model_mismatch (Some (sa_model_path (sd_args S))) snap_model"

text \<open>A new request: \<open>Req(...)\<close> with the fields the handler sets on it.\<close>

definition restored_req :: "string \<Rightarrow> string \<Rightarrow> int \<Rightarrow> int list \<Rightarrow> int option \<Rightarrow> bool \<Rightarrow> req" where
  "restored_req rid conversation_id idx ids max_new_tokens stateful_generate =
     \<lparr>rq_rid = rid, rq_conversation_id = Some conversation_id, rq_req_pool_idx = None,
      rq_mamba_pool_idx = Some idx, rq_mamba_ping_pong_track_buffer = None, rq_mamba_next_track_idx = None,
      rq_mamba_needs_clear = False, rq_mamba_has_restored_state = False, rq_inflight_middle_chunks = 0,
      rq_kv_committed_len = 0, rq_fill_ids = Some ids, rq_origin_input_ids = ids, rq_output_ids = [],
      rq_priority = None, rq_wait_queue_entry_time = 0,
      rq_max_new_tokens = Some (case max_new_tokens of None \<Rightarrow> 128 | Some n \<Rightarrow> n),
      rq_stateful_generate = stateful_generate, rq_to_finish_abort = False\<rparr>"

definition set_pool :: "'t mamba_pool \<Rightarrow> 't scheduler \<Rightarrow> 't scheduler" where
  "set_pool P S = S\<lparr>sd_mamba_pool := Some P\<rparr>"

text \<open>
  Registering the new request in the waiting queue; \<open>P\<close> is the pool with the state in slot \<open>idx\<close>. If
  that raises, nothing refers to the new object any more and it leaves the heap.
\<close>

definition register_restored ::
  "real \<Rightarrow> string \<Rightarrow> restore_input \<Rightarrow> snapshot_metadata \<Rightarrow> int list \<Rightarrow> int \<Rightarrow> 't mamba_pool \<Rightarrow> 't scheduler \<Rightarrow>
     restore_output option \<times> 't scheduler" where
  "register_restored now uid q metadata ids idx P S =
     (let new_rid = ''restored-'' @ uid;
          stateful_generate = (ri_continuation_ids q \<noteq> None);
          r = init_req_max_new_tokens (sd_args S)
                (restored_req new_rid (effective_conv_id q) idx ids (ri_max_new_tokens q) stateful_generate);
          (i, S1) = new_req_object r (set_pool P S)
      in case add_request_to_queue now i S1 of
           (Inl e, S2) \<Rightarrow>
             (Some (restore_fail (Create_error e)),
              set_pool (mamba_free [idx] P) (S2\<lparr>sd_reqs := od_del i (sd_reqs S2)\<rparr>))
         | (Inr _, S2) \<Rightarrow>
             let S3 = reset_health (effective_conv_id q) S2
             in if stateful_generate then (None, S3)
                else (Some \<lparr>ro_success = True, ro_message = Created_new_request new_rid idx,
                            ro_token_count = JInt (md_token_count metadata), ro_rid = Some new_rid,
                            ro_mamba_pool_idx = Some idx\<rparr>, S3))"

text \<open>From the allocation of a slot on: every error after it gives the slot back.\<close>

definition create_from_snapshot ::
  "'t torch \<Rightarrow> real \<Rightarrow> string \<Rightarrow> restore_input \<Rightarrow> 't snapshot \<Rightarrow> 't mamba_pool \<Rightarrow> 't scheduler \<Rightarrow>
     restore_output option \<times> 't scheduler" where
  "create_from_snapshot T now uid q snapshot P S =
     (case snapshot of (conv_states, temporal_states, metadata) \<Rightarrow>
        if wrong_model S (JStr (md_model_name metadata)) then (Some (restore_fail Model_mismatch), S)
        else
          case mamba_alloc 1 P of
            (None, _) \<Rightarrow> (Some (restore_fail No_free_slots), S)
          | (Some new_pool_idx, P1) \<Rightarrow>
              let idx = hd new_pool_idx
              in case inject_state_to_pool T conv_states temporal_states idx P1 of
                   (Inl e, P2) \<Rightarrow> (Some (restore_fail (Create_error e)), set_pool (mamba_free new_pool_idx P2) S)
                 | (Inr _, P2) \<Rightarrow>
                     (case md_fill_ids metadata of
                        None \<Rightarrow> (Some (restore_fail Fill_ids_missing), set_pool (mamba_free new_pool_idx P2) S)
                      | Some fill_ids \<Rightarrow>
                          let ids = fill_ids @ (case ri_continuation_ids q of None \<Rightarrow> [] | Some c \<Rightarrow> c)
                          in if ri_continuation_ids q \<noteq> None \<and>
                                int (length ids) \<ge> sa_max_req_input_len (sd_args S)
                             then (Some (restore_fail (Input_too_long (length ids))),
                                   set_pool (mamba_free new_pool_idx P2) S)
                             else register_restored now uid q metadata ids idx P2 S))"

definition load_and_create ::
  "'t torch \<Rightarrow> real \<Rightarrow> string \<Rightarrow> restore_input \<Rightarrow> int option \<Rightarrow> 't mamba_pool \<Rightarrow> 't scheduler \<Rightarrow>
     restore_output option \<times> 't scheduler" where
  "load_and_create T now uid q turn_number P S =
     (case load_snapshot T (effective_conv_id q) turn_number (ri_branch_name q) (sd_manager S) of
        (Inl e, M) \<Rightarrow>
          (Some (restore_fail (if e = FileNotFoundError \<or> is_ValueError e then Snapshot_not_found else Create_error e)),
           set_manager M S)
      | (Inr snapshot, M) \<Rightarrow> create_from_snapshot T now uid q snapshot P (set_manager M S))"

definition restore_as_new_request ::
  "'t torch \<Rightarrow> real \<Rightarrow> string \<Rightarrow> restore_input \<Rightarrow> 't scheduler \<Rightarrow> restore_output option \<times> 't scheduler" where
  "restore_as_new_request T now uid q S =
     (case sd_mamba_pool S of
        None \<Rightarrow> (Some (restore_fail Pool_not_available), S)
      | Some P \<Rightarrow>
          if ri_turn_number q = None \<and> ri_branch_name q = None then
            (case get_latest_snapshot (effective_conv_id q) (sd_manager S) of
               (Inl e, M) \<Rightarrow> (Some (restore_fail (Create_error e)), set_manager M S)
             | (Inr None, M) \<Rightarrow> (Some (restore_fail No_snapshots), set_manager M S)
             | (Inr (Some (turn_number, _)), M) \<Rightarrow>
                 load_and_create T now uid q (Some turn_number) P (set_manager M S))
          else load_and_create T now uid q (ri_turn_number q) P S)"

text \<open>
  Staging a state for a request to come. The metadata is a dictionary when the state comes
  from host memory and an object when it comes from disk.
\<close>

type_synonym 't loaded = "'t list \<times> 't \<times> (pydict + snapshot_metadata)"

definition load_snapshot_for_pending_restore ::
  "'t torch \<Rightarrow> real \<Rightarrow> string \<Rightarrow> int option \<Rightarrow> string option \<Rightarrow> 't scheduler \<Rightarrow> 't loaded option res \<times> 't scheduler" where
  "load_snapshot_for_pending_restore T now conversation_id turn_number branch_name S =
     (let (warm, S1) =
        (if sd_tier_manager S \<and> turn_number = None \<and> branch_name = None \<and>
            has_state conversation_id (tm_host_pool (sd_tiers S))
         then (case restore_from_warm_tier now conversation_id (sd_tiers S) of (w, W) \<Rightarrow> (w, S\<lparr>sd_tiers := W\<rparr>))
         else (Inr None, S))
      in case warm of
           Inl e \<Rightarrow> (Inl e, S1)
         | Inr (Some (cs, t, d)) \<Rightarrow> (Inr (Some (cs, t, Inl d)), S1)
         | Inr None \<Rightarrow>
             (case load_snapshot T conversation_id turn_number branch_name (sd_manager S1) of
                (Inl e, M) \<Rightarrow>
                  (if e = FileNotFoundError \<or> is_ValueError e then Inr None else Inl e, set_manager M S1)
              | (Inr (cs, t, m), M) \<Rightarrow> (Inr (Some (cs, t, Inr m)), set_manager M S1)))"

fun loaded_model :: "pydict + snapshot_metadata \<Rightarrow> jval" where
  "loaded_model (Inl d) = dict_get d ''model_name'' JNull"
| "loaded_model (Inr m) = JStr (md_model_name m)"

fun loaded_token_count :: "pydict + snapshot_metadata \<Rightarrow> jval" where
  "loaded_token_count (Inl d) = dict_get d ''token_count'' JNull"
| "loaded_token_count (Inr m) = JInt (md_token_count m)"

fun loaded_fill_ids :: "pydict + snapshot_metadata \<Rightarrow> int list option option" where
  "loaded_fill_ids (Inl d) = as_opt_ints (dict_get d ''fill_ids'' JNull)"
| "loaded_fill_ids (Inr m) = Some (md_fill_ids m)"

definition restore_pending ::
  "'t torch \<Rightarrow> real \<Rightarrow> restore_input \<Rightarrow> 't scheduler \<Rightarrow> restore_output \<times> 't scheduler" where
  "restore_pending T now q S =
     (case load_snapshot_for_pending_restore T now (effective_conv_id q) (ri_turn_number q) (ri_branch_name q) S of
        (Inl e, S1) \<Rightarrow> (restore_fail (Restore_error e), S1)
      | (Inr None, S1) \<Rightarrow> (restore_fail Snapshot_not_found, S1)
      | (Inr (Some (cs, t, md)), S1) \<Rightarrow>
          if wrong_model S1 (loaded_model md) then (restore_fail Model_mismatch, S1)
          else
            (case loaded_fill_ids md of
               None \<Rightarrow> (restore_fail (Restore_error TypeError), S1)
             | Some fill_ids \<Rightarrow>
                 (\<lparr>ro_success = True, ro_message = Staged, ro_token_count = loaded_token_count md,
                   ro_rid = ri_rid q, ro_mamba_pool_idx = None\<rparr>,
                  S1\<lparr>sd_pending :=
                     stage_pending_restore now (ri_rid q) (effective_conv_id q) cs t fill_ids (sd_pending S1)\<rparr>)))"

text \<open>The conversation id of a request that got a state: that of the state, if the request has another or none.\<close>

definition reconcile_conversation :: "string \<Rightarrow> req \<Rightarrow> req" where
  "reconcile_conversation cid r =
     (if str_truthy (rq_conversation_id r) \<and> rq_conversation_id r \<noteq> Some cid then r\<lparr>rq_conversation_id := Some cid\<rparr>
      else if \<not> str_truthy (rq_conversation_id r) then r\<lparr>rq_conversation_id := Some cid\<rparr>
      else r)"

definition inject_into_live ::
  "'t torch \<Rightarrow> restore_input \<Rightarrow> nat \<Rightarrow> req \<Rightarrow> int \<Rightarrow> 't snapshot \<Rightarrow> 't scheduler \<Rightarrow> restore_output \<times> 't scheduler" where
  "inject_into_live T q i r idx snapshot S =
     (case snapshot of (conv_states, temporal_states, metadata) \<Rightarrow>
        if wrong_model S (JStr (md_model_name metadata)) then (restore_fail Model_mismatch, S)
        else
          case (md_fill_ids metadata, sd_mamba_pool S) of
            (None, _) \<Rightarrow> (restore_fail Fill_ids_missing, S)
          | (Some fill_ids, None) \<Rightarrow> (restore_fail Pool_not_available, S)
          | (Some fill_ids, Some P) \<Rightarrow>
              (case inject_state_to_pool T conv_states temporal_states idx P of
                 (Inl e, P1) \<Rightarrow> (restore_fail (Restore_error e), set_pool P1 S)
               | (Inr _, P1) \<Rightarrow>
                   (\<lparr>ro_success = True, ro_message = Restored, ro_token_count = JInt (md_token_count metadata),
                     ro_rid = ri_rid q, ro_mamba_pool_idx = Some idx\<rparr>,
                    reset_health (effective_conv_id q)
                      (set_req i (reconcile_conversation (effective_conv_id q)
                                    (r\<lparr>rq_fill_ids := Some fill_ids, rq_origin_input_ids := fill_ids\<rparr>))
                        (set_pool P1 (S\<lparr>sd_pending :=
                           clear_pending_restore (ri_rid q) (Some (effective_conv_id q)) (sd_pending S)\<rparr>))))))"

definition restore_live ::
  "'t torch \<Rightarrow> restore_input \<Rightarrow> nat \<Rightarrow> req \<Rightarrow> 't scheduler \<Rightarrow> restore_output \<times> 't scheduler" where
  "restore_live T q i r S =
     (if i \<in> set (sd_running_batch S) then (restore_fail Request_running, S)
      else
        case rq_mamba_pool_idx r of
          None \<Rightarrow> (restore_fail State_not_allocated, S)
        | Some idx \<Rightarrow>
            (case load_snapshot T (effective_conv_id q) (ri_turn_number q) (ri_branch_name q) (sd_manager S) of
               (Inl e, M) \<Rightarrow> (restore_fail (Restore_error e), set_manager M S)
             | (Inr snapshot, M) \<Rightarrow> inject_into_live T q i r idx snapshot (set_manager M S)))"

text \<open>\<open>None\<close> instead of a reply: it is sent when the new request has finished.\<close>

definition handle_restore_snapshot ::
  "'t torch \<Rightarrow> real \<Rightarrow> string \<Rightarrow> restore_input \<Rightarrow> 't scheduler \<Rightarrow> restore_output option \<times> 't scheduler" where
  "handle_restore_snapshot T now uid q S =
     (if \<not> sd_snapshot_manager S then (Some (restore_fail Restore_not_enabled), S)
      else if ri_create_new_request q then restore_as_new_request T now uid q S
      else
        case find_request_by_rid (ri_rid q) S of
          None \<Rightarrow> (case restore_pending T now q S of (out, S1) \<Rightarrow> (Some out, S1))
        | Some i \<Rightarrow>
            (case od_get (sd_reqs S) i of
               None \<Rightarrow> (Some (restore_fail (Restore_error KeyError)), S)
             | Some r \<Rightarrow> (case restore_live T q i r S of (out, S1) \<Rightarrow> (Some out, S1))))"

subsection \<open>A request that finds a staged state\<close>

definition hydrate_from ::
  "'t torch \<Rightarrow> nat \<Rightarrow> req \<Rightarrow> string \<Rightarrow> bool \<Rightarrow> 't pending_entry \<Rightarrow> 't mamba_pool \<Rightarrow> 't scheduler \<Rightarrow>
     bool option \<times> 't scheduler" where
  "hydrate_from T i r canonical matched_via_rid entry P S =
     (case mamba_alloc 1 P of
        (None, _) \<Rightarrow> (Some False, S)
      | (Some new_pool_idx, P1) \<Rightarrow>
          let idx = hd new_pool_idx
          in case inject_state_to_pool T (pe_conv_states entry) (pe_temporal_states entry) idx P1 of
               (Inl e, P2) \<Rightarrow> (Some False, set_pool (mamba_free new_pool_idx P2) S)
             | (Inr _, P2) \<Rightarrow>
                 let r1 = r\<lparr>rq_mamba_pool_idx := Some idx, rq_mamba_has_restored_state := True\<rparr>;
                     r2 = (if matched_via_rid \<or> \<not> str_truthy (rq_conversation_id r1)
                           then reconcile_conversation (pe_conversation_id entry) r1 else r1)
                 in (Some True,
                     reset_health (pe_conversation_id entry)
                       (set_req i r2 (set_pool P2
                          (S\<lparr>sd_pending := touch_pending (Some canonical) (sd_pending S)\<rparr>)))))"

definition maybe_hydrate_from_pending_restore ::
  "'t torch \<Rightarrow> nat \<Rightarrow> 't scheduler \<Rightarrow> bool option \<times> 't scheduler" where
  "maybe_hydrate_from_pending_restore T i S =
     (case od_get (sd_reqs S) i of
        None \<Rightarrow> (None, S)
      | Some r \<Rightarrow>
          if rq_mamba_pool_idx r \<noteq> None then (None, S)
          else
            (case find_pending (rq_rid r) (rq_conversation_id r) (sd_pending S) of
               None \<Rightarrow> (None, S)
             | Some (canonical, matched_via_rid) \<Rightarrow>
                 (case od_get (pr_registry (sd_pending S)) (Some canonical) of
                    None \<Rightarrow> (None, S)
                  | Some entry \<Rightarrow>
                      (case sd_mamba_pool S of
                         None \<Rightarrow> (Some False, S)
                       | Some P \<Rightarrow> hydrate_from T i r canonical matched_via_rid entry P S))))"

text \<open>
  The end of \<open>handle_generate_request\<close>: hydration, the bound on new tokens, the check of the
  length and the waiting queue, for a request without the log-probability, routed-expert and
  grammar options that the code looks at in between.
\<close>

definition update_req :: "nat \<Rightarrow> (req \<Rightarrow> req) \<Rightarrow> 't scheduler \<Rightarrow> 't scheduler" where
  "update_req i f S = (case od_get (sd_reqs S) i of None \<Rightarrow> S | Some r \<Rightarrow> set_req i (f r) S)"

definition too_long :: "nat \<Rightarrow> 't scheduler \<Rightarrow> bool \<times> 't scheduler" where
  "too_long i S =
     (case od_get (sd_reqs S) i of
        None \<Rightarrow> (False, S)
      | Some r \<Rightarrow>
          (case validate_input_length r (sa_max_req_input_len (sd_args S)) (sa_allow_auto_truncate (sd_args S)) of
             (err, r') \<Rightarrow> (err, set_req i r' S)))"

definition admit_generate_request :: "'t torch \<Rightarrow> real \<Rightarrow> nat \<Rightarrow> 't scheduler \<Rightarrow> unit res \<times> 't scheduler" where
  "admit_generate_request T now i S =
     (case maybe_hydrate_from_pending_restore T i S of
        (Some False, S1) \<Rightarrow> add_request_to_queue now i (update_req i set_finish_with_abort S1)
      | (_, S1) \<Rightarrow>
          (case too_long i (update_req i (init_req_max_new_tokens (sd_args S1)) S1) of
             (True, S2) \<Rightarrow> add_request_to_queue now i (update_req i set_finish_with_abort S2)
           | (False, S2) \<Rightarrow> add_request_to_queue now i S2))"

subsection \<open>Eviction from the pool\<close>

definition handle_mamba_state_eviction ::
  "'t torch \<Rightarrow> real \<Rightarrow> string \<Rightarrow> int \<Rightarrow> pydict option \<Rightarrow> 't scheduler \<Rightarrow> 't scheduler" where
  "handle_mamba_state_eviction T now conversation_id mamba_pool_idx metadata S =
     (if \<not> sd_tier_manager S then S
      else
        case sd_mamba_pool S of
          None \<Rightarrow> S
        | Some P \<Rightarrow>
            (case extract_state_from_pool T P mamba_pool_idx of
               Inl e \<Rightarrow> S
             | Inr (conv_states, temporal_states) \<Rightarrow>
                 S\<lparr>sd_tiers := snd (save_to_warm_tier T now conversation_id conv_states temporal_states
                     (Some (case metadata of None \<Rightarrow> [] | Some d \<Rightarrow> d)) ''log_and_continue'' (sd_tiers S))\<rparr>))"

end
