(* ===== verification/Snapshot_Hooks.thy ===== *)
theory Snapshot_Hooks
  imports Tensor_State
begin

section \<open>Snapshot hooks\<close>

text \<open>
  \<open>SnapshotTrigger\<close> and \<open>SnapshotHookManager\<close> of \<open>snapshot/snapshot_hooks.py\<close>. A hook is a
  function of the trigger and of the state \<open>'w\<close> of the system that it may change; it
  returns normally or raises, and the state it leaves counts in both cases. A request is a
  value of a type variable; \<open>idx\<close> reads its \<open>mamba_pool_idx\<close> (\<open>None\<close> when the attribute is
  missing or is \<open>None\<close>, which the code treats alike).
\<close>

datatype trigger_reason = Post_forward | Pre_eviction | On_demand

record 'r snapshot_trigger =
  tr_req :: 'r
  tr_turn_number :: int
  tr_trigger_reason :: trigger_reason
  tr_additional_context :: "pydict option"

type_synonym ('r, 'w) hook = "'r snapshot_trigger \<Rightarrow> 'w \<Rightarrow> unit res \<times> 'w"

record ('r, 'w) hook_manager =
  hk_enabled :: bool
  hk_post_forward_hooks :: "('r, 'w) hook list"
  hk_pre_eviction_hooks :: "('r, 'w) hook list"
  hk_on_demand_hooks :: "('r, 'w) hook list"

definition init_hook_manager :: "bool \<Rightarrow> ('r, 'w) hook_manager" where
  "init_hook_manager enabled =
     \<lparr>hk_enabled = enabled, hk_post_forward_hooks = [], hk_pre_eviction_hooks = [], hk_on_demand_hooks = []\<rparr>"

definition register_post_forward_hook :: "('r, 'w) hook \<Rightarrow> ('r, 'w) hook_manager \<Rightarrow> ('r, 'w) hook_manager" where
  "register_post_forward_hook callback G =
     G\<lparr>hk_post_forward_hooks := hk_post_forward_hooks G @ [callback]\<rparr>"

definition register_pre_eviction_hook :: "('r, 'w) hook \<Rightarrow> ('r, 'w) hook_manager \<Rightarrow> ('r, 'w) hook_manager" where
  "register_pre_eviction_hook callback G =
     G\<lparr>hk_pre_eviction_hooks := hk_pre_eviction_hooks G @ [callback]\<rparr>"

definition register_on_demand_hook :: "('r, 'w) hook \<Rightarrow> ('r, 'w) hook_manager \<Rightarrow> ('r, 'w) hook_manager" where
  "register_on_demand_hook callback G =
     G\<lparr>hk_on_demand_hooks := hk_on_demand_hooks G @ [callback]\<rparr>"

text \<open>The loop over the hooks: an exception is logged and the next hook runs.\<close>

fun run_hooks :: "('r, 'w) hook list \<Rightarrow> 'r snapshot_trigger \<Rightarrow> 'w \<Rightarrow> 'w" where
  "run_hooks [] trigger w = w"
| "run_hooks (hook # hooks) trigger w =
     (case hook trigger w of
        (Inl e, w') \<Rightarrow> run_hooks hooks trigger w'
      | (Inr _, w') \<Rightarrow> run_hooks hooks trigger w')"

definition trigger_post_forward ::
  "('r \<Rightarrow> int option) \<Rightarrow> 'r \<Rightarrow> bool \<Rightarrow> int \<Rightarrow> pydict option \<Rightarrow> ('r, 'w) hook_manager \<Rightarrow> 'w \<Rightarrow> 'w" where
  "trigger_post_forward idx req has_mamba_pool turn_number additional_context G w =
     (if \<not> hk_enabled G then w
      else if \<not> has_mamba_pool \<or> idx req = None then w
      else run_hooks (hk_post_forward_hooks G)
             \<lparr>tr_req = req, tr_turn_number = turn_number, tr_trigger_reason = Post_forward,
              tr_additional_context = additional_context\<rparr> w)"

definition trigger_pre_eviction ::
  "('r \<Rightarrow> int option) \<Rightarrow> 'r \<Rightarrow> bool \<Rightarrow> int \<Rightarrow> pydict option \<Rightarrow> ('r, 'w) hook_manager \<Rightarrow> 'w \<Rightarrow> 'w" where
  "trigger_pre_eviction idx req has_mamba_pool turn_number additional_context G w =
     (if \<not> hk_enabled G then w
      else if \<not> has_mamba_pool \<or> idx req = None then w
      else run_hooks (hk_pre_eviction_hooks G)
             \<lparr>tr_req = req, tr_turn_number = turn_number, tr_trigger_reason = Pre_eviction,
              tr_additional_context = additional_context\<rparr> w)"

definition trigger_on_demand ::
  "('r \<Rightarrow> int option) \<Rightarrow> 'r \<Rightarrow> bool \<Rightarrow> int \<Rightarrow> pydict option \<Rightarrow> ('r, 'w) hook_manager \<Rightarrow> 'w \<Rightarrow> 'w" where
  "trigger_on_demand idx req has_mamba_pool turn_number additional_context G w =
     (if \<not> hk_enabled G then w
      else if \<not> has_mamba_pool \<or> idx req = None then w
      else run_hooks (hk_on_demand_hooks G)
             \<lparr>tr_req = req, tr_turn_number = turn_number, tr_trigger_reason = On_demand,
              tr_additional_context = additional_context\<rparr> w)"

definition clear_hooks :: "string option \<Rightarrow> ('r, 'w) hook_manager \<Rightarrow> ('r, 'w) hook_manager" where
  "clear_hooks hook_type G =
     (let G1 = (if hook_type = None \<or> hook_type = Some ''post_forward'' then G\<lparr>hk_post_forward_hooks := []\<rparr> else G);
          G2 = (if hook_type = None \<or> hook_type = Some ''pre_eviction'' then G1\<lparr>hk_pre_eviction_hooks := []\<rparr> else G1)
      in if hook_type = None \<or> hook_type = Some ''on_demand'' then G2\<lparr>hk_on_demand_hooks := []\<rparr> else G2)"

definition get_hook_count :: "('r, 'w) hook_manager \<Rightarrow> (string, nat) odict" where
  "get_hook_count G =
     [(''post_forward'', length (hk_post_forward_hooks G)),
      (''pre_eviction'', length (hk_pre_eviction_hooks G)),
      (''on_demand'', length (hk_on_demand_hooks G))]"

subsection \<open>Lemmas\<close>

lemma run_hooks_fold: "run_hooks hooks tr w = fold (\<lambda>h w. snd (h tr w)) hooks w"
  by (induction hooks arbitrary: w) (simp_all split: prod.split sum.split)

lemma run_hooks_append: "run_hooks (hs @ hs') tr w = run_hooks hs' tr (run_hooks hs tr w)"
  by (simp add: run_hooks_fold)

lemma run_hooks_invariant:
  assumes "\<And>h w. h \<in> set hs \<Longrightarrow> I w \<Longrightarrow> I (snd (h tr w))"
  shows "I w \<Longrightarrow> I (run_hooks hs tr w)"
  using assms by (induction hs arbitrary: w) (simp_all add: run_hooks_fold)

text \<open>A hook that raises before it changes anything.\<close>

definition inert :: "('r, 'w) hook \<Rightarrow> bool" where
  "inert h = (\<forall>tr w. \<exists>e. h tr w = (Inl e, w))"

lemma run_hooks_inert: "run_hooks (filter (\<lambda>h. \<not> inert h) hs) tr w = run_hooks hs tr w"
proof (induction hs arbitrary: w)
  case (Cons h hs)
  show ?case
  proof (cases "inert h")
    case True
    then obtain e where "h tr w = (Inl e, w)" unfolding inert_def by blast
    then show ?thesis using True Cons.IH by simp
  next
    case False
    then show ?thesis using Cons.IH by (simp split: prod.split sum.split)
  qed
qed simp

subsection \<open>Properties\<close>

text \<open>
  A hook that fails does not keep the others from running. Triggering has the same
  effect whether or not hooks that only raise are registered; the hooks that remain run in
  the order of registration, each on the state the previous ones left; and a disabled
  manager, a model without a Mamba pool and a request without a slot run none.
\<close>

theorem failing_hooks_are_isolated:
  "trigger_post_forward idx req has_pool turn ctx
     (G\<lparr>hk_post_forward_hooks := filter (\<lambda>h. \<not> inert h) (hk_post_forward_hooks G)\<rparr>) w =
   trigger_post_forward idx req has_pool turn ctx G w \<and>
   trigger_post_forward idx req has_pool turn ctx (register_post_forward_hook h G) w =
     (if hk_enabled G \<and> has_pool \<and> idx req \<noteq> None
      then snd (h \<lparr>tr_req = req, tr_turn_number = turn, tr_trigger_reason = Post_forward,
                   tr_additional_context = ctx\<rparr> (trigger_post_forward idx req has_pool turn ctx G w))
      else w)"
  by (simp add: trigger_post_forward_def register_post_forward_hook_def run_hooks_inert run_hooks_append
      split: prod.split sum.split)

end
