(* ===== verification/Snapshot_System.thy ===== *)
theory Snapshot_System
  imports Snapshot_Handlers Snapshot_Hooks
begin

section \<open>The snapshot system of the scheduler\<close>

text \<open>
  \<open>managers/scheduler_snapshot_system.py\<close>: setting the system up from the server arguments, the
  callback that saves a state after a forward pass, \<open>Scheduler._trigger_snapshot_hooks\<close> that runs
  it for a batch, and the restore at startup. A callback reads the clock and may meet a failing disk, so
  its world is the time, the fault and the scheduler. Opening the snapshot directory is the
  argument \<open>open_dir\<close>: the manager over what the directory holds, or \<open>None\<close> when its constructor raises.
\<close>

record system_args =
  ya_enable_snapshot_persistence :: bool
  ya_snapshot_dir :: "string option"
  ya_snapshot_retention_count :: int
  ya_snapshot_trigger_policy :: string
  ya_snapshot_every_n_turns :: int
  ya_snapshot_min_interval_seconds :: real
  ya_snapshot_keep_named_branches :: bool
  ya_enable_memory_tiers :: bool
  ya_max_warm_conversations :: int
  ya_max_warm_memory_gb :: real
  ya_enable_cross_session_refs :: bool
  ya_conversation_active_timeout :: real
  ya_conversation_warm_timeout :: real
  ya_conversation_cold_retention :: real
  ya_enable_tier_background_cleanup :: bool
  ya_tier_cleanup_interval :: real
  ya_snapshot_auto_restore :: bool

type_synonym 't world = "real \<times> save_fault option \<times> 't scheduler"

subsection \<open>The callback after a forward pass\<close>

text \<open>The health check of a state; the flag is that the policy says to skip the snapshot.\<close>

definition health_check ::
  "'t torch \<Rightarrow> real \<Rightarrow> string \<Rightarrow> 't list \<Rightarrow> 't \<Rightarrow> int \<Rightarrow> 't scheduler \<Rightarrow> bool \<times> 't scheduler" where
  "health_check T now conversation_id conv_states temporal_states turn_number S =
     (case sd_health_monitor S of
        None \<Rightarrow> (False, S)
      | Some H \<Rightarrow>
          let conv_count = (case od_get (sd_health_check_counter S) conversation_id of None \<Rightarrow> 0 | Some n \<Rightarrow> n) + 1;
              S1 = S\<lparr>sd_health_check_counter := od_set conversation_id conv_count (sd_health_check_counter S)\<rparr>;
              interval = sa_snapshot_health_check_interval (sd_args S)
          in if interval \<noteq> 0 \<and> conv_count mod interval = 0 then
               (case check_state_health T now conversation_id conv_states temporal_states turn_number H of
                  (Inl e, H') \<Rightarrow> (False, S1\<lparr>sd_health_monitor := Some H'\<rparr>)
                | (Inr health, H') \<Rightarrow>
                    (\<not> hr_healthy health \<and> sa_snapshot_health_failure_policy (sd_args S) = ''skip_snapshot'',
                     S1\<lparr>sd_health_monitor := Some H'\<rparr>))
             else (False, S1))"

definition callback_metadata ::
  "real \<Rightarrow> string \<Rightarrow> string \<Rightarrow> int \<Rightarrow> req \<Rightarrow> int \<Rightarrow> int \<Rightarrow> 't mamba_pool \<Rightarrow> snapshot_metadata" where
  "callback_metadata now model_path cid turn_number r idx ri P =
     \<lparr>md_conversation_id = cid, md_turn_number = Some turn_number, md_timestamp = now,
      md_token_count = (case rq_fill_ids r of None \<Rightarrow> 0 | Some ids \<Rightarrow> int (length ids)),
      md_model_name = model_path, md_mamba_pool_idx = idx, md_req_pool_idx = ri,
      md_layer_config = layer_config_of P, md_active_tool_context = None, md_branch_name = None,
      md_parent_snapshot = None, md_fill_ids = rq_fill_ids r\<rparr>"

text \<open>The save to host memory, or to disk without tiers or when host memory refuses; then the pruning.\<close>

definition mark_taken :: "real \<Rightarrow> string \<Rightarrow> 't scheduler \<Rightarrow> 't scheduler" where
  "mark_taken now cid S = S\<lparr>sd_policy := mark_snapshot_taken now cid (sd_policy S)\<rparr>"

definition prune :: "string \<Rightarrow> 't scheduler \<Rightarrow> 't scheduler" where
  "prune cid S = set_manager (snd (prune_old_snapshots (sd_policy S) cid (sd_manager S))) S"

definition disk_save ::
  "'t torch \<Rightarrow> save_fault option \<Rightarrow> real \<Rightarrow> string \<Rightarrow> 't list \<Rightarrow> 't \<Rightarrow> snapshot_metadata \<Rightarrow> 't scheduler \<Rightarrow> 't scheduler" where
  "disk_save T fault now cid conv_states temporal_states metadata S =
     (case save_snapshot T fault conv_states temporal_states metadata (sd_manager S) of
        (Inl e, M) \<Rightarrow> set_manager M S
      | (Inr _, M) \<Rightarrow> prune cid (mark_taken now cid (set_manager M S)))"

definition save_state_of_turn ::
  "'t torch \<Rightarrow> save_fault option \<Rightarrow> real \<Rightarrow> string \<Rightarrow> 't list \<Rightarrow> 't \<Rightarrow> snapshot_metadata \<Rightarrow> 't scheduler \<Rightarrow> 't scheduler" where
  "save_state_of_turn T fault now cid conv_states temporal_states metadata S =
     (if sd_tier_manager S then
        (case save_to_warm_tier T now cid conv_states temporal_states (Some (to_dict metadata))
                ''log_and_continue'' (sd_tiers S) of
           (Inl e, W) \<Rightarrow> S\<lparr>sd_tiers := W\<rparr>
         | (Inr True, W) \<Rightarrow> prune cid (mark_taken now cid (S\<lparr>sd_tiers := W\<rparr>))
         | (Inr False, W) \<Rightarrow> disk_save T fault now cid conv_states temporal_states metadata (S\<lparr>sd_tiers := W\<rparr>))
      else disk_save T fault now cid conv_states temporal_states metadata S)"

definition callback_conversation :: "req \<Rightarrow> string" where
  "callback_conversation r = (case rq_conversation_id r of None \<Rightarrow> rq_rid r | Some c \<Rightarrow> c)"

definition snapshot_of_turn ::
  "'t torch \<Rightarrow> save_fault option \<Rightarrow> real \<Rightarrow> int \<Rightarrow> req \<Rightarrow> int \<Rightarrow> 't mamba_pool \<Rightarrow> 't scheduler \<Rightarrow> unit res \<times> 't scheduler" where
  "snapshot_of_turn T fault now turn_number r idx P S =
     (let cid = callback_conversation r
      in case extract_state_from_pool T P idx of
           Inl e \<Rightarrow> (Inr (), S)
         | Inr (conv_states, temporal_states) \<Rightarrow>
             (case health_check T now cid conv_states temporal_states turn_number S of
                (True, S1) \<Rightarrow> (Inr (), S1)
              | (False, S1) \<Rightarrow>
                  (case rq_req_pool_idx r of
                     None \<Rightarrow> (Inl TypeError, S1)
                   | Some ri \<Rightarrow>
                       (Inr (), save_state_of_turn T fault now cid conv_states temporal_states
                          (callback_metadata now (sa_model_path (sd_args S)) cid turn_number r idx ri P) S1))))"

definition post_forward_snapshot_callback :: "'t torch \<Rightarrow> (nat, 't world) hook" where
  "post_forward_snapshot_callback T trigger w =
     (case w of (now, fault, S) \<Rightarrow>
        case od_get (sd_reqs S) (tr_req trigger) of
          None \<Rightarrow> (Inl KeyError, w)
        | Some r \<Rightarrow>
            (case should_snapshot now \<lparr>ra_conversation_id = rq_conversation_id r, ra_rid = Some (rq_rid r)\<rparr>
                    (tr_turn_number trigger) (Some (callback_conversation r))
                    (Some (case tr_additional_context trigger of None \<Rightarrow> [] | Some d \<Rightarrow> d)) (sd_policy S) of
               Inl e \<Rightarrow> (Inl e, w)
             | Inr False \<Rightarrow> (Inr (), w)
             | Inr True \<Rightarrow>
                 (case (sd_mamba_pool S, rq_mamba_pool_idx r) of
                    (Some P, Some idx) \<Rightarrow>
                      (case snapshot_of_turn T fault now (tr_turn_number trigger) r idx P S of
                         (res, S1) \<Rightarrow> (res, (now, fault, S1)))
                  | _ \<Rightarrow> (Inr (), w))))"

subsection \<open>Running the hooks for a batch\<close>

definition pool_idx_of :: "'t scheduler \<Rightarrow> nat \<Rightarrow> int option" where
  "pool_idx_of S i = Option.bind (od_get (sd_reqs S) i) rq_mamba_pool_idx"

definition trigger_for ::
  "(nat, 't world) hook_manager \<Rightarrow> nat \<Rightarrow> 't world \<Rightarrow> 't world" where
  "trigger_for G i w =
     (case w of (_, _, S) \<Rightarrow>
        case od_get (sd_reqs S) i of
          None \<Rightarrow> w
        | Some r \<Rightarrow>
            if rq_mamba_pool_idx r = None then w
            else trigger_post_forward (pool_idx_of S) i True (int (length (rq_output_ids r))) None G w)"

definition trigger_snapshot_hooks ::
  "(nat, 't world) hook_manager option \<Rightarrow> nat list \<Rightarrow> 't world \<Rightarrow> 't world" where
  "trigger_snapshot_hooks hooks batch w =
     (case hooks of
        None \<Rightarrow> w
      | Some G \<Rightarrow> (case w of (_, _, S) \<Rightarrow> if sd_mamba_pool S = None then w else fold (trigger_for G) batch w))"

subsection \<open>Setting up\<close>

definition restore_snapshots_on_startup :: "'t torch \<Rightarrow> real \<Rightarrow> 't scheduler \<Rightarrow> 't scheduler" where
  "restore_snapshots_on_startup T now S =
     (if \<not> sd_snapshot_manager S then S
      else if \<not> sd_tier_manager S then S
      else S\<lparr>sd_tiers := snd (restore_latest_snapshots_to_warm_tier T now (sd_tiers S))\<rparr>)"

definition trigger_policy_of :: "string \<Rightarrow> snapshot_trigger_policy" where
  "trigger_policy_of s =
     (if s = ''every_n_turns'' then EVERY_N_TURNS
      else if s = ''on_tool_call'' then ON_TOOL_CALL
      else if s = ''manual_only'' then MANUAL_ONLY
      else EVERY_TURN)"

definition retention_config_of :: "system_args \<Rightarrow> retention_config" where
  "retention_config_of A =
     \<lparr>rc_max_snapshots_per_conversation = ya_snapshot_retention_count A,
      rc_snapshot_trigger_policy = trigger_policy_of (ya_snapshot_trigger_policy A),
      rc_snapshot_every_n_turns = ya_snapshot_every_n_turns A, rc_enable_auto_pruning = True,
      rc_min_snapshot_interval_seconds = ya_snapshot_min_interval_seconds A,
      rc_keep_named_branches = ya_snapshot_keep_named_branches A\<rparr>"

text \<open>The attributes before anything is enabled; the tiers and the policy of \<open>S\<close> are then unused.\<close>

definition reset_system :: "'t scheduler \<Rightarrow> 't scheduler" where
  "reset_system S =
     S\<lparr>sd_snapshot_manager := False, sd_tier_manager := False, sd_health_monitor := None,
       sd_health_check_counter := [], sd_pending := init_pending\<rparr>"

definition init_tier_system :: "system_args \<Rightarrow> 't manager \<Rightarrow> 't scheduler \<Rightarrow> 't scheduler" where
  "init_tier_system A M S =
     (if ya_enable_memory_tiers A then
        S\<lparr>sd_tier_manager := True,
          sd_tiers := init_tiers
            (init_tracker (ya_conversation_active_timeout A) (ya_conversation_warm_timeout A)
               (ya_conversation_cold_retention A))
            (init_host_pool (ya_max_warm_conversations A) (ya_max_warm_memory_gb A) (ya_enable_cross_session_refs A))
            M (ya_enable_tier_background_cleanup A) (ya_tier_cleanup_interval A) (Some (sa_model_path (sd_args S)))\<rparr>
      else set_manager M S)"

definition init_health :: "'t scheduler \<Rightarrow> 't scheduler" where
  "init_health S =
     (if sa_snapshot_health_check_interval (sd_args S) > 0
      then S\<lparr>sd_health_monitor := Some (init_health_monitor 100 3)\<rparr> else S)"

definition init_snapshot_system ::
  "'t torch \<Rightarrow> (string \<Rightarrow> 't manager option) \<Rightarrow> system_args \<Rightarrow> real \<Rightarrow> 't scheduler \<Rightarrow>
     (nat, 't world) hook_manager option \<times> 't scheduler" where
  "init_snapshot_system T open_dir A now S0 =
     (let S = reset_system S0
      in if \<not> ya_enable_snapshot_persistence A \<or> sd_mamba_pool S = None then (None, S)
         else
           case open_dir (case ya_snapshot_dir A of None \<Rightarrow> ''./sglang_snapshots'' | Some d \<Rightarrow> d) of
             None \<Rightarrow> (None, S)
           | Some M \<Rightarrow>
               let S1 = S\<lparr>sd_snapshot_manager := True, sd_policy := init_retention_policy (retention_config_of A)\<rparr>;
                   S2 = init_health (init_tier_system A M S1);
                   G = register_post_forward_hook (post_forward_snapshot_callback T) (init_hook_manager True)
               in (Some G, if ya_snapshot_auto_restore A then restore_snapshots_on_startup T now S2 else S2))"

end
