(* ===== verification/Scheduler_Queue.thy ===== *)
theory Scheduler_Queue
  imports Scheduler_State
begin

section \<open>The waiting queue: bounds and accounting\<close>

text \<open>
  What \<open>Scheduler.init_req_max_new_tokens\<close> and \<open>Scheduler._add_request_to_queue\<close> guarantee: a
  request asks for no more tokens than fit, the queue stays within its limit, and a request
  that does not stay in the queue is answered with an abort message.
\<close>

subsection \<open>The request to preempt\<close>

lemma key_less_trans: "\<not> key_less b a \<Longrightarrow> \<not> key_less c b \<Longrightarrow> \<not> key_less c a"
  by (auto simp: key_less_def)

lemma key_less_irrefl [simp]: "\<not> key_less a a"
  by (simp add: key_less_def)

lemma key_less_asym: "key_less a b \<Longrightarrow> \<not> key_less b a"
  by (auto simp: key_less_def)

lemma max_key_in: "max_key xs best \<in> set (best # xs)"
proof (induction xs arbitrary: best)
  case (Cons x xs)
  show ?case using Cons.IH [of "if key_less (snd best) (snd x) then x else best"] by auto
qed simp

lemma max_key_max: "x \<in> set (best # xs) \<Longrightarrow> \<not> key_less (snd (max_key xs best)) (snd x)"
proof (induction xs arbitrary: best x)
  case (Cons y ys)
  let ?b = "if key_less (snd best) (snd y) then y else best"
  have b: "\<not> key_less (snd (max_key ys ?b)) (snd ?b)" using Cons.IH [of ?b ?b] by simp
  show ?case
  proof (cases "x \<in> set ys")
    case True
    then show ?thesis using Cons.IH [of x ?b] by simp
  next
    case False
    then have "\<not> key_less (snd ?b) (snd x)"
      using Cons.prems key_less_asym [of "snd best" "snd y"] by auto
    from key_less_trans [OF this b] show ?thesis by simp
  qed
qed simp

lemma those_nth: "those (map f xs) = Some ys \<Longrightarrow> length ys = length xs \<and> (\<forall>k < length xs. f (xs ! k) = Some (ys ! k))"
proof (induction xs arbitrary: ys)
  case (Cons x xs)
  then obtain z zs where z: "f x = Some z" "those (map f xs) = Some zs" "ys = z # zs"
    by (auto split: option.splits)
  show ?case using Cons.IH [OF z(2)] z(1,3) by (auto simp: nth_Cons split: nat.split)
qed simp

text \<open>The key of the request at a position of the queue.\<close>

definition key_at :: "int \<Rightarrow> 't scheduler \<Rightarrow> nat \<Rightarrow> (int \<times> real) option" where
  "key_at direction S k = Option.bind (od_get (sd_reqs S) (sd_waiting_queue S ! k)) (queue_key direction)"

lemma queue_keys_nth:
  assumes "queue_keys direction S = Some ks"
  shows "length ks = length (sd_waiting_queue S)"
    and "k < length ks \<Longrightarrow> \<exists>v. ks ! k = (k, v) \<and> key_at direction S k = Some v"
proof -
  note n = those_nth [OF assms [unfolded queue_keys_def]]
  then show l: "length ks = length (sd_waiting_queue S)" by simp
  assume k: "k < length ks"
  then have "map_option (Pair k) (key_at direction S k) = Some (ks ! k)"
    using n l by (auto simp: key_at_def nth_enumerate_eq)
  then show "\<exists>v. ks ! k = (k, v) \<and> key_at direction S k = Some v" by auto
qed

lemma least_preferred_max:
  assumes "least_preferred direction S = Inr idx"
  shows "idx < length (sd_waiting_queue S) \<and> (\<exists>v. key_at direction S idx = Some v \<and>
    (\<forall>k < length (sd_waiting_queue S). \<exists>w. key_at direction S k = Some w \<and> \<not> key_less v w))"
proof -
  obtain x xs where ks: "queue_keys direction S = Some (x # xs)" and idx: "idx = fst (max_key xs x)"
    using assms by (auto simp: least_preferred_def split: option.splits list.splits)
  note n = queue_keys_nth [OF ks]
  obtain k where k: "k < length (x # xs)" "(x # xs) ! k = max_key xs x"
    using max_key_in [of xs x] by (metis in_set_conv_nth)
  obtain v where v: "(x # xs) ! k = (k, v)" "key_at direction S k = Some v" using n(2) [OF k(1)] by blast
  have "\<exists>w. key_at direction S j = Some w \<and> \<not> key_less v w" if "j < length (sd_waiting_queue S)" for j
  proof -
    have j: "j < length (x # xs)" using that n(1) by simp
    from n(2) [OF j] obtain w where w: "(x # xs) ! j = (j, w)" "key_at direction S j = Some w" by blast
    have "\<not> key_less (snd (max_key xs x)) (snd ((x # xs) ! j))" by (rule max_key_max [OF nth_mem [OF j]])
    then show ?thesis using w v(1) k(2) by simp
  qed
  moreover have "idx = k" using idx k(2) v(1) by (metis fst_conv)
  moreover have "k < length (sd_waiting_queue S)" using k(1) n(1) by simp
  ultimately show ?thesis using v(2) by blast
qed

subsection \<open>The outcomes of the limit\<close>

definition has_room :: "'t scheduler \<Rightarrow> bool" where
  "has_room S = (case sa_max_queued_requests (sd_args S) of
     None \<Rightarrow> True | Some m \<Rightarrow> int (length (sd_waiting_queue S)) + 1 \<le> m)"

definition pref_direction :: "'t scheduler \<Rightarrow> int" where
  "pref_direction S = (if sa_schedule_low_priority_values_first (sd_args S) then 1 else - 1)"

definition drop_at :: "nat \<Rightarrow> 'a list \<Rightarrow> 'a list" where
  "drop_at k xs = take k xs @ drop (Suc k) xs"

lemma drop_at_simps:
  assumes "k < length xs"
  shows "length (drop_at k xs) = length xs - 1" and "mset (drop_at k xs) + {#xs ! k#} = mset xs"
proof -
  show "length (drop_at k xs) = length xs - 1" using assms by (simp add: drop_at_def)
  have "mset xs = mset (take k xs @ xs ! k # drop (Suc k) xs)" using id_take_nth_drop [OF assms] by simp
  then show "mset (drop_at k xs) + {#xs ! k#} = mset xs" by (simp add: drop_at_def)
qed

lemma abort_on_queued_limit_cases:
  assumes "abort_on_queued_limit r S = (Inr b, S')"
  obtains "\<not> b" "S' = S" "has_room S"
  | "b" "S' = send_abort (rq_rid r) Queue_full S" "\<not> has_room S"
  | idx c where "\<not> has_room S" "idx < length (sd_waiting_queue S)"
      "od_get (sd_reqs S) (sd_waiting_queue S ! idx) = Some c" "preempts (pref_direction S) r c = Inr True"
      "least_preferred (pref_direction S) S = Inr idx" "b = (rq_rid c = rq_rid r)"
      "S' = send_abort (rq_rid c) Preempted (S\<lparr>sd_waiting_queue := drop_at idx (sd_waiting_queue S)\<rparr>)"
proof (cases "has_room S")
  case True
  then show thesis using assms that(1) by (auto simp: abort_on_queued_limit_def has_room_def)
next
  case False
  note f = this
  show thesis
  proof (cases "sa_enable_priority_scheduling (sd_args S)")
    case False
    then show thesis using assms f that(2) by (auto simp: abort_on_queued_limit_def has_room_def)
  next
    case True
    obtain idx c pr where i: "least_preferred (pref_direction S) S = Inr idx"
      and c: "od_get (sd_reqs S) (sd_waiting_queue S ! idx) = Some c"
      and p: "preempts (pref_direction S) r c = Inr pr"
      and s: "(Inr b, S') = (if pr then (Inr (rq_rid c = rq_rid r),
          send_abort (rq_rid c) Preempted (S\<lparr>sd_waiting_queue := drop_at idx (sd_waiting_queue S)\<rparr>))
        else (Inr True, send_abort (rq_rid r) Queue_full S))"
      using assms f True
      by (auto simp: abort_on_queued_limit_def has_room_def [symmetric] Let_def pref_direction_def [symmetric] drop_at_def
          split: sum.splits option.splits bool.splits)
    show thesis
    proof (cases pr)
      case True
      then show thesis using that(3) [OF f _ c _ i] least_preferred_max [OF i] p s by simp
    next
      case False
      then show thesis using that(2) [OF _ _ f] s by simp
    qed
  qed
qed

lemma send_abort_simps [simp]:
  "sd_waiting_queue (send_abort rid why S) = sd_waiting_queue S"
  "sd_sent (send_abort rid why S) = sd_sent S @ [\<lparr>ab_rid = rid, ab_reason = why\<rparr>]"
  "sd_reqs (send_abort rid why S) = sd_reqs S"
  "sd_args (send_abort rid why S) = sd_args S"
  by (simp_all add: send_abort_def)

lemma set_req_simps [simp]:
  "sd_waiting_queue (set_req i r S) = sd_waiting_queue S"
  "sd_sent (set_req i r S) = sd_sent S"
  "sd_args (set_req i r S) = sd_args S"
  "od_get (sd_reqs (set_req i r S)) j = (if j = i then Some r else od_get (sd_reqs S) j)"
  by (simp_all add: set_req_def od_get_set)

lemma set_or_validate_priority_cases:
  assumes "set_or_validate_priority i r S = (ok, S1)"
  obtains "\<not> ok" "S1 = send_abort (rq_rid r) Priority_disabled S"
  | "ok" "S1 = S"
  | p where "ok" "S1 = set_req i (r\<lparr>rq_priority := Some p\<rparr>) S"
  using assms by (auto simp: set_or_validate_priority_def split: if_splits)

lemma set_or_validate_priority_keeps:
  assumes "set_or_validate_priority i r S = (True, S1)" and "od_get (sd_reqs S) i = Some r"
  shows "sd_waiting_queue S1 = sd_waiting_queue S \<and> sd_sent S1 = sd_sent S \<and> sd_args S1 = sd_args S \<and>
    (\<forall>j. j \<noteq> i \<longrightarrow> od_get (sd_reqs S1) j = od_get (sd_reqs S) j) \<and>
    (\<exists>r1. od_get (sd_reqs S1) i = Some r1 \<and> rq_rid r1 = rq_rid r)"
  by (rule set_or_validate_priority_cases [OF assms(1)]) (use assms(2) in simp_all)

lemma preempts_time [simp]: "preempts d (r\<lparr>rq_wait_queue_entry_time := t\<rparr>) c = preempts d r c"
  by (simp add: preempts_def)

text \<open>The outcomes of putting a request into the queue.\<close>

lemma add_request_to_queue_cases:
  assumes "add_request_to_queue now i S = (Inr (), S')" and "od_get (sd_reqs S) i = Some r"
  obtains (refused) why where "S' = send_abort (rq_rid r) why S"
  | (full) S1 r1 where "set_or_validate_priority i r S = (True, S1)" "od_get (sd_reqs S1) i = Some r1"
      "abort_on_queued_limit r1 S1 = (Inr True, S')"
  | (queued) S1 r1 S2 where "set_or_validate_priority i r S = (True, S1)" "od_get (sd_reqs S1) i = Some r1"
      "abort_on_queued_limit r1 S1 = (Inr False, S2)"
      "S' = set_req i (r1\<lparr>rq_wait_queue_entry_time := now\<rparr>) (S2\<lparr>sd_waiting_queue := sd_waiting_queue S2 @ [i]\<rparr>)"
proof -
  obtain ok S1 where s: "set_or_validate_priority i r S = (ok, S1)" by fastforce
  show thesis
  proof (cases ok)
    case False
    then have "S1 = send_abort (rq_rid r) Priority_disabled S" using s by (auto simp: set_or_validate_priority_def split: if_splits)
    then have "S' = send_abort (rq_rid r) Priority_disabled S" using assms False s by (simp add: add_request_to_queue_def)
    then show thesis by (rule refused)
  next
    case True

    obtain r1 where r1: "od_get (sd_reqs S1) i = Some r1"
      using set_or_validate_priority_keeps [OF _ assms(2)] s True by auto
    obtain b S2 where a: "abort_on_queued_limit r1 S1 = (b, S2)" by fastforce
    show thesis
    proof (cases b)
      case (Inl e)
      then show thesis using assms True s r1 a by (simp add: add_request_to_queue_def)
    next
      case (Inr d)
      have s': "set_or_validate_priority i r S = (True, S1)" using s True by simp
      show thesis
      proof (cases d)
        case True
        then have "abort_on_queued_limit r1 S1 = (Inr True, S')"
          using assms s' r1 a Inr by (simp add: add_request_to_queue_def)
        then show thesis by (rule full [OF s' r1])
      next
        case False
        then have "abort_on_queued_limit r1 S1 = (Inr False, S2)" "S' = set_req i (r1\<lparr>rq_wait_queue_entry_time := now\<rparr>)
            (S2\<lparr>sd_waiting_queue := sd_waiting_queue S2 @ [i]\<rparr>)"
          using assms s' r1 a Inr by (simp_all add: add_request_to_queue_def)
        then show thesis by (rule queued [OF s' r1])
      qed
    qed
  qed
qed

text \<open>Which requests were dropped, with the messages sent for them.\<close>

definition accounted :: "nat \<Rightarrow> 't scheduler \<Rightarrow> 't scheduler \<Rightarrow> nat list \<Rightarrow> abort_req list \<Rightarrow> bool" where
  "accounted i S S' dropped msgs =
     (mset (sd_waiting_queue S') + mset dropped = mset (sd_waiting_queue S) + {#i#} \<and>
      length dropped \<le> 1 \<and> sd_sent S' = sd_sent S @ msgs \<and>
      map ab_rid msgs = map (\<lambda>j. rq_rid (the (od_get (sd_reqs S) j))) dropped \<and>
      (\<forall>j \<in> set dropped. j \<noteq> i \<longrightarrow> (\<exists>r' c. od_get (sd_reqs S') i = Some r' \<and> od_get (sd_reqs S) j = Some c \<and>
         preempts (pref_direction S) r' c = Inr True)) \<and>
      (\<forall>m. sa_max_queued_requests (sd_args S) = Some m \<and> int (length (sd_waiting_queue S)) \<le> m \<longrightarrow>
         int (length (sd_waiting_queue S')) \<le> m))"

lemma accounted_refused:
  assumes "od_get (sd_reqs S) i = Some r" "sd_waiting_queue S' = sd_waiting_queue S"
    "sd_sent S' = sd_sent S @ [\<lparr>ab_rid = rq_rid r, ab_reason = why\<rparr>]"
  shows "accounted i S S' [i] [\<lparr>ab_rid = rq_rid r, ab_reason = why\<rparr>]"
  using assms by (simp add: accounted_def)

lemma accounted_preempted:
  assumes "idx < length (sd_waiting_queue S)" "od_get (sd_reqs S) (sd_waiting_queue S ! idx) = Some c"
    and "sd_waiting_queue S' = drop_at idx (sd_waiting_queue S) @ [i]"
    and "sd_sent S' = sd_sent S @ [\<lparr>ab_rid = rq_rid c, ab_reason = Preempted\<rparr>]"
    and "od_get (sd_reqs S') i = Some r'" "preempts (pref_direction S) r' c = Inr True"
  shows "accounted i S S' [sd_waiting_queue S ! idx] [\<lparr>ab_rid = rq_rid c, ab_reason = Preempted\<rparr>]"
  using assms drop_at_simps [OF assms(1)] by (auto simp: accounted_def)

text \<open>
  C30: no request gets lost on the way into the waiting queue. Unless the call raises, the
  request is in the queue afterwards or it, or one request in its place, is dropped, and for
  exactly the dropped request an abort message goes to the tokenizer. A request that was
  waiting is only dropped for a strictly preferred one. The queue never exceeds its limit.
  This needs request ids to differ: the code compares ids, not requests, to decide which of
  the two was dropped.
\<close>

theorem queue_accounts_for_requests:
  assumes "add_request_to_queue now i S = (Inr (), S')" and "od_get (sd_reqs S) i = Some r"
    and "\<And>j. j \<in> set (sd_waiting_queue S) \<Longrightarrow> \<exists>q. od_get (sd_reqs S) j = Some q \<and> rq_rid q \<noteq> rq_rid r"
  shows "\<exists>dropped msgs. mset (sd_waiting_queue S') + mset dropped = mset (sd_waiting_queue S) + {#i#} \<and>
      length dropped \<le> 1 \<and> sd_sent S' = sd_sent S @ msgs \<and>
      map ab_rid msgs = map (\<lambda>j. rq_rid (the (od_get (sd_reqs S) j))) dropped \<and>
      (\<forall>j \<in> set dropped. j \<noteq> i \<longrightarrow> (\<exists>r' c. od_get (sd_reqs S') i = Some r' \<and> od_get (sd_reqs S) j = Some c \<and>
         preempts (pref_direction S) r' c = Inr True)) \<and>
      (\<forall>m. sa_max_queued_requests (sd_args S) = Some m \<and> int (length (sd_waiting_queue S)) \<le> m \<longrightarrow>
         int (length (sd_waiting_queue S')) \<le> m)"
proof -
  have ni: "i \<notin> set (sd_waiting_queue S)" using assms(2,3) by force
  have "\<exists>dropped msgs. accounted i S S' dropped msgs"
  proof (rule add_request_to_queue_cases [OF assms(1,2)], goal_cases)
    case (1 why)
    then show ?case using accounted_refused [OF assms(2), of S' why] by auto
  next
    case (2 S1 r1)
    note k = set_or_validate_priority_keeps [OF 2(1) assms(2)]
    have rid: "rq_rid r1 = rq_rid r" using k 2(2) by auto
    show ?case
    proof (rule abort_on_queued_limit_cases [OF 2(3)])
      assume "S' = send_abort (rq_rid r1) Queue_full S1"
      then show ?thesis using k rid accounted_refused [OF assms(2), of S' Queue_full] by auto
    next
      fix idx c
      assume c: "idx < length (sd_waiting_queue S1)" "od_get (sd_reqs S1) (sd_waiting_queue S1 ! idx) = Some c"
        "True = (rq_rid c = rq_rid r1)"
      have j: "sd_waiting_queue S ! idx \<in> set (sd_waiting_queue S)" using c(1) k by simp
      then have "sd_waiting_queue S ! idx \<noteq> i" using ni by blast
      then show ?thesis using assms(3) [OF j] c(2,3) k rid by simp
    qed simp
  next
    case (3 S1 r1 S2)
    note k = set_or_validate_priority_keeps [OF 3(1) assms(2)]
    show ?case
    proof (rule abort_on_queued_limit_cases [OF 3(3)])
      assume "S2 = S1" "has_room S1"
      then show ?thesis using k 3(4) by (intro exI [of _ "[]"]) (auto simp: has_room_def accounted_def)
    next
      fix idx c
      assume c: "idx < length (sd_waiting_queue S1)" "od_get (sd_reqs S1) (sd_waiting_queue S1 ! idx) = Some c"
        "preempts (pref_direction S1) r1 c = Inr True"
        "S2 = send_abort (rq_rid c) Preempted (S1\<lparr>sd_waiting_queue := drop_at idx (sd_waiting_queue S1)\<rparr>)"
      have l: "idx < length (sd_waiting_queue S)" using c(1) k by simp
      have "sd_waiting_queue S ! idx \<noteq> i" using ni nth_mem [OF l] by auto
      then show ?thesis using accounted_preempted [OF l, of c S' i "r1\<lparr>rq_wait_queue_entry_time := now\<rparr>"] c 3(4) k
        by (auto simp: pref_direction_def)
    qed simp
  qed
  then show ?thesis unfolding accounted_def .
qed

theorem queue_accounts_for_requests_witness:
  "\<exists>S'. add_request_to_queue 5 1 sample_scheduler = (Inr (), S') \<and> int (length (sd_waiting_queue S')) \<le> 1"
proof -
  let ?S = sample_scheduler
  obtain x S' where a: "add_request_to_queue 5 1 ?S = (x, S')" by fastforce
  have "fst (add_request_to_queue 5 1 ?S) = Inr ()" by code_simp
  then have i: "add_request_to_queue 5 1 ?S = (Inr (), S')" using a by simp
  have r: "od_get (sd_reqs ?S) 1 = Some ((sample_req ''r2'')\<lparr>rq_conversation_id := Some ''c1''\<rparr>)"
    by (simp add: sample_scheduler_def)
  have q: "sd_waiting_queue ?S = []" and m: "sa_max_queued_requests (sd_args ?S) = Some 1"
    by (simp_all add: sample_scheduler_def sample_args_def)
  from queue_accounts_for_requests [OF i r] q m i show ?thesis by auto
qed

subsection \<open>The tokens of a request\<close>

text \<open>The least multiple of the page size that holds the input.\<close>

definition ceil_page :: "int \<Rightarrow> int \<Rightarrow> int" where
  "ceil_page p n = (if n mod p = 0 then n else n - n mod p + p)"

lemma ceil_page_eq:
  assumes "0 < p"
  shows "- ((- n) div p) * p = ceil_page p n"
proof (cases "n mod p = 0")
  case True
  then show ?thesis using zmod_zminus1_eq_if [of n p] minus_div_mult_eq_mod [of "- n" p] by (simp add: ceil_page_def)
next
  case False
  then have "(- n) mod p = p - n mod p" by (simp add: zmod_zminus1_eq_if)
  then show ?thesis using False minus_div_mult_eq_mod [of "- n" p] by (simp add: ceil_page_def)
qed



end
