(* ===== verification/Restore_Slots.thy ===== *)
theory Restore_Slots
  imports Snapshot_Handlers Scheduler_Queue
begin

section \<open>What the handlers do to slots, requests and staged states\<close>

text \<open>
  Laws of the handlers: which parts of the scheduler each step leaves alone, then the slots of
  the Mamba pool across a restore, hydration, and the way of a state from a live request to
  disk, to the registry and into the slot of a later request.
\<close>

named_theorems sched_simps \<open>the parts of the scheduler after a step\<close>

lemma set_manager_simps [sched_simps, simp]:
  "sd_mamba_pool (set_manager M S) = sd_mamba_pool S"
  "sd_reqs (set_manager M S) = sd_reqs S"
  "sd_next_req (set_manager M S) = sd_next_req S"
  "sd_args (set_manager M S) = sd_args S"
  "sd_pending (set_manager M S) = sd_pending S"
  "sd_waiting_queue (set_manager M S) = sd_waiting_queue S"
  "sd_running_batch (set_manager M S) = sd_running_batch S"
  "sd_cur_batch (set_manager M S) = sd_cur_batch S"
  "sd_last_batch (set_manager M S) = sd_last_batch S"
  "sd_sent (set_manager M S) = sd_sent S"
  "sd_snapshot_manager (set_manager M S) = sd_snapshot_manager S"
  "sd_manager (set_manager M S) = M"
  by (simp_all add: set_manager_def)

lemma set_pool_simps [sched_simps, simp]:
  "sd_mamba_pool (set_pool P S) = Some P"
  "sd_reqs (set_pool P S) = sd_reqs S"
  "sd_next_req (set_pool P S) = sd_next_req S"
  "sd_args (set_pool P S) = sd_args S"
  "sd_pending (set_pool P S) = sd_pending S"
  "sd_waiting_queue (set_pool P S) = sd_waiting_queue S"
  "sd_running_batch (set_pool P S) = sd_running_batch S"
  "sd_cur_batch (set_pool P S) = sd_cur_batch S"
  "sd_last_batch (set_pool P S) = sd_last_batch S"
  "sd_sent (set_pool P S) = sd_sent S"
  by (simp_all add: set_pool_def)

lemma reset_health_simps [sched_simps, simp]:
  "sd_mamba_pool (reset_health c S) = sd_mamba_pool S"
  "sd_reqs (reset_health c S) = sd_reqs S"
  "sd_args (reset_health c S) = sd_args S"
  "sd_pending (reset_health c S) = sd_pending S"
  "sd_waiting_queue (reset_health c S) = sd_waiting_queue S"
  "sd_running_batch (reset_health c S) = sd_running_batch S"
  "sd_cur_batch (reset_health c S) = sd_cur_batch S"
  "sd_last_batch (reset_health c S) = sd_last_batch S"
  "sd_sent (reset_health c S) = sd_sent S"
  by (simp_all add: reset_health_def split: option.split)

lemma set_req_frame [sched_simps, simp]:
  "sd_mamba_pool (set_req i r S) = sd_mamba_pool S"
  "sd_pending (set_req i r S) = sd_pending S"
  "sd_running_batch (set_req i r S) = sd_running_batch S"
  "sd_cur_batch (set_req i r S) = sd_cur_batch S"
  "sd_last_batch (set_req i r S) = sd_last_batch S"
  by (simp_all add: set_req_def)

lemma send_abort_frame [sched_simps, simp]:
  "sd_mamba_pool (send_abort rid why S) = sd_mamba_pool S"
  "sd_running_batch (send_abort rid why S) = sd_running_batch S"
  "sd_cur_batch (send_abort rid why S) = sd_cur_batch S"
  "sd_last_batch (send_abort rid why S) = sd_last_batch S"
  by (simp_all add: send_abort_def)

subsection \<open>The queue and the pool\<close>

text \<open>Queueing a request touches neither the pool nor the slot of any request.\<close>

definition pool_idx_at :: "'t scheduler \<Rightarrow> nat \<Rightarrow> int option" where
  "pool_idx_at S i = Option.bind (od_get (sd_reqs S) i) rq_mamba_pool_idx"

lemma pool_idx_at_simps [simp]:
  "pool_idx_at (set_req i r S) j = (if j = i then rq_mamba_pool_idx r else pool_idx_at S j)"
  "pool_idx_at (send_abort rid why S) j = pool_idx_at S j"
  "pool_idx_at (S\<lparr>sd_waiting_queue := q\<rparr>) j = pool_idx_at S j"
  by (simp_all add: pool_idx_at_def)

definition queue_frame :: "'t scheduler \<Rightarrow> 't scheduler \<Rightarrow> bool" where
  "queue_frame S S' =
     (sd_mamba_pool S' = sd_mamba_pool S \<and> sd_running_batch S' = sd_running_batch S \<and>
      sd_cur_batch S' = sd_cur_batch S \<and> sd_last_batch S' = sd_last_batch S \<and>
      (\<forall>j. pool_idx_at S' j = pool_idx_at S j))"

lemma queue_frame_refl: "queue_frame S S"
  by (simp add: queue_frame_def)

lemma queue_frame_trans: "queue_frame S S1 \<Longrightarrow> queue_frame S1 S2 \<Longrightarrow> queue_frame S S2"
  by (simp add: queue_frame_def)

lemma priority_frame:
  "od_get (sd_reqs S) i = Some r \<Longrightarrow> queue_frame S (snd (set_or_validate_priority i r S))"
  by (simp add: set_or_validate_priority_def queue_frame_def pool_idx_at_def)

lemma limit_frame: "queue_frame S (snd (abort_on_queued_limit r S))"
  by (simp add: abort_on_queued_limit_def queue_frame_def Let_def split: sum.split option.split bool.split)

lemma add_request_frame: "queue_frame S (snd (add_request_to_queue now i S))"
proof (cases "od_get (sd_reqs S) i")
  case None
  then show ?thesis by (simp add: add_request_to_queue_def queue_frame_refl)
next
  case (Some r)
  obtain ok S1 where s: "set_or_validate_priority i r S = (ok, S1)" by fastforce
  have f1: "queue_frame S S1" using priority_frame [OF Some] s by (metis snd_conv)
  show ?thesis
  proof (cases "ok \<and> od_get (sd_reqs S1) i \<noteq> None")
    case False
    then show ?thesis using Some s f1 by (auto simp: add_request_to_queue_def split: bool.split)
  next
    case True
    then obtain r1 where r1: "od_get (sd_reqs S1) i = Some r1" by blast
    obtain b S2 where a: "abort_on_queued_limit r1 S1 = (b, S2)" by fastforce
    have f2: "queue_frame S S2" using queue_frame_trans [OF f1] limit_frame [of S1 r1] a by (metis snd_conv)
    have "rq_mamba_pool_idx r1 = pool_idx_at S i"
      using f1 r1 by (metis pool_idx_at_def queue_frame_def bind.bind_lunit)
    then show ?thesis using Some s r1 a True f2
      by (auto simp: add_request_to_queue_def queue_frame_def split: sum.split bool.split)
  qed
qed

subsection \<open>Slots across a restore\<close>

lemma inject_free [simp]: "mp_free_slots (snd (inject_state_to_pool T cs t idx P)) = mp_free_slots P"
  by (auto simp: inject_state_to_pool_def split_beta split: sum.split option.split)

lemma inject_free_eq: "inject_state_to_pool T cs t idx P = (x, P') \<Longrightarrow> mp_free_slots P' = mp_free_slots P"
  using inject_free [of T cs t idx P] by simp

lemma alloc_one:
  assumes "mamba_alloc 1 P = (Some slots, P1)"
  obtains f fs where "mp_free_slots P = f # fs" "slots = [f]" "P1 = P\<lparr>mp_free_slots := fs\<rparr>"
  using assms by (cases "mp_free_slots P") (auto simp: mamba_alloc_def split: if_splits)

lemma mamba_free_one [simp]: "mp_free_slots (mamba_free [f] P) = mp_free_slots P @ [f]"
  by (simp add: mamba_free_def)

text \<open>
  What a step of creating a request has done to the pool: nothing to the set of free slots,
  if the reply is an error; else it took one slot for the new request.
\<close>

definition slot_outcome :: "'t mamba_pool \<Rightarrow> 't scheduler \<Rightarrow> restore_output option \<Rightarrow> 't scheduler \<Rightarrow> bool" where
  "slot_outcome P S out S' =
     (\<exists>P'. sd_mamba_pool S' = Some P' \<and>
        (if out \<noteq> None \<and> \<not> ro_success (the out) then mset (mp_free_slots P') = mset (mp_free_slots P)
         else \<exists>idx. mset (mp_free_slots P) = {#idx#} + mset (mp_free_slots P') \<and>
                pool_idx_at S' (sd_next_req S) = Some idx))"

lemma restore_fail_simps [simp]: "\<not> ro_success (restore_fail msg)" "ro_message (restore_fail msg) = msg"
  by (simp_all add: restore_fail_def)

lemma register_restored_slots:
  assumes "mp_free_slots P = f # fs" and "mp_free_slots P2 = fs"
    and "register_restored now uid q md ids f P2 S = (out, S')"
  shows "slot_outcome P S out S'"
proof -
  define r where "r = init_req_max_new_tokens (sd_args S)
    (restored_req (''restored-'' @ uid) (effective_conv_id q) f ids (ri_max_new_tokens q) (ri_continuation_ids q \<noteq> None))"
  define S1 where "S1 = snd (new_req_object r (set_pool P2 S))"
  obtain x S2 where a: "add_request_to_queue now (sd_next_req S) S1 = (x, S2)" by fastforce
  have fr: "queue_frame S1 S2" using add_request_frame [of S1 now "sd_next_req S"] a by simp
  have "pool_idx_at S1 (sd_next_req S) = Some f" "sd_mamba_pool S1 = Some P2"
    by (simp_all add: S1_def new_req_object_def r_def init_req_max_new_tokens_def Let_def restored_req_def)
  then have S2: "pool_idx_at S2 (sd_next_req S) = Some f" "sd_mamba_pool S2 = Some P2"
    using fr by (simp_all add: queue_frame_def)
  have "register_restored now uid q md ids f P2 S =
    (case x of Inl e \<Rightarrow> (Some (restore_fail (Create_error e)),
        set_pool (mamba_free [f] P2) (S2\<lparr>sd_reqs := od_del (sd_next_req S) (sd_reqs S2)\<rparr>))
     | Inr _ \<Rightarrow> let S3 = reset_health (effective_conv_id q) S2 in
        if ri_continuation_ids q \<noteq> None then (None, S3)
        else (Some \<lparr>ro_success = True, ro_message = Created_new_request (''restored-'' @ uid) f,
                    ro_token_count = JInt (md_token_count md), ro_rid = Some (''restored-'' @ uid),
                    ro_mamba_pool_idx = Some f\<rparr>, S3))"
    using a unfolding register_restored_def Let_def r_def [symmetric] S1_def
    by (simp add: new_req_object_def split: sum.split)
  then show ?thesis using assms S2
    by (cases x) (auto simp: slot_outcome_def pool_idx_at_def Let_def split: if_splits)
qed

lemma create_from_snapshot_slots:
  assumes "sd_mamba_pool S = Some P" and "create_from_snapshot T now uid q snap P S = (out, S')"
  shows "slot_outcome P S out S'"
proof -
  obtain cs t md where snap: "snap = (cs, t, md)" by (cases snap) auto
  show ?thesis
  proof (cases "wrong_model S (JStr (md_model_name md)) \<or> fst (mamba_alloc 1 P) = None")
    case True
    then have "\<exists>msg. (out, S') = (Some (restore_fail msg), S)"
      using assms(2) by (cases "mamba_alloc 1 P") (auto simp: create_from_snapshot_def snap simp del: One_nat_def split: if_splits)
    then show ?thesis using assms(1) by (auto simp: slot_outcome_def)
  next
    case False
    then obtain sl P1 where al: "mamba_alloc 1 P = (Some sl, P1)" by (cases "mamba_alloc 1 P") auto
    obtain f fs where f: "mp_free_slots P = f # fs" "sl = [f]" "P1 = P\<lparr>mp_free_slots := fs\<rparr>" by (rule alloc_one [OF al])
    obtain x P2 where i: "inject_state_to_pool T cs t f P1 = (x, P2)" by fastforce
    have P2: "mp_free_slots P2 = fs" using inject_free_eq [OF i] f(3) by simp
    let ?reg = "\<lambda>ids. register_restored now uid q md ids f P2 S"
    have "(\<exists>msg. (out, S') = (Some (restore_fail msg), set_pool (mamba_free [f] P2) S)) \<or> (\<exists>ids. ?reg ids = (out, S'))"
      using assms(2) False al f(2) i
      by (auto simp: create_from_snapshot_def snap Let_def simp del: One_nat_def split: sum.splits option.splits if_splits)
    then show ?thesis
    proof (elim disjE exE)
      fix ids
      assume "?reg ids = (out, S')"
      then show ?thesis by (rule register_restored_slots [OF f(1) P2])
    qed (use f(1) P2 in \<open>simp add: slot_outcome_def\<close>)
  qed
qed

text \<open>Loading changes neither the pool nor the heap.\<close>

lemma slot_outcome_cong:
  "sd_next_req S1 = sd_next_req S \<Longrightarrow> slot_outcome P S1 out S' = slot_outcome P S out S'"
  by (simp add: slot_outcome_def)

lemma slot_outcome_fail:
  "sd_mamba_pool S' = Some P \<Longrightarrow> slot_outcome P S (Some (restore_fail msg)) S'"
  by (simp add: slot_outcome_def)

lemma load_and_create_slots:
  assumes "sd_mamba_pool S = Some P" and "load_and_create T now uid q turn P S = (out, S')"
  shows "slot_outcome P S out S'"
proof -
  obtain x M where l: "load_snapshot T (effective_conv_id q) turn (ri_branch_name q) (sd_manager S) = (x, M)" by fastforce
  show ?thesis
  proof (cases x)
    case (Inl e)
    then show ?thesis using assms l by (auto simp: load_and_create_def slot_outcome_def)
  next
    case (Inr snap)
    then have "create_from_snapshot T now uid q snap P (set_manager M S) = (out, S')"
      using assms(2) l by (simp add: load_and_create_def)
    from create_from_snapshot_slots [OF _ this] show ?thesis using assms(1) slot_outcome_cong [of "set_manager M S" S] by simp
  qed
qed

lemma restore_as_new_request_slots:
  assumes "sd_mamba_pool S = Some P" and "restore_as_new_request T now uid q S = (out, S')"
  shows "slot_outcome P S out S'"
proof (cases "ri_turn_number q = None \<and> ri_branch_name q = None")
  case False
  then show ?thesis using assms load_and_create_slots [OF assms(1)] by (auto simp: restore_as_new_request_def)
next
  case True
  obtain x M where l: "get_latest_snapshot (effective_conv_id q) (sd_manager S) = (x, M)" by fastforce
  show ?thesis
  proof (cases "\<exists>n md. x = Inr (Some (n, md))")
    case False
    then have "\<exists>msg. (out, S') = (Some (restore_fail msg), set_manager M S)"
      using assms True l by (auto simp: restore_as_new_request_def split: sum.splits option.splits)
    then show ?thesis using assms(1) by (auto simp: slot_outcome_def)
  next
    case True
    then obtain n md where "x = Inr (Some (n, md))" by blast
    then have "load_and_create T now uid q (Some n) P (set_manager M S) = (out, S')"
      using assms l \<open>ri_turn_number q = None \<and> ri_branch_name q = None\<close> by (simp add: restore_as_new_request_def)
    from load_and_create_slots [OF _ this] show ?thesis using assms(1) slot_outcome_cong [of "set_manager M S" S] by simp
  qed
qed

lemma inject_into_live_pool:
  assumes "sd_mamba_pool S = Some P"
  shows "\<exists>P'. sd_mamba_pool (snd (inject_into_live T q i r idx snap S)) = Some P' \<and> mp_free_slots P' = mp_free_slots P"
proof -
  obtain cs t md where snap: "snap = (cs, t, md)" by (cases snap) auto
  obtain x P1 where j: "inject_state_to_pool T cs t idx P = (x, P1)" by fastforce
  show ?thesis using assms j inject_free_eq [OF j]
    by (cases x) (auto simp: inject_into_live_def snap split: option.split)
qed

lemma restore_live_pool:
  assumes "sd_mamba_pool S = Some P"
  shows "\<exists>P'. sd_mamba_pool (snd (restore_live T q i r S)) = Some P' \<and> mp_free_slots P' = mp_free_slots P"
  using assms inject_into_live_pool [of "set_manager _ S" P T q i r]
  by (auto simp: restore_live_def split: option.split prod.split sum.split)

lemma load_pending_frame:
  assumes "load_snapshot_for_pending_restore T now cid turn br S = (x, S1)"
  shows "sd_mamba_pool S1 = sd_mamba_pool S \<and> sd_reqs S1 = sd_reqs S \<and> sd_pending S1 = sd_pending S \<and>
    sd_args S1 = sd_args S"
  using assms by (auto simp: load_snapshot_for_pending_restore_def Let_def split_beta split: sum.splits option.splits prod.splits if_splits)

lemma restore_pending_pool: "sd_mamba_pool (snd (restore_pending T now q S)) = sd_mamba_pool S"
proof -
  obtain x S1 where l: "load_snapshot_for_pending_restore T now (effective_conv_id q) (ri_turn_number q) (ri_branch_name q) S = (x, S1)"
    by fastforce
  then show ?thesis using load_pending_frame [OF l]
    by (auto simp: restore_pending_def split: sum.split option.split)
qed

text \<open>
  C14: restoring neither loses nor duplicates a slot of the Mamba pool. Whatever the request
  and whatever fails, a reply that reports an error leaves the same slots free as before. A
  restore into a new request that succeeds, or whose reply is still to come, has taken exactly one
  slot, and the new request holds it; the other restores take none.
\<close>

theorem restore_conserves_slots:
  assumes "sd_mamba_pool S = Some P" and "handle_restore_snapshot T now uid q S = (out, S')"
  shows "\<exists>P'. sd_mamba_pool S' = Some P' \<and>
    (if ri_create_new_request q \<and> sd_snapshot_manager S \<and> (out = None \<or> ro_success (the out))
     then \<exists>idx. mset (mp_free_slots P) = {#idx#} + mset (mp_free_slots P') \<and>
            pool_idx_at S' (sd_next_req S) = Some idx
     else mset (mp_free_slots P') = mset (mp_free_slots P))"
proof (cases "sd_snapshot_manager S")
  case True
  note e = this
  show ?thesis
  proof (cases "ri_create_new_request q")
    case True
    then have "restore_as_new_request T now uid q S = (out, S')" using assms(2) e by (simp add: handle_restore_snapshot_def)
    from restore_as_new_request_slots [OF assms(1) this] True e show ?thesis
      by (auto simp: slot_outcome_def split: if_splits)
  next
    case False
    have "\<exists>P'. sd_mamba_pool S' = Some P' \<and> mp_free_slots P' = mp_free_slots P"
      using assms False e restore_pending_pool [of T now q S] restore_live_pool [OF assms(1), of T q]
      by (auto simp: handle_restore_snapshot_def split: option.splits prod.splits) (metis snd_conv)+
    then show ?thesis using False by auto
  qed
qed (use assms in \<open>auto simp: handle_restore_snapshot_def\<close>)

lemma set_manager_twice [simp]: "set_manager M (set_manager M' S) = set_manager M S"
  by (simp add: set_manager_def)

text \<open>A reply that is still to come: the new request has been handed to the queue.\<close>

lemma create_no_reply:
  assumes "create_from_snapshot T now uid q snap P S = (None, S')"
  shows "\<exists>md ids f P2. register_restored now uid q md ids f P2 S = (None, S')"
  using assms
  by (auto simp: create_from_snapshot_def Let_def simp del: One_nat_def split: prod.splits option.splits sum.splits if_splits)

lemma load_no_reply:
  assumes "load_and_create T now uid q turn P S = (None, S')"
  shows "\<exists>M md ids f P2. register_restored now uid q md ids f P2 (set_manager M S) = (None, S')"
  using assms create_no_reply [of T now uid q _ P "set_manager _ S" S']
  by (auto simp: load_and_create_def split: prod.splits sum.splits) blast

lemma restore_no_reply:
  assumes "handle_restore_snapshot T now uid q S = (None, S')"
  shows "\<exists>M md ids f P2. register_restored now uid q md ids f P2 (set_manager M S) = (None, S')"
proof -
  have "restore_as_new_request T now uid q S = (None, S')"
    using assms by (auto simp: handle_restore_snapshot_def split: if_splits option.splits prod.splits)
  then have "\<exists>M turn P. load_and_create T now uid q turn P (set_manager M S) = (None, S') \<or>
      load_and_create T now uid q turn P S = (None, S')"
    by (auto simp: restore_as_new_request_def split: option.splits if_splits prod.splits sum.splits)
  then show ?thesis using load_no_reply [of T now uid q _ _ _ S'] by fastforce
qed

lemma full_queue_refuses:
  assumes "\<not> has_room S" "\<not> sa_enable_priority_scheduling (sd_args S)"
    and "od_get (sd_reqs S) i = Some r" "rq_priority r = None"
  shows "add_request_to_queue now i S = (Inr (), send_abort (rq_rid r) Queue_full S)"
  using assms by (simp add: add_request_to_queue_def set_or_validate_priority_def abort_on_queued_limit_def
      has_room_def Let_def split: option.split)

text \<open>
  C34: a restore into a new request on a full queue is never answered and its slot is lost.
  The queue turns the new request away without raising, so the handler goes on as if it were
  queued: it returns no reply, since the reply is to come with the result of the generation, and the slot
  stays allocated to a request that is in no batch and no queue. The only message sent is an
  abort for the request id the handler made up, which no client knows.
\<close>

theorem full_queue_leaks_slot:
  assumes "sd_mamba_pool S = Some P" and "handle_restore_snapshot T now uid q S = (None, S')"
    and "\<not> has_room S" and "\<not> sa_enable_priority_scheduling (sd_args S)"
  shows "\<exists>P' idx. sd_mamba_pool S' = Some P' \<and> mset (mp_free_slots P) = {#idx#} + mset (mp_free_slots P') \<and>
    sd_waiting_queue S' = sd_waiting_queue S \<and> sd_running_batch S' = sd_running_batch S \<and>
    sd_cur_batch S' = sd_cur_batch S \<and> sd_last_batch S' = sd_last_batch S \<and>
    sd_sent S' = sd_sent S @ [\<lparr>ab_rid = ''restored-'' @ uid, ab_reason = Queue_full\<rparr>]"
proof -
  obtain M md ids f P2 where r: "register_restored now uid q md ids f P2 (set_manager M S) = (None, S')"
    using restore_no_reply [OF assms(2)] by blast
  define S0 where "S0 = set_manager M S"
  define r0 where "r0 = init_req_max_new_tokens (sd_args S0)
    (restored_req (''restored-'' @ uid) (effective_conv_id q) f ids (ri_max_new_tokens q) (ri_continuation_ids q \<noteq> None))"
  define S1 where "S1 = set_req (sd_next_req S0) r0 ((set_pool P2 S0)\<lparr>sd_next_req := Suc (sd_next_req S0)\<rparr>)"
  have r0: "rq_priority r0 = None" "rq_rid r0 = ''restored-'' @ uid"
    by (simp_all add: r0_def init_req_max_new_tokens_def Let_def restored_req_def)
  have e: "sd_args S1 = sd_args S" "sd_waiting_queue S1 = sd_waiting_queue S" by (simp_all add: S1_def S0_def)
  have S1: "\<not> has_room S1" "\<not> sa_enable_priority_scheduling (sd_args S1)"
    "od_get (sd_reqs S1) (sd_next_req S0) = Some r0"
    using assms(3,4) unfolding has_room_def e by simp_all (simp add: S1_def)
  note a = full_queue_refuses [OF S1 r0(1), of now]
  have "S' = reset_health (effective_conv_id q) (send_abort (''restored-'' @ uid) Queue_full S1)"
    using r unfolding S0_def [symmetric] register_restored_def Let_def r0_def [symmetric] new_req_object_def
    by (simp add: S1_def [symmetric] a r0(2) split: if_splits)
  then have q: "sd_waiting_queue S' = sd_waiting_queue S" "sd_running_batch S' = sd_running_batch S"
    "sd_cur_batch S' = sd_cur_batch S" "sd_last_batch S' = sd_last_batch S"
    "sd_sent S' = sd_sent S @ [\<lparr>ab_rid = ''restored-'' @ uid, ab_reason = Queue_full\<rparr>]"
    by (simp_all add: S1_def S0_def)
  have "restore_as_new_request T now uid q S = (None, S')"
    using assms(2) by (auto simp: handle_restore_snapshot_def split: if_splits option.splits prod.splits)
  from restore_as_new_request_slots [OF assms(1) this] show ?thesis using q by (auto simp: slot_outcome_def)
qed

definition sample_saved :: "mat scheduler" where
  "sample_saved =
     set_manager (snd (save_snapshot mat_torch None [[[7]]] [[9]]
       ((sample_md ''c1'' (Some 3) None)\<lparr>md_model_name := ''m'', md_fill_ids := Some [5, 6]\<rparr>) sample_manager)) sample_scheduler"

definition sample_create :: restore_input where
  "sample_create =
     \<lparr>ri_rid = None, ri_conversation_id = Some ''c1'', ri_turn_number = Some 3, ri_branch_name = None,
      ri_create_new_request = True, ri_continuation_ids = Some [8], ri_max_new_tokens = Some 4\<rparr>"

lemma sample_create_none: "fst (handle_restore_snapshot mat_torch 5 ''ab'' sample_create sample_saved) = None"
  by code_simp

lemma sample_create_full:
  "fst (handle_restore_snapshot mat_torch 5 ''ab'' sample_create (sample_saved\<lparr>sd_waiting_queue := [1]\<rparr>)) = None"
  by code_simp


theorem restore_conserves_slots_witness:
  "\<exists>S' P' idx. handle_restore_snapshot mat_torch 5 ''ab'' sample_create sample_saved = (None, S') \<and>
     sd_mamba_pool S' = Some P' \<and> mset [2] = {#idx#} + mset (mp_free_slots P') \<and> pool_idx_at S' 2 = Some idx"
proof -
  obtain S' where h: "handle_restore_snapshot mat_torch 5 ''ab'' sample_create sample_saved = (None, S')"
    using sample_create_none by (metis prod.collapse)
  have p: "sd_mamba_pool sample_saved = Some sample_pool" "ri_create_new_request sample_create"
    "sd_snapshot_manager sample_saved" "sd_next_req sample_saved = 2" "mp_free_slots sample_pool = [2]"
    by (simp_all add: sample_saved_def sample_scheduler_def sample_create_def sample_pool_def)
  from restore_conserves_slots [OF p(1) h] show ?thesis using h p by auto
qed

theorem full_queue_leaks_slot_witness:
  "\<exists>S' P' idx. handle_restore_snapshot mat_torch 5 ''ab'' sample_create (sample_saved\<lparr>sd_waiting_queue := [1]\<rparr>) = (None, S') \<and>
     sd_mamba_pool S' = Some P' \<and> mset [2] = {#idx#} + mset (mp_free_slots P') \<and> sd_waiting_queue S' = [1]"
proof -
  let ?S = "sample_saved\<lparr>sd_waiting_queue := [1]\<rparr>"
  obtain S' where h: "handle_restore_snapshot mat_torch 5 ''ab'' sample_create ?S = (None, S')"
    using sample_create_full by (metis prod.collapse)
  have p: "sd_mamba_pool ?S = Some sample_pool" "mp_free_slots sample_pool = [2]" "\<not> has_room ?S"
    "\<not> sa_enable_priority_scheduling (sd_args ?S)"
    by (simp_all add: sample_saved_def sample_scheduler_def sample_pool_def sample_args_def has_room_def)
  from full_queue_leaks_slot [OF p(1) h p(3,4)] show ?thesis using h p(2) by auto
qed

end
