(* ===== verification/Restore_Round_Trip.thy ===== *)
theory Restore_Round_Trip
  imports Restore_Slots
begin

section \<open>From a live request to disk, to the registry, to another request\<close>

text \<open>
  The way of a state through the handlers: \<open>handle_save_snapshot\<close> writes it to disk,
  \<open>handle_restore_snapshot\<close> stages it, \<open>_maybe_hydrate_from_pending_restore\<close> puts it into the slot of the
  next request.
\<close>

subsection \<open>Slots of the same shape\<close>

text \<open>Every tensor of the pool has both columns, with one shape and dtype, as all columns of a tensor have.\<close>

definition alike :: "'t torch \<Rightarrow> int \<Rightarrow> int \<Rightarrow> 't \<Rightarrow> bool" where
  "alike T i j p =
     (case (th_col T p i, th_col T p j) of
        (Some a, Some b) \<Rightarrow> th_shape T a = th_shape T b \<and> th_dtype T a = th_dtype T b
      | _ \<Rightarrow> False)"

definition slots_alike :: "'t torch \<Rightarrow> 't mamba_pool \<Rightarrow> int \<Rightarrow> int \<Rightarrow> bool" where
  "slots_alike T P i j = list_all (alike T i j) (mp_conv P @ [mp_temporal P])"

lemma inject_convs_alike:
  "extract_cols T i ps = Inr cs \<Longrightarrow> list_all (alike T i j) ps \<Longrightarrow>
     (\<exists>ps'. inject_convs T j cs ps = (Inr (), ps')) \<and> same_dtypes T j cs ps"
proof (induction ps arbitrary: cs)
  case (Cons p ps)
  obtain a b where ab: "th_col T p i = Some a" "th_col T p j = Some b" "th_shape T a = th_shape T b" "th_dtype T a = th_dtype T b"
    using Cons.prems(2) by (auto simp: alike_def split: option.splits)
  then obtain cs' where cs: "cs = a # cs'" "extract_cols T i ps = Inr cs'"
    using Cons.prems(1) by (auto split: sum.splits)
  obtain ps' where "inject_convs T j cs' ps = (Inr (), ps')" "same_dtypes T j cs' ps"
    using Cons.IH [OF cs(2)] Cons.prems(2) by auto
  then show ?case using ab cs(1) by (simp add: same_dtypes_def)
qed (simp add: same_dtypes_def)

lemma inject_alike:
  assumes e: "extract_state_from_pool T P i = Inr (cs, t)" and a: "slots_alike T P i j" and j: "1 \<le> j" "j \<le> int (mp_size P)"
  shows "\<exists>P'. inject_state_to_pool T cs t j P = (Inr (), P')"
    and "same_dtypes T j (cs @ [t]) (mp_conv P @ [mp_temporal P])"
proof -
  have x: "extract_cols T i (mp_conv P) = Inr cs" "th_col T (mp_temporal P) i = Some t" "state_ok T False cs t"
    using e by (auto simp: extract_state_from_pool_def is_valid_iff split: sum.splits option.splits if_splits)
  have l: "list_all (alike T i j) (mp_conv P)" and t: "alike T i j (mp_temporal P)" using a by (simp_all add: slots_alike_def)
  obtain b where b: "th_col T (mp_temporal P) j = Some b" "th_shape T t = th_shape T b" "th_dtype T t = th_dtype T b"
    using t x(2) by (auto simp: alike_def split: option.splits)
  obtain ps' where c: "inject_convs T j cs (mp_conv P) = (Inr (), ps')" "same_dtypes T j cs (mp_conv P)"
    using inject_convs_alike [OF x(1) l] by blast
  have "length cs = length (mp_conv P)" using c(2) by (simp add: same_dtypes_def list_all2_lengthD)
  then show "\<exists>P'. inject_state_to_pool T cs t j P = (Inr (), P')"
    using j x(3) b c(1) by (simp add: inject_state_to_pool_def is_valid_iff)
  show "same_dtypes T j (cs @ [t]) (mp_conv P @ [mp_temporal P])"
    using c(2) b by (auto simp: same_dtypes_def intro: list_all2_appendI)
qed

lemma extract_free_irrelevant [simp]:
  "extract_state_from_pool T (P\<lparr>mp_free_slots := fs\<rparr>) i = extract_state_from_pool T P i"
  "slots_alike T (P\<lparr>mp_free_slots := fs\<rparr>) i j = slots_alike T P i j"
  by (simp_all add: extract_state_from_pool_def slots_alike_def split: sum.split option.split)

subsection \<open>Hydration\<close>

lemma reconcile_simps [simp]:
  "rq_conversation_id (reconcile_conversation c r) = Some c"
  "rq_mamba_pool_idx (reconcile_conversation c r) = rq_mamba_pool_idx r"
  "rq_mamba_has_restored_state (reconcile_conversation c r) = rq_mamba_has_restored_state r"
  "rq_rid (reconcile_conversation c r) = rq_rid r"
  "rq_origin_input_ids (reconcile_conversation c r) = rq_origin_input_ids r"
  "rq_fill_ids (reconcile_conversation c r) = rq_fill_ids r"
  by (simp_all add: reconcile_conversation_def)

lemma find_pending_entry:
  "find_pending rid c P = Some (k, b) \<Longrightarrow> \<exists>e. od_get (pr_registry P) (Some k) = Some e"
  by (auto simp: find_pending_def od_mem_iff split: if_splits option.splits)

lemma hydrate_from_cases:
  assumes "torch_slicing T" and "hydrate_from T i r k b e P S = (res, S')" and "sd_mamba_pool S = Some P"
  obtains (failed) P' where "res = Some False" "S' = set_pool P' S" "mset (mp_free_slots P') = mset (mp_free_slots P)"
  | (hydrated) f fs P' r' where "res = Some True" "mp_free_slots P = f # fs"
      "inject_state_to_pool T (pe_conv_states e) (pe_temporal_states e) f (P\<lparr>mp_free_slots := fs\<rparr>) = (Inr (), P')"
      "sd_mamba_pool S' = Some P'" "mp_free_slots P' = fs" "od_get (sd_reqs S') i = Some r'"
      "rq_mamba_pool_idx r' = Some f" "rq_mamba_has_restored_state r'" "rq_origin_input_ids r' = rq_origin_input_ids r"
      "b \<longrightarrow> rq_conversation_id r' = Some (pe_conversation_id e)"
      "\<forall>c. od_get (pr_registry (sd_pending S')) c = od_get (pr_registry (sd_pending S)) c"
proof (cases "mamba_alloc 1 P")
  case (Pair a P1)
  show thesis
  proof (cases a)
    case None
    then have "res = Some False" "S' = set_pool P S" using assms(2,3) Pair
      by (simp_all add: hydrate_from_def set_pool_def del: One_nat_def)
    then show thesis by (rule failed) simp
  next
    case (Some sl)
    obtain f fs where f: "mp_free_slots P = f # fs" "sl = [f]" "P1 = P\<lparr>mp_free_slots := fs\<rparr>"
      by (rule alloc_one [OF Pair [unfolded Some]])
    obtain x P2 where j: "inject_state_to_pool T (pe_conv_states e) (pe_temporal_states e) f P1 = (x, P2)" by fastforce
    have P2: "mp_free_slots P2 = fs" using inject_free_eq [OF j] f(3) by simp
    show thesis
    proof (cases x)
      case (Inl er)
      then have "res = Some False" "S' = set_pool (mamba_free [f] P2) S"
        using assms(2) Pair Some f(2) j by (simp_all add: hydrate_from_def Let_def del: One_nat_def)
      then show thesis by (rule failed) (simp add: f(1) P2)
    next
      case (Inr u)
      show thesis
        by (rule hydrated [of f fs P2 "the (od_get (sd_reqs S') i)"])
          (use assms(2) Pair Some f P2 j Inr in \<open>auto simp: hydrate_from_def Let_def touch_pending_def simp del: One_nat_def\<close>)
    qed
  qed
qed

text \<open>
  C21: the three outcomes of hydration. Without a staged state for the request nothing
  changes. If the state cannot be applied the request, the registry and the set of free slots
  are as before. If it is applied, the request owns the slot that was first in the free list, is marked
  as restored, keeps its own input, and the slot holds the staged state; the state stays
  staged for later requests.
\<close>

theorem hydration_outcomes:
  assumes "torch_slicing T" and "od_get (sd_reqs S) i = Some r" and "sd_mamba_pool S = Some P"
    and "maybe_hydrate_from_pending_restore T i S = (res, S')"
  shows "(res = None \<longrightarrow> S' = S) \<and>
    (res = Some False \<longrightarrow> (\<exists>P'. S' = set_pool P' S \<and> mset (mp_free_slots P') = mset (mp_free_slots P))) \<and>
    (res = Some True \<longrightarrow> (\<exists>k b e f fs P' r'. find_pending (rq_rid r) (rq_conversation_id r) (sd_pending S) = Some (k, b) \<and>
       od_get (pr_registry (sd_pending S)) (Some k) = Some e \<and> mp_free_slots P = f # fs \<and>
       sd_mamba_pool S' = Some P' \<and> mp_free_slots P' = fs \<and> od_get (sd_reqs S') i = Some r' \<and>
       rq_mamba_pool_idx r' = Some f \<and> rq_mamba_has_restored_state r' \<and>
       rq_origin_input_ids r' = rq_origin_input_ids r \<and>
       (same_dtypes T f (pe_conv_states e @ [pe_temporal_states e]) (mp_conv P @ [mp_temporal P]) \<longrightarrow>
          extract_state_from_pool T P' f = Inr (pe_conv_states e, pe_temporal_states e)) \<and>
       (\<forall>c. od_get (pr_registry (sd_pending S')) c = od_get (pr_registry (sd_pending S)) c)))"
proof (cases "rq_mamba_pool_idx r \<noteq> None \<or> find_pending (rq_rid r) (rq_conversation_id r) (sd_pending S) = None")
  case True
  then have "(res, S') = (None, S)"
    using assms(2,4) by (auto simp: maybe_hydrate_from_pending_restore_def split: if_splits)
  then show ?thesis by simp
next
  case False
  then obtain k b where k: "rq_mamba_pool_idx r = None" "find_pending (rq_rid r) (rq_conversation_id r) (sd_pending S) = Some (k, b)"
    by auto
  then obtain e where e: "od_get (pr_registry (sd_pending S)) (Some k) = Some e" using find_pending_entry by blast
  have h: "hydrate_from T i r k b e P S = (res, S')"
    using assms(2-4) k e by (simp add: maybe_hydrate_from_pending_restore_def)
  show ?thesis
  proof (rule hydrate_from_cases [OF assms(1) h assms(3)], goal_cases)
    case (1 P')
    then show ?case by auto
  next
    case (2 f fs P' r')
    have x: "same_dtypes T f (pe_conv_states e @ [pe_temporal_states e]) (mp_conv P @ [mp_temporal P]) \<longrightarrow>
      extract_state_from_pool T P' f = Inr (pe_conv_states e, pe_temporal_states e)"
      using inject_extract [OF assms(1) 2(3)] by simp
    then show ?case using 2 k(2) e by auto
  qed
qed

subsection \<open>Saving, staging, hydrating\<close>

lemma find_request_set_manager [simp]: "find_request_by_rid rid (set_manager M S) = find_request_by_rid rid S"
  by (simp add: find_request_by_rid_def has_rid_def [abs_def] split: option.split)

lemma save_snapshot_loads:
  assumes "manager_ok M" "save_snapshot T f cs t md M = (Inr p, M')"
  shows "fst (load_snapshot T (md_conversation_id md) (md_turn_number md) (md_branch_name md) M') = Inr (cs, t, md) \<and>
    manager_ok M' \<and> md_valid md"
proof -
  have "fst (save_snapshot T f cs t md M) = Inr p" "M' = snd (save_snapshot T f cs t md M)" using assms(2) by simp_all
  then show ?thesis
    using save_snapshot_result [OF manager_ok_parts(1) [OF assms(1)], of T f cs t md] saved_loads [OF assms(1)]
      save_snapshot_manager_ok [OF assms(1)] by (auto split: if_splits)
qed

text \<open>A save of a live request that reports success.\<close>

lemma save_live_stored:
  assumes "manager_ok (sd_manager S)" and "find_request_by_rid (si_rid q) S = Some i" "od_get (sd_reqs S) i = Some r"
    and "rq_mamba_pool_idx r = Some idx" "sd_mamba_pool S = Some P" "extract_state_from_pool T P idx = Inr (cs, t)"
    and "handle_save_snapshot T fault now q S = (out, S1)" "so_success out"
  obtains M md where "S1 = set_manager M S" "manager_ok M"
    "fst (load_snapshot T (str_or (si_conversation_id q) (rq_rid r)) (si_turn_number q) (si_branch_name q) M) = Inr (cs, t, md)"
    "md_model_name md = sa_model_path (sd_args S)" "md_fill_ids md = rq_fill_ids r"
    "si_turn_number q \<noteq> None \<or> si_branch_name q \<noteq> None"
proof -
  let ?cid = "str_or (si_conversation_id q) (rq_rid r)"
  have s: "save_live T fault now q ?cid r S = (out, S1)" using assms by (auto simp: handle_save_snapshot_def save_fail_def split: if_splits)
  obtain md where md: "live_metadata now (sa_model_path (sd_args S)) ?cid q r idx P = Some md"
    "save_and_reply T fault q Saved cs t md S = (out, S1)"
    using s assms(4-6,8) by (auto simp: save_live_def save_fail_def split: option.splits)
  obtain x M where sv: "save_snapshot T fault cs t md (sd_manager S) = (x, M)" by fastforce
  obtain p where x: "x = Inr p" using md(2) assms(8) sv by (cases x) (auto simp: save_and_reply_def save_fail_def)
  have f: "md_conversation_id md = ?cid" "md_turn_number md = si_turn_number q" "md_branch_name md = si_branch_name q"
    "md_model_name md = sa_model_path (sd_args S)" "md_fill_ids md = rq_fill_ids r"
    using md(1) by (auto simp: live_metadata_def split: option.splits)
  note l = save_snapshot_loads [OF assms(1) sv [unfolded x]]
  have "si_turn_number q \<noteq> None \<or> si_branch_name q \<noteq> None" using l f by (cases "si_turn_number q"; cases "si_branch_name q") auto
  moreover have "S1 = set_manager M S" using md(2) sv x by (simp add: save_and_reply_def)
  ultimately show thesis using that l f by metis
qed

lemma restore_stages:
  assumes "sd_snapshot_manager S" "\<not> ri_create_new_request q" "find_request_by_rid (ri_rid q) S = None"
    and "ri_turn_number q \<noteq> None \<or> ri_branch_name q \<noteq> None"
    and "fst (load_snapshot T (effective_conv_id q) (ri_turn_number q) (ri_branch_name q) (sd_manager S)) = Inr (cs, t, md)"
    and "md_model_name md = sa_model_path (sd_args S)"
  shows "\<exists>M. handle_restore_snapshot T now uid q S =
    (Some \<lparr>ro_success = True, ro_message = Staged, ro_token_count = JInt (md_token_count md), ro_rid = ri_rid q,
           ro_mamba_pool_idx = None\<rparr>,
     (set_manager M S)\<lparr>sd_pending :=
       stage_pending_restore now (ri_rid q) (effective_conv_id q) cs t (md_fill_ids md) (sd_pending S)\<rparr>)"
proof -
  obtain M where l: "load_snapshot T (effective_conv_id q) (ri_turn_number q) (ri_branch_name q) (sd_manager S) =
    (Inr (cs, t, md), M)" using assms(5) by (metis prod.collapse)
  have "load_snapshot_for_pending_restore T now (effective_conv_id q) (ri_turn_number q) (ri_branch_name q) S =
    (Inr (Some (cs, t, Inr md)), set_manager M S)"
    using assms(4) l by (auto simp: load_snapshot_for_pending_restore_def Let_def)
  moreover have "\<not> wrong_model (set_manager M S) (JStr (md_model_name md))"
    using assms(6) by (simp add: wrong_model_def model_mismatch_def)
  ultimately show ?thesis using assms(1-3)
    by (intro exI [of _ M]) (simp add: handle_restore_snapshot_def restore_pending_def)
qed

lemma hydrates:
  assumes "torch_slicing T" "od_get (sd_reqs S) j = Some r" "rq_mamba_pool_idx r = None" "sd_mamba_pool S = Some P"
    and "od_get (pr_registry (sd_pending S)) (Some (rq_rid r)) = Some e"
    and "mp_free_slots P = f # fs" "1 \<le> f" "f \<le> int (mp_size P)"
    and "extract_state_from_pool T P i = Inr (pe_conv_states e, pe_temporal_states e)" "slots_alike T P i f"
  shows "\<exists>S' P' r'. maybe_hydrate_from_pending_restore T j S = (Some True, S') \<and> sd_mamba_pool S' = Some P' \<and>
    extract_state_from_pool T P' f = Inr (pe_conv_states e, pe_temporal_states e) \<and> od_get (sd_reqs S') j = Some r' \<and>
    rq_mamba_pool_idx r' = Some f \<and> rq_mamba_has_restored_state r' \<and>
    rq_conversation_id r' = Some (pe_conversation_id e) \<and> rq_origin_input_ids r' = rq_origin_input_ids r"
proof -
  have fp: "find_pending (rq_rid r) (rq_conversation_id r) (sd_pending S) = Some (rq_rid r, True)"
    using assms(5) by (simp add: find_pending_def od_mem_iff)
  obtain res S' where h: "hydrate_from T j r (rq_rid r) True e P S = (res, S')" by fastforce
  let ?P = "P\<lparr>mp_free_slots := fs\<rparr>"
  have x: "extract_state_from_pool T ?P i = Inr (pe_conv_states e, pe_temporal_states e)" "slots_alike T ?P i f"
    using assms(9,10) by simp_all
  obtain P2 where i: "inject_state_to_pool T (pe_conv_states e) (pe_temporal_states e) f ?P = (Inr (), P2)"
    using inject_alike(1) [OF x assms(7)] assms(8) by auto
  have d: "same_dtypes T f (pe_conv_states e @ [pe_temporal_states e]) (mp_conv ?P @ [mp_temporal ?P])"
    using inject_alike(2) [OF x assms(7)] assms(8) by simp
  have m: "mamba_alloc 1 P = (Some [f], ?P)" using assms(6) by (simp add: mamba_alloc_def)
  have "res \<noteq> Some False" using h m i by (auto simp: hydrate_from_def Let_def simp del: One_nat_def)
  moreover have "maybe_hydrate_from_pending_restore T j S = (res, S')"
    using assms(2-5) fp h by (simp add: maybe_hydrate_from_pending_restore_def)
  ultimately show ?thesis using inject_extract [OF assms(1) _ d] assms(6)
    by (rule_tac hydrate_from_cases [OF assms(1) h assms(4)]) auto
qed

text \<open>
  C5: a state survives the whole way through the handlers. A live request is saved; a restore
  of that conversation, turn and branch under a request id that is not live succeeds and
  stages the state; the next request with that id is hydrated. The slot it then owns holds
  exactly the tensors that were in the slot of the saved request, and it belongs to the saved conversation.
  A free slot is needed, and that the columns of a tensor have one shape and dtype.
\<close>

theorem save_restore_hydrate:
  assumes T: "torch_slicing T" and S: "manager_ok (sd_manager S)" "pending_reach (sd_pending S)" "sd_snapshot_manager S"
    and live: "find_request_by_rid (si_rid q) S = Some i" "od_get (sd_reqs S) i = Some r" "rq_mamba_pool_idx r = Some idx"
      "sd_mamba_pool S = Some P" "extract_state_from_pool T P idx = Inr (cs, t)"
    and saved: "handle_save_snapshot T fault now q S = (out, S1)" "so_success out"
    and restore: "ri_rid q' = Some k" "\<not> ri_create_new_request q'" "find_request_by_rid (Some k) S = None"
      "effective_conv_id q' = str_or (si_conversation_id q) (rq_rid r)"
      "ri_turn_number q' = si_turn_number q" "ri_branch_name q' = si_branch_name q"
      "handle_restore_snapshot T now' uid q' S1 = (out', S2)"
    and new: "od_get (sd_reqs S) j = Some r'" "rq_rid r' = k" "rq_mamba_pool_idx r' = None"
    and slot: "mp_free_slots P = f # fs" "1 \<le> f" "f \<le> int (mp_size P)" "slots_alike T P idx f"
  shows "(\<exists>o'. out' = Some o' \<and> ro_success o') \<and>
    (\<exists>S3 P3 r3. maybe_hydrate_from_pending_restore T j S2 = (Some True, S3) \<and> sd_mamba_pool S3 = Some P3 \<and>
       extract_state_from_pool T P3 f = Inr (cs, t) \<and> od_get (sd_reqs S3) j = Some r3 \<and>
       rq_mamba_pool_idx r3 = Some f \<and> rq_conversation_id r3 = Some (effective_conv_id q'))"
proof -
  obtain M md where s: "S1 = set_manager M S"
    "fst (load_snapshot T (effective_conv_id q') (ri_turn_number q') (ri_branch_name q') M) = Inr (cs, t, md)"
    "md_model_name md = sa_model_path (sd_args S)" "ri_turn_number q' \<noteq> None \<or> ri_branch_name q' \<noteq> None"
    using save_live_stored [OF S(1) live saved] unfolding restore by metis
  define e where "e = staged_entry now' (effective_conv_id q') cs t (md_fill_ids md)"
  obtain M2 out2 where o: "handle_restore_snapshot T now' uid q' S1 = (Some out2, (set_manager M2 S1)\<lparr>sd_pending :=
       stage_pending_restore now' (Some k) (effective_conv_id q') cs t (md_fill_ids md) (sd_pending S1)\<rparr>)" "ro_success out2"
    using restore_stages [of S1 q' T cs t md now' uid] s restore S(3) by auto
  let ?S2 = "(set_manager M2 S)\<lparr>sd_pending := stage_pending_restore now' (Some k) (effective_conv_id q') cs t (md_fill_ids md) (sd_pending S)\<rparr>"
  have S2: "S2 = ?S2" "out' = Some out2" using restore(7) o s(1) by simp_all
  have g: "od_get (pr_registry (sd_pending ?S2)) (Some (rq_rid r')) = Some e"
    using stage_lookup [OF pending_reach_wf [OF S(2)]] new(2) by (simp add: e_def)
  have ex: "extract_state_from_pool T P idx = Inr (pe_conv_states e, pe_temporal_states e)" using live(5) by (simp add: e_def)
  have S2p: "od_get (sd_reqs ?S2) j = Some r'" "sd_mamba_pool ?S2 = Some P" using new live by simp_all
  from hydrates [OF T S2p(1) new(3) S2p(2) g slot(1-3) ex slot(4)] show ?thesis
    unfolding S2 using o(2) by (auto simp: e_def)
qed


definition sample_save :: save_input where
  "sample_save =
     \<lparr>si_rid = Some ''r1'', si_snapshot_id = None, si_conversation_id = None, si_turn_number = Some 3,
      si_branch_name = None\<rparr>"

definition sample_restore :: restore_input where
  "sample_restore =
     \<lparr>ri_rid = Some ''r2'', ri_conversation_id = Some ''r1'', ri_turn_number = Some 3, ri_branch_name = None,
      ri_create_new_request = False, ri_continuation_ids = None, ri_max_new_tokens = None\<rparr>"

theorem save_restore_hydrate_witness:
  "\<exists>out S1 out' S2 S3 P3. handle_save_snapshot mat_torch None 5 sample_save sample_scheduler = (out, S1) \<and>
     handle_restore_snapshot mat_torch 6 ''ab'' sample_restore S1 = (out', S2) \<and>
     maybe_hydrate_from_pending_restore mat_torch 1 S2 = (Some True, S3) \<and> sd_mamba_pool S3 = Some P3 \<and>
     extract_state_from_pool mat_torch P3 2 = Inr ([[[7]]], [[9]])"
proof -
  let ?S = sample_scheduler
  obtain out S1 where s: "handle_save_snapshot mat_torch None 5 sample_save ?S = (out, S1)" by fastforce
  obtain out' S2 where r: "handle_restore_snapshot mat_torch 6 ''ab'' sample_restore S1 = (out', S2)" by fastforce
  have "so_success (fst (handle_save_snapshot mat_torch None 5 sample_save ?S))" by code_simp
  then have ok: "so_success out" using s by simp
  have S: "manager_ok (sd_manager ?S)" "pending_reach (sd_pending ?S)" "sd_snapshot_manager ?S"
    by (simp_all add: sample_scheduler_def init_tiers_def pending_reach.start)
  have f: "find_request_by_rid (si_rid sample_save) ?S = Some 0" "find_request_by_rid (Some ''r2'') ?S = None" by code_simp+
  have x: "extract_state_from_pool mat_torch sample_pool 1 = Inr ([[[7]]], [[9]])"
    "slots_alike mat_torch sample_pool 1 2" by code_simp+
  have q: "od_get (sd_reqs ?S) 0 = Some sample_live" "rq_mamba_pool_idx sample_live = Some 1"
    "sd_mamba_pool ?S = Some sample_pool" "mp_free_slots sample_pool = [2]" "mp_size sample_pool = 2"
    "od_get (sd_reqs ?S) 1 = Some ((sample_req ''r2'')\<lparr>rq_conversation_id := Some ''c1''\<rparr>)"
    by (simp_all add: sample_scheduler_def sample_live_def sample_pool_def)
  have e: "effective_conv_id sample_restore = str_or (si_conversation_id sample_save) (rq_rid sample_live)" by code_simp
  have i: "ri_rid sample_restore = Some ''r2''" "\<not> ri_create_new_request sample_restore"
    "ri_turn_number sample_restore = si_turn_number sample_save" "ri_branch_name sample_restore = si_branch_name sample_save"
    by (simp_all add: sample_restore_def sample_save_def)
  have n: "rq_rid ((sample_req ''r2'')\<lparr>rq_conversation_id := Some ''c1''\<rparr>) = ''r2''"
    "rq_mamba_pool_idx ((sample_req ''r2'')\<lparr>rq_conversation_id := Some ''c1''\<rparr>) = None"
    by (simp_all add: sample_req_def)
  from save_restore_hydrate [OF mat_torch_slicing S f(1) q(1-3) x(1) s ok i(1,2) f(2) e i(3,4) r q(6) n q(4) _ _ x(2)]
  show ?thesis using s r q(5) by auto
qed


theorem hydration_outcomes_witness:
  "\<exists>S' P'. maybe_hydrate_from_pending_restore mat_torch 1 (sample_scheduler\<lparr>sd_pending := sample_pending\<rparr>) = (Some True, S') \<and>
     sd_mamba_pool S' = Some P' \<and> mp_free_slots P' = []"
proof -
  let ?S = "sample_scheduler\<lparr>sd_pending := sample_pending\<rparr>"
  have "fst (maybe_hydrate_from_pending_restore mat_torch 1 ?S) = Some True" by code_simp
  then obtain S' where h: "maybe_hydrate_from_pending_restore mat_torch 1 ?S = (Some True, S')" by (metis prod.collapse)
  have q: "sd_mamba_pool ?S = Some sample_pool" "mp_free_slots sample_pool = [2]"
    "od_get (sd_reqs ?S) 1 = Some ((sample_req ''r2'')\<lparr>rq_conversation_id := Some ''c1''\<rparr>)"
    by (simp_all add: sample_scheduler_def sample_pool_def)
  from hydration_outcomes [OF mat_torch_slicing q(3) q(1) h] show ?thesis using h q(2) by auto
qed

subsection \<open>Restoring into a live request\<close>

lemma inject_into_live_cases:
  assumes "torch_slicing T" and "inject_into_live T q i r idx (cs, t, md) S = (out, S')"
  obtains (failed) "\<not> ro_success out" "sd_reqs S' = sd_reqs S" "sd_pending S' = sd_pending S"
  | (restored) P P' fi where "ro_success out" "sd_mamba_pool S = Some P" "md_fill_ids md = Some fi"
      "\<not> wrong_model S (JStr (md_model_name md))"
      "inject_state_to_pool T cs t idx P = (Inr (), P')" "sd_mamba_pool S' = Some P'"
      "sd_reqs S' = od_set i (reconcile_conversation (effective_conv_id q)
         (r\<lparr>rq_fill_ids := Some fi, rq_origin_input_ids := fi\<rparr>)) (sd_reqs S)"
proof (cases "wrong_model S (JStr (md_model_name md)) \<or> md_fill_ids md = None \<or> sd_mamba_pool S = None")
  case True
  then have "\<exists>msg. (out, S') = (restore_fail msg, S)"
    using assms(2) by (auto simp: inject_into_live_def split: if_splits option.splits)
  then show thesis using failed by auto
next
  case False
  then obtain fi P where f: "\<not> wrong_model S (JStr (md_model_name md))" "md_fill_ids md = Some fi" "sd_mamba_pool S = Some P"
    by auto
  obtain x P1 where j: "inject_state_to_pool T cs t idx P = (x, P1)" by fastforce
  show thesis
  proof (cases x)
    case (Inl e)
    then have "(out, S') = (restore_fail (Restore_error e), set_pool P1 S)"
      using assms(2) f j by (simp add: inject_into_live_def)
    then show thesis using failed by auto
  next
    case (Inr u)
    show thesis
      by (rule restored [of P fi P1]) (use assms(2) f j Inr in \<open>auto simp: inject_into_live_def set_req_def\<close>)
  qed
qed

text \<open>
  C19: restoring into a live request. A request in the running batch is refused and nothing
  changes. If the restore fails, no request and no staged state has changed. If it succeeds, the snapshot that
  the conversation, turn and branch name on disk is in the slot of the request, its token ids are
  those of the snapshot, it belongs to the restored conversation, and no other request has changed.
\<close>

theorem live_restore_effect:
  assumes "torch_slicing T" and "sd_snapshot_manager S" and "\<not> ri_create_new_request q"
    and "find_request_by_rid (ri_rid q) S = Some i" and "od_get (sd_reqs S) i = Some r"
    and "handle_restore_snapshot T now uid q S = (out, S')"
  shows "\<exists>o'. out = Some o' \<and> (i \<in> set (sd_running_batch S) \<longrightarrow> \<not> ro_success o' \<and> S' = S) \<and>
    (\<not> ro_success o' \<longrightarrow> sd_reqs S' = sd_reqs S \<and> sd_pending S' = sd_pending S) \<and>
    (ro_success o' \<longrightarrow> (\<exists>idx P P' cs t md fi r'. rq_mamba_pool_idx r = Some idx \<and> sd_mamba_pool S = Some P \<and>
       fst (load_snapshot T (effective_conv_id q) (ri_turn_number q) (ri_branch_name q) (sd_manager S)) = Inr (cs, t, md) \<and>
       md_fill_ids md = Some fi \<and> sd_mamba_pool S' = Some P' \<and>
       (same_dtypes T idx (cs @ [t]) (mp_conv P @ [mp_temporal P]) \<longrightarrow> extract_state_from_pool T P' idx = Inr (cs, t)) \<and>
       od_get (sd_reqs S') i = Some r' \<and> rq_fill_ids r' = Some fi \<and> rq_origin_input_ids r' = fi \<and>
       rq_conversation_id r' = Some (effective_conv_id q) \<and> rq_mamba_pool_idx r' = Some idx \<and>
       (\<forall>j. j \<noteq> i \<longrightarrow> od_get (sd_reqs S') j = od_get (sd_reqs S) j)))"
proof -
  obtain o' where o: "restore_live T q i r S = (o', S')" "out = Some o'"
    using assms(2-6) by (auto simp: handle_restore_snapshot_def split: prod.splits)
  obtain x M where l: "load_snapshot T (effective_conv_id q) (ri_turn_number q) (ri_branch_name q) (sd_manager S) = (x, M)"
    by fastforce
  show ?thesis
  proof (cases "i \<in> set (sd_running_batch S) \<or> rq_mamba_pool_idx r = None \<or> (\<exists>e. x = Inl e)")
    case True
    then have "\<exists>msg. o' = restore_fail msg \<and> (S' = S \<or> i \<notin> set (sd_running_batch S) \<and> S' = set_manager M S)"
      using o(1) l by (auto simp: restore_live_def split: if_splits option.splits)
    then show ?thesis using o(2) by auto
  next
    case False
    then obtain idx cs t md where c: "i \<notin> set (sd_running_batch S)" "rq_mamba_pool_idx r = Some idx" "x = Inr (cs, t, md)"
      by (cases x) auto
    then have "inject_into_live T q i r idx (cs, t, md) (set_manager M S) = (o', S')"
      using o(1) l by (simp add: restore_live_def)
    then show ?thesis
    proof (rule inject_into_live_cases [OF assms(1)], goal_cases)
      case 1
      then show ?case using o(2) c(1) by auto
    next
      case (2 P P' fi)
      have "same_dtypes T idx (cs @ [t]) (mp_conv P @ [mp_temporal P]) \<longrightarrow> extract_state_from_pool T P' idx = Inr (cs, t)"
        using inject_extract [OF assms(1) 2(5)] by blast
      then show ?case using 2 o(2) c l by (auto simp: od_get_set)
    qed
  qed
qed

theorem live_restore_effect_witness:
  "\<exists>o' S' r'. handle_restore_snapshot mat_torch 6 ''ab'' (sample_create\<lparr>ri_rid := Some ''r1'', ri_create_new_request := False\<rparr>)
       (sample_saved\<lparr>sd_running_batch := [], sd_last_batch := Some [0]\<rparr>) = (Some o', S') \<and>
     ro_success o' \<and> od_get (sd_reqs S') 0 = Some r' \<and> rq_conversation_id r' = Some ''c1''"
proof -
  let ?q = "sample_create\<lparr>ri_rid := Some ''r1'', ri_create_new_request := False\<rparr>"
  let ?S = "sample_saved\<lparr>sd_running_batch := [], sd_last_batch := Some [0]\<rparr>"
  obtain out S' where h: "handle_restore_snapshot mat_torch 6 ''ab'' ?q ?S = (out, S')" by fastforce
  have "map_option ro_success (fst (handle_restore_snapshot mat_torch 6 ''ab'' ?q ?S)) = Some True" by code_simp
  then have ok: "map_option ro_success out = Some True" using h by simp
  have f: "find_request_by_rid (ri_rid ?q) ?S = Some 0" "effective_conv_id ?q = ''c1''" by code_simp+
  have p: "sd_snapshot_manager ?S" "\<not> ri_create_new_request ?q" "od_get (sd_reqs ?S) 0 = Some sample_live"
    by (simp_all add: sample_saved_def sample_scheduler_def set_manager_def)
  from live_restore_effect [OF mat_torch_slicing p(1,2) f(1) p(3) h] show ?thesis using h ok f(2) by auto
qed

end
