(* ===== verification/Tier_Laws.thy ===== *)
theory Tier_Laws
  imports Tier_Manager
begin

section \<open>Laws of the tier manager\<close>

text \<open>
  What each operation of the tier manager does to the three parts: the tier of a
  conversation, its state in host memory and its snapshots on disk; and that every
  operation keeps \<open>tiers_ok\<close>. The loops of the cleanup cycle and of the restore at startup
  are reduced to one iteration per conversation (\<open>same_conv\<close> is what the other iterations
  leave alone).
\<close>

subsection \<open>Reading leaves the disk as it is\<close>

named_theorems reads \<open>the state of the store after an operation that only reads\<close>

lemma fs_read_load [reads]: "base_ok M \<Longrightarrow> fs_read (snd (load_snapshot T cid turn br M)) l = fs_read M l"
  by (simp add: load_snapshot_eq fs_simps)

lemma list_snapshots_state:
  assumes "manager_ok M"
  shows "snd (list_snapshots cid M) = M \<or> snd (list_snapshots cid M) = mkdir_conv (conv_dir_name cid) M"
proof (cases "sanitize_path_component cid")
  case (Inl e)
  then show ?thesis using assms by (simp add: list_snapshots_bad manager_ok_parts)
next
  case (Inr c)
  then show ?thesis by (rule list_snapshots_eq [OF assms]) simp
qed

lemma fs_read_list [reads]: "manager_ok M \<Longrightarrow> fs_read (snd (list_snapshots cid M)) l = fs_read M l"
  using list_snapshots_state [of M cid] by (auto simp: fs_simps)

lemma latest_state:
  assumes "manager_ok M"
  shows "manager_ok (snd (get_latest_snapshot cid M))"
    and "fs_read (snd (get_latest_snapshot cid M)) l = fs_read M l"
proof -
  obtain r M1 where l: "list_snapshots cid M = (r, M1)" by fastforce
  have ok: "manager_ok M1" "\<And>l. fs_read M1 l = fs_read M l"
    using list_snapshots_manager_ok [OF assms, of cid] fs_read_list [OF assms, of cid] by (simp_all add: l)
  have p: "get_snapshot_paths cid turn br M1 = (paths_of cid turn br, paths_mkdir cid br M1)" for turn br
    using ok(1) by (simp add: get_snapshot_paths_eq manager_ok_parts)
  have "snd (get_latest_snapshot cid M) = M1 \<or> snd (get_latest_snapshot cid M) = paths_mkdir cid None M1"
    by (auto simp: get_latest_snapshot_def l p Let_def split: sum.split option.split)
  then show "manager_ok (snd (get_latest_snapshot cid M))" "fs_read (snd (get_latest_snapshot cid M)) l = fs_read M l"
    using ok by (metis manager_ok_paths_mkdir, metis fs_read_paths_mkdir)
qed

lemmas fs_read_latest [reads] = latest_state(2)

lemma disk_load_cong: "(\<And>l. fs_read M' l = fs_read M l) \<Longrightarrow> disk_load T M' cid s = disk_load T M cid s"
  by (simp add: disk_load_def)

lemma latest_cong:
  assumes "archive_ok cid M" "archive_ok cid M'" "\<And>l. fs_read M' l = fs_read M l"
  shows "fst (get_latest_snapshot cid M') = fst (get_latest_snapshot cid M)"
proof -
  obtain ts where ts: "fst (list_snapshots cid M) = Inr ts"
    using store.listing_sorted [OF assms(1)] by blast
  have "stored_turns M' cid = stored_turns M cid" by (rule stored_turns_cong) (simp add: assms(3))
  then have "fst (list_snapshots cid M') = Inr ts"
    using ts archive_listing [OF assms(1), of ts] archive_listing [OF assms(2), of ts] by simp
  then show ?thesis using ts get_latest_snapshot_eq [OF assms(1)] get_latest_snapshot_eq [OF assms(2)] assms(3) by simp
qed

subsection \<open>The invariant\<close>

text \<open>
  The three parts satisfy their own invariants, every state in host memory belongs to a
  registered conversation, and every such state has passed validation.
\<close>

definition tiers_ok :: "'t torch \<Rightarrow> 't tiers \<Rightarrow> bool" where
  "tiers_ok T S =
     (tracker_ok (tm_tracker S) \<and> pool_ok T (tm_host_pool S) \<and> manager_ok (tm_manager S) \<and>
      (\<forall>c. pool_lookup (tm_host_pool S) c \<noteq> None \<longrightarrow> get_tier c (tm_tracker S) \<noteq> None) \<and>
      (\<forall>c cs t d. pool_lookup (tm_host_pool S) c = Some (cs, t, d) \<longrightarrow> state_ok T False cs t))"

lemma tiers_okD:
  assumes "tiers_ok T S"
  shows "tracker_ok (tm_tracker S)" "pool_ok T (tm_host_pool S)" "manager_ok (tm_manager S)"
    "base_ok (tm_manager S)"
    "pool_lookup (tm_host_pool S) c = Some (cs, t, d) \<Longrightarrow> state_ok T False cs t"
    "pool_lookup (tm_host_pool S) c = Some v \<Longrightarrow> get_tier c (tm_tracker S) \<noteq> None"
  using assms unfolding tiers_ok_def by (blast, blast, blast, metis manager_ok_parts(1), blast, fastforce)

lemma tiers_okI:
  assumes "tracker_ok (tm_tracker S)" "pool_ok T (tm_host_pool S)" "manager_ok (tm_manager S)"
    and "\<And>c cs t d. pool_lookup (tm_host_pool S) c = Some (cs, t, d) \<Longrightarrow>
           get_tier c (tm_tracker S) \<noteq> None \<and> state_ok T False cs t"
  shows "tiers_ok T S"
  using assms by (fastforce simp: tiers_ok_def)

lemma has_state_lookup: "has_state c P = (pool_lookup P c \<noteq> None)"
  by (simp add: has_state_def pool_lookup_def od_mem_iff)

lemma get_state_split: "get_state now c P = (pool_lookup P c, snd (get_state now c P))"
  by (metis get_state_value prod.collapse)

lemma tracker_get_state_None: "tracker_get_state c K = None \<longleftrightarrow> get_tier c K = None"
  by (simp add: tracker_get_state_def get_tier_def)

text \<open>What each primitive does to the tiers, warm states and files.\<close>

named_theorems tier_simps \<open>the parts of the tier manager after an operation\<close>

lemma warm_save_manager [tier_simps]: "tm_manager (snd (save_to_warm_tier T now cid cs t md pol S)) = tm_manager S"
  by (simp add: save_to_warm_tier_def Let_def split_beta)

lemma warm_save_pool [tier_simps]:
  "tm_host_pool (snd (save_to_warm_tier T now cid cs t md pol S)) =
     (if state_ok T False cs t then snd (save_state T now cid cs t md (tm_host_pool S)) else tm_host_pool S)"
  by (simp add: save_to_warm_tier_def Let_def split_beta is_valid_iff)

lemma warm_save_tier [tier_simps]:
  "get_tier c (tm_tracker (snd (save_to_warm_tier T now cid cs t md pol S))) =
     (if c = cid \<and> state_ok T False cs t \<and> fst (save_state T now cid cs t md (tm_host_pool S))
      then Some WARM else get_tier c (tm_tracker S))"
  by (auto simp: save_to_warm_tier_def Let_def split_beta is_valid_iff tracker_simps tracker_get_state_None)

lemma warm_save_result:
  "pool_ok T (tm_host_pool S) \<Longrightarrow> fst (save_to_warm_tier T now cid cs t md pol S) =
     (if state_ok T False cs t then Inr (fits T cs t (tm_host_pool S))
      else if pol = ''raise'' then Inl SnapshotValidationError else Inr False)"
  using save_state_fst [of T "tm_host_pool S" now cid cs t md]
  by (simp add: save_to_warm_tier_def Let_def split_beta is_valid_iff)

lemma save_state_lookup:
  assumes "pool_ok T P" "pool_lookup (snd (save_state T now cid cs t md P)) c = Some v"
  shows "if c = cid then v = (cs, t, case md of None \<Rightarrow> [] | Some d \<Rightarrow> d) \<and> fst (save_state T now cid cs t md P)
    else pool_lookup P c = Some v"
proof (cases "fst (save_state T now cid cs t md P)")
  case True
  then show ?thesis
    using assms(2) save_state_hit [OF True] save_state_others [OF assms(1), of c cid now cs t md]
    by (cases "c = cid") (fastforce simp: pool_lookup_def entry_state_def)+
next
  case False
  then show ?thesis using assms(2) save_state_miss [OF False] by (simp add: pool_lookup_def)
qed

lemma tiers_ok_warm_save:
  assumes "tiers_ok T S"
  shows "tiers_ok T (snd (save_to_warm_tier T now cid cs t md pol S))"
proof (cases "state_ok T False cs t")
  case False
  then show ?thesis using assms by (simp add: save_to_warm_tier_def is_valid_iff)
next
  case True
  note ok = tiers_okD [OF assms]
  show ?thesis
  proof (rule tiers_okI)
    show "tracker_ok (tm_tracker (snd (save_to_warm_tier T now cid cs t md pol S)))"
      using ok(1) by (simp add: save_to_warm_tier_def Let_def split_beta tracker_ok_ops)
    show "get_tier c (tm_tracker (snd (save_to_warm_tier T now cid cs t md pol S))) \<noteq> None \<and> state_ok T False cs' t'"
      if "pool_lookup (tm_host_pool (snd (save_to_warm_tier T now cid cs t md pol S))) c = Some (cs', t', d)" for c cs' t' d
      using save_state_lookup [OF ok(2), of now cid cs t md c "(cs', t', d)"] that True ok(5,6)
      by (auto simp: tier_simps split: if_splits)
  qed (use ok True in \<open>simp_all add: tier_simps pool_ok_ops\<close>)
qed

lemma cold_save_eq:
  "save_to_cold_tier T f now cid cs t md S =
     (case fst (save_snapshot T f cs t md (tm_manager S)) of
        Inl e \<Rightarrow> (False, S\<lparr>tm_manager := snd (save_snapshot T f cs t md (tm_manager S))\<rparr>)
      | Inr _ \<Rightarrow>
          (True, S\<lparr>tm_manager := snd (save_snapshot T f cs t md (tm_manager S)),
                   tm_tracker := snd (transition_tier now cid COLD None (tm_tracker S))\<rparr>))"
  by (simp add: save_to_cold_tier_def split_beta split: sum.split)

lemma cold_save_parts [tier_simps]:
  "tm_host_pool (snd (save_to_cold_tier T f now cid cs t md S)) = tm_host_pool S"
  "tm_manager (snd (save_to_cold_tier T f now cid cs t md S)) = snd (save_snapshot T f cs t md (tm_manager S))"
  "get_tier c (tm_tracker (snd (save_to_cold_tier T f now cid cs t md S))) =
     (if c = cid \<and> fst (save_to_cold_tier T f now cid cs t md S) \<and> get_tier cid (tm_tracker S) \<noteq> None
      then Some COLD else get_tier c (tm_tracker S))"
  by (auto simp: cold_save_eq tracker_simps split: sum.split)

lemma cold_save_result:
  "base_ok (tm_manager S) \<Longrightarrow> fst (save_to_cold_tier T f now cid cs t md S) \<longleftrightarrow>
     state_ok T False cs t \<and> md_valid md \<and> f = None"
  by (auto simp: cold_save_eq save_snapshot_result split: sum.split)

text \<open>
  An operation that leaves the warm states alone, keeps the invariants of the tracker and
  the store, and forgets no conversation, keeps the invariant.
\<close>

lemma tiers_ok_keep:
  assumes "tiers_ok T S" "pool_lookup (tm_host_pool S') = pool_lookup (tm_host_pool S)"
    "pool_ok T (tm_host_pool S')" "tracker_ok (tm_tracker S')" "manager_ok (tm_manager S')"
    "\<And>c. get_tier c (tm_tracker S) \<noteq> None \<Longrightarrow> get_tier c (tm_tracker S') \<noteq> None"
  shows "tiers_ok T S'"
  using assms tiers_okD(5,6) [OF assms(1)] by (intro tiers_okI) auto

lemma tiers_ok_cold_save:
  assumes "tiers_ok T S"
  shows "tiers_ok T (snd (save_to_cold_tier T f now cid cs t md S))"
proof (rule tiers_ok_keep [OF assms])
  show "tracker_ok (tm_tracker (snd (save_to_cold_tier T f now cid cs t md S)))"
    using tiers_okD(1) [OF assms] by (auto simp: cold_save_eq tracker_ok_ops split: sum.split)
qed (use tiers_okD [OF assms] in \<open>simp_all add: tier_simps save_snapshot_manager_ok\<close>)

text \<open>Restoring from host memory and from disk.\<close>

lemma restore_warm_eq:
  "restore_from_warm_tier now cid S =
     (let S1 = S\<lparr>tm_host_pool := snd (get_state now cid (tm_host_pool S))\<rparr>
      in case pool_lookup (tm_host_pool S) cid of
           None \<Rightarrow> (Inr None, S1)
         | Some (cs, t, d) \<Rightarrow>
             if model_mismatch (tm_model_path S) (dict_get d ''model_name'' JNull) then (Inl ValueError, S1)
             else (Inr (Some (cs, t, d)), S1\<lparr>tm_tracker := mark_accessed now cid (tm_tracker S)\<rparr>))"
  unfolding restore_from_warm_tier_def
  by (subst get_state_split) (simp add: Let_def split: option.split)

lemma restore_warm_parts [tier_simps]:
  "tm_manager (snd (restore_from_warm_tier now cid S)) = tm_manager S"
  "tm_model_path (snd (restore_from_warm_tier now cid S)) = tm_model_path S"
  "tm_host_pool (snd (restore_from_warm_tier now cid S)) = snd (get_state now cid (tm_host_pool S))"
  "get_tier c (tm_tracker (snd (restore_from_warm_tier now cid S))) = get_tier c (tm_tracker S)"
  by (auto simp: restore_warm_eq Let_def tracker_simps split: option.split)

lemma tiers_ok_restore_warm:
  assumes "tiers_ok T S"
  shows "tiers_ok T (snd (restore_from_warm_tier now cid S))"
proof (rule tiers_ok_keep [OF assms])
  show "tracker_ok (tm_tracker (snd (restore_from_warm_tier now cid S)))"
    using tiers_okD(1) [OF assms] by (auto simp: restore_warm_eq Let_def tracker_ok_ops split: option.split)
qed (use tiers_okD [OF assms] in \<open>simp_all add: tier_simps get_state_keeps pool_ok_ops\<close>)

lemma cold_turn_state:
  assumes "manager_ok M"
  shows "manager_ok (snd (cold_turn cid turn M))" "fs_read (snd (cold_turn cid turn M)) l = fs_read M l"
  using latest_state [OF assms, of cid] assms
  by (auto simp: cold_turn_def split_beta split: option.split sum.split)

lemma cold_body_split:
  "restore_cold_body T now cid turn S =
     (case fst (cold_turn cid turn (tm_manager S)) of
        Inl e \<Rightarrow> (Inl e, S\<lparr>tm_manager := snd (cold_turn cid turn (tm_manager S))\<rparr>)
      | Inr None \<Rightarrow> (Inr None, S\<lparr>tm_manager := snd (cold_turn cid turn (tm_manager S))\<rparr>)
      | Inr (Some n) \<Rightarrow>
          let L = load_snapshot T cid (Some n) None (snd (cold_turn cid turn (tm_manager S)));
              S1 = S\<lparr>tm_manager := snd L\<rparr>
          in case fst L of
               Inl e \<Rightarrow> (Inl e, S1)
             | Inr (cs, t, md) \<Rightarrow>
                 if model_mismatch (tm_model_path S) (JStr (md_model_name md)) then (Inl ValueError, S1)
                 else (Inr (Some (cs, t, md)), S1\<lparr>tm_tracker := mark_accessed now cid (tm_tracker S)\<rparr>))"
  by (simp add: restore_cold_body_def split_beta Let_def split: sum.split option.split)

lemma restore_cold_snd: "snd (restore_from_cold_tier T now cid turn S) = snd (restore_cold_body T now cid turn S)"
  by (simp add: restore_from_cold_tier_def split_beta split: sum.split)

lemma restore_cold_fst:
  "fst (restore_from_cold_tier T now cid turn S) =
     (case fst (restore_cold_body T now cid turn S) of
        Inl e \<Rightarrow> if is_ValueError e then Inl e else Inr None | Inr r \<Rightarrow> Inr r)"
  by (simp add: restore_from_cold_tier_def split_beta split: sum.split)

lemma restore_cold_parts [tier_simps]:
  "tm_host_pool (snd (restore_from_cold_tier T now cid turn S)) = tm_host_pool S"
  "get_tier c (tm_tracker (snd (restore_from_cold_tier T now cid turn S))) = get_tier c (tm_tracker S)"
  "tm_model_path (snd (restore_from_cold_tier T now cid turn S)) = tm_model_path S"
  by (auto simp: restore_cold_snd cold_body_split Let_def tracker_simps split: sum.split option.split)

lemma restore_cold_manager:
  assumes "manager_ok (tm_manager S)"
  shows "manager_ok (tm_manager (snd (restore_from_cold_tier T now cid turn S)))"
    "fs_read (tm_manager (snd (restore_from_cold_tier T now cid turn S))) l = fs_read (tm_manager S) l"
  using cold_turn_state [OF assms, of cid turn] load_snapshot_manager_ok [OF cold_turn_state(1) [OF assms, of cid turn]]
  by (auto simp: restore_cold_snd cold_body_split Let_def reads manager_ok_parts split: sum.split option.split)

lemma tiers_ok_restore_cold:
  assumes "tiers_ok T S"
  shows "tiers_ok T (snd (restore_from_cold_tier T now cid turn S))"
proof (rule tiers_ok_keep [OF assms])
  show "tracker_ok (tm_tracker (snd (restore_from_cold_tier T now cid turn S)))"
    using tiers_okD(1) [OF assms]
    by (auto simp: restore_cold_snd cold_body_split Let_def tracker_ok_ops split: sum.split option.split)
qed (use tiers_okD [OF assms] in \<open>simp_all add: tier_simps restore_cold_manager\<close>)

text \<open>The state handed over to the disk lookup, and the promotion after it.\<close>

definition after_warm :: "real \<Rightarrow> string \<Rightarrow> 't tiers \<Rightarrow> 't tiers" where
  "after_warm now cid S =
     (if get_tier cid (tm_tracker S) = Some WARM \<or> has_state cid (tm_host_pool S)
      then snd (restore_from_warm_tier now cid S) else S)"

lemma after_warm_parts [tier_simps]:
  "tm_manager (after_warm now cid S) = tm_manager S"
  "tm_model_path (after_warm now cid S) = tm_model_path S"
  "pool_lookup (tm_host_pool (after_warm now cid S)) = pool_lookup (tm_host_pool S)"
  "get_tier c (tm_tracker (after_warm now cid S)) = get_tier c (tm_tracker S)"
  by (simp_all add: after_warm_def tier_simps get_state_keeps)

lemma tiers_ok_after_warm: "tiers_ok T S \<Longrightarrow> tiers_ok T (after_warm now cid S)"
  by (simp add: after_warm_def tiers_ok_restore_warm)

lemma restore_conversation_warm:
  assumes "pool_lookup (tm_host_pool S) cid = Some (cs, t, d)"
  shows "restore_conversation T now cid turn S =
    (if model_mismatch (tm_model_path S) (dict_get d ''model_name'' JNull) then Inl ValueError
     else Inr (Some (cs, t, d)), after_warm now cid S)"
  using assms by (simp add: restore_conversation_def after_warm_def has_state_lookup restore_warm_eq Let_def)

lemma restore_conversation_cold:
  assumes "pool_lookup (tm_host_pool S) cid = None"
  shows "restore_conversation T now cid turn S =
    (let S1 = after_warm now cid S; C = restore_from_cold_tier T now cid turn S1
     in if get_tier cid (tm_tracker S) = Some COLD \<or> turn \<noteq> None then
          (case fst C of
             Inl e \<Rightarrow> (Inl e, snd C)
           | Inr None \<Rightarrow> (Inr None, snd C)
           | Inr (Some (cs, t, md)) \<Rightarrow>
               (Inr (Some (cs, t, to_dict md)),
                snd (save_to_warm_tier T now cid cs t (Some (to_dict md)) ''log_and_continue'' (snd C))))
        else (Inr None, S1))"
proof -
  have w: "(if get_tier cid (tm_tracker S) = Some WARM \<or> has_state cid (tm_host_pool S)
       then restore_from_warm_tier now cid S else (Inr None, S)) = (Inr None, after_warm now cid S)"
    using assms by (simp add: after_warm_def restore_warm_eq Let_def)
  show ?thesis
    unfolding restore_conversation_def Let_def w prod.case sum.case option.case
    by (simp add: split_beta split: sum.split option.split)
qed

lemma tiers_ok_restore:
  assumes "tiers_ok T S"
  shows "tiers_ok T (snd (restore_conversation T now cid turn S))"
proof (cases "pool_lookup (tm_host_pool S) cid")
  case None
  then show ?thesis using assms
    by (auto simp: restore_conversation_cold Let_def tiers_ok_after_warm tiers_ok_restore_cold tiers_ok_warm_save
        split: sum.split option.split)
next
  case (Some v)
  obtain cs t d where "v = (cs, t, d)" by (cases v)
  then show ?thesis using assms Some by (simp add: restore_conversation_warm tiers_ok_after_warm)
qed

lemma restore_manager:
  assumes "tiers_ok T S"
  shows "fs_read (tm_manager (snd (restore_conversation T now cid turn S))) l = fs_read (tm_manager S) l"
proof (cases "pool_lookup (tm_host_pool S) cid")
  case None
  have m: "manager_ok (tm_manager (after_warm now cid S))"
    using tiers_okD(3) [OF assms] by (simp add: tier_simps)
  show ?thesis using restore_cold_manager(2) [OF m, of T now cid turn]
    by (auto simp: restore_conversation_cold [OF None] Let_def tier_simps split: sum.split option.split)
next
  case (Some v)
  obtain cs t d where "v = (cs, t, d)" by (cases v)
  then show ?thesis using Some by (simp add: restore_conversation_warm tier_simps)
qed

text \<open>
  A restore changes what is in host memory only by promoting its own conversation: that
  conversation holds what it held or what was just read from disk, the others keep their
  state or lose it to the promotion.
\<close>

lemma restore_pool:
  assumes "tiers_ok T S"
    and "pool_lookup (tm_host_pool (snd (restore_conversation T now cid turn S))) c = Some v"
  shows "pool_lookup (tm_host_pool S) c = Some v \<or>
    (c = cid \<and> pool_lookup (tm_host_pool S) cid = None \<and>
     (\<exists>cs t md. v = (cs, t, to_dict md) \<and>
        fst (restore_from_cold_tier T now cid turn (after_warm now cid S)) = Inr (Some (cs, t, md))))"
proof (cases "pool_lookup (tm_host_pool S) cid")
  case (Some w)
  obtain cs t d where "w = (cs, t, d)" by (cases w)
  then show ?thesis using assms(2) Some by (simp add: restore_conversation_warm tier_simps)
next
  case None
  let ?S1 = "after_warm now cid S"
  let ?C = "restore_from_cold_tier T now cid turn ?S1"
  have ok: "pool_ok T (tm_host_pool (snd ?C))"
    using tiers_okD(2) [OF tiers_ok_restore_cold [OF tiers_ok_after_warm [OF assms(1)]]] .
  have l: "pool_lookup (tm_host_pool (snd ?C)) = pool_lookup (tm_host_pool S)" by (simp add: tier_simps)
  show ?thesis
  proof (cases "(get_tier cid (tm_tracker S) = Some COLD \<or> turn \<noteq> None) \<and> (\<exists>cs t md. fst ?C = Inr (Some (cs, t, md)))")
    case False
    then have "pool_lookup (tm_host_pool (snd (restore_conversation T now cid turn S))) = pool_lookup (tm_host_pool S)"
      by (auto simp: restore_conversation_cold [OF None] Let_def tier_simps l split: sum.split option.split)
    then show ?thesis using assms(2) by simp
  next
    case True
    then obtain cs t md where C: "fst ?C = Inr (Some (cs, t, md))" and
      b: "get_tier cid (tm_tracker S) = Some COLD \<or> turn \<noteq> None" by blast
    then have "pool_lookup (tm_host_pool (snd (save_to_warm_tier T now cid cs t (Some (to_dict md)) ''log_and_continue'' (snd ?C)))) c = Some v"
      using assms(2) by (simp add: restore_conversation_cold [OF None] Let_def)
    then show ?thesis
      using save_state_lookup [OF ok, of now cid cs t "Some (to_dict md)" c v] C None l
      by (auto simp: tier_simps split: if_splits)
  qed
qed

lemma restore_tier:
  assumes "get_tier c (tm_tracker (snd (restore_conversation T now cid turn S))) \<noteq> get_tier c (tm_tracker S)"
  shows "c = cid \<and> get_tier c (tm_tracker (snd (restore_conversation T now cid turn S))) = Some WARM"
proof (cases "pool_lookup (tm_host_pool S) cid")
  case (Some w)
  obtain cs t d where "w = (cs, t, d)" by (cases w)
  then show ?thesis using assms Some by (simp add: restore_conversation_warm tier_simps)
next
  case None
  then show ?thesis using assms
    by (auto simp: restore_conversation_cold Let_def tier_simps split: sum.splits option.splits if_splits)
qed

subsection \<open>Demotion and archiving\<close>

lemma demoted_metadata_fields:
  assumes "demoted_metadata now cid d = Some md"
  shows "md_conversation_id md = cid" "md_branch_name md = None" "md_fill_ids md = None"
  using assms by (auto simp: demoted_metadata_def bind_eq_Some_conv)

lemma demote_eq:
  assumes "pool_lookup (tm_host_pool S) cid = Some (cs, t, d)" "demoted_metadata now cid d = Some md"
  shows "demote_to_cold_tier T f now cid S =
    (let S1 = S\<lparr>tm_host_pool := snd (get_state now cid (tm_host_pool S))\<rparr>;
         (b, S2) = save_to_cold_tier T f now cid cs t md S1
     in (b, if b then S2\<lparr>tm_host_pool := snd (remove_state T cid (tm_host_pool S2))\<rparr> else S2))"
  unfolding demote_to_cold_tier_def
  by (subst get_state_split) (simp add: assms Let_def split_beta split: bool.split)

lemma demote_none:
  assumes "pool_lookup (tm_host_pool S) cid = None \<or>
    (\<exists>cs t d. pool_lookup (tm_host_pool S) cid = Some (cs, t, d) \<and> demoted_metadata now cid d = None)"
  shows "demote_to_cold_tier T f now cid S =
    (False, S\<lparr>tm_host_pool := snd (get_state now cid (tm_host_pool S))\<rparr>)"
  unfolding demote_to_cold_tier_def using assms by (subst get_state_split) (auto simp: Let_def)

lemma demote_cases:
  obtains "demote_to_cold_tier T f now cid S = (False, S\<lparr>tm_host_pool := snd (get_state now cid (tm_host_pool S))\<rparr>)"
  | cs t d md where "pool_lookup (tm_host_pool S) cid = Some (cs, t, d)" "demoted_metadata now cid d = Some md"
proof (cases "pool_lookup (tm_host_pool S) cid")
  case None
  then show ?thesis using that(1) demote_none [of S cid now T f] by simp
next
  case (Some v)
  obtain cs t d where v: "v = (cs, t, d)" by (cases v)
  show ?thesis
    using that demote_none [of S cid now T f] Some v by (cases "demoted_metadata now cid d") auto
qed

text \<open>The two outcomes of a demotion.\<close>

lemma demote_True:
  assumes "tiers_ok T S" "fst (demote_to_cold_tier T f now cid S)"
  obtains cs t d md where
    "pool_lookup (tm_host_pool S) cid = Some (cs, t, d)" "demoted_metadata now cid d = Some md" "md_valid md"
    "pool_lookup (tm_host_pool (snd (demote_to_cold_tier T f now cid S))) =
       (\<lambda>c. if c = cid then None else pool_lookup (tm_host_pool S) c)"
    "\<And>c. get_tier c (tm_tracker (snd (demote_to_cold_tier T f now cid S))) =
       (if c = cid then Some COLD else get_tier c (tm_tracker S))"
    "disk_load T (tm_manager (snd (demote_to_cold_tier T f now cid S))) cid (md_slot md) = Inr (cs, t, md)"
proof -
  obtain cs t d md where l: "pool_lookup (tm_host_pool S) cid = Some (cs, t, d)" "demoted_metadata now cid d = Some md"
    by (rule demote_cases [of T f now cid S]) (use assms(2) in auto)
  let ?S1 = "S\<lparr>tm_host_pool := snd (get_state now cid (tm_host_pool S))\<rparr>"
  let ?C = "save_to_cold_tier T f now cid cs t md ?S1"
  note ok = tiers_okD [OF assms(1)]
  have D: "demote_to_cold_tier T f now cid S =
      (True, (snd ?C)\<lparr>tm_host_pool := snd (remove_state T cid (snd (get_state now cid (tm_host_pool S))))\<rparr>)"
    and C: "fst ?C" using assms(2) by (auto simp: demote_eq [OF l] Let_def split_beta tier_simps split: if_splits)
  have c: "state_ok T False cs t" "md_valid md" "f = None" using C ok(4) by (auto simp: cold_save_result)
  note f = demoted_metadata_fields [OF l(2)]
  have p: "pool_ok T (snd (get_state now cid (tm_host_pool S)))" using ok(2) by (simp add: pool_ok_ops)
  show thesis
  proof (rule that [OF l c(2)])
    show "pool_lookup (tm_host_pool (snd (demote_to_cold_tier T f now cid S))) =
        (\<lambda>c. if c = cid then None else pool_lookup (tm_host_pool S) c)"
      using wc.discard_lookup [OF p, of cid] by (simp add: D fun_eq_iff get_state_keeps)
    show "get_tier c (tm_tracker (snd (demote_to_cold_tier T f now cid S))) =
        (if c = cid then Some COLD else get_tier c (tm_tracker S))" for c
      using C ok(6) [OF l(1)] by (simp add: D tier_simps)
    show "disk_load T (tm_manager (snd (demote_to_cold_tier T f now cid S))) cid (md_slot md) = Inr (cs, t, md)"
      using disk_load_saved [OF ok(4) c(1,2)] f(1) unfolding D by (simp add: tier_simps c(3))
  qed
qed

lemma demote_True_tiers:
  assumes "tiers_ok T S" "fst (demote_to_cold_tier T f now cid S)"
  shows "pool_lookup (tm_host_pool (snd (demote_to_cold_tier T f now cid S))) =
      (\<lambda>c. if c = cid then None else pool_lookup (tm_host_pool S) c) \<and>
    (\<forall>c. get_tier c (tm_tracker (snd (demote_to_cold_tier T f now cid S))) =
       (if c = cid then Some COLD else get_tier c (tm_tracker S)))"
  by (rule demote_True [OF assms]; intro conjI allI; assumption)

lemma demote_False:
  assumes "\<not> fst (demote_to_cold_tier T f now cid S)"
  shows "pool_lookup (tm_host_pool (snd (demote_to_cold_tier T f now cid S))) = pool_lookup (tm_host_pool S) \<and>
    (\<forall>c. get_tier c (tm_tracker (snd (demote_to_cold_tier T f now cid S))) = get_tier c (tm_tracker S))"
proof (rule demote_cases [of T f now cid S])
  fix cs t d md
  assume "pool_lookup (tm_host_pool S) cid = Some (cs, t, d)" "demoted_metadata now cid d = Some md"
  then show ?thesis
    using assms by (auto simp: demote_eq Let_def split_beta tier_simps get_state_keeps split: if_splits)
qed (simp add: get_state_keeps)

lemma demote_manager:
  obtains "tm_manager (snd (demote_to_cold_tier T f now cid S)) = tm_manager S"
  | cs t md where "md_conversation_id md = cid"
    "tm_manager (snd (demote_to_cold_tier T f now cid S)) = snd (save_snapshot T f cs t md (tm_manager S))"
proof (rule demote_cases [of T f now cid S])
  fix cs t d md
  assume l: "pool_lookup (tm_host_pool S) cid = Some (cs, t, d)" "demoted_metadata now cid d = Some md"
  then show ?thesis using that(2) [of md cs t] demoted_metadata_fields(1) [OF l(2)]
    by (simp add: demote_eq Let_def split_beta tier_simps)
qed (use that(1) in simp)

lemma demote_disk_frame:
  assumes "tiers_ok T S" "c \<noteq> cid"
  shows "disk_load T' (tm_manager (snd (demote_to_cold_tier T f now cid S))) c s = disk_load T' (tm_manager S) c s"
  by (rule demote_manager [of T f now cid S])
    (simp_all add: save_snapshot_frame tiers_okD(4) [OF assms(1)] assms(2))

lemma tiers_ok_demote:
  assumes "tiers_ok T S"
  shows "tiers_ok T (snd (demote_to_cold_tier T f now cid S))"
proof (rule tiers_okI)
  let ?D = "demote_to_cold_tier T f now cid S"
  note ok = tiers_okD [OF assms]
  show "tracker_ok (tm_tracker (snd ?D))"
    by (rule demote_cases [of T f now cid S])
      (use ok(1) in \<open>auto simp: demote_eq Let_def split_beta cold_save_eq tracker_ok_ops split: sum.split\<close>)
  show "pool_ok T (tm_host_pool (snd ?D))"
    by (rule demote_cases [of T f now cid S])
      (use ok(2) in \<open>auto simp: demote_eq Let_def split_beta tier_simps pool_ok_ops\<close>)
  show "manager_ok (tm_manager (snd ?D))"
    by (rule demote_manager [of T f now cid S]) (simp_all add: ok(3) save_snapshot_manager_ok)
  show "get_tier c (tm_tracker (snd ?D)) \<noteq> None \<and> state_ok T False cs t"
    if "pool_lookup (tm_host_pool (snd ?D)) c = Some (cs, t, d)" for c cs t d
  proof (cases "fst ?D")
    case True
    then show ?thesis using that ok(5,6) demote_True_tiers [OF assms True] by (simp split: if_splits)
  next
    case False
    then show ?thesis using that ok(5,6) by (simp add: demote_False)
  qed
qed

lemma delete_each_eq:
  "archive_ok cid M \<Longrightarrow> \<forall>n \<in> set ns. 0 \<le> n \<Longrightarrow> delete_each cid ns M = (Inr (), drop_turns cid ns M)"
proof (induction ns arbitrary: M)
  case (Cons n ns)
  then have "fst (delete_snapshot cid (Some n) None M) =
      Inr (fs_exists M (meta_loc cid (Inl (nat n))) \<or> fs_exists M (state_loc cid (Inl (nat n))))"
    by (intro archive_delete(1)) simp_all
  moreover have "archive_ok cid (snd (delete_snapshot cid (Some n) None M))"
    using Cons.prems by (simp add: archive_delete_ok)
  ultimately show ?case using Cons by (cases "delete_snapshot cid (Some n) None M") simp
qed simp

lemma archive_one_invalid:
  "tiers_ok T S \<Longrightarrow> \<not> valid_component c \<Longrightarrow> archive_one now c S = (False, S)"
  using tiers_okD(4) [of T S] by (simp add: archive_one_def list_snapshots_bad sanitize_cases)

lemma archive_one_valid:
  assumes "tiers_ok T S" "valid_component c"
  obtains ts where "fst (list_snapshots c (tm_manager S)) = Inr ts" "\<forall>n \<in> set ts. 0 \<le> n"
    "archive_one now c S =
       (True, S\<lparr>tm_manager := drop_turns c ts (snd (list_snapshots c (tm_manager S))),
                tm_tracker := snd (transition_tier now c ARCHIVED None (tm_tracker S))\<rparr>)"
    "archive_ok c (snd (list_snapshots c (tm_manager S)))"
proof -
  have A: "archive_ok c (tm_manager S)"
    using tiers_okD(3) [OF assms(1)] assms(2) by (simp add: archive_ok_def valid_component_def)
  obtain ts where ts: "fst (list_snapshots c (tm_manager S)) = Inr ts"
    using store.listing_sorted [OF A] by blast
  have nn: "\<forall>n \<in> set ts. 0 \<le> n" using ts by (auto simp: archive_listing [OF A] stored_turns_def)
  note A1 = store.listing_ok [OF A]
  obtain r M1 where M1: "list_snapshots c (tm_manager S) = (r, M1)" by fastforce
  then have "archive_one now c S =
      (True, S\<lparr>tm_manager := drop_turns c ts (snd (list_snapshots c (tm_manager S))),
               tm_tracker := snd (transition_tier now c ARCHIVED None (tm_tracker S))\<rparr>)"
    using ts A1 nn by (simp add: archive_one_def delete_each_eq)
  with that ts nn A1 show ?thesis by blast
qed

lemma archive_one_parts [tier_simps]:
  "tm_host_pool (snd (archive_one now c S)) = tm_host_pool S"
  "get_tier x (tm_tracker (snd (archive_one now c S))) =
     (if x = c \<and> fst (archive_one now c S) \<and> get_tier c (tm_tracker S) \<noteq> None
      then Some ARCHIVED else get_tier x (tm_tracker S))"
  by (auto simp: archive_one_def split_beta tracker_simps split: sum.split)

lemma archive_one_disk:
  assumes "tiers_ok T S"
  shows "x \<noteq> c \<Longrightarrow> disk_load T' (tm_manager (snd (archive_one now c S))) x s = disk_load T' (tm_manager S) x s"
    "disk_load T' (tm_manager (snd (archive_one now c S))) c (Inr b) = disk_load T' (tm_manager S) c (Inr b)"
    "valid_component c \<Longrightarrow> fst (archive_one now c S) \<and>
       fst (list_snapshots c (tm_manager (snd (archive_one now c S)))) = Inr []"
proof -
  have "(x \<noteq> c \<longrightarrow> disk_load T' (tm_manager (snd (archive_one now c S))) x s = disk_load T' (tm_manager S) x s) \<and>
    disk_load T' (tm_manager (snd (archive_one now c S))) c (Inr b) = disk_load T' (tm_manager S) c (Inr b) \<and>
    (valid_component c \<longrightarrow> fst (archive_one now c S) \<and>
       fst (list_snapshots c (tm_manager (snd (archive_one now c S)))) = Inr [])"
  proof (cases "valid_component c")
    case False
    then show ?thesis using archive_one_invalid [OF assms] by simp
  next
    case True
    obtain ts where ts: "fst (list_snapshots c (tm_manager S)) = Inr ts" "\<forall>n \<in> set ts. 0 \<le> n"
      "archive_one now c S =
         (True, S\<lparr>tm_manager := drop_turns c ts (snd (list_snapshots c (tm_manager S))),
                  tm_tracker := snd (transition_tier now c ARCHIVED None (tm_tracker S))\<rparr>)"
      "archive_ok c (snd (list_snapshots c (tm_manager S)))"
      by (rule archive_one_valid [OF assms True])
    have A: "archive_ok c (tm_manager S)"
      using tiers_okD(3) [OF assms] True by (simp add: archive_ok_def valid_component_def)
    have l: "disk_load T' (snd (list_snapshots c (tm_manager S))) x s = disk_load T' (tm_manager S) x s" for x s
      by (rule disk_load_cong) (simp add: reads tiers_okD(3) [OF assms])
    have "fst (list_snapshots c (snd (list_snapshots c (tm_manager S)))) = Inr ts"
      using store.listing_same [OF A] ts(1) by simp
    from store.drop_oldest [OF ts(4) this, of "length ts"]
    have "fst (list_snapshots c (drop_turns c ts (snd (list_snapshots c (tm_manager S))))) = Inr []" by simp
    then show ?thesis using drop_turns_frame [OF ts(4,2)] by (simp add: ts(3) l)
  qed
  then show "x \<noteq> c \<Longrightarrow> disk_load T' (tm_manager (snd (archive_one now c S))) x s = disk_load T' (tm_manager S) x s"
    "disk_load T' (tm_manager (snd (archive_one now c S))) c (Inr b) = disk_load T' (tm_manager S) c (Inr b)"
    "valid_component c \<Longrightarrow> fst (archive_one now c S) \<and>
       fst (list_snapshots c (tm_manager (snd (archive_one now c S)))) = Inr []" by blast+
qed

lemma tiers_ok_archive:
  assumes "tiers_ok T S"
  shows "tiers_ok T (snd (archive_one now c S))"
proof (cases "valid_component c")
  case False
  then show ?thesis using archive_one_invalid [OF assms] assms by simp
next
  case True
  obtain ts where ts: "archive_one now c S =
         (True, S\<lparr>tm_manager := drop_turns c ts (snd (list_snapshots c (tm_manager S))),
                  tm_tracker := snd (transition_tier now c ARCHIVED None (tm_tracker S))\<rparr>)"
      "archive_ok c (snd (list_snapshots c (tm_manager S)))"
    by (rule archive_one_valid [OF assms True])
  have "manager_ok (drop_turns c ts (snd (list_snapshots c (tm_manager S))))"
    using store.drop_all_ok [OF ts(2), of ts] by (simp add: archive_ok_def)
  then show ?thesis
    using tiers_okD [OF assms] by (intro tiers_ok_keep [OF assms]) (auto simp: ts(1) tracker_ok_ops tracker_simps)
qed

text \<open>
  The loops of the cleanup cycle: what an iteration does to its own conversation stays
  true to the end, since the other iterations leave that conversation alone.
\<close>

lemma tiers_ok_demote_all: "tiers_ok T S \<Longrightarrow> tiers_ok T (snd (demote_all T fault now cs n S))"
proof (induction cs arbitrary: n S)
  case (Cons c cs)
  then show ?case using tiers_ok_demote [OF Cons.prems, of "fault c" now c]
    by (cases "demote_to_cold_tier T (fault c) now c S") (auto split: bool.split)
qed simp

lemma tiers_ok_archive_all: "tiers_ok T S \<Longrightarrow> tiers_ok T (snd (archive_all now cs n S))"
proof (induction cs arbitrary: n S)
  case (Cons c cs)
  then show ?case using tiers_ok_archive [OF Cons.prems, of now c]
    by (cases "archive_one now c S") (auto split: bool.split)
qed simp

text \<open>The part of the state that concerns one conversation.\<close>

definition same_conv :: "'t torch \<Rightarrow> string \<Rightarrow> 't tiers \<Rightarrow> 't tiers \<Rightarrow> bool" where
  "same_conv T c S S' =
     (pool_lookup (tm_host_pool S') c = pool_lookup (tm_host_pool S) c \<and>
      get_tier c (tm_tracker S') = get_tier c (tm_tracker S) \<and>
      (\<forall>s. disk_load T (tm_manager S') c s = disk_load T (tm_manager S) c s))"

lemma same_conv_refl [simp]: "same_conv T c S S"
  by (simp add: same_conv_def)

lemma same_conv_trans: "same_conv T c S S' \<Longrightarrow> same_conv T c S' S'' \<Longrightarrow> same_conv T c S S''"
  by (simp add: same_conv_def)

lemma demote_same_conv:
  "tiers_ok T S \<Longrightarrow> c \<noteq> cid \<Longrightarrow> same_conv T c S (snd (demote_to_cold_tier T f now cid S))"
  using demote_True_tiers [of T S f now cid] demote_False [of T f now cid S]
  by (cases "fst (demote_to_cold_tier T f now cid S)") (simp_all add: same_conv_def demote_disk_frame)

lemma archive_same_conv: "tiers_ok T S \<Longrightarrow> x \<noteq> c \<Longrightarrow> same_conv T x S (snd (archive_one now c S))"
  by (simp add: same_conv_def tier_simps archive_one_disk)

lemma demote_all_Cons:
  "snd (demote_all T fault now (c # cs) n S) =
     snd (demote_all T fault now cs (if fst (demote_to_cold_tier T (fault c) now c S) then n + 1 else n)
       (snd (demote_to_cold_tier T (fault c) now c S)))"
  by (cases "demote_to_cold_tier T (fault c) now c S") simp

lemma archive_all_Cons:
  "snd (archive_all now (c # cs) n S) =
     snd (archive_all now cs (if fst (archive_one now c S) then n + 1 else n) (snd (archive_one now c S)))"
  by (cases "archive_one now c S") simp

lemma demote_all_others:
  "tiers_ok T S \<Longrightarrow> x \<notin> set cs \<Longrightarrow> same_conv T x S (snd (demote_all T fault now cs n S))"
proof (induction cs arbitrary: n S)
  case (Cons c cs)
  show ?case unfolding demote_all_Cons
    by (rule same_conv_trans [OF demote_same_conv Cons.IH]) (use Cons.prems tiers_ok_demote in auto)
qed simp

lemma archive_all_others:
  "tiers_ok T S \<Longrightarrow> x \<notin> set cs \<Longrightarrow> same_conv T x S (snd (archive_all now cs n S))"
proof (induction cs arbitrary: n S)
  case (Cons c cs)
  show ?case unfolding archive_all_Cons
    by (rule same_conv_trans [OF archive_same_conv Cons.IH]) (use Cons.prems tiers_ok_archive in auto)
qed simp

lemma demote_all_member:
  assumes "tiers_ok T S" "distinct cs" "c \<in> set cs"
  obtains S0 where "tiers_ok T S0" "same_conv T c S S0"
    "same_conv T c (snd (demote_to_cold_tier T (fault c) now c S0)) (snd (demote_all T fault now cs n S))"
  using assms
proof (induction cs arbitrary: n S thesis)
  case (Cons a cs)
  let ?S1 = "snd (demote_to_cold_tier T (fault a) now a S)"
  note ok = tiers_ok_demote [OF Cons.prems(2), of "fault a" now a]
  show ?case
  proof (cases "c = a")
    case True
    then show ?thesis
      using Cons.prems(1) [OF Cons.prems(2)] demote_all_others [OF ok, of c cs fault now] Cons.prems(3)
      unfolding demote_all_Cons by simp
  next
    case False
    then have c: "distinct cs" "c \<in> set cs" using Cons.prems(3,4) by auto
    show ?thesis
    proof (rule Cons.IH [OF _ ok c])
      fix S0
      assume "tiers_ok T S0" "same_conv T c ?S1 S0"
        "same_conv T c (snd (demote_to_cold_tier T (fault c) now c S0)) (snd (demote_all T fault now cs
           (if fst (demote_to_cold_tier T (fault a) now a S) then n + 1 else n) ?S1))"
      then show thesis
        using Cons.prems(1) same_conv_trans [OF demote_same_conv [OF Cons.prems(2) False]]
        unfolding demote_all_Cons by blast
    qed
  qed
qed simp

lemma archive_all_member:
  assumes "tiers_ok T S" "distinct cs" "c \<in> set cs"
  obtains S0 where "tiers_ok T S0" "same_conv T c S S0"
    "same_conv T c (snd (archive_one now c S0)) (snd (archive_all now cs n S))"
  using assms
proof (induction cs arbitrary: n S thesis)
  case (Cons a cs)
  let ?S1 = "snd (archive_one now a S)"
  note ok = tiers_ok_archive [OF Cons.prems(2), of now a]
  show ?case
  proof (cases "c = a")
    case True
    then show ?thesis
      using Cons.prems(1) [OF Cons.prems(2)] archive_all_others [OF ok, of c cs now] Cons.prems(3)
      unfolding archive_all_Cons by simp
  next
    case False
    then have c: "distinct cs" "c \<in> set cs" using Cons.prems(3,4) by auto
    show ?thesis
    proof (rule Cons.IH [OF _ ok c])
      fix S0
      assume "tiers_ok T S0" "same_conv T c ?S1 S0"
        "same_conv T c (snd (archive_one now c S0)) (snd (archive_all now cs
           (if fst (archive_one now a S) then n + 1 else n) ?S1))"
      then show thesis
        using Cons.prems(1) same_conv_trans [OF archive_same_conv [OF Cons.prems(2) False]]
        unfolding archive_all_Cons by blast
    qed
  qed
qed simp

text \<open>What a demotion does to its own conversation, in one statement.\<close>

lemma demote_outcome:
  assumes "tiers_ok T S" "pool_lookup (tm_host_pool S) c = Some (cs, t, d)"
  shows "(pool_lookup (tm_host_pool (snd (demote_to_cold_tier T f now c S))) c = Some (cs, t, d) \<and>
      get_tier c (tm_tracker (snd (demote_to_cold_tier T f now c S))) = get_tier c (tm_tracker S) \<and>
      \<not> fst (demote_to_cold_tier T f now c S)) \<or>
    (pool_lookup (tm_host_pool (snd (demote_to_cold_tier T f now c S))) c = None \<and>
      get_tier c (tm_tracker (snd (demote_to_cold_tier T f now c S))) = Some COLD \<and>
      fst (demote_to_cold_tier T f now c S) \<and>
      (\<exists>n md. demoted_metadata now c d = Some md \<and> md_turn_number md = Some n \<and>
         disk_load T (tm_manager (snd (demote_to_cold_tier T f now c S))) c (Inl (nat n)) = Inr (cs, t, md)))"
proof (cases "fst (demote_to_cold_tier T f now c S)")
  case False
  then show ?thesis using assms(2) demote_False [OF False] by simp
next
  case True
  show ?thesis
  proof (rule demote_True [OF assms(1) True])
    fix cs' t' d' md
    assume l: "pool_lookup (tm_host_pool S) c = Some (cs', t', d')" "demoted_metadata now c d' = Some md" "md_valid md"
      and dl: "disk_load T (tm_manager (snd (demote_to_cold_tier T f now c S))) c (md_slot md) = Inr (cs', t', md)"
    note f = demoted_metadata_fields [OF l(2)]
    obtain n where "md_turn_number md = Some n" "md_slot md = Inl (nat n)"
      using l(3) f(2) by (cases "md_turn_number md") auto
    then show ?thesis using l dl assms(2) demote_True_tiers [OF assms(1) True] True by auto
  qed
qed

lemma cleanup_eq:
  "snd (run_cleanup_cycle T fault now S) =
     snd (archive_all now (overdue_ids now (tm_tracker S) COLD (ct_conversations (tm_tracker S))) 0
       (snd (demote_all T fault now (overdue_ids now (tm_tracker S) WARM (ct_conversations (tm_tracker S))) 0 S)))"
  by (simp add: run_cleanup_cycle_def Let_def split_beta check_transitions_needed_eq)

lemma tiers_ok_cleanup: "tiers_ok T S \<Longrightarrow> tiers_ok T (snd (run_cleanup_cycle T fault now S))"
  unfolding cleanup_eq by (intro tiers_ok_archive_all tiers_ok_demote_all)

lemma overdue_ids_disjoint:
  "tracker_ok K \<Longrightarrow> c \<in> set (overdue_ids now K WARM (ct_conversations K)) \<Longrightarrow>
     c \<notin> set (overdue_ids now K COLD (ct_conversations K))"
  by (auto simp: in_overdue_ids tracker_okD(1) dest: overdue_unique)

lemma tiers_ok_reference:
  assumes "tiers_ok T S"
  shows "tiers_ok T (snd (load_cross_session_reference T now cur ref S))"
proof -
  let ?G = "get_state_for_reference now cur ref (tm_host_pool S)"
  have "pool_lookup (snd ?G) = pool_lookup (tm_host_pool S)"
    by (simp add: get_state_for_reference_def get_state_keeps)
  then have "tiers_ok T (S\<lparr>tm_host_pool := snd ?G\<rparr>)"
    using tiers_okD [OF assms] by (intro tiers_ok_keep [OF assms]) (simp_all add: pool_ok_ops)
  then show ?thesis
    by (simp add: load_cross_session_reference_def split_beta tiers_ok_restore split: option.split)
qed

lemma tiers_ok_restore_latest:
  assumes "tiers_ok T S"
  shows "tiers_ok T (snd (restore_latest T now c S))"
proof -
  have "tiers_ok T (S\<lparr>tm_manager := snd (get_latest_snapshot c (tm_manager S))\<rparr>)"
    using tiers_okD [OF assms] by (intro tiers_ok_keep [OF assms]) (simp_all add: latest_state)
  then show ?thesis using tiers_ok_restore
    by (auto simp: restore_latest_def split_beta split: sum.split option.split)
qed

lemma restore_each_Cons:
  "snd (restore_each T now (c # cs) n S) =
     snd (restore_each T now cs (if fst (restore_latest T now c S) then n + 1 else n) (snd (restore_latest T now c S)))"
  by (cases "restore_latest T now c S") simp

lemma tiers_ok_restore_each: "tiers_ok T S \<Longrightarrow> tiers_ok T (snd (restore_each T now cs n S))"
proof (induction cs arbitrary: n S)
  case (Cons c cs)
  show ?case unfolding restore_each_Cons by (intro Cons.IH tiers_ok_restore_latest Cons.prems)
qed simp

end
