(* ===== verification/Tier_Properties.thy ===== *)
theory Tier_Properties
  imports Tier_Laws
begin

section \<open>Properties of the tier manager\<close>

text \<open>
  The invariant over all interleavings of calls and background ticks, the two ways a state
  comes back (from host memory, from disk with promotion), demotion, the cleanup cycle, the
  restore at startup, and the conversation that falls between the tiers.
\<close>

subsection \<open>Reachable states\<close>

text \<open>
  The states that calls from the scheduler, ticks of the background thread and direct use
  of the snapshot manager and the tracker can reach, in any order, from a new tier manager
  over an existing snapshot directory.
\<close>

inductive tier_reach :: "'t torch \<Rightarrow> 't tiers \<Rightarrow> bool" for T where
  start: "manager_ok M \<Longrightarrow> tier_reach T (init_tiers (init_tracker a w c) (init_host_pool n gb refs) M bg iv mp)"
| save_warm: "tier_reach T S \<Longrightarrow> tier_reach T (snd (save_to_warm_tier T now cid cs t md pol S))"
| save_cold: "tier_reach T S \<Longrightarrow> tier_reach T (snd (save_to_cold_tier T f now cid cs t smd S))"
| restore: "tier_reach T S \<Longrightarrow> tier_reach T (snd (restore_conversation T now cid turn S))"
| reference: "tier_reach T S \<Longrightarrow> tier_reach T (snd (load_cross_session_reference T now cur ref S))"
| demote: "tier_reach T S \<Longrightarrow> tier_reach T (snd (demote_to_cold_tier T f now cid S))"
| tick: "tier_reach T S \<Longrightarrow> tier_reach T (background_tick T fault now S)"
| start_cleanup: "tier_reach T S \<Longrightarrow> tier_reach T (start_background_cleanup S)"
| stop_cleanup: "tier_reach T S \<Longrightarrow> tier_reach T (stop_background_cleanup S)"
| startup: "tier_reach T S \<Longrightarrow> tier_reach T (snd (restore_latest_snapshots_to_warm_tier T now S))"
| set_tier: "tier_reach T S \<Longrightarrow> tier_reach T (S\<lparr>tm_tracker := snd (transition_tier now cid tier idx (tm_tracker S))\<rparr>)"
| store_save: "tier_reach T S \<Longrightarrow> tier_reach T (S\<lparr>tm_manager := snd (save_snapshot T f cs t smd (tm_manager S))\<rparr>)"
| store_delete: "tier_reach T S \<Longrightarrow> tier_reach T (S\<lparr>tm_manager := snd (delete_snapshot cid turn br (tm_manager S))\<rparr>)"

lemma new_tiers_empty [simp]: "pool_lookup (init_host_pool n gb refs) c = None" "get_tier c (init_tracker a w r) = None"
  by (simp_all add: pool_lookup_def init_host_pool_def get_tier_def init_tracker_def)

lemma tiers_ok_init:
  "manager_ok M \<Longrightarrow> tiers_ok T (init_tiers (init_tracker a w c) (init_host_pool n gb refs) M bg iv mp)"
  by (rule tiers_okI; cases bg)
    (simp_all add: init_tiers_def start_background_cleanup_def Let_def tracker_ok_ops pool_ok_ops)

lemma tiers_ok_flags:
  "tiers_ok T S \<Longrightarrow> tiers_ok T (start_background_cleanup S)"
  "tiers_ok T S \<Longrightarrow> tiers_ok T (stop_background_cleanup S)"
  by (simp_all add: start_background_cleanup_def stop_background_cleanup_def tiers_ok_def)

lemma tiers_ok_tracker:
  "tiers_ok T S \<Longrightarrow> tiers_ok T (S\<lparr>tm_tracker := snd (transition_tier now cid tier idx (tm_tracker S))\<rparr>)"
  by (rule tiers_ok_keep, assumption)
    (simp_all add: tracker_ok_ops tracker_simps tiers_okD(1,2,3))

lemma tiers_ok_manager: "tiers_ok T S \<Longrightarrow> manager_ok M \<Longrightarrow> tiers_ok T (S\<lparr>tm_manager := M\<rparr>)"
  by (rule tiers_ok_keep, assumption) (simp_all add: tiers_okD(1,2))

lemma tier_reach_ok: "tier_reach T S \<Longrightarrow> tiers_ok T S"
  by (induction rule: tier_reach.induct)
    (simp_all add: tiers_ok_init tiers_ok_warm_save tiers_ok_cold_save tiers_ok_restore tiers_ok_reference
      tiers_ok_demote background_tick_def tiers_ok_cleanup tiers_ok_flags restore_latest_snapshots_to_warm_tier_def
      tiers_ok_restore_each tiers_ok_tracker tiers_ok_manager save_snapshot_manager_ok delete_snapshot_manager_ok
      tiers_okD(3))

text \<open>A tier manager with room for one conversation, over an empty directory.\<close>

definition sample_tiers :: "mat tiers" where
  "sample_tiers = init_tiers (init_tracker 300 1800 604800) (init_host_pool 1 1 True) sample_manager False 60 (Some ''m'')"

lemma sample_tiers_ok [simp]: "tiers_ok mat_torch sample_tiers"
  unfolding sample_tiers_def by (rule tiers_ok_init) simp

lemma sample_fits [simp]: "fits mat_torch [[[1]]] [[2]] (init_host_pool 1 1 True)"
  by (simp add: fits_def init_host_pool_def tensor_bytes_def mat_torch_def py_trunc_def)

lemma sample_tiers_parts [simp]:
  "tm_host_pool sample_tiers = init_host_pool 1 1 True" "tm_manager sample_tiers = sample_manager"
  "tm_tracker sample_tiers = init_tracker 300 1800 604800" "tm_model_path sample_tiers = Some ''m''"
  by (simp_all add: sample_tiers_def init_tiers_def)

text \<open>
  C10: in every state that the calls, the background thread and direct uses of the parts can
  reach, in any interleaving, host memory respects its two bounds, every state held there
  belongs to a registered conversation and has passed validation, and the snapshot
  directory and the registry are well formed.
\<close>

theorem tiers_invariant:
  assumes "tier_reach T S"
  shows "(\<forall>c cs t d. pool_lookup (tm_host_pool S) c = Some (cs, t, d) \<longrightarrow>
      get_tier c (tm_tracker S) \<noteq> None \<and> vr_is_valid (validate_state_tensors T cs t None False)) \<and>
    (pool_len (tm_host_pool S) \<noteq> 0 \<longrightarrow>
       int (pool_len (tm_host_pool S)) \<le> hp_max_conversations (tm_host_pool S) \<and>
       hp_current_memory_bytes (tm_host_pool S) \<le> hp_max_memory_bytes (tm_host_pool S)) \<and>
    tracker_ok (tm_tracker S) \<and> manager_ok (tm_manager S)"
proof -
  note ok = tiers_okD [OF tier_reach_ok [OF assms]]
  show ?thesis using ok(1-3) ok(5,6) by (auto simp: is_valid_iff pool_ok_def pool_len_def)
qed

theorem tiers_invariant_witness:
  "let S = background_tick mat_torch (\<lambda>_. None) 9 (snd (save_to_warm_tier mat_torch 1 ''c1'' [[[1]]] [[2]] None ''raise'' sample_tiers))
   in tracker_ok (tm_tracker S) \<and> manager_ok (tm_manager S)"
proof -
  have "tier_reach mat_torch (background_tick mat_torch (\<lambda>_. None) 9
      (snd (save_to_warm_tier mat_torch 1 ''c1'' [[[1]]] [[2]] None ''raise'' sample_tiers)))"
    unfolding sample_tiers_def by (intro tier_reach.tick tier_reach.save_warm tier_reach.start) simp
  from tiers_invariant [OF this] show ?thesis by (simp add: Let_def)
qed

text \<open>
  C15: a conversation saved to the warm tier is restored from it. After a save that reports
  success, the conversation is in the warm tier and restoring it gives back the tensors and
  the metadata saved, unless the metadata names another model, when the restore raises
  \<open>ValueError\<close>. The turn number asked for plays no role: with a state in host memory the
  restore of any turn returns that state.
\<close>

theorem warm_save_restores:
  assumes "tiers_ok T S" and "save_to_warm_tier T now cid cs t (Some d) pol S = (Inr True, S')"
  shows "get_tier cid (tm_tracker S') = Some WARM \<and>
    fst (restore_conversation T now' cid turn S') =
      (if model_mismatch (tm_model_path S') (dict_get d ''model_name'' JNull) then Inl ValueError
       else Inr (Some (cs, t, d)))"
proof -
  note ok = tiers_okD [OF assms(1)]
  have S': "S' = snd (save_to_warm_tier T now cid cs t (Some d) pol S)" using assms(2) by simp
  have s: "state_ok T False cs t" "fits T cs t (tm_host_pool S)"
    using assms(2) warm_save_result [OF ok(2), of now cid cs t "Some d" pol] by (auto split: if_splits)
  then have hit: "fst (save_state T now cid cs t (Some d) (tm_host_pool S))" using ok(2) by (simp add: save_state_fst)
  have "pool_lookup (tm_host_pool S') cid = Some (cs, t, d)"
    using save_state_hit [OF hit] s(1) by (simp add: S' tier_simps pool_lookup_def entry_state_def)
  then show ?thesis using s(1) hit by (simp add: restore_conversation_warm S' tier_simps)
qed

theorem warm_save_restores_witness:
  "fst (restore_conversation mat_torch 2 ''c1'' (Some 7)
     (snd (save_to_warm_tier mat_torch 1 ''c1'' [[[1]]] [[2]] (Some [(''turn_number'', JInt 3)]) ''raise'' sample_tiers))) =
   Inr (Some ([[[1]]], [[2]], [(''turn_number'', JInt 3)]))"
proof -
  let ?W = "save_to_warm_tier mat_torch 1 ''c1'' [[[1]]] [[2]] (Some [(''turn_number'', JInt 3)]) ''raise'' sample_tiers"
  have "fst ?W = Inr True"
    using warm_save_result [OF tiers_okD(2) [OF sample_tiers_ok]] by simp
  then have "?W = (Inr True, snd ?W)" by (metis prod.collapse)
  from warm_save_restores [OF sample_tiers_ok this, of 2 "Some 7"] show ?thesis
    by (simp add: model_mismatch_def dict_get_def)
qed

lemma cold_turn_given [simp]: "cold_turn cid (Some n) M = (Inr (Some n), M)"
  by (simp add: cold_turn_def)

lemma cold_turn_latest:
  "fst (cold_turn cid None M) = Inr (Some n) \<longleftrightarrow> (\<exists>md. fst (get_latest_snapshot cid M) = Inr (Some (n, md)))"
  by (auto simp: cold_turn_def split_beta split: sum.split option.split)

lemma load_cong:
  assumes "base_ok M" "base_ok M'" "\<And>l. fs_read M' l = fs_read M l"
  shows "fst (load_snapshot T cid turn br M') = fst (load_snapshot T cid turn br M)"
  using assms(1,2) disk_load_cong [of M' M T cid, OF assms(3)] by (simp add: load_snapshot_result)

lemma restore_cold_loaded:
  assumes "manager_ok (tm_manager S)" "fst (cold_turn cid turn (tm_manager S)) = Inr (Some n)"
    "fst (load_snapshot T cid (Some n) None (tm_manager S)) = Inr (cs, t, md)"
    "\<not> model_mismatch (tm_model_path S) (JStr (md_model_name md))"
  shows "fst (restore_from_cold_tier T now cid turn S) = Inr (Some (cs, t, md))"
proof -
  note c = cold_turn_state [OF assms(1), of cid turn]
  have "fst (load_snapshot T cid (Some n) None (snd (cold_turn cid turn (tm_manager S)))) = Inr (cs, t, md)"
    using load_cong [of "tm_manager S" "snd (cold_turn cid turn (tm_manager S))" T cid "Some n" None] c assms(1,3)
    by (simp add: manager_ok_parts)
  then show ?thesis using assms(2,4) by (simp add: restore_cold_fst cold_body_split Let_def)
qed

lemma restore_cold_loads:
  assumes "fst (restore_from_cold_tier T now cid (Some n) S) = Inr (Some v)"
  shows "fst (load_snapshot T cid (Some n) None (tm_manager S)) = Inr v"
  using assms
  by (auto simp: restore_cold_fst cold_body_split Let_def split: sum.splits if_splits)

lemma to_dict_model [simp]: "dict_get (to_dict md) ''model_name'' JNull = JStr (md_model_name md)"
  by (simp add: to_dict_def dict_get_def)

text \<open>
  C17: a conversation that is only on disk is restored from disk and promoted. If it has no
  state in host memory and either a turn is asked for or the conversation is in the cold
  tier (then its latest turn is taken), the restore returns the tensors and the metadata of
  that snapshot; and if the state fits into host memory, the conversation is then in the
  warm tier and every later restore, whatever the turn, is served from there.
\<close>

theorem restore_promotes:
  assumes "tiers_ok T S" and "\<not> has_state cid (tm_host_pool S)"
    and "turn = Some n \<or> turn = None \<and> get_tier cid (tm_tracker S) = Some COLD \<and>
      (\<exists>md0. fst (get_latest_snapshot cid (tm_manager S)) = Inr (Some (n, md0)))"
    and "fst (load_snapshot T cid (Some n) None (tm_manager S)) = Inr (cs, t, md)"
    and "\<not> model_mismatch (tm_model_path S) (JStr (md_model_name md))"
  shows "fst (restore_conversation T now cid turn S) = Inr (Some (cs, t, to_dict md)) \<and>
    (fits T cs t (tm_host_pool S) \<longrightarrow>
       get_tier cid (tm_tracker (snd (restore_conversation T now cid turn S))) = Some WARM \<and>
       fst (restore_conversation T now' cid turn' (snd (restore_conversation T now cid turn S))) =
         Inr (Some (cs, t, to_dict md)))"
proof -
  let ?S1 = "after_warm now cid S"
  let ?C = "restore_from_cold_tier T now cid turn ?S1"
  let ?S' = "snd (restore_conversation T now cid turn S)"
  have none: "pool_lookup (tm_host_pool S) cid = None" using assms(2) by (simp only: has_state_lookup not_not)
  have "fst (cold_turn cid turn (tm_manager ?S1)) = Inr (Some n)"
    using assms(3) by (auto simp: tier_simps cold_turn_latest)
  then have C: "fst ?C = Inr (Some (cs, t, md))"
    using tiers_okD(3) [OF assms(1)] assms(4,5) by (intro restore_cold_loaded) (simp_all add: tier_simps)
  have S': "?S' = snd (save_to_warm_tier T now cid cs t (Some (to_dict md)) ''log_and_continue'' (snd ?C))"
    and res: "fst (restore_conversation T now cid turn S) = Inr (Some (cs, t, to_dict md))"
    using assms(3) C by (auto simp: restore_conversation_cold [OF none] Let_def)
  have s: "state_ok T False cs t"
    using load_state_ok [of T "tm_manager S" cid "Inl (nat n)"] assms(4) tiers_okD(4) [OF assms(1)]
    by (auto simp: load_snapshot_result split: if_splits)
  have P: "pool_ok T (tm_host_pool (snd ?C))"
    by (rule tiers_okD(2) [OF tiers_ok_restore_cold [OF tiers_ok_after_warm [OF assms(1)]]])
  show ?thesis
  proof (intro conjI impI res)
    assume "fits T cs t (tm_host_pool S)"
    then have "fits T cs t (tm_host_pool (snd ?C))"
      by (auto simp: tier_simps after_warm_def fits_def get_state_def Let_def split: option.split)
    then have hit: "fst (save_state T now cid cs t (Some (to_dict md)) (tm_host_pool (snd ?C)))"
      using P by (simp add: save_state_fst)
    then show "get_tier cid (tm_tracker ?S') = Some WARM" using s by (simp add: S' tier_simps)
    have m: "tm_model_path ?S' = tm_model_path S"
      by (simp add: S' save_to_warm_tier_def Let_def split_beta tier_simps)
    have "pool_lookup (tm_host_pool ?S') cid = Some (cs, t, to_dict md)"
      using save_state_hit [OF hit] s by (simp add: S' tier_simps pool_lookup_def entry_state_def)
    then show "fst (restore_conversation T now' cid turn' ?S') = Inr (Some (cs, t, to_dict md))"
      using assms(5) m by (simp add: restore_conversation_warm)
  qed
qed

theorem restore_promotes_witness:
  "fst (restore_conversation mat_torch 2 ''c1'' (Some 3)
     (sample_tiers\<lparr>tm_manager := snd (save_snapshot mat_torch None [[[1]]] [[2]] (sample_md ''c1'' (Some 3) None) sample_manager)\<rparr>)) =
   Inr (Some ([[[1]]], [[2]], to_dict (sample_md ''c1'' (Some 3) None)))"
proof -
  let ?md = "sample_md ''c1'' (Some 3) None"
  let ?M = "snd (save_snapshot mat_torch None [[[1]]] [[2]] ?md sample_manager)"
  have "tiers_ok mat_torch (sample_tiers\<lparr>tm_manager := ?M\<rparr>)"
    by (intro tiers_ok_manager sample_tiers_ok save_snapshot_manager_ok sample_manager_ok)
  moreover have "fst (load_snapshot mat_torch ''c1'' (Some 3) None ?M) = Inr ([[[1]]], [[2]], ?md)"
    using saved_loads [OF sample_manager_ok sample_state_ok, of ?md] by simp
  ultimately show ?thesis
    using restore_promotes [of mat_torch "sample_tiers\<lparr>tm_manager := ?M\<rparr>" "''c1''" "Some 3" 3 "[[[1]]]" "[[2]]" ?md 2 0 None]
    by (simp add: has_state_lookup model_mismatch_def sample_md_def)
qed

text \<open>
  C20: a demotion never loses a state. Either it reports success, and then the conversation is
  in the cold tier, out of host memory, and its turn loads from disk the tensors that were
  in host memory; or it reports failure, and then the state is still in host memory and the
  tier is unchanged. No other conversation is affected, in memory, on disk or in the
  registry. The token ids kept with the state (\<open>fill_ids\<close>) do not reach the disk.
\<close>

theorem demotion_never_loses:
  assumes "tiers_ok T S" and "pool_lookup (tm_host_pool S) c = Some (cs, t, d)"
  shows "(if fst (demote_to_cold_tier T f now c S)
     then \<not> has_state c (tm_host_pool (snd (demote_to_cold_tier T f now c S))) \<and>
       get_tier c (tm_tracker (snd (demote_to_cold_tier T f now c S))) = Some COLD \<and>
       (\<exists>n md. fst (load_snapshot T c (Some n) None (tm_manager (snd (demote_to_cold_tier T f now c S)))) =
          Inr (cs, t, md) \<and> md_fill_ids md = None)
     else pool_lookup (tm_host_pool (snd (demote_to_cold_tier T f now c S))) c = Some (cs, t, d) \<and>
       get_tier c (tm_tracker (snd (demote_to_cold_tier T f now c S))) = get_tier c (tm_tracker S)) \<and>
    (\<forall>c'. c' \<noteq> c \<longrightarrow> same_conv T c' S (snd (demote_to_cold_tier T f now c S)))"
proof -
  let ?D = "demote_to_cold_tier T f now c S"
  have "\<exists>n md. fst (load_snapshot T c (Some n) None (tm_manager (snd ?D))) = Inr (cs, t, md) \<and> md_fill_ids md = None"
    if True: "fst ?D"
  proof (rule demote_True [OF assms(1) True])
    fix cs' t' d' md
    assume l: "pool_lookup (tm_host_pool S) c = Some (cs', t', d')" "demoted_metadata now c d' = Some md" "md_valid md"
      and dl: "disk_load T (tm_manager (snd ?D)) c (md_slot md) = Inr (cs', t', md)"
    note f = demoted_metadata_fields [OF l(2)]
    obtain n where n: "md_turn_number md = Some n" "valid_component c" "0 \<le> n"
      using l(3) f(1,2) by (cases "md_turn_number md") auto
    have "base_ok (tm_manager (snd ?D))" by (rule tiers_okD(4) [OF tiers_ok_demote [OF assms(1)]])
    then have "fst (load_snapshot T c (Some n) None (tm_manager (snd ?D))) = Inr (cs, t, md)"
      using dl l(1) n f(2) assms(2) by (simp add: load_snapshot_result)
    then show ?thesis using f(3) by blast
  qed
  then show ?thesis
    using demote_outcome [OF assms, of f now] demote_same_conv [OF assms(1)]
    by (auto simp: has_state_lookup)
qed

theorem demotion_never_loses_witness:
  "fst (demote_to_cold_tier mat_torch (Some Fail_save_file) 2 ''c1''
     (snd (save_to_warm_tier mat_torch 1 ''c1'' [[[1]]] [[2]] (Some []) ''raise'' sample_tiers))) = False \<and>
   has_state ''c1'' (tm_host_pool (snd (demote_to_cold_tier mat_torch (Some Fail_save_file) 2 ''c1''
     (snd (save_to_warm_tier mat_torch 1 ''c1'' [[[1]]] [[2]] (Some []) ''raise'' sample_tiers)))))"
proof -
  let ?S = "snd (save_to_warm_tier mat_torch 1 ''c1'' [[[1]]] [[2]] (Some []) ''raise'' sample_tiers)"
  have ok: "tiers_ok mat_torch ?S" by (rule tiers_ok_warm_save [OF sample_tiers_ok])
  have hit: "fst (save_state mat_torch 1 ''c1'' [[[1]]] [[2]] (Some []) (init_host_pool 1 1 True))"
    by (simp add: save_state_fst pool_ok_ops)
  have l: "pool_lookup (tm_host_pool ?S) ''c1'' = Some ([[[1]]], [[2]], [])"
    using save_state_hit [OF hit] by (simp add: tier_simps pool_lookup_def entry_state_def)
  obtain md where md: "demoted_metadata 2 ''c1'' [] = Some md"
    by (simp add: demoted_metadata_def dict_get_def)
  have "\<not> fst (demote_to_cold_tier mat_torch (Some Fail_save_file) 2 ''c1'' ?S)"
    using tiers_okD(4) [OF ok] by (auto simp: demote_eq [OF l md] Let_def split_beta cold_save_result tier_simps)
  then show ?thesis
    using demotion_never_loses [OF ok l, of "Some Fail_save_file" 2] by (simp add: has_state_lookup)
qed

text \<open>
  C40: a conversation whose warm state was evicted by the memory bound is out of reach.
  The registry still has it in the warm tier; restoring it without a turn number returns
  nothing even when its snapshots are on disk, demoting it reports failure, and no cleanup
  cycle ever changes its tier.
\<close>

theorem evicted_warm_unreachable:
  assumes "tiers_ok T S" and "get_tier c (tm_tracker S) = Some WARM" and "\<not> has_state c (tm_host_pool S)"
  shows "fst (restore_conversation T now c None S) = Inr None \<and>
    \<not> fst (demote_to_cold_tier T f now c S) \<and>
    get_tier c (tm_tracker (snd (run_cleanup_cycle T fault now S))) = Some WARM \<and>
    \<not> has_state c (tm_host_pool (snd (run_cleanup_cycle T fault now S)))"
proof -
  let ?K = "tm_tracker S"
  let ?W = "overdue_ids now ?K WARM (ct_conversations ?K)" and ?A = "overdue_ids now ?K COLD (ct_conversations ?K)"
  note ok = tiers_okD(1) [OF assms(1)]
  have l: "pool_lookup (tm_host_pool S) c = None" using assms(3) by (simp only: has_state_lookup not_not)
  have d: "\<not> fst (demote_to_cold_tier T g now c S0) \<and>
      pool_lookup (tm_host_pool (snd (demote_to_cold_tier T g now c S0))) c = None \<and>
      get_tier c (tm_tracker (snd (demote_to_cold_tier T g now c S0))) = Some WARM"
    if "same_conv T c S S0" for g S0
    using that assms(2) l demote_none [of S0 c now T g] by (simp add: same_conv_def get_state_keeps)
  let ?S1 = "snd (demote_all T fault now ?W 0 S)"
  have c1: "pool_lookup (tm_host_pool ?S1) c = None \<and> get_tier c (tm_tracker ?S1) = Some WARM"
  proof (cases "c \<in> set ?W")
    case True
    show ?thesis
      by (rule demote_all_member [OF assms(1) distinct_overdue_ids [OF tracker_okD(1) [OF ok]] True, of fault now 0])
        (use d in \<open>simp add: same_conv_def\<close>)
  next
    case False
    then show ?thesis using demote_all_others [OF assms(1) False, of fault now 0] l assms(2) by (simp add: same_conv_def)
  qed
  have "c \<notin> set ?A"
    using assms(2) by (auto simp: in_overdue_ids tracker_okD(1) [OF ok] overdue_def get_tier_def)
  then have "same_conv T c ?S1 (snd (run_cleanup_cycle T fault now S))"
    unfolding cleanup_eq by (intro archive_all_others tiers_ok_demote_all assms(1))
  then show ?thesis
    using c1 d [OF same_conv_refl, of f] l assms(2)
    by (simp add: restore_conversation_cold Let_def same_conv_def has_state_lookup)
qed

text \<open>The second conversation pushes the first one out of a pool that has room for one.\<close>

theorem evicted_warm_unreachable_witness:
  "let M = snd (save_snapshot mat_torch None [[[1]]] [[2]] (sample_md ''c1'' (Some 3) None) sample_manager);
       S1 = snd (save_to_warm_tier mat_torch 1 ''c1'' [[[1]]] [[2]] None ''raise'' (sample_tiers\<lparr>tm_manager := M\<rparr>));
       S2 = snd (save_to_warm_tier mat_torch 2 ''c2'' [[[1]]] [[2]] None ''raise'' S1)
   in fst (load_snapshot mat_torch ''c1'' (Some 3) None (tm_manager S2)) = Inr ([[[1]]], [[2]], sample_md ''c1'' (Some 3) None) \<and>
      fst (restore_conversation mat_torch 3 ''c1'' None S2) = Inr None"
proof -
  let ?md = "sample_md ''c1'' (Some 3) None"
  let ?M = "snd (save_snapshot mat_torch None [[[1]]] [[2]] ?md sample_manager)"
  let ?S0 = "sample_tiers\<lparr>tm_manager := ?M\<rparr>"
  let ?S1 = "snd (save_to_warm_tier mat_torch 1 ''c1'' [[[1]]] [[2]] None ''raise'' ?S0)"
  let ?S2 = "snd (save_to_warm_tier mat_torch 2 ''c2'' [[[1]]] [[2]] None ''raise'' ?S1)"
  have ok: "tiers_ok mat_torch ?S2"
    by (intro tiers_ok_warm_save tiers_ok_manager sample_tiers_ok save_snapshot_manager_ok sample_manager_ok)
  have P: "hp_pool (snd (save_state mat_torch 2 ''c2'' [[[1]]] [[2]] None
      (snd (save_state mat_torch 1 ''c1'' [[[1]]] [[2]] None (init_host_pool 1 1 True))))) =
      [(''c2'', new_entry 2 ''c2'' [[[1]]] [[2]] None)]"
    by (simp add: save_state_def make_space.simps must_evict_def evict_lru_def init_host_pool_def Let_def
        memory_bytes_def tensor_bytes_def mat_torch_def py_trunc_def)
  have "fst (save_state mat_torch 1 ''c1'' [[[1]]] [[2]] None (init_host_pool 1 1 True))"
    by (simp add: save_state_fst pool_ok_ops)
  then have "get_tier ''c1'' (tm_tracker ?S2) = Some WARM" "\<not> has_state ''c1'' (tm_host_pool ?S2)"
    by (simp_all add: tier_simps has_state_def P od_mem_iff)
  from evicted_warm_unreachable [OF ok this, of 3] show ?thesis
    using saved_loads [OF sample_manager_ok sample_state_ok, of ?md] by (simp add: Let_def tier_simps)
qed

text \<open>What archiving does to its own conversation.\<close>

lemma archive_outcome:
  assumes "tiers_ok T S" "valid_component c"
  shows "fst (archive_one now c S) \<and>
    (\<forall>n. 0 \<le> n \<longrightarrow> disk_load T (tm_manager (snd (archive_one now c S))) c (Inl (nat n)) = Inl FileNotFoundError) \<and>
    (\<forall>b. disk_load T (tm_manager (snd (archive_one now c S))) c (Inr b) = disk_load T (tm_manager S) c (Inr b))"
proof -
  let ?M = "tm_manager (snd (archive_one now c S))"
  have a: "fst (archive_one now c S)" "fst (list_snapshots c ?M) = Inr []"
    using archive_one_disk(3) [OF assms] by blast+
  have "archive_ok c ?M"
    using tiers_okD(3) [OF tiers_ok_archive [OF assms(1), of now c]] assms(2)
    by (simp add: archive_ok_def valid_component_def)
  then have "stored_turns ?M c = {}" using archive_listing [of c ?M "[]"] a(2) by simp
  then have "disk_load T ?M c (Inl (nat n)) = Inl FileNotFoundError" if "0 \<le> n" for n
    using that by (auto simp: stored_turns_def fs_exists_def disk_load_def read_snapshot_def)
  then show ?thesis using a(1) archive_one_disk(2) [OF assms(1)] by blast
qed

lemma overdue_tier:
  assumes "tracker_ok K" "c \<in> set (overdue_ids now K k (ct_conversations K))"
  shows "get_tier c K = Some k"
  using assms(2) by (auto simp: in_overdue_ids tracker_okD(1) [OF assms(1)] overdue_def get_tier_def)

text \<open>An overdue warm conversation after all demotions of a cycle.\<close>

lemma demote_all_overdue:
  assumes "tiers_ok T S" "W = overdue_ids now (tm_tracker S) WARM (ct_conversations (tm_tracker S))" "c \<in> set W"
    and "pool_lookup (tm_host_pool S) c = Some (cs, t, e)" "S1 = snd (demote_all T fault now W 0 S)"
  shows "pool_lookup (tm_host_pool S1) c = Some (cs, t, e) \<and> get_tier c (tm_tracker S1) = Some WARM \<or>
    pool_lookup (tm_host_pool S1) c = None \<and> get_tier c (tm_tracker S1) = Some COLD \<and>
    (\<exists>n md. demoted_metadata now c e = Some md \<and> md_turn_number md = Some n \<and>
       disk_load T (tm_manager S1) c (Inl (nat n)) = Inr (cs, t, md))"
proof (rule demote_all_member [OF assms(1) _ assms(3), of fault now 0])
  note K = tiers_okD(1) [OF assms(1)]
  show "distinct W" unfolding assms(2) by (rule distinct_overdue_ids [OF tracker_okD(1) [OF K]])
  fix S0
  assume "tiers_ok T S0" "same_conv T c S S0"
    "same_conv T c (snd (demote_to_cold_tier T (fault c) now c S0)) (snd (demote_all T fault now W 0 S))"
  then show ?thesis
    using demote_outcome [of T S0 c cs t e "fault c" now] assms(4,5) overdue_tier [OF K assms(3) [unfolded assms(2)]]
    by (auto simp: same_conv_def)
qed



text \<open>A warm state that is the latest turn of its conversation on the disk \<open>M\<close>.\<close>

definition from_latest :: "'t torch \<Rightarrow> 't manager \<Rightarrow> string \<Rightarrow> 't list \<times> 't \<times> pydict \<Rightarrow> bool" where
  "from_latest T M c v =
     (case fst (get_latest_snapshot c M) of
        Inr (Some (n, _)) \<Rightarrow>
          (case fst (load_snapshot T c (Some n) None M) of
             Inr (cs, t, md) \<Rightarrow> v = (cs, t, to_dict md)
           | Inl _ \<Rightarrow> False)
      | _ \<Rightarrow> False)"

lemma latest_valid:
  assumes "manager_ok M" "fst (get_latest_snapshot c M) = Inr r"
  shows "archive_ok c M"
proof (rule ccontr)
  assume "\<not> archive_ok c M"
  then have "\<not> valid_component c" using assms(1) by (simp add: archive_ok_def valid_component_def)
  then show False
    using assms by (simp add: get_latest_snapshot_def list_snapshots_bad manager_ok_parts sanitize_cases)
qed

lemma latest_transfer:
  assumes "manager_ok M" "manager_ok M'" "\<And>l. fs_read M' l = fs_read M l" "fst (get_latest_snapshot c M') = Inr r"
  shows "fst (get_latest_snapshot c M) = Inr r"
proof -
  have "archive_ok c M'" by (rule latest_valid [OF assms(2,4)])
  then have "archive_ok c M" using assms(1) by (simp add: archive_ok_def)
  then show ?thesis using latest_cong [OF _ \<open>archive_ok c M'\<close> assms(3)] assms(4) by simp
qed

text \<open>A state that one step of the startup loop puts into the pool is the latest snapshot.\<close>

lemma restored_from_latest:
  assumes "tiers_ok T S" "manager_ok M" "\<And>l. fs_read (tm_manager S) l = fs_read M l"
    and "fst (get_latest_snapshot x M) = Inr (Some (n, md))"
    and "\<And>v. pool_lookup (tm_host_pool S) c = Some v \<Longrightarrow> from_latest T M c v"
    and l: "pool_lookup (tm_host_pool (snd (restore_conversation T now x (Some n) S))) c = Some v"
  shows "from_latest T M c v"
proof -
  consider "pool_lookup (tm_host_pool S) c = Some v"
    | cs t md' where "c = x" "v = (cs, t, to_dict md')"
      "fst (restore_from_cold_tier T now x (Some n) (after_warm now x S)) = Inr (Some (cs, t, md'))"
    using restore_pool [OF assms(1) l] by auto
  then show ?thesis
  proof cases
    case 2
    have "fst (load_snapshot T x (Some n) None (tm_manager S)) = Inr (cs, t, md')"
      using restore_cold_loads [OF 2(3)] by (simp add: tier_simps)
    then have "fst (load_snapshot T x (Some n) None M) = Inr (cs, t, md')"
      using load_cong [of M "tm_manager S" T x "Some n" None] assms(3) tiers_okD(4) [OF assms(1)] assms(2)
      by (simp add: manager_ok_parts)
    then show ?thesis using 2(1,2) assms(4) by (simp add: from_latest_def)
  qed (rule assms(5))
qed

lemma restore_latest_step:
  assumes "tiers_ok T S" "manager_ok M" "\<And>l. fs_read (tm_manager S) l = fs_read M l"
    and "\<And>c v. pool_lookup (tm_host_pool S) c = Some v \<Longrightarrow> from_latest T M c v"
  shows "fs_read (tm_manager (snd (restore_latest T now x S))) l = fs_read M l"
    and "pool_lookup (tm_host_pool (snd (restore_latest T now x S))) c = Some v \<Longrightarrow> from_latest T M c v"
proof -
  note ok = tiers_okD [OF assms(1)]
  let ?G = "get_latest_snapshot x (tm_manager S)"
  let ?S1 = "S\<lparr>tm_manager := snd ?G\<rparr>"
  have ok1: "tiers_ok T ?S1" using ok(3) by (intro tiers_ok_manager assms(1)) (simp add: latest_state)
  have fs1: "fs_read (tm_manager ?S1) l = fs_read M l" for l using assms(3) ok(3) by (simp add: reads)
  have "(\<forall>l. fs_read (tm_manager (snd (restore_latest T now x S))) l = fs_read M l) \<and>
    (\<forall>c v. pool_lookup (tm_host_pool (snd (restore_latest T now x S))) c = Some v \<longrightarrow> from_latest T M c v)"
  proof (cases "\<exists>n md. fst ?G = Inr (Some (n, md))")
    case False
    then have "snd (restore_latest T now x S) = ?S1"
      by (auto simp: restore_latest_def split_beta split: sum.split option.split)
    then show ?thesis using fs1 assms(4) by simp
  next
    case True
    then obtain n md where n: "fst ?G = Inr (Some (n, md))" by blast
    then have S2: "snd (restore_latest T now x S) = snd (restore_conversation T now x (Some n) ?S1)"
      by (auto simp: restore_latest_def split_beta split: sum.split option.split)
    have g: "fst (get_latest_snapshot x M) = Inr (Some (n, md))" by (rule latest_transfer [OF assms(2) ok(3) assms(3) n])
    have "from_latest T M c v" if "pool_lookup (tm_host_pool (snd (restore_conversation T now x (Some n) ?S1))) c = Some v" for c v
      by (rule restored_from_latest [OF ok1 assms(2) fs1 g _ that]) (simp add: assms(4))
    then show ?thesis using restore_manager [OF ok1] fs1 by (simp add: S2)
  qed
  then show "fs_read (tm_manager (snd (restore_latest T now x S))) l = fs_read M l"
    and "pool_lookup (tm_host_pool (snd (restore_latest T now x S))) c = Some v \<Longrightarrow> from_latest T M c v" by blast+
qed

lemma restore_each_step:
  "tiers_ok T S \<Longrightarrow> manager_ok M \<Longrightarrow> (\<And>l. fs_read (tm_manager S) l = fs_read M l) \<Longrightarrow>
     (\<And>c v. pool_lookup (tm_host_pool S) c = Some v \<Longrightarrow> from_latest T M c v) \<Longrightarrow>
     fs_read (tm_manager (snd (restore_each T now cs n S))) l = fs_read M l \<and>
     (pool_lookup (tm_host_pool (snd (restore_each T now cs n S))) c = Some v \<longrightarrow> from_latest T M c v)"
proof (induction cs arbitrary: n S)
  case (Cons x cs)
  show ?case unfolding restore_each_Cons
    by (rule Cons.IH [OF tiers_ok_restore_latest [OF Cons.prems(1)] Cons.prems(2)];
        rule restore_latest_step [OF Cons.prems]; assumption?)
next
  case Nil
  then show ?case unfolding restore_each.simps snd_conv by blast
qed

lemma restore_each_count: "fst (restore_each T now cs n S) \<le> n + length cs"
proof (induction cs arbitrary: n S)
  case (Cons x cs)
  show ?case using Cons.IH [of "n + 1" "snd (restore_latest T now x S)"] Cons.IH [of n "snd (restore_latest T now x S)"]
    by (cases "restore_latest T now x S") (auto split: bool.split)
qed simp

text \<open>
  The restore at startup. From an empty host memory, every state it leaves there is the
  latest turn of its conversation on disk, tensors and metadata; no file changes, and at
  most one restore is counted per listed conversation.
\<close>

theorem startup_restores_latest:
  assumes "tiers_ok T S" and "pool_len (tm_host_pool S) = 0"
  shows "(\<forall>c v. pool_lookup (tm_host_pool (snd (restore_latest_snapshots_to_warm_tier T now S))) c = Some v \<longrightarrow>
      (\<exists>n md0 cs t md. fst (get_latest_snapshot c (tm_manager S)) = Inr (Some (n, md0)) \<and>
         fst (load_snapshot T c (Some n) None (tm_manager S)) = Inr (cs, t, md) \<and> v = (cs, t, to_dict md))) \<and>
    (\<forall>l. fs_read (tm_manager (snd (restore_latest_snapshots_to_warm_tier T now S))) l = fs_read (tm_manager S) l) \<and>
    fst (restore_latest_snapshots_to_warm_tier T now S) \<le> length (list_conversations (tm_manager S))"
proof -
  have e: "pool_lookup (tm_host_pool S) c = None" for c using assms(2) by (simp add: pool_len_def pool_lookup_def)
  have "from_latest T (tm_manager S) c v \<Longrightarrow> \<exists>n md0 cs t md. fst (get_latest_snapshot c (tm_manager S)) = Inr (Some (n, md0)) \<and>
      fst (load_snapshot T c (Some n) None (tm_manager S)) = Inr (cs, t, md) \<and> v = (cs, t, to_dict md)" for c v
    by (auto simp: from_latest_def split: sum.splits option.splits)
  then show ?thesis
    using restore_each_step [OF assms(1) tiers_okD(3) [OF assms(1)] refl] restore_each_count [of T now _ 0 S]
    unfolding restore_latest_snapshots_to_warm_tier_def by (fastforce simp: e)
qed

theorem startup_restores_latest_witness:
  "let S = sample_tiers\<lparr>tm_manager := snd (save_snapshot mat_torch None [[[1]]] [[2]] (sample_md ''c1'' (Some 3) None) sample_manager)\<rparr>
   in fst (load_snapshot mat_torch ''c1'' (Some 3) None (tm_manager (snd (restore_latest_snapshots_to_warm_tier mat_torch 1 S)))) =
      Inr ([[[1]]], [[2]], sample_md ''c1'' (Some 3) None)"
proof -
  let ?md = "sample_md ''c1'' (Some 3) None"
  let ?M = "snd (save_snapshot mat_torch None [[[1]]] [[2]] ?md sample_manager)"
  let ?S = "sample_tiers\<lparr>tm_manager := ?M\<rparr>"
  let ?R = "snd (restore_latest_snapshots_to_warm_tier mat_torch 1 ?S)"
  have ok: "tiers_ok mat_torch ?S"
    by (intro tiers_ok_manager sample_tiers_ok save_snapshot_manager_ok sample_manager_ok)
  have "tiers_ok mat_torch ?R"
    unfolding restore_latest_snapshots_to_warm_tier_def by (rule tiers_ok_restore_each [OF ok])
  moreover have "pool_len (tm_host_pool ?S) = 0" by (simp add: pool_len_def init_host_pool_def)
  from startup_restores_latest [OF ok this, of 1]
  have "fs_read (tm_manager ?R) l = fs_read (tm_manager ?S) l" for l by blast
  then have "fs_read (tm_manager ?R) l = fs_read ?M l" for l by simp
  ultimately have "fst (load_snapshot mat_torch ''c1'' (Some 3) None (tm_manager ?R)) =
      fst (load_snapshot mat_torch ''c1'' (Some 3) None ?M)"
    by (intro load_cong) (use tiers_okD(4) [OF ok] tiers_okD(4) in auto)
  then show ?thesis
    using saved_loads [OF sample_manager_ok sample_state_ok, of ?md] by (simp add: Let_def)
qed

end
