(* ===== verification/System_Properties.thy ===== *)
theory System_Properties
  imports Snapshot_System Restore_Round_Trip Tier_Properties
begin

section \<open>The snapshot system as a whole\<close>

text \<open>
  Properties that span the hooks, the callback, the tiers and the handlers: what a forward
  pass leaves in host memory and how it gets to disk after the request is gone, and when the
  system does nothing at all.
\<close>

subsection \<open>The hooks after setting up\<close>

definition system_hooks :: "'t torch \<Rightarrow> (nat, 't world) hook_manager" where
  "system_hooks T = register_post_forward_hook (post_forward_snapshot_callback T) (init_hook_manager True)"

lemma init_hooks:
  "init_snapshot_system T open_dir A now S = (Some G, S') \<Longrightarrow> G = system_hooks T"
  by (auto simp: init_snapshot_system_def system_hooks_def Let_def split: if_splits option.splits)

text \<open>The trigger that a request of the batch gives, and the callback alone.\<close>

definition batch_trigger :: "nat \<Rightarrow> req \<Rightarrow> nat snapshot_trigger" where
  "batch_trigger i r = \<lparr>tr_req = i, tr_turn_number = int (length (rq_output_ids r)),
     tr_trigger_reason = Post_forward, tr_additional_context = None\<rparr>"

lemma trigger_for_system:
  "od_get (sd_reqs S) i = Some r \<Longrightarrow> rq_mamba_pool_idx r = Some idx \<Longrightarrow>
     trigger_for (system_hooks T) i (now, fault, S) =
       snd (post_forward_snapshot_callback T (batch_trigger i r) (now, fault, S))"
  by (auto simp: trigger_for_def trigger_post_forward_def system_hooks_def register_post_forward_hook_def
      init_hook_manager_def pool_idx_of_def batch_trigger_def split: prod.split sum.split)

text \<open>
  With the policy \<open>on_tool_call\<close> no snapshot is ever taken. The scheduler passes no context to the
  hooks, so the policy never learns of a tool call: running the hooks for any batch changes nothing.
\<close>

theorem tool_call_policy_never_saves:
  assumes "rc_snapshot_trigger_policy (rp_config (sd_policy S)) = ON_TOOL_CALL"
    and "init_snapshot_system T open_dir A now0 S0 = (Some G, S1)"
  shows "trigger_snapshot_hooks (Some G) batch (now, fault, S) = (now, fault, S)"
proof -
  have "trigger_for (system_hooks T) i (now, fault, S) = (now, fault, S)" for i
  proof (cases "Option.bind (od_get (sd_reqs S) i) (\<lambda>r. map_option (Pair r) (rq_mamba_pool_idx r))")
    case None
    then show ?thesis by (auto simp: trigger_for_def split: option.splits)
  next
    case (Some p)
    then obtain r idx where "od_get (sd_reqs S) i = Some r" "rq_mamba_pool_idx r = Some idx"
      by (auto simp: bind_eq_Some_conv)
    then show ?thesis using assms(1)
      by (simp add: trigger_for_system post_forward_snapshot_callback_def batch_trigger_def should_snapshot_def
          dict_get_def Let_def)
  qed
  then have "fold (trigger_for (system_hooks T)) batch (now, fault, S) = (now, fault, S)"
    by (induction batch) simp_all
  then show ?thesis by (simp add: trigger_snapshot_hooks_def init_hooks [OF assms(2)])
qed

text \<open>
  C36: without the option, or for a model without a Mamba pool, the system is inert. Setting it
  up registers no hook; every snapshot request is refused without a change, no request is
  hydrated, and the hooks of a batch do nothing.
\<close>

theorem disabled_system_is_inert:
  assumes "init_snapshot_system T open_dir A now0 S0 = (G, S)"
    and "\<not> ya_enable_snapshot_persistence A \<or> sd_mamba_pool S0 = None"
  shows "trigger_snapshot_hooks G batch (now, fault, S) = (now, fault, S) \<and>
    handle_save_snapshot T fault now q S = (save_fail Save_not_enabled, S) \<and>
    handle_restore_snapshot T now uid q' S = (Some (restore_fail Restore_not_enabled), S) \<and>
    snd (handle_list_snapshots cid S) = S \<and> \<not> lo_success (fst (handle_list_snapshots cid S)) \<and>
    snd (handle_get_snapshot_info r S) = S \<and> \<not> io_success (fst (handle_get_snapshot_info r S)) \<and>
    snd (handle_delete_snapshot r S) = S \<and> \<not> do_success (fst (handle_delete_snapshot r S)) \<and>
    maybe_hydrate_from_pending_restore T i S = (None, S) \<and>
    handle_mamba_state_eviction T now cid idx md S = S"
proof -
  have S: "G = None" "S = reset_system S0"
    using assms by (auto simp: init_snapshot_system_def Let_def reset_system_def)
  have f: "\<not> sd_snapshot_manager S" "\<not> sd_tier_manager S" "sd_pending S = init_pending" by (simp_all add: S(2) reset_system_def)
  have "find_pending rid c (sd_pending S) = None" for rid c
    by (simp add: f(3) find_pending_def init_pending_def od_mem_def dict_get_opt_def)
  then have "maybe_hydrate_from_pending_restore T i S = (None, S)"
    by (cases "od_get (sd_reqs S) i") (simp_all add: maybe_hydrate_from_pending_restore_def)
  then show ?thesis using f S(1)
    by (simp add: trigger_snapshot_hooks_def handle_save_snapshot_def handle_restore_snapshot_def
        handle_list_snapshots_def handle_get_snapshot_info_def handle_delete_snapshot_def
        handle_mamba_state_eviction_def)
qed


definition sample_system_args :: system_args where
  "sample_system_args =
     \<lparr>ya_enable_snapshot_persistence = True, ya_snapshot_dir = None, ya_snapshot_retention_count = 2,
      ya_snapshot_trigger_policy = ''on_tool_call'', ya_snapshot_every_n_turns = 1,
      ya_snapshot_min_interval_seconds = 0, ya_snapshot_keep_named_branches = True, ya_enable_memory_tiers = True,
      ya_max_warm_conversations = 2, ya_max_warm_memory_gb = 1, ya_enable_cross_session_refs = True,
      ya_conversation_active_timeout = 1, ya_conversation_warm_timeout = 2, ya_conversation_cold_retention = 3,
      ya_enable_tier_background_cleanup = False, ya_tier_cleanup_interval = 60, ya_snapshot_auto_restore = False\<rparr>"

theorem tool_call_policy_never_saves_witness:
  "\<exists>G S. init_snapshot_system mat_torch (\<lambda>_. Some sample_manager) sample_system_args 0 sample_scheduler = (Some G, S) \<and>
     trigger_snapshot_hooks (Some G) [0] (5, None, S) = (5, None, S)"
proof -
  obtain G S where i: "init_snapshot_system mat_torch (\<lambda>_. Some sample_manager) sample_system_args 0 sample_scheduler = (Some G, S)"
    by (simp add: init_snapshot_system_def sample_system_args_def Let_def reset_system_def sample_scheduler_def)
  then have "rc_snapshot_trigger_policy (rp_config (sd_policy S)) = ON_TOOL_CALL"
    by (auto simp: init_snapshot_system_def sample_system_args_def Let_def reset_system_def sample_scheduler_def
        init_health_def init_tier_system_def init_retention_policy_def retention_config_of_def trigger_policy_of_def
        sample_args_def)
  from tool_call_policy_never_saves [OF this i] i show ?thesis by blast
qed

theorem disabled_system_is_inert_witness:
  "\<exists>G S. init_snapshot_system mat_torch (\<lambda>_. Some sample_manager)
       (sample_system_args\<lparr>ya_enable_snapshot_persistence := False\<rparr>) 0 sample_scheduler = (G, S) \<and>
     handle_save_snapshot mat_torch None 5 sample_save S = (save_fail Save_not_enabled, S)"
proof -
  let ?A = "sample_system_args\<lparr>ya_enable_snapshot_persistence := False\<rparr>"
  obtain G S where i: "init_snapshot_system mat_torch (\<lambda>_. Some sample_manager) ?A 0 sample_scheduler = (G, S)" by fastforce
  from disabled_system_is_inert [OF i] i show ?thesis by auto
qed

subsection \<open>From a forward pass to disk\<close>

lemma delete_turns_manager_ok: "manager_ok M \<Longrightarrow> manager_ok (snd (delete_turns cid ns k M))"
proof (induction ns arbitrary: k M)
  case (Cons n ns)
  show ?case using Cons.IH delete_snapshot_manager_ok [OF Cons.prems, of cid "Some n" None]
    by (cases "delete_snapshot cid (Some n) None M") (auto split: sum.split)
qed simp

lemma prune_manager_ok: "manager_ok M \<Longrightarrow> manager_ok (snd (prune_old_snapshots R cid M))"
  using list_snapshots_manager_ok [of M cid] delete_turns_manager_ok
  by (auto simp: prune_old_snapshots_def Let_def split_beta split: prod.split sum.split)

lemma mark_taken_simps [sched_simps, simp]:
  "sd_tiers (mark_taken now cid S) = sd_tiers S" "sd_args (mark_taken now cid S) = sd_args S"
  "od_get (rp_last_snapshot_time (sd_policy (mark_taken now cid S))) cid = Some now"
  by (simp_all add: mark_taken_def mark_snapshot_taken_def od_get_set)

lemma prune_simps [sched_simps, simp]:
  "tm_host_pool (sd_tiers (prune cid S)) = tm_host_pool (sd_tiers S)"
  "tm_model_path (sd_tiers (prune cid S)) = tm_model_path (sd_tiers S)"
  "sd_args (prune cid S) = sd_args S" "sd_policy (prune cid S) = sd_policy S"
  "sd_manager (prune cid S) = snd (prune_old_snapshots (sd_policy S) cid (sd_manager S))"
  by (simp_all add: prune_def set_manager_def)

text \<open>The callback saves the state of the turn to host memory, when the policy asks for it and it fits.\<close>

definition turn_metadata :: "real \<Rightarrow> 't scheduler \<Rightarrow> req \<Rightarrow> int \<Rightarrow> int \<Rightarrow> 't mamba_pool \<Rightarrow> snapshot_metadata" where
  "turn_metadata now S r idx ri P =
     callback_metadata now (sa_model_path (sd_args S)) (callback_conversation r) (int (length (rq_output_ids r))) r idx ri P"

definition asks_for_snapshot :: "real \<Rightarrow> 't scheduler \<Rightarrow> req \<Rightarrow> bool" where
  "asks_for_snapshot now S r =
     (should_snapshot now \<lparr>ra_conversation_id = rq_conversation_id r, ra_rid = Some (rq_rid r)\<rparr>
        (int (length (rq_output_ids r))) (Some (callback_conversation r)) (Some []) (sd_policy S) = Inr True)"

lemma warm_save_lookup:
  assumes "tiers_ok T W" "state_ok T False cs t" "fits T cs t (tm_host_pool W)"
  shows "pool_lookup (tm_host_pool (snd (save_to_warm_tier T now cid cs t (Some d) pol W))) cid = Some (cs, t, d)"
proof -
  have "fst (save_state T now cid cs t (Some d) (tm_host_pool W))"
    using save_state_fst [OF tiers_okD(2) [OF assms(1)]] assms(3) by simp
  from save_state_hit [OF this] show ?thesis using assms(2) by (auto simp: tier_simps pool_lookup_def entry_state_def)
qed

lemma warm_save_model [simp]: "tm_model_path (snd (save_to_warm_tier T now cid cs t d pol W)) = tm_model_path W"
  by (simp add: save_to_warm_tier_def Let_def split_beta)

lemma callback_saves_turn:
  assumes ok: "tiers_ok T (sd_tiers S)" "sd_tier_manager S" "sd_mamba_pool S = Some P" "sd_health_monitor S = None"
    and r: "od_get (sd_reqs S) i = Some r" "rq_mamba_pool_idx r = Some idx" "rq_req_pool_idx r = Some ri"
    and x: "extract_state_from_pool T P idx = Inr (cs, t)" "asks_for_snapshot now S r" "fits T cs t (tm_host_pool (sd_tiers S))"
  shows "\<exists>S'. trigger_snapshot_hooks (Some (system_hooks T)) [i] (now, fault, S) = (now, fault, S') \<and>
    pool_lookup (tm_host_pool (sd_tiers S')) (callback_conversation r) = Some (cs, t, to_dict (turn_metadata now S r idx ri P)) \<and>
    manager_ok (sd_manager S') \<and> sd_args S' = sd_args S \<and> tm_model_path (sd_tiers S') = tm_model_path (sd_tiers S) \<and>
    od_get (rp_last_snapshot_time (sd_policy S')) (callback_conversation r) = Some now"
proof -
  let ?c = "callback_conversation r" and ?m = "turn_metadata now S r idx ri P"
  have s: "state_ok T False cs t" using x(1)
    by (auto simp: extract_state_from_pool_def is_valid_iff split: sum.splits option.splits if_splits)
  obtain W where w: "save_to_warm_tier T now ?c cs t (Some (to_dict ?m)) ''log_and_continue'' (sd_tiers S) = (Inr True, W)"
    using warm_save_result [OF tiers_okD(2) [OF ok(1)], of now ?c cs t "Some (to_dict ?m)" "''log_and_continue''"] s x(3)
    by (cases "save_to_warm_tier T now ?c cs t (Some (to_dict ?m)) ''log_and_continue'' (sd_tiers S)") simp
  let ?S' = "prune ?c (mark_taken now ?c (S\<lparr>sd_tiers := W\<rparr>))"
  have "trigger_snapshot_hooks (Some (system_hooks T)) [i] (now, fault, S) = (now, fault, ?S')"
    using ok(2-4) r x(1,2) w
    by (simp add: trigger_snapshot_hooks_def trigger_for_system post_forward_snapshot_callback_def batch_trigger_def
        asks_for_snapshot_def snapshot_of_turn_def health_check_def save_state_of_turn_def turn_metadata_def Let_def)
  moreover have W: "W = snd (save_to_warm_tier T now ?c cs t (Some (to_dict ?m)) ''log_and_continue'' (sd_tiers S))" using w by simp
  moreover have "manager_ok (sd_manager ?S')"
    using tiers_okD(3) [OF ok(1)] by (simp add: prune_manager_ok W tier_simps)
  ultimately show ?thesis using warm_save_lookup [OF ok(1) s x(3), of now ?c "to_dict ?m" "''log_and_continue''"]
    by (intro exI [of _ ?S']) simp
qed

lemma to_dict_get:
  "dict_get (to_dict m) ''turn_number'' d = j_opt_int (md_turn_number m)"
  "dict_get (to_dict m) ''token_count'' d = JInt (md_token_count m)"
  "dict_get (to_dict m) ''model_name'' d = JStr (md_model_name m)"
  "dict_get (to_dict m) ''mamba_pool_idx'' d = JInt (md_mamba_pool_idx m)"
  "dict_get (to_dict m) ''req_pool_idx'' d = JInt (md_req_pool_idx m)"
  "dict_get (to_dict m) ''layer_config'' d = JObj (md_layer_config m)"
  "dict_get (to_dict m) ''fill_ids'' d = j_opt_ints (md_fill_ids m)"
  by (simp_all add: dict_get_def to_dict_def)

text \<open>Saving a state from host memory for a request that is gone.\<close>

lemma warm_save_stored:
  assumes "sd_snapshot_manager S" "sd_tier_manager S" "manager_ok (sd_manager S)" "find_request_by_rid (si_rid q) S = None"
    and "conv_or_rid (si_conversation_id q) (si_rid q) = Some cid" "si_turn_number q = None" "si_branch_name q = None"
    and "pool_lookup (tm_host_pool (sd_tiers S)) cid = Some (cs, t, to_dict m)" "state_ok T False cs t"
    and "tm_model_path (sd_tiers S) = Some (md_model_name m)"
    and "valid_component cid" "md_turn_number m = Some n" "0 \<le> n"
  shows "\<exists>out S' md. handle_save_snapshot T None now q S = (out, S') \<and> so_success out \<and>
    fst (load_snapshot T cid (Some n) None (sd_manager S')) = Inr (cs, t, md) \<and> md_fill_ids md = md_fill_ids m \<and>
    md_token_count md = md_token_count m"
proof -
  obtain W where W: "restore_from_warm_tier now cid (sd_tiers S) = (Inr (Some (cs, t, to_dict m)), W)"
    using assms(8,10) by (simp add: restore_warm_eq Let_def to_dict_get model_mismatch_def)
  have Wm: "tm_manager W = sd_manager S" using W restore_warm_parts(1) [of now cid "sd_tiers S"] by simp
  let ?md = "\<lparr>md_conversation_id = cid, md_turn_number = Some n, md_timestamp = now,
             md_token_count = md_token_count m, md_model_name = sa_model_path (sd_args S), md_mamba_pool_idx = md_mamba_pool_idx m,
             md_req_pool_idx = md_req_pool_idx m, md_layer_config = md_layer_config m, md_active_tool_context = None,
             md_branch_name = None, md_parent_snapshot = None, md_fill_ids = md_fill_ids m\<rparr>"
  have md: "warm_metadata now (sa_model_path (sd_args S)) cid q (to_dict m) = Some ?md"
    using assms(6,7,12) by (simp add: warm_metadata_def warm_turn_def to_dict_get)
  obtain x M where sv: "save_snapshot T None cs t ?md (sd_manager S) = (x, M)" by fastforce
  obtain p where p: "x = Inr p"
    using save_snapshot_result [OF manager_ok_parts(1) [OF assms(3)], of T None cs t ?md] assms(9,11,13) sv by auto
  have "handle_save_snapshot T None now q S =
    (\<lparr>so_success = True, so_snapshot_id = Some (effective_snapshot_id q), so_message = Saved_from_warm_tier\<rparr>,
     set_manager M (S\<lparr>sd_tiers := W\<rparr>))"
    using assms(1,2,4,5,8) W Wm md sv p
    by (simp add: handle_save_snapshot_def save_from_warm_def has_state_lookup save_and_reply_def)
  then show ?thesis using save_snapshot_loads [OF assms(3) sv [unfolded p]] by auto
qed

text \<open>
  C16: the state of the last turn can be saved after the request is gone. The hooks run for a
  request whose state the policy wants and host memory can take; later, when no live request has its
  id, \<open>handle_save_snapshot\<close> for its conversation succeeds without naming a turn, and the disk then holds,
  under the number of tokens the request had produced, the tensors of its slot at the time of the
  hooks and its token ids.
\<close>

theorem finished_turn_saved:
  assumes init: "init_snapshot_system T open_dir A now0 S0 = (Some G, S00)"
    and ok: "tiers_ok T (sd_tiers S)" "sd_tier_manager S" "sd_mamba_pool S = Some P" "sd_health_monitor S = None"
      "tm_model_path (sd_tiers S) = Some (sa_model_path (sd_args S))"
    and r: "od_get (sd_reqs S) i = Some r" "rq_mamba_pool_idx r = Some idx" "rq_req_pool_idx r = Some ri"
    and x: "extract_state_from_pool T P idx = Inr (cs, t)" "asks_for_snapshot now S r" "fits T cs t (tm_host_pool (sd_tiers S))"
    and run: "trigger_snapshot_hooks (Some G) [i] (now, fault, S) = (now, fault, S1)"
    and later: "sd_tiers S2 = sd_tiers S1" "sd_snapshot_manager S2" "sd_tier_manager S2" "find_request_by_rid (si_rid q) S2 = None"
    and q: "conv_or_rid (si_conversation_id q) (si_rid q) = Some (callback_conversation r)"
      "si_turn_number q = None" "si_branch_name q = None" "valid_component (callback_conversation r)"
  shows "\<exists>out S3 md. handle_save_snapshot T None now' q S2 = (out, S3) \<and> so_success out \<and>
    fst (load_snapshot T (callback_conversation r) (Some (int (length (rq_output_ids r)))) None (sd_manager S3)) = Inr (cs, t, md) \<and>
    md_fill_ids md = rq_fill_ids r"
proof -
  let ?m = "turn_metadata now S r idx ri P"
  have s: "state_ok T False cs t" using x(1)
    by (auto simp: extract_state_from_pool_def is_valid_iff split: sum.splits option.splits if_splits)
  have S1: "pool_lookup (tm_host_pool (sd_tiers S1)) (callback_conversation r) = Some (cs, t, to_dict ?m)"
    "manager_ok (sd_manager S1)" "tm_model_path (sd_tiers S1) = Some (sa_model_path (sd_args S))"
    using callback_saves_turn [OF ok(1-4) r x, of fault] run ok(5) unfolding init_hooks [OF init] by auto
  have m: "md_model_name ?m = sa_model_path (sd_args S)" "md_turn_number ?m = Some (int (length (rq_output_ids r)))"
    "md_fill_ids ?m = rq_fill_ids r"
    by (simp_all add: turn_metadata_def callback_metadata_def)
  show ?thesis
    using warm_save_stored [OF later(2,3) _ later(4) q(1-3) _ s _ q(4) m(2), of now'] S1 later(1) m(1,3) by auto
qed

theorem finished_turn_saved_witness:
  "\<exists>S1 out S3 md. trigger_snapshot_hooks (Some (system_hooks mat_torch)) [0] (5, None, sample_scheduler) = (5, None, S1) \<and>
     handle_save_snapshot mat_torch None 7 (sample_save\<lparr>si_conversation_id := Some ''c1'', si_turn_number := None\<rparr>)
       (S1\<lparr>sd_running_batch := [], sd_cur_batch := None, sd_last_batch := None, sd_waiting_queue := [],
           sd_snapshot_manager := True, sd_tier_manager := True\<rparr>) = (out, S3) \<and> so_success out \<and>
     fst (load_snapshot mat_torch ''c1'' (Some 0) None (sd_manager S3)) = Inr ([[[7]]], [[9]], md)"
proof -
  let ?S = sample_scheduler and ?q = "sample_save\<lparr>si_conversation_id := Some ''c1'', si_turn_number := None\<rparr>"
  obtain G S00 where i: "init_snapshot_system mat_torch (\<lambda>_. Some sample_manager) sample_system_args 0 ?S = (Some G, S00)"
    by (simp add: init_snapshot_system_def sample_system_args_def Let_def reset_system_def sample_scheduler_def)
  have ok: "tiers_ok mat_torch (sd_tiers ?S)"
    by (simp add: sample_scheduler_def) (rule tiers_ok_init, simp)
  have p: "sd_tier_manager ?S" "sd_mamba_pool ?S = Some sample_pool" "sd_health_monitor ?S = None"
    "tm_model_path (sd_tiers ?S) = Some (sa_model_path (sd_args ?S))" "od_get (sd_reqs ?S) 0 = Some sample_live"
    "rq_mamba_pool_idx sample_live = Some 1" "rq_req_pool_idx sample_live = Some 1"
    "rq_output_ids sample_live = []" "callback_conversation sample_live = ''c1''"
    by (simp_all add: sample_scheduler_def init_tiers_def sample_args_def sample_live_def sample_req_def callback_conversation_def)
  have x: "extract_state_from_pool mat_torch sample_pool 1 = Inr ([[[7]]], [[9]])" by code_simp
  have a: "asks_for_snapshot 5 ?S sample_live"
    by (simp add: asks_for_snapshot_def should_snapshot_def sample_scheduler_def init_retention_policy_def Let_def)
  have f: "fits mat_torch [[[7]]] [[9]] (tm_host_pool (sd_tiers ?S))"
    by (simp add: sample_scheduler_def init_tiers_def fits_def init_host_pool_def tensor_bytes_def mat_torch_def py_trunc_def)
  obtain S1 where t: "trigger_snapshot_hooks (Some G) [0] (5, None, ?S) = (5, None, S1)"
    using callback_saves_turn [OF ok p(1-3,5-7) x a f, of None] unfolding init_hooks [OF i] by blast
  let ?S2 = "S1\<lparr>sd_running_batch := [], sd_cur_batch := None, sd_last_batch := None, sd_waiting_queue := [],
    sd_snapshot_manager := True, sd_tier_manager := True\<rparr>"
  have l: "sd_tiers ?S2 = sd_tiers S1" "sd_snapshot_manager ?S2" "sd_tier_manager ?S2" "find_request_by_rid (si_rid ?q) ?S2 = None"
    by (simp_all add: find_request_by_rid_def batch_reqs_def)
  have q: "conv_or_rid (si_conversation_id ?q) (si_rid ?q) = Some (callback_conversation sample_live)"
    "si_turn_number ?q = None" "si_branch_name ?q = None" "valid_component (callback_conversation sample_live)"
    by (simp_all add: p(9) conv_or_rid_def sample_save_def str_truthy_def)
  from finished_turn_saved [OF i ok p(1-7) x a f t l q, of 7] show ?thesis
    using t unfolding init_hooks [OF i] p(8,9) by auto
qed

end
