(* ===== verification/System_Invariant.thy ===== *)
theory System_Invariant
  imports System_Properties
begin

section \<open>The scheduler as a state machine\<close>

text \<open>
  All the operations that change the scheduler, in any order: the handlers of snapshot
  requests, the arrival of a request, the hooks after a batch, the background cleanup, and what the
  scheduler's loop does to slots, requests and queues between them. The loop itself is not
  modelled; its steps here are as general as they can be: a prefill takes a slot for a request
  without one, a finished request gives its slot back, a forward pass rewrites the tensors of
  the pool, requests change in every field but the slot, and they move between the queue and the batches
  without making the queue longer.
\<close>

subsection \<open>What the loop does to slots\<close>

definition prefill_slot :: "nat \<Rightarrow> 't scheduler \<Rightarrow> 't scheduler" where
  "prefill_slot i S =
     (case (od_get (sd_reqs S) i, sd_mamba_pool S) of
        (Some r, Some P) \<Rightarrow> (case alloc_idx r P of (_, r', P') \<Rightarrow> set_req i r' (set_pool P' S))
      | _ \<Rightarrow> S)"

definition release_slot :: "nat \<Rightarrow> 't scheduler \<Rightarrow> 't scheduler" where
  "release_slot i S =
     (case (od_get (sd_reqs S) i, sd_mamba_pool S) of
        (Some r, Some P) \<Rightarrow>
          (case rq_mamba_pool_idx r of
             None \<Rightarrow> S
           | Some idx \<Rightarrow> set_req i (r\<lparr>rq_mamba_pool_idx := None\<rparr>) (set_pool (mamba_free [idx] P) S))
      | _ \<Rightarrow> S)"

text \<open>The arrival of a request.\<close>

definition arrive :: "'t torch \<Rightarrow> real \<Rightarrow> req \<Rightarrow> 't scheduler \<Rightarrow> 't scheduler" where
  "arrive T now r S = (case new_req_object r S of (i, S1) \<Rightarrow> snd (admit_generate_request T now i S1))"

inductive system_reach :: "'t torch \<Rightarrow> 't scheduler \<Rightarrow> bool" for T where
  start: "sd_reqs S = [] \<Longrightarrow> sd_mamba_pool S = Some (init_mamba_pool n conv temporal layers) \<Longrightarrow>
     sd_waiting_queue S = [] \<Longrightarrow> (\<And>m. sa_max_queued_requests (sd_args S) = Some m \<Longrightarrow> 0 \<le> m) \<Longrightarrow>
     tiers_ok T (sd_tiers S) \<Longrightarrow> (\<And>d M. open_dir d = Some M \<Longrightarrow> manager_ok M) \<Longrightarrow>
     system_reach T (snd (init_snapshot_system T open_dir A now S))"
| save: "system_reach T S \<Longrightarrow> system_reach T (snd (handle_save_snapshot T fault now sq S))"
| list: "system_reach T S \<Longrightarrow> system_reach T (snd (handle_list_snapshots cid S))"
| info: "system_reach T S \<Longrightarrow> system_reach T (snd (handle_get_snapshot_info iq S))"
| delete: "system_reach T S \<Longrightarrow> system_reach T (snd (handle_delete_snapshot iq S))"
| restore: "system_reach T S \<Longrightarrow> system_reach T (snd (handle_restore_snapshot T now uid rq S))"
| evict: "system_reach T S \<Longrightarrow> system_reach T (handle_mamba_state_eviction T now cid idx md S)"
| hooks: "system_reach T S \<Longrightarrow> system_reach T (snd (snd (trigger_snapshot_hooks (Some (system_hooks T)) batch (now, fault, S))))"
| tick: "system_reach T S \<Longrightarrow> system_reach T (S\<lparr>sd_tiers := background_tick T faults now (sd_tiers S)\<rparr>)"
| arrival: "system_reach T S \<Longrightarrow> rq_mamba_pool_idx r = None \<Longrightarrow> system_reach T (arrive T now r S)"
| prefill: "system_reach T S \<Longrightarrow> system_reach T (prefill_slot i S)"
| finish: "system_reach T S \<Longrightarrow> system_reach T (release_slot i S)"
| forward: "system_reach T S \<Longrightarrow> sd_mamba_pool S = Some P \<Longrightarrow>
     system_reach T (set_pool (P\<lparr>mp_conv := conv, mp_temporal := temporal\<rparr>) S)"
| request: "system_reach T S \<Longrightarrow> od_get (sd_reqs S) i = Some r \<Longrightarrow> rq_mamba_pool_idx r' = rq_mamba_pool_idx r \<Longrightarrow>
     system_reach T (set_req i r' S)"
| schedule: "system_reach T S \<Longrightarrow> length q \<le> length (sd_waiting_queue S) \<Longrightarrow>
     system_reach T (S\<lparr>sd_waiting_queue := q, sd_running_batch := b1, sd_cur_batch := b2, sd_last_batch := b3\<rparr>)"

subsection \<open>Slots\<close>

text \<open>The slots that the requests on the heap hold.\<close>

definition slot_list :: "req \<Rightarrow> int list" where
  "slot_list r = (case rq_mamba_pool_idx r of None \<Rightarrow> [] | Some x \<Rightarrow> [x])"

definition held :: "(nat, req) odict \<Rightarrow> int list" where
  "held d = concat (map (\<lambda>p. slot_list (snd p)) d)"

lemma slot_list_simps [simp]:
  "rq_mamba_pool_idx r = None \<Longrightarrow> slot_list r = []" "rq_mamba_pool_idx r = Some x \<Longrightarrow> slot_list r = [x]"
  by (simp_all add: slot_list_def)

lemma held_update:
  "od_ok d \<Longrightarrow> od_get d i = Some r \<Longrightarrow> mset (held (od_set i r' d)) + mset (slot_list r) = mset (held d) + mset (slot_list r')"
proof (induction d)
  case (Cons p d)
  show ?case
  proof (cases "fst p = i")
    case True
    then show ?thesis using Cons.prems by (cases p) (simp add: held_def)
  next
    case False
    then have "mset (held (od_set i r' d)) + mset (slot_list r) = mset (held d) + mset (slot_list r')"
      using Cons by (cases p) (simp add: od_ok_def)
    then show ?thesis using False by (cases p) (simp add: held_def union_assoc)
  qed
qed simp

lemma held_new: "od_get d i = None \<Longrightarrow> held (od_set i r d) = held d @ slot_list r"
  by (induction d) (auto simp: held_def split: if_splits)

definition heap_ok :: "'t scheduler \<Rightarrow> bool" where
  "heap_ok S =
     (od_ok (sd_reqs S) \<and> (\<forall>i. od_get (sd_reqs S) i \<noteq> None \<longrightarrow> i < sd_next_req S) \<and>
      (\<exists>P. sd_mamba_pool S = Some P \<and> ms.conserved P (held (sd_reqs S))))"

lemma heap_okE:
  assumes "heap_ok S"
  obtains P where "od_ok (sd_reqs S)" "\<And>i. od_get (sd_reqs S) i \<noteq> None \<Longrightarrow> i < sd_next_req S" "sd_mamba_pool S = Some P"
    "mset (mp_free_slots P) + mset (held (sd_reqs S)) = mset (mamba_slots P)"
  using assms by (auto simp: heap_ok_def ms.conserved_def)

lemma heap_okI:
  "od_ok (sd_reqs S) \<Longrightarrow> (\<And>i. od_get (sd_reqs S) i \<noteq> None \<Longrightarrow> i < sd_next_req S) \<Longrightarrow> sd_mamba_pool S = Some P \<Longrightarrow>
   mset (mp_free_slots P) + mset (held (sd_reqs S)) = mset (mamba_slots P) \<Longrightarrow> heap_ok S"
  by (simp add: heap_ok_def ms.conserved_def)

lemma heap_ok_cong:
  "sd_reqs S' = sd_reqs S \<Longrightarrow> sd_next_req S' = sd_next_req S \<Longrightarrow> sd_mamba_pool S' = sd_mamba_pool S \<Longrightarrow> heap_ok S' = heap_ok S"
  by (simp add: heap_ok_def)

text \<open>
  The one law behind all steps: a request is rewritten and the pool replaced, and what the
  request holds more or less is what the pool has less or more.
\<close>

lemma heap_ok_step:
  assumes "heap_ok S" "sd_mamba_pool S = Some P" "od_get (sd_reqs S) i = Some r"
    and "mp_size P' = mp_size P" "mset (mp_free_slots P') + mset (slot_list r') = mset (mp_free_slots P) + mset (slot_list r)"
  shows "heap_ok (set_req i r' (set_pool P' S))"
proof (rule heap_okE [OF assms(1)])
  fix P0
  assume h: "od_ok (sd_reqs S)" "\<And>i. od_get (sd_reqs S) i \<noteq> None \<Longrightarrow> i < sd_next_req S" "sd_mamba_pool S = Some P0"
    "mset (mp_free_slots P0) + mset (held (sd_reqs S)) = mset (mamba_slots P0)"
  have "mset (mp_free_slots P') + mset (held (od_set i r' (sd_reqs S))) + (mset (slot_list r) + mset (slot_list r')) =
    mset (mamba_slots P) + (mset (slot_list r) + mset (slot_list r'))"
  proof -
    have "mset (mp_free_slots P') + mset (held (od_set i r' (sd_reqs S))) + (mset (slot_list r) + mset (slot_list r')) =
      (mset (mp_free_slots P') + mset (slot_list r')) + (mset (held (od_set i r' (sd_reqs S))) + mset (slot_list r))"
      by (simp add: union_ac)
    also have "\<dots> = (mset (mp_free_slots P) + mset (held (sd_reqs S))) + (mset (slot_list r) + mset (slot_list r'))"
      unfolding assms(5) held_update [OF h(1) assms(3)] by (simp add: union_ac)
    finally show ?thesis using h(3,4) assms(2) by simp
  qed
  then have "mset (mp_free_slots P') + mset (held (od_set i r' (sd_reqs S))) = mset (mamba_slots P')"
    using assms(4) by (simp add: mamba_slots_def)
  then show ?thesis using h(1,2) assms(3)
    by (intro heap_okI [of _ P']) (auto simp: set_req_def set_pool_def od_get_set split: if_splits)
qed

lemma heap_ok_pool:
  assumes "heap_ok S" "sd_mamba_pool S = Some P" "mp_size P' = mp_size P" "mset (mp_free_slots P') = mset (mp_free_slots P)"
  shows "heap_ok (set_pool P' S)"
  by (rule heap_okE [OF assms(1)]) (rule heap_okI [of _ P'], use assms in \<open>auto simp: mamba_slots_def set_pool_def\<close>)

lemma heap_ok_request:
  assumes "heap_ok S" "od_get (sd_reqs S) i = Some r" "rq_mamba_pool_idx r' = rq_mamba_pool_idx r"
  shows "heap_ok (set_req i r' S)"
proof (rule heap_okE [OF assms(1)])
  fix P
  assume p: "sd_mamba_pool S = Some P"
  then have "set_pool P S = S" by (simp add: set_pool_def)
  moreover have "slot_list r' = slot_list r" using assms(3) by (simp add: slot_list_def)
  ultimately show ?thesis using heap_ok_step [OF assms(1) p assms(2) refl, of r'] by simp
qed

lemma heap_ok_new:
  assumes "heap_ok S" "sd_mamba_pool S = Some P" "mp_size P' = mp_size P"
    and "mset (mp_free_slots P') + mset (slot_list r) = mset (mp_free_slots P)"
  shows "heap_ok (snd (new_req_object r (set_pool P' S)))"
proof (rule heap_okE [OF assms(1)])
  fix P0
  assume h: "od_ok (sd_reqs S)" "\<And>i. od_get (sd_reqs S) i \<noteq> None \<Longrightarrow> i < sd_next_req S" "sd_mamba_pool S = Some P0"
    "mset (mp_free_slots P0) + mset (held (sd_reqs S)) = mset (mamba_slots P0)"
  have n: "od_get (sd_reqs S) (sd_next_req S) = None" using h(2) by blast
  have "mset (mp_free_slots P') + mset (held (od_set (sd_next_req S) r (sd_reqs S))) =
      (mset (mp_free_slots P') + mset (slot_list r)) + mset (held (sd_reqs S))"
    by (simp add: held_new [OF n] union_ac)
  also have "\<dots> = mset (mamba_slots P')" using h(3,4) assms(2,3) unfolding assms(4) by (simp add: mamba_slots_def)
  finally show ?thesis using h(1,2)
    by (intro heap_okI [of _ P'])
      (auto simp: new_req_object_def set_req_def set_pool_def od_get_set less_Suc_eq split: if_splits)
qed

subsection \<open>The invariant and the steps that keep it\<close>

definition queue_ok :: "'t scheduler \<Rightarrow> bool" where
  "queue_ok S = (\<forall>m. sa_max_queued_requests (sd_args S) = Some m \<longrightarrow> int (length (sd_waiting_queue S)) \<le> m)"

definition system_ok :: "'t torch \<Rightarrow> 't scheduler \<Rightarrow> bool" where
  "system_ok T S =
     (tiers_ok T (sd_tiers S) \<and> heap_ok S \<and> queue_ok S \<and>
      length (pr_registry (sd_pending S)) \<le> PENDING_RESTORE_REGISTRY_MAX)"

named_theorems sys_intros \<open>steps that keep the invariant of the system\<close>

lemma system_okD:
  assumes "system_ok T S"
  shows "tiers_ok T (sd_tiers S)" "heap_ok S" "queue_ok S" "manager_ok (sd_manager S)"
    "length (pr_registry (sd_pending S)) \<le> PENDING_RESTORE_REGISTRY_MAX"
  using assms tiers_okD(3) by (auto simp: system_ok_def)

lemma system_ok_cong:
  "sd_tiers S' = sd_tiers S \<Longrightarrow> sd_reqs S' = sd_reqs S \<Longrightarrow> sd_next_req S' = sd_next_req S \<Longrightarrow>
   sd_mamba_pool S' = sd_mamba_pool S \<Longrightarrow> sd_args S' = sd_args S \<Longrightarrow> sd_waiting_queue S' = sd_waiting_queue S \<Longrightarrow>
   sd_pending S' = sd_pending S \<Longrightarrow> system_ok T S' = system_ok T S"
  using heap_ok_cong [of S' S] by (simp add: system_ok_def queue_ok_def)

lemma system_ok_trivial [simp]:
  "system_ok T (send_abort rid why S) = system_ok T S"
  "system_ok T (reset_health c S) = system_ok T S"
  "system_ok T (mark_taken now cid S) = system_ok T S"
  "system_ok T (S\<lparr>sd_health_monitor := h\<rparr>) = system_ok T S"
  "system_ok T (S\<lparr>sd_health_check_counter := k\<rparr>) = system_ok T S"
  by (intro system_ok_cong; simp add: send_abort_def reset_health_def mark_taken_def split: option.split)+

lemma system_ok_tiers [sys_intros]: "system_ok T S \<Longrightarrow> tiers_ok T W \<Longrightarrow> system_ok T (S\<lparr>sd_tiers := W\<rparr>)"
  using heap_ok_cong [of "S\<lparr>sd_tiers := W\<rparr>" S] by (simp add: system_ok_def queue_ok_def)

lemma system_ok_manager [sys_intros]: "system_ok T S \<Longrightarrow> manager_ok M \<Longrightarrow> system_ok T (set_manager M S)"
  unfolding set_manager_def by (intro system_ok_tiers tiers_ok_manager system_okD(1))

lemma system_ok_pending [sys_intros]:
  "system_ok T S \<Longrightarrow> length (pr_registry p) \<le> PENDING_RESTORE_REGISTRY_MAX \<Longrightarrow> system_ok T (S\<lparr>sd_pending := p\<rparr>)"
  using heap_ok_cong [of "S\<lparr>sd_pending := p\<rparr>" S] by (simp add: system_ok_def queue_ok_def)

lemma system_ok_queue:
  "system_ok T S \<Longrightarrow> queue_ok (S\<lparr>sd_waiting_queue := q\<rparr>) \<Longrightarrow> system_ok T (S\<lparr>sd_waiting_queue := q\<rparr>)"
  using heap_ok_cong [of "S\<lparr>sd_waiting_queue := q\<rparr>" S] by (simp add: system_ok_def)

lemma system_ok_heap:
  assumes "system_ok T S" "heap_ok S'" "sd_tiers S' = sd_tiers S" "sd_args S' = sd_args S"
    "sd_waiting_queue S' = sd_waiting_queue S" "sd_pending S' = sd_pending S"
  shows "system_ok T S'"
  using assms by (simp add: system_ok_def queue_ok_def)

lemma system_ok_request [sys_intros]:
  "system_ok T S \<Longrightarrow> od_get (sd_reqs S) i = Some r \<Longrightarrow> rq_mamba_pool_idx r' = rq_mamba_pool_idx r \<Longrightarrow> system_ok T (set_req i r' S)"
  by (rule system_ok_heap, assumption, rule heap_ok_request, auto simp: set_req_def system_okD)

lemma system_ok_pool [sys_intros]:
  "system_ok T S \<Longrightarrow> sd_mamba_pool S = Some P \<Longrightarrow> mp_size P' = mp_size P \<Longrightarrow>
   mset (mp_free_slots P') = mset (mp_free_slots P) \<Longrightarrow> system_ok T (set_pool P' S)"
  by (rule system_ok_heap, assumption, rule heap_ok_pool, auto simp: set_pool_def system_okD)

lemma system_ok_step:
  "system_ok T S \<Longrightarrow> sd_mamba_pool S = Some P \<Longrightarrow> od_get (sd_reqs S) i = Some r \<Longrightarrow> mp_size P' = mp_size P \<Longrightarrow>
   mset (mp_free_slots P') + mset (slot_list r') = mset (mp_free_slots P) + mset (slot_list r) \<Longrightarrow>
   system_ok T (set_req i r' (set_pool P' S))"
  by (rule system_ok_heap, assumption, rule heap_ok_step) (auto simp: set_req_def set_pool_def system_okD)

lemma system_ok_new:
  "system_ok T S \<Longrightarrow> sd_mamba_pool S = Some P \<Longrightarrow> mp_size P' = mp_size P \<Longrightarrow>
   mset (mp_free_slots P') + mset (slot_list r) = mset (mp_free_slots P) \<Longrightarrow>
   system_ok T (snd (new_req_object r (set_pool P' S)))"
  by (rule system_ok_heap, assumption, rule heap_ok_new) (auto simp: new_req_object_def set_req_def set_pool_def system_okD)

subsection \<open>The waiting queue\<close>

lemma system_ok_limit: "system_ok T S \<Longrightarrow> system_ok T (snd (abort_on_queued_limit r S))"
proof -
  assume s: "system_ok T S"
  obtain x S' where a: "abort_on_queued_limit r S = (x, S')" by fastforce
  show ?thesis
  proof (cases x)
    case (Inl e)
    then have "S' = S" using a
      by (auto simp: abort_on_queued_limit_def Let_def split: if_splits sum.splits option.splits bool.splits)
    then show ?thesis using a s by simp
  next
    case (Inr b)
    from a [unfolded Inr] show ?thesis
    proof (rule abort_on_queued_limit_cases)
      fix idx c
      assume i: "idx < length (sd_waiting_queue S)"
        "S' = send_abort (rq_rid c) Preempted (S\<lparr>sd_waiting_queue := drop_at idx (sd_waiting_queue S)\<rparr>)"
      have "queue_ok (S\<lparr>sd_waiting_queue := drop_at idx (sd_waiting_queue S)\<rparr>)"
        using system_okD(3) [OF s] drop_at_simps(1) [OF i(1)] by (auto simp: queue_ok_def)
      then show ?thesis using a i(2) system_ok_queue [OF s] by simp
    qed (use a s in auto)
  qed
qed

lemma limit_room:
  assumes "abort_on_queued_limit r S = (Inr False, S')" "queue_ok S"
  shows "queue_ok (S'\<lparr>sd_waiting_queue := sd_waiting_queue S' @ [i]\<rparr>)" "sd_reqs S' = sd_reqs S"
  by (rule abort_on_queued_limit_cases [OF assms(1)];
      use assms(2) drop_at_simps(1) in \<open>force simp: queue_ok_def has_room_def\<close>)+

lemma system_ok_add_request [sys_intros]:
  assumes s: "system_ok T S"
  shows "system_ok T (snd (add_request_to_queue now i S))"
proof (cases "od_get (sd_reqs S) i")
  case None
  then show ?thesis using s by (simp add: add_request_to_queue_def)
next
  case (Some r)
  obtain ok S1 where p: "set_or_validate_priority i r S = (ok, S1)" by fastforce
  have s1: "system_ok T S1"
    by (rule set_or_validate_priority_cases [OF p]) (use s Some in \<open>auto intro: system_ok_request\<close>)
  show ?thesis
  proof (cases "ok \<and> od_get (sd_reqs S1) i \<noteq> None")
    case False
    then show ?thesis using s1 Some p by (auto simp: add_request_to_queue_def split: bool.split)
  next
    case True
    then obtain r1 where r1: "od_get (sd_reqs S1) i = Some r1" by blast
    obtain x S2 where a: "abort_on_queued_limit r1 S1 = (x, S2)" by fastforce
    have s2: "system_ok T S2" using system_ok_limit [OF s1, of r1] a by simp
    show ?thesis
    proof (cases "x = Inr False")
      case False
      then show ?thesis using s2 Some p True r1 a by (auto simp: add_request_to_queue_def split: sum.split bool.split)
    next
      case f: True
      note l = limit_room [OF a [unfolded f] system_okD(3) [OF s1]]
      have "system_ok T (S2\<lparr>sd_waiting_queue := sd_waiting_queue S2 @ [i]\<rparr>)" by (rule system_ok_queue [OF s2 l(1)])
      then show ?thesis using Some p True r1 a f l(2)
        by (simp add: add_request_to_queue_def) (rule system_ok_request [of _ _ _ r1], simp_all)
    qed
  qed
qed

subsection \<open>The store behind the handlers\<close>

lemma load_metadata_manager_ok: "manager_ok M \<Longrightarrow> manager_ok (snd (load_metadata cid turn br M))"
  by (auto simp: load_metadata_def get_snapshot_paths_eq manager_ok_parts manager_ok_paths_mkdir
      split: sum.split option.split)

lemma list_branches_manager_ok: "manager_ok M \<Longrightarrow> manager_ok (snd (list_branches cid M))"
  by (auto simp: list_branches_def get_conversation_dir_eq manager_ok_parts manager_ok_ops Let_def
      split: sum.split option.split)

lemma load_each_manager_ok: "manager_ok M \<Longrightarrow> manager_ok (snd (load_each cid keys M))"
proof (induction keys arbitrary: M)
  case (Cons key keys)
  obtain turn br where key: "key = (turn, br)" by (cases key)
  obtain x M1 where l: "load_metadata cid turn br M = (x, M1)" by fastforce
  have ok: "manager_ok M1" using load_metadata_manager_ok [OF Cons.prems, of cid turn br] l by simp
  show ?case using key l ok Cons.IH [OF ok] by (auto split: sum.split prod.split)
qed simp

lemma list_all_metadata_manager_ok:
  assumes "manager_ok M"
  shows "manager_ok (snd (list_all_metadata cid M))"
proof -
  obtain x M1 where l: "list_snapshots cid M = (x, M1)" by fastforce
  have m1: "manager_ok M1" using list_snapshots_manager_ok [OF assms, of cid] l by simp
  show ?thesis
  proof (cases x)
    case (Inr turns)
    obtain y M2 where e: "load_each cid (map (\<lambda>n. (Some n, None)) turns) M1 = (y, M2)" by fastforce
    have m2: "manager_ok M2" using load_each_manager_ok [OF m1, of cid "map (\<lambda>n. (Some n, None)) turns"] e by simp
    obtain z M3 where b: "list_branches cid M2 = (z, M3)" by fastforce
    have m3: "manager_ok M3" using list_branches_manager_ok [OF m2, of cid] b by simp
    show ?thesis using l Inr e b m2 m3 load_each_manager_ok [OF m3]
      by (cases y; cases z) (auto simp: list_all_metadata_def split_beta split: sum.split)
  qed (use l m1 in \<open>simp add: list_all_metadata_def\<close>)
qed

lemma system_ok_queries [sys_intros]:
  assumes "system_ok T S"
  shows "system_ok T (snd (handle_list_snapshots cid S))" "system_ok T (snd (handle_get_snapshot_info q S))"
    "system_ok T (snd (handle_delete_snapshot q S))"
proof -
  note m = system_okD(4) [OF assms]
  show "system_ok T (snd (handle_list_snapshots cid S))"
    using assms system_ok_manager [OF assms list_all_metadata_manager_ok [OF m, of cid]]
    by (cases "list_all_metadata cid (sd_manager S)") (auto simp: handle_list_snapshots_def split: sum.split)
  show "system_ok T (snd (handle_get_snapshot_info q S))"
    using assms system_ok_manager [OF assms load_metadata_manager_ok [OF m, of "sr_conversation_id q" "sr_turn_number q" "sr_branch_name q"]]
    by (cases "load_metadata (sr_conversation_id q) (sr_turn_number q) (sr_branch_name q) (sd_manager S)")
      (auto simp: handle_get_snapshot_info_def split: sum.split option.split)
  show "system_ok T (snd (handle_delete_snapshot q S))"
    using assms system_ok_manager [OF assms delete_snapshot_manager_ok [OF m, of "sr_conversation_id q" "sr_turn_number q" "sr_branch_name q"]]
    by (cases "delete_snapshot (sr_conversation_id q) (sr_turn_number q) (sr_branch_name q) (sd_manager S)")
      (auto simp: handle_delete_snapshot_def split: sum.split bool.split)
qed

lemma system_ok_save_and_reply [sys_intros]:
  assumes "system_ok T S"
  shows "system_ok T (snd (save_and_reply T fault q msg cs t md S))"
  using system_ok_manager [OF assms save_snapshot_manager_ok [OF system_okD(4) [OF assms], of T fault cs t md]]
  by (cases "save_snapshot T fault cs t md (sd_manager S)") (auto simp: save_and_reply_def split: sum.split)

lemma system_ok_warm_restore [sys_intros]:
  assumes "system_ok T S" "restore_from_warm_tier now cid (sd_tiers S) = (x, W)"
  shows "system_ok T (S\<lparr>sd_tiers := W\<rparr>)"
  using system_ok_tiers [OF assms(1)] tiers_ok_restore_warm [OF system_okD(1) [OF assms(1)], of now cid] assms(2) by simp

lemma system_ok_save [sys_intros]:
  assumes "system_ok T S"
  shows "system_ok T (snd (handle_save_snapshot T fault now q S))"
proof -
  have "system_ok T (snd (save_live T fault now q cid r S))" for cid r
    using assms system_ok_save_and_reply [OF assms]
    by (auto simp: save_live_def split: option.split sum.split)
  moreover have "system_ok T (snd (save_from_warm T fault now q S))"
  proof (cases "conv_or_rid (si_conversation_id q) (si_rid q)")
    case (Some cid)
    obtain x W where w: "restore_from_warm_tier now cid (sd_tiers S) = (x, W)" by fastforce
    note s = system_ok_warm_restore [OF assms w]
    show ?thesis using Some w s assms system_ok_save_and_reply [OF s]
      by (auto simp: save_from_warm_def split: sum.split option.split)
  qed (use assms in \<open>simp add: save_from_warm_def\<close>)
  ultimately show ?thesis using assms by (auto simp: handle_save_snapshot_def split: option.split)
qed

lemma system_ok_evict [sys_intros]:
  assumes "system_ok T S"
  shows "system_ok T (handle_mamba_state_eviction T now cid idx md S)"
  using assms system_ok_tiers [OF assms tiers_ok_warm_save [OF system_okD(1) [OF assms]]]
  by (auto simp: handle_mamba_state_eviction_def split: option.split sum.split)

subsection \<open>The callback\<close>

lemma system_ok_prune: "system_ok T S \<Longrightarrow> system_ok T (prune cid S)"
  unfolding prune_def by (intro system_ok_manager prune_manager_ok system_okD(4))

lemma system_ok_disk_save:
  assumes "system_ok T S"
  shows "system_ok T (disk_save T fault now cid cs t md S)"
  using system_ok_manager [OF assms save_snapshot_manager_ok [OF system_okD(4) [OF assms], of T fault cs t md]]
  by (cases "save_snapshot T fault cs t md (sd_manager S)") (auto simp: disk_save_def system_ok_prune split: sum.split)

lemma system_ok_save_turn:
  assumes "system_ok T S"
  shows "system_ok T (save_state_of_turn T fault now cid cs t md S)"
proof -
  obtain x W where w: "save_to_warm_tier T now cid cs t (Some (to_dict md)) ''log_and_continue'' (sd_tiers S) = (x, W)" by fastforce
  have s: "system_ok T (S\<lparr>sd_tiers := W\<rparr>)"
    using system_ok_tiers [OF assms tiers_ok_warm_save [OF system_okD(1) [OF assms], of now cid cs t "Some (to_dict md)" "''log_and_continue''"]] w by simp
  show ?thesis using w s system_ok_disk_save [OF s] system_ok_disk_save [OF assms]
    by (auto simp: save_state_of_turn_def system_ok_prune split: sum.split bool.split)
qed

lemma system_ok_health_check:
  assumes "system_ok T S"
  shows "system_ok T (snd (health_check T now cid cs t turn S))"
  using assms by (auto simp: health_check_def Let_def split: option.split sum.split prod.split)

lemma system_ok_callback:
  assumes "system_ok T S"
  shows "\<exists>S'. snd (post_forward_snapshot_callback T tr (now, fault, S)) = (now, fault, S') \<and> system_ok T S'"
proof -
  have "system_ok T (snd (snapshot_of_turn T fault now n r idx P S))" for n r idx P
  proof (cases "extract_state_from_pool T P idx")
    case (Inr p)
    obtain cs t where p: "p = (cs, t)" by (cases p)
    obtain b S1 where h: "health_check T now (callback_conversation r) cs t n S = (b, S1)" by fastforce
    have s1: "system_ok T S1" using system_ok_health_check [OF assms, of now "callback_conversation r" cs t n] h by simp
    show ?thesis using Inr p h s1 system_ok_save_turn [OF s1]
      by (auto simp: snapshot_of_turn_def Let_def split: bool.split option.split)
  qed (use assms in \<open>simp add: snapshot_of_turn_def Let_def\<close>)
  then show ?thesis using assms
    by (auto simp: post_forward_snapshot_callback_def split: option.split sum.split bool.split prod.split) (metis snd_conv)+
qed

lemma system_ok_hooks [sys_intros]:
  assumes "system_ok T S"
  shows "system_ok T (snd (snd (trigger_snapshot_hooks (Some (system_hooks T)) batch (now, fault, S))))"
proof -
  have step: "\<exists>S'. trigger_for (system_hooks T) i (now, fault, S) = (now, fault, S') \<and> system_ok T S'" if "system_ok T S" for i S
  proof (cases "Option.bind (od_get (sd_reqs S) i) (\<lambda>r. map_option (Pair r) (rq_mamba_pool_idx r))")
    case None
    then show ?thesis using that by (auto simp: trigger_for_def split: option.splits)
  next
    case (Some p)
    then obtain r idx where "od_get (sd_reqs S) i = Some r" "rq_mamba_pool_idx r = Some idx" by (auto simp: bind_eq_Some_conv)
    then show ?thesis using system_ok_callback [OF that] by (simp add: trigger_for_system)
  qed
  have "\<exists>S'. fold (trigger_for (system_hooks T)) batch (now, fault, S) = (now, fault, S') \<and> system_ok T S'"
    using assms by (induction batch arbitrary: S) (auto, metis step)
  then show ?thesis using assms by (auto simp: trigger_snapshot_hooks_def)
qed

subsection \<open>The registry\<close>

lemma stage_bounded: "length (pr_registry (stage_pending_restore now rid cid cs t fi P)) \<le> PENDING_RESTORE_REGISTRY_MAX"
  by (simp add: stage_pending_restore_def Let_def evict_registry)

lemma clear_bounded: "length (pr_registry (clear_pending_restore rid cid P)) \<le> length (pr_registry P)"
  by (simp add: clear_pending_restore_def Let_def forget_def drop_aliases_def od_del_def)

lemma length_od_del: "od_get d k = Some v \<Longrightarrow> Suc (length (od_del k d)) \<le> length d"
proof (induction d)
  case (Cons p d)
  then show ?case by (cases p) (auto simp: od_del_def split: if_splits)
qed simp

lemma length_od_set: "length (od_set k v d) \<le> Suc (length d)"
  by (induction d) auto

lemma touch_bounded: "length (pr_registry (touch_pending k P)) \<le> length (pr_registry P)"
proof (cases "od_get (pr_registry P) k")
  case (Some v)
  then show ?thesis using le_trans [OF length_od_set [of k v "od_del k (pr_registry P)"] length_od_del [OF Some]]
    by (simp add: touch_pending_def od_move_to_end_def od_put_last_def)
qed (simp add: touch_pending_def od_move_to_end_def)

subsection \<open>Restoring\<close>

lemma inject_size [simp]: "mp_size (snd (inject_state_to_pool T cs t idx P)) = mp_size P"
  by (auto simp: inject_state_to_pool_def split_beta split: sum.split option.split)

lemma inject_pool: "inject_state_to_pool T cs t idx P = (x, P') \<Longrightarrow> mp_free_slots P' = mp_free_slots P \<and> mp_size P' = mp_size P"
  using inject_free [of T cs t idx P] inject_size [of T cs t idx P] by simp

lemma system_ok_load_pending:
  assumes "system_ok T S" "load_snapshot_for_pending_restore T now cid turn br S = (x, S1)"
  shows "system_ok T S1"
proof -
  obtain w W where w: "restore_from_warm_tier now cid (sd_tiers S) = (w, W)" by fastforce
  have s: "system_ok T (S\<lparr>sd_tiers := W\<rparr>)" by (rule system_ok_warm_restore [OF assms(1) w])
  have l: "system_ok T (set_manager (snd (load_snapshot T cid turn br (sd_manager S'))) S')" if "system_ok T S'" for S'
    by (intro system_ok_manager that load_snapshot_manager_ok system_okD(4) [OF that])
  show ?thesis using assms w s l [OF s] l [OF assms(1)]
    by (auto simp: load_snapshot_for_pending_restore_def Let_def split: if_splits sum.splits option.splits prod.splits)
qed

lemma system_ok_restore_pending [sys_intros]:
  assumes "system_ok T S"
  shows "system_ok T (snd (restore_pending T now q S))"
proof -
  obtain x S1 where l: "load_snapshot_for_pending_restore T now (effective_conv_id q) (ri_turn_number q) (ri_branch_name q) S = (x, S1)"
    by fastforce
  note s = system_ok_load_pending [OF assms l]
  show ?thesis using l s system_ok_pending [OF s stage_bounded]
    by (auto simp: restore_pending_def split: sum.split option.split)
qed

lemma system_ok_inject_live:
  assumes "system_ok T S" "od_get (sd_reqs S) i = Some r"
  shows "system_ok T (snd (inject_into_live T q i r idx snap S))"
proof -
  obtain cs t md where snap: "snap = (cs, t, md)" by (cases snap) auto
  show ?thesis
  proof (cases "sd_mamba_pool S")
    case None
    then show ?thesis using assms snap by (auto simp: inject_into_live_def split: option.split)
  next
    case (Some P)
    obtain x P1 where j: "inject_state_to_pool T cs t idx P = (x, P1)" by fastforce
    let ?S1 = "S\<lparr>sd_pending := clear_pending_restore (ri_rid q) (Some (effective_conv_id q)) (sd_pending S)\<rparr>"
    have p: "system_ok T (set_pool P1 S)" using system_ok_pool [OF assms(1) Some] inject_pool [OF j] by simp
    have "system_ok T ?S1" 
      by (rule system_ok_pending [OF assms(1) le_trans [OF clear_bounded system_okD(5) [OF assms(1)]]])
    then have "system_ok T (set_pool P1 ?S1)" using system_ok_pool [of T ?S1 P P1] Some inject_pool [OF j] by simp
    then have "system_ok T (set_req i (reconcile_conversation (effective_conv_id q)
        (r\<lparr>rq_fill_ids := Some fi, rq_origin_input_ids := fi\<rparr>)) (set_pool P1 ?S1))" for fi
      by (rule system_ok_request [where r = r]) (use assms(2) in simp_all)
    then show ?thesis using assms(1) p snap j Some by (auto simp: inject_into_live_def split: option.split sum.split)
  qed
qed

lemma system_ok_restore_live [sys_intros]:
  assumes "system_ok T S" "od_get (sd_reqs S) i = Some r"
  shows "system_ok T (snd (restore_live T q i r S))"
proof -
  obtain x M where l: "load_snapshot T (effective_conv_id q) (ri_turn_number q) (ri_branch_name q) (sd_manager S) = (x, M)" by fastforce
  have "manager_ok M"
    using load_snapshot_manager_ok [OF system_okD(4) [OF assms(1)], of T "effective_conv_id q" "ri_turn_number q" "ri_branch_name q"] l by simp
  then have s: "system_ok T (set_manager M S)" by (rule system_ok_manager [OF assms(1)])
  show ?thesis using assms l s system_ok_inject_live [OF s]
    by (auto simp: restore_live_def split: option.split sum.split)
qed

lemma held_delete: "od_ok d \<Longrightarrow> od_get d i = Some r \<Longrightarrow> mset (held d) = mset (held (od_del i d)) + mset (slot_list r)"
proof (induction d)
  case (Cons p d)
  show ?case
  proof (cases "fst p = i")
    case True
    then have "od_del i d = d" using Cons.prems(1) by (cases p) (auto simp: od_ok_def od_del_def filter_id_conv rev_image_eqI)
    then show ?thesis using True Cons.prems by (cases p) (simp add: held_def od_del_def)
  next
    case False
    then show ?thesis using Cons by (cases p) (simp add: held_def od_del_def od_ok_def union_ac)
  qed
qed simp

lemma system_ok_discard:
  assumes "system_ok T S" "sd_mamba_pool S = Some P" "pool_idx_at S i = Some f"
  shows "system_ok T (set_pool (mamba_free [f] P) (S\<lparr>sd_reqs := od_del i (sd_reqs S)\<rparr>))"
proof (rule system_ok_heap [OF assms(1)])
  obtain r where r: "od_get (sd_reqs S) i = Some r" "rq_mamba_pool_idx r = Some f"
    using assms(3) by (auto simp: pool_idx_at_def bind_eq_Some_conv)
  show "heap_ok (set_pool (mamba_free [f] P) (S\<lparr>sd_reqs := od_del i (sd_reqs S)\<rparr>))"
  proof (rule heap_okE [OF system_okD(2) [OF assms(1)]])
    fix P0
    assume h: "od_ok (sd_reqs S)" "\<And>i. od_get (sd_reqs S) i \<noteq> None \<Longrightarrow> i < sd_next_req S" "sd_mamba_pool S = Some P0"
      "mset (mp_free_slots P0) + mset (held (sd_reqs S)) = mset (mamba_slots P0)"
    have "mset (mp_free_slots (mamba_free [f] P)) + mset (held (od_del i (sd_reqs S))) = mset (mamba_slots (mamba_free [f] P))"
      using h(3,4) assms(2) held_delete [OF h(1) r(1)] r(2) by (simp add: mamba_free_def mamba_slots_def union_ac)
    then show ?thesis using h(1,2)
      by (intro heap_okI [of _ "mamba_free [f] P"]) (auto simp: set_pool_def od_get_del split: if_splits)
  qed
qed (simp_all add: set_pool_def)


lemma system_ok_register [sys_intros]:
  assumes "system_ok T S" "sd_mamba_pool S = Some P" "mp_free_slots P = f # fs" "mp_free_slots P2 = fs" "mp_size P2 = mp_size P"
  shows "system_ok T (snd (register_restored now uid q md ids f P2 S))"
proof -
  define r where "r = init_req_max_new_tokens (sd_args S)
    (restored_req (''restored-'' @ uid) (effective_conv_id q) f ids (ri_max_new_tokens q) (ri_continuation_ids q \<noteq> None))"
  define S1 where "S1 = snd (new_req_object r (set_pool P2 S))"
  have ri: "rq_mamba_pool_idx r = Some f" by (simp add: r_def init_req_max_new_tokens_def Let_def restored_req_def)
  then have s1: "system_ok T S1" unfolding S1_def
    by (intro system_ok_new [OF assms(1,2,5)]) (use assms(3,4) in simp)
  obtain x S2 where a: "add_request_to_queue now (sd_next_req S) S1 = (x, S2)" by fastforce
  have fr: "queue_frame S1 S2" using add_request_frame [of S1 now "sd_next_req S"] a by simp
  have s2: "system_ok T S2" using system_ok_add_request [OF s1, of now "sd_next_req S"] a by simp
  have "pool_idx_at S1 (sd_next_req S) = Some f" "sd_mamba_pool S1 = Some P2"
    by (simp_all add: S1_def new_req_object_def ri)
  then have "pool_idx_at S2 (sd_next_req S) = Some f" "sd_mamba_pool S2 = Some P2"
    using fr by (simp_all add: queue_frame_def)
  then have d: "system_ok T (set_pool (mamba_free [f] P2) (S2\<lparr>sd_reqs := od_del (sd_next_req S) (sd_reqs S2)\<rparr>))"
    by (intro system_ok_discard [OF s2])
  have "snd (register_restored now uid q md ids f P2 S) =
    (case x of Inl e \<Rightarrow> set_pool (mamba_free [f] P2) (S2\<lparr>sd_reqs := od_del (sd_next_req S) (sd_reqs S2)\<rparr>)
     | Inr _ \<Rightarrow> reset_health (effective_conv_id q) S2)"
    using a unfolding register_restored_def Let_def r_def [symmetric] S1_def
    by (simp add: new_req_object_def split: sum.split)
  then show ?thesis using d s2 by (simp split: sum.split)
qed

lemma system_ok_create [sys_intros]:
  assumes "system_ok T S" "sd_mamba_pool S = Some P"
  shows "system_ok T (snd (create_from_snapshot T now uid q snap P S))"
proof -
  obtain cs t md where snap: "snap = (cs, t, md)" by (cases snap) auto
  obtain a P1 where al: "mamba_alloc 1 P = (a, P1)" by fastforce
  show ?thesis
  proof (cases a)
    case None
    then show ?thesis using assms al snap by (simp add: create_from_snapshot_def del: One_nat_def)
  next
    case (Some sl)
    obtain f fs where f: "mp_free_slots P = f # fs" "sl = [f]" "P1 = P\<lparr>mp_free_slots := fs\<rparr>"
      by (rule alloc_one [OF al [unfolded Some]])
    obtain x P2 where i: "inject_state_to_pool T cs t f P1 = (x, P2)" by fastforce
    have P2: "mp_free_slots P2 = fs" "mp_size P2 = mp_size P" using inject_pool [OF i] f(3) by simp_all
    have fr: "system_ok T (set_pool (mamba_free [f] P2) S)"
      using system_ok_pool [OF assms, of "mamba_free [f] P2"] P2 f(1) by (simp add: mamba_free_def)
    show ?thesis using assms(1) al Some f(2) i snap fr system_ok_register [OF assms f(1) P2]
      by (auto simp: create_from_snapshot_def Let_def simp del: One_nat_def split: sum.split option.split)
  qed
qed

lemma system_ok_restore [sys_intros]:
  assumes "system_ok T S"
  shows "system_ok T (snd (handle_restore_snapshot T now uid q S))"
proof -
  have l: "system_ok T (snd (load_and_create T now uid q turn P S))" if "system_ok T S" "sd_mamba_pool S = Some P" for turn P S
  proof -
    obtain x M where x: "load_snapshot T (effective_conv_id q) turn (ri_branch_name q) (sd_manager S) = (x, M)" by fastforce
    have "manager_ok M" using load_snapshot_manager_ok [OF system_okD(4) [OF that(1)], of T "effective_conv_id q" turn "ri_branch_name q"] x by simp
    then have s: "system_ok T (set_manager M S)" by (rule system_ok_manager [OF that(1)])
    show ?thesis using x s system_ok_create [OF s] that(2) by (auto simp: load_and_create_def split: sum.split)
  qed
  have "system_ok T (snd (restore_as_new_request T now uid q S))"
  proof (cases "sd_mamba_pool S")
    case (Some P)
    obtain x M where x: "get_latest_snapshot (effective_conv_id q) (sd_manager S) = (x, M)" by fastforce
    have "manager_ok M" using latest_state(1) [OF system_okD(4) [OF assms], of "effective_conv_id q"] x by simp
    then have s: "system_ok T (set_manager M S)" by (rule system_ok_manager [OF assms])
    show ?thesis using x s Some l [OF s] l [OF assms]
      by (auto simp: restore_as_new_request_def split: sum.split option.split)
  qed (use assms in \<open>simp add: restore_as_new_request_def\<close>)
  then show ?thesis using assms system_ok_restore_pending [OF assms] system_ok_restore_live [OF assms]
    by (auto simp: handle_restore_snapshot_def split_beta split: option.split)
qed

subsection \<open>Arrival of a request\<close>

lemma system_ok_hydrate [sys_intros]:
  assumes "system_ok T S"
  shows "system_ok T (snd (maybe_hydrate_from_pending_restore T i S))"
proof -
  have "system_ok T (snd (hydrate_from T i r k b e P S))"
    if r: "od_get (sd_reqs S) i = Some r" "rq_mamba_pool_idx r = None" and P: "sd_mamba_pool S = Some P" for r k b e P
  proof -
    obtain a P1 where al: "mamba_alloc 1 P = (a, P1)" by fastforce
    show ?thesis
    proof (cases a)
      case None
      then show ?thesis using assms al by (simp add: hydrate_from_def del: One_nat_def)
    next
      case (Some sl)
      obtain f fs where f: "mp_free_slots P = f # fs" "sl = [f]" "P1 = P\<lparr>mp_free_slots := fs\<rparr>"
        by (rule alloc_one [OF al [unfolded Some]])
      obtain x P2 where j: "inject_state_to_pool T (pe_conv_states e) (pe_temporal_states e) f P1 = (x, P2)" by fastforce
      have P2: "mp_free_slots P2 = fs" "mp_size P2 = mp_size P" using inject_pool [OF j] f(3) by simp_all
      have fr: "system_ok T (set_pool (mamba_free [f] P2) S)"
        using system_ok_pool [OF assms P, of "mamba_free [f] P2"] P2 f(1) by (simp add: mamba_free_def)
      let ?S1 = "S\<lparr>sd_pending := touch_pending (Some k) (sd_pending S)\<rparr>"
      have s1: "system_ok T ?S1"
        by (rule system_ok_pending [OF assms le_trans [OF touch_bounded system_okD(5) [OF assms]]])
      have "system_ok T (set_req i r' (set_pool P2 ?S1))" if "rq_mamba_pool_idx r' = Some f" for r'
        by (rule system_ok_step [OF s1, of P i r P2 r']) (use r P f(1) P2 that in simp_all)
      then show ?thesis using al Some f(2) j fr
        by (auto simp: hydrate_from_def Let_def simp del: One_nat_def split: sum.split)
    qed
  qed
  then show ?thesis using assms
    by (auto simp: maybe_hydrate_from_pending_restore_def split: option.split)
qed

lemma system_ok_update:
  "system_ok T S \<Longrightarrow> (\<And>r. rq_mamba_pool_idx (f r) = rq_mamba_pool_idx r) \<Longrightarrow> system_ok T (update_req i f S)"
  by (auto simp: update_req_def intro: system_ok_request split: option.split)

lemma system_ok_too_long: "system_ok T S \<Longrightarrow> system_ok T (snd (too_long i S))"
  by (auto simp: too_long_def validate_input_length_def Let_def intro: system_ok_request split: option.split)

lemma system_ok_admit [sys_intros]:
  assumes "system_ok T S"
  shows "system_ok T (snd (admit_generate_request T now i S))"
proof -
  obtain h S1 where h: "maybe_hydrate_from_pending_restore T i S = (h, S1)" by fastforce
  have s1: "system_ok T S1" using system_ok_hydrate [OF assms, of i] h by simp
  obtain l S2 where l: "too_long i (update_req i (init_req_max_new_tokens (sd_args S1)) S1) = (l, S2)" by fastforce
  have "system_ok T (update_req i (init_req_max_new_tokens (sd_args S1)) S1)"
    by (rule system_ok_update [OF s1]) (simp add: init_req_max_new_tokens_def Let_def)
  then have s2: "system_ok T S2" using system_ok_too_long [of T _ i] l by (metis snd_conv)
  have "system_ok T (snd (add_request_to_queue now i (update_req i set_finish_with_abort S')))" if "system_ok T S'" for S'
    by (intro system_ok_add_request system_ok_update that) (simp add: set_finish_with_abort_def)
  then show ?thesis using h l s1 s2 system_ok_add_request [OF s2]
    by (auto simp: admit_generate_request_def split: option.split bool.split)
qed

lemma set_pool_same: "sd_mamba_pool S = Some P \<Longrightarrow> set_pool P S = S"
  by (simp add: set_pool_def)

lemma system_ok_arrive [sys_intros]:
  assumes "system_ok T S" "rq_mamba_pool_idx r = None"
  shows "system_ok T (arrive T now r S)"
proof -
  obtain P where P: "sd_mamba_pool S = Some P" using system_okD(2) [OF assms(1)] by (auto simp: heap_ok_def)
  have "system_ok T (snd (new_req_object r S))"
    using system_ok_new [OF assms(1) P, of P r] assms(2) set_pool_same [OF P] by simp
  then show ?thesis using system_ok_admit by (auto simp: arrive_def split: prod.split)
qed

subsection \<open>The loop and the start\<close>

lemma system_ok_prefill [sys_intros]:
  assumes "system_ok T S"
  shows "system_ok T (prefill_slot i S)"
proof (cases "od_get (sd_reqs S) i")
  case (Some r)
  obtain P where P: "sd_mamba_pool S = Some P" using system_okD(2) [OF assms] by (auto simp: heap_ok_def)
  obtain x r' P' where a: "alloc_idx r P = (x, r', P')" by (cases "alloc_idx r P") auto
  have "mp_size P' = mp_size P \<and> mset (mp_free_slots P') + mset (slot_list r') = mset (mp_free_slots P) + mset (slot_list r)"
    using a by (cases "mp_free_slots P") (auto simp: alloc_idx_def mamba_alloc_def slot_list_def split: option.splits if_splits)
  then show ?thesis using a Some P system_ok_step [OF assms P Some, of P' r'] by (simp add: prefill_slot_def)
qed (use assms in \<open>simp add: prefill_slot_def\<close>)

lemma system_ok_release [sys_intros]:
  assumes "system_ok T S"
  shows "system_ok T (release_slot i S)"
proof (cases "od_get (sd_reqs S) i")
  case (Some r)
  obtain P where P: "sd_mamba_pool S = Some P" using system_okD(2) [OF assms] by (auto simp: heap_ok_def)
  show ?thesis
  proof (cases "rq_mamba_pool_idx r")
    case (Some f)
    then have "mset (mp_free_slots (mamba_free [f] P)) + mset (slot_list (r\<lparr>rq_mamba_pool_idx := None\<rparr>)) =
      mset (mp_free_slots P) + mset (slot_list r)" by simp
    then show ?thesis using Some \<open>od_get (sd_reqs S) i = Some r\<close> P
        system_ok_step [OF assms P \<open>od_get (sd_reqs S) i = Some r\<close>, of "mamba_free [f] P"]
      by (simp add: release_slot_def mamba_free_def)
  qed (use assms Some P in \<open>simp add: release_slot_def\<close>)
qed (use assms in \<open>simp add: release_slot_def\<close>)

lemma system_ok_schedule [sys_intros]:
  assumes "system_ok T S" "length q \<le> length (sd_waiting_queue S)"
  shows "system_ok T (S\<lparr>sd_waiting_queue := q, sd_running_batch := b1, sd_cur_batch := b2, sd_last_batch := b3\<rparr>)"
proof -
  have "queue_ok (S\<lparr>sd_waiting_queue := q\<rparr>)" using system_okD(3) [OF assms(1)] assms(2) by (fastforce simp: queue_ok_def)
  from system_ok_queue [OF assms(1) this] show ?thesis by (subst system_ok_cong) simp_all
qed

lemma system_ok_init:
  assumes "sd_reqs S = []" "sd_mamba_pool S = Some (init_mamba_pool n conv temporal layers)" "sd_waiting_queue S = []"
    and "\<And>m. sa_max_queued_requests (sd_args S) = Some m \<Longrightarrow> 0 \<le> m" "tiers_ok T (sd_tiers S)"
    and "\<And>d M. open_dir d = Some M \<Longrightarrow> manager_ok M"
  shows "system_ok T (snd (init_snapshot_system T open_dir A now S))"
proof -
  have h: "heap_ok S'" if "sd_reqs S' = []" "sd_mamba_pool S' = sd_mamba_pool S" for S' :: "'a scheduler"
    by (rule heap_okI [of _ "init_mamba_pool n conv temporal layers"])
      (use that assms(2) in \<open>simp_all add: held_def init_mamba_pool_def mamba_slots_def\<close>)
  have r: "system_ok T (reset_system S)"
    using assms h [of "reset_system S"] by (simp add: system_ok_def reset_system_def queue_ok_def init_pending_def)
  have t: "system_ok T (init_health (init_tier_system A M ((reset_system S)\<lparr>sd_snapshot_manager := True, sd_policy := p\<rparr>)))"
    if "manager_ok M" for M p
  proof -
    have a: "system_ok T ((reset_system S)\<lparr>sd_snapshot_manager := True, sd_policy := p\<rparr>)"
      by (subst system_ok_cong [OF _ _ _ _ _ _ _]) (use r in simp_all)
    have b: "system_ok T (S1\<lparr>sd_tier_manager := True, sd_tiers := W\<rparr>)" if "system_ok T S1" "tiers_ok T W" for S1 W
      using system_ok_tiers [OF that] by (subst (asm) system_ok_cong [symmetric]) simp_all
    show ?thesis using that
      by (auto simp: init_health_def init_tier_system_def intro!: system_ok_manager a b tiers_ok_init)
  qed
  have "system_ok T (restore_snapshots_on_startup T now S1)" if "system_ok T S1" for S1
    using that system_ok_tiers [OF that] tiers_ok_restore_each [OF system_okD(1) [OF that]]
    by (simp add: restore_snapshots_on_startup_def restore_latest_snapshots_to_warm_tier_def)
  then show ?thesis using r t assms(6)
    by (auto simp: init_snapshot_system_def Let_def split: option.split)
qed

lemma system_reach_ok: "system_reach T S \<Longrightarrow> system_ok T S"
proof (induction rule: system_reach.induct)
  case (tick S faults now)
  then show ?case
    by (intro system_ok_tiers) (simp_all add: background_tick_def tiers_ok_cleanup system_okD(1))
next
  case (forward S P conv temporal)
  then show ?case by (intro system_ok_pool [of T S P]) simp_all
qed (simp_all add: system_ok_init sys_intros)

end
