(* ===== verification/KV_Allocator.thy ===== *)
theory KV_Allocator
  imports Prelude "HOL-Library.Multiset"
begin

section \<open>The allocators of KV cache slots\<close>

text \<open>
  \<open>TokenToKVPoolAllocator\<close> and \<open>PagedTokenToKVPoolAllocator\<close> of \<open>mem_cache/allocator.py\<close>, with
  the two Triton kernels that compute the slots of a batch and the reference
  \<open>alloc_extend_naive\<close>. A tensor of indices is a list of integers, GPU memory a function from
  addresses to integers. The checks that \<open>SGLANG_DEBUG_MEMORY_POOL\<close> turns on are not part of
  the operations; the lemmas show what they check.
\<close>

subsection \<open>State\<close>

text \<open>\<open>ka_paged\<close> tells the two classes apart; \<open>free_pages\<close> holds slots when it is false.\<close>

record kv_allocator =
  ka_size :: nat
  ka_page_size :: nat
  ka_paged :: bool
  ka_need_sort :: bool
  ka_free_pages :: "int list"
  ka_release_pages :: "int list"
  ka_is_not_in_free_group :: bool
  ka_free_group :: "int list list"

definition num_pages :: "kv_allocator \<Rightarrow> nat" where
  "num_pages A = (if ka_paged A then ka_size A div ka_page_size A else ka_size A)"

definition kv_clear :: "kv_allocator \<Rightarrow> kv_allocator" where
  "kv_clear A = A\<lparr>ka_free_pages := map int [1..<num_pages A + 1], ka_is_not_in_free_group := True,
     ka_free_group := [], ka_release_pages := []\<rparr>"

definition init_token_allocator :: "nat \<Rightarrow> bool \<Rightarrow> kv_allocator" where
  "init_token_allocator n need_sort =
     kv_clear \<lparr>ka_size = n, ka_page_size = 1, ka_paged = False, ka_need_sort = need_sort,
       ka_free_pages = [], ka_release_pages = [], ka_is_not_in_free_group = True, ka_free_group = []\<rparr>"

definition init_paged_allocator :: "nat \<Rightarrow> nat \<Rightarrow> bool \<Rightarrow> kv_allocator" where
  "init_paged_allocator n page_size need_sort =
     kv_clear \<lparr>ka_size = n, ka_page_size = page_size, ka_paged = True, ka_need_sort = need_sort,
       ka_free_pages = [], ka_release_pages = [], ka_is_not_in_free_group = True, ka_free_group = []\<rparr>"

definition available_size :: "kv_allocator \<Rightarrow> nat" where
  "available_size A =
     (if ka_paged A then (length (ka_free_pages A) + length (ka_release_pages A)) * ka_page_size A
      else length (ka_free_pages A) + length (ka_release_pages A))"

definition backup_state :: "kv_allocator \<Rightarrow> int list \<times> int list" where
  "backup_state A = (ka_free_pages A, ka_release_pages A)"

definition restore_state :: "int list \<times> int list \<Rightarrow> kv_allocator \<Rightarrow> kv_allocator" where
  "restore_state st A = A\<lparr>ka_free_pages := fst st, ka_release_pages := snd st\<rparr>"

subsection \<open>Releasing slots\<close>

text \<open>\<open>torch.unique\<close>: the sorted elements without repetition.\<close>

definition torch_unique :: "int list \<Rightarrow> int list" where
  "torch_unique xs = sort (remdups xs)"

definition page_indices :: "kv_allocator \<Rightarrow> int list \<Rightarrow> int list" where
  "page_indices A free_index = torch_unique (map (\<lambda>i. i div int (ka_page_size A)) free_index)"

definition kv_free :: "int list \<Rightarrow> kv_allocator \<Rightarrow> kv_allocator" where
  "kv_free free_index A =
     (if free_index = [] then A
      else if \<not> ka_is_not_in_free_group A then A\<lparr>ka_free_group := ka_free_group A @ [free_index]\<rparr>
      else if ka_paged A then
        (if ka_need_sort A
         then A\<lparr>ka_release_pages := page_indices A free_index @ ka_release_pages A\<rparr>
         else A\<lparr>ka_free_pages := page_indices A free_index @ ka_free_pages A\<rparr>)
      else
        (if ka_need_sort A then A\<lparr>ka_release_pages := ka_release_pages A @ free_index\<rparr>
         else A\<lparr>ka_free_pages := ka_free_pages A @ free_index\<rparr>))"

definition free_group_begin :: "kv_allocator \<Rightarrow> kv_allocator" where
  "free_group_begin A = A\<lparr>ka_is_not_in_free_group := False, ka_free_group := []\<rparr>"

text \<open>The list of the group is kept; the next \<open>free_group_begin\<close> replaces it.\<close>

definition free_group_end :: "kv_allocator \<Rightarrow> kv_allocator" where
  "free_group_end A =
     (let A1 = A\<lparr>ka_is_not_in_free_group := True\<rparr>
      in if ka_free_group A1 = [] then A1 else kv_free (concat (ka_free_group A1)) A1)"

subsection \<open>Taking whole pages\<close>

definition merge_and_sort_free :: "kv_allocator \<Rightarrow> kv_allocator" where
  "merge_and_sort_free A =
     (if ka_release_pages A \<noteq> []
      then A\<lparr>ka_free_pages := sort (ka_free_pages A @ ka_release_pages A), ka_release_pages := []\<rparr>
      else A)"

text \<open>\<open>out_pages[:, None] * page_size + arange(page_size)\<close>, flattened.\<close>

definition expand_pages :: "nat \<Rightarrow> int list \<Rightarrow> int list" where
  "expand_pages page_size pages =
     concat (map (\<lambda>p. map (\<lambda>k. p * int page_size + int k) [0..<page_size]) pages)"

definition kv_alloc :: "nat \<Rightarrow> kv_allocator \<Rightarrow> int list option \<times> kv_allocator" where
  "kv_alloc need_size A =
     (let need_pages = (if ka_paged A then need_size div ka_page_size A else need_size);
          A1 = (if ka_need_sort A \<and> need_pages > length (ka_free_pages A) then merge_and_sort_free A else A)
      in if need_pages > length (ka_free_pages A1) then (None, A1)
         else
           let out_pages = take need_pages (ka_free_pages A1);
               A2 = A1\<lparr>ka_free_pages := drop need_pages (ka_free_pages A1)\<rparr>
           in (Some (if ka_paged A then expand_pages (ka_page_size A) out_pages else out_pages), A2))"

subsection \<open>Slots for a batch: the reference computation\<close>

text \<open>Python's \<open>xs[a:b]\<close> and \<open>xs[a:b] = vs\<close> on a tensor (a single value is broadcast).\<close>

definition slice_bound :: "nat \<Rightarrow> int \<Rightarrow> nat" where
  "slice_bound n i = nat (if i < 0 then max 0 (i + int n) else min i (int n))"

definition py_slice :: "'a list \<Rightarrow> int \<Rightarrow> int \<Rightarrow> 'a list" where
  "py_slice xs a b = drop (slice_bound (length xs) a) (take (slice_bound (length xs) b) xs)"

definition set_slice :: "'a list \<Rightarrow> int \<Rightarrow> int \<Rightarrow> 'a list \<Rightarrow> 'a list res" where
  "set_slice xs a b vs =
     (let i = slice_bound (length xs) a; j = max i (slice_bound (length xs) b)
      in if length vs = j - i then Inr (take i xs @ vs @ drop j xs)
         else if length vs = 1 then Inr (take i xs @ replicate (j - i) (hd vs) @ drop j xs)
         else Inl RuntimeError)"

definition ceil_div :: "int \<Rightarrow> int \<Rightarrow> int" where
  "ceil_div n page_size = (n + page_size - 1) div page_size"

text \<open>\<open>torch.cumsum\<close>\<close>

definition cumsum :: "int list \<Rightarrow> nat \<Rightarrow> int" where
  "cumsum xs i = sum_list (take (Suc i) xs)"

definition extend_lens_of :: "int list \<Rightarrow> int list \<Rightarrow> int list" where
  "extend_lens_of prefix_lens seq_lens = map2 (\<lambda>p s. s - p) prefix_lens seq_lens"

definition new_pages_of :: "int \<Rightarrow> int list \<Rightarrow> int list \<Rightarrow> int list" where
  "new_pages_of page_size prefix_lens seq_lens =
     map2 (\<lambda>p s. ceil_div s page_size - ceil_div p page_size) prefix_lens seq_lens"

text \<open>
  The three writes of one turn of the loop of \<open>alloc_extend_naive\<close>: the rest of the last cached
  page, the new full pages, and the new page that is not full.
\<close>

definition naive_fill1 :: "nat \<Rightarrow> int \<Rightarrow> int \<Rightarrow> int \<Rightarrow> int list \<Rightarrow> int list res" where
  "naive_fill1 page_size loc num1 start out =
     (if num1 \<noteq> 0
      then set_slice out start (start + num1)
             (map (\<lambda>k. loc + 1 + k) (py_slice (map int [0..<page_size]) 0 num1))
      else Inr out)"

definition naive_fill2 :: "nat \<Rightarrow> int list \<Rightarrow> int \<Rightarrow> int \<Rightarrow> int list \<Rightarrow> int list res" where
  "naive_fill2 page_size pages num2 start out =
     (if num2 \<noteq> 0
      then set_slice out start (start + num2)
             (concat (map (\<lambda>p. map (\<lambda>k. p * int page_size + k) (map int [0..<page_size])) pages))
      else Inr out)"

definition naive_fill3 :: "nat \<Rightarrow> int list \<Rightarrow> int \<Rightarrow> int \<Rightarrow> int \<Rightarrow> int list \<Rightarrow> int list res" where
  "naive_fill3 page_size free_pages end_new_pages num3 end_pos out =
     (if num3 \<noteq> 0
      then
        if 0 \<le> end_new_pages - 1 \<and> nat (end_new_pages - 1) < length free_pages
        then set_slice out (end_pos - num3) end_pos
               (map (\<lambda>k. free_pages ! nat (end_new_pages - 1) * int page_size + k)
                  (py_slice (map int [0..<page_size]) 0 num3))
        else Inl IndexError
      else Inr out)"

definition naive_step ::
  "int list \<Rightarrow> int list \<Rightarrow> int list \<Rightarrow> int list \<Rightarrow> nat \<Rightarrow> nat \<Rightarrow> int list \<Rightarrow> int list res" where
  "naive_step prefix_lens seq_lens last_loc free_pages page_size i out =
     (let ps = int page_size;
          pre = prefix_lens ! i; seq = seq_lens ! i;
          extend_lens = extend_lens_of prefix_lens seq_lens;
          end_pos = cumsum extend_lens i; start_pos = end_pos - extend_lens ! i;
          num_new_pages = ceil_div seq ps - ceil_div pre ps;
          num_full_new_pages = seq div ps - ceil_div pre ps;
          need_page = num_new_pages - num_full_new_pages;
          end_new_pages = cumsum (new_pages_of ps prefix_lens seq_lens) i;
          start_new_pages = end_new_pages - num_new_pages;
          num1 = min seq (ceil_div pre ps * ps) - pre
      in case naive_fill1 page_size (last_loc ! i) num1 start_pos out of
           Inl e \<Rightarrow> Inl e
         | Inr out1 \<Rightarrow>
             if pre + num1 = seq then Inr out1
             else
               let num2 = (seq div ps - ceil_div pre ps) * ps
               in case naive_fill2 page_size
                         (py_slice free_pages start_new_pages (end_new_pages - need_page))
                         num2 (start_pos + num1) out1 of
                    Inl e \<Rightarrow> Inl e
                  | Inr out2 \<Rightarrow>
                      if pre + num1 + num2 = seq then Inr out2
                      else naive_fill3 page_size free_pages end_new_pages
                             (seq - seq div ps * ps) end_pos out2)"

fun run_steps :: "(nat \<Rightarrow> 'a \<Rightarrow> 'a res) \<Rightarrow> nat list \<Rightarrow> 'a \<Rightarrow> 'a res" where
  "run_steps f [] out = Inr out"
| "run_steps f (i # is) out = (case f i out of Inl e \<Rightarrow> Inl e | Inr out' \<Rightarrow> run_steps f is out')"

definition alloc_extend_naive ::
  "int list \<Rightarrow> int list \<Rightarrow> int list \<Rightarrow> int list \<Rightarrow> int list \<Rightarrow> nat \<Rightarrow> int list res" where
  "alloc_extend_naive prefix_lens seq_lens last_loc free_pages out_indices page_size =
     run_steps (naive_step prefix_lens seq_lens last_loc free_pages page_size)
       [0..<length prefix_lens] out_indices"

subsection \<open>Slots for a batch: the GPU kernels\<close>

text \<open>
  A kernel runs once per request; \<open>pid\<close> is its program number. A vector load reads one value
  per lane; \<open>u\<close> is what a lane that is masked out holds. A masked vector store writes the lanes
  whose mask is true. \<open>free_page_ptr\<close> is the memory from the first free page on: what lies
  behind the list of free pages is whatever is there.
\<close>

type_synonym memory = "int \<Rightarrow> int"

definition load_lanes :: "int \<Rightarrow> nat \<Rightarrow> nat \<Rightarrow> int list \<Rightarrow> int list" where
  "load_lanes u bs_upper pid xs = map (\<lambda>k. if k \<le> pid then xs ! k else u) [0..<bs_upper]"

definition store_lanes :: "nat list \<Rightarrow> (nat \<Rightarrow> bool) \<Rightarrow> (nat \<Rightarrow> int) \<Rightarrow> (nat \<Rightarrow> int) \<Rightarrow> memory \<Rightarrow> memory" where
  "store_lanes offsets msk addr val mem =
     fold (\<lambda>k m. if msk k then m(addr k := val k) else m) offsets mem"

definition BLOCK_EXTEND :: nat where
  "BLOCK_EXTEND = 4096"

definition alloc_extend_kernel ::
  "int \<Rightarrow> int list \<Rightarrow> int list \<Rightarrow> int list \<Rightarrow> memory \<Rightarrow> nat \<Rightarrow> nat \<Rightarrow> nat \<Rightarrow> memory \<Rightarrow> memory" where
  "alloc_extend_kernel u pre_lens_ptr seq_lens_ptr last_loc_ptr free_page_ptr bs_upper page_size pid out =
     (let ps = int page_size;
          seq_lens = load_lanes u bs_upper pid seq_lens_ptr;
          pre_lens = load_lanes u bs_upper pid pre_lens_ptr;
          seq_len = seq_lens_ptr ! pid; pre_len = pre_lens_ptr ! pid;
          extend_len = seq_len - pre_len;
          sum_extend_lens = sum_list (extend_lens_of pre_lens seq_lens);
          output_start_loc = sum_extend_lens - extend_len;
          num_page_start_loc_self = ceil_div seq_len ps - ceil_div pre_len ps;
          sum_num_new_pages = sum_list (new_pages_of ps pre_lens seq_lens);
          new_page_start_loc = sum_num_new_pages - num_page_start_loc_self;
          last_loc = last_loc_ptr ! pid;
          num_part1 = min seq_len (ceil_div pre_len ps * ps) - pre_len;
          out1 = store_lanes [0..<page_size] (\<lambda>k. int k < num_part1)
                   (\<lambda>k. output_start_loc + int k) (\<lambda>k. last_loc + 1 + int k) out
      in if pre_len + num_part1 = seq_len then out1
         else
           let num_part2 = seq_len div ps * ps - ceil_div pre_len ps * ps;
               num_blocks = ceil_div num_part2 (int BLOCK_EXTEND);
               out2 = fold (\<lambda>block_id. store_lanes
                        (map (\<lambda>k. block_id * BLOCK_EXTEND + k) [0..<BLOCK_EXTEND])
                        (\<lambda>offset. int offset < num_part2)
                        (\<lambda>offset. output_start_loc + num_part1 + int offset)
                        (\<lambda>offset. free_page_ptr (new_page_start_loc + int offset div ps) * ps + int offset mod ps))
                        [0..<nat num_blocks] out1
           in if pre_len + num_part1 + num_part2 = seq_len then out2
              else
                let num_part3 = seq_len - seq_len div ps * ps;
                    start_loc = free_page_ptr (new_page_start_loc + num_page_start_loc_self - 1)
                in store_lanes [0..<page_size] (\<lambda>k. int k < num_part3)
                     (\<lambda>k. output_start_loc + num_part1 + num_part2 + int k)
                     (\<lambda>k. start_loc * ps + int k) out2)"

definition alloc_decode_kernel ::
  "int \<Rightarrow> int list \<Rightarrow> int list \<Rightarrow> memory \<Rightarrow> nat \<Rightarrow> nat \<Rightarrow> nat \<Rightarrow> memory \<Rightarrow> memory" where
  "alloc_decode_kernel u seq_lens_ptr last_loc_ptr free_page_ptr bs_upper page_size pid out =
     (let ps = int page_size;
          seq_lens = load_lanes u bs_upper pid seq_lens_ptr;
          pre_lens = map (\<lambda>k. if k \<le> pid then seq_lens ! k - 1 else seq_lens ! k) [0..<bs_upper];
          seq_len = seq_lens_ptr ! pid; pre_len = seq_len - 1;
          num_page_start_loc_self = ceil_div seq_len ps - ceil_div pre_len ps;
          sum_num_new_pages = sum_list (new_pages_of ps pre_lens seq_lens);
          new_page_start_loc = sum_num_new_pages - num_page_start_loc_self
      in if num_page_start_loc_self = 0
         then out(int pid := last_loc_ptr ! pid + 1)
         else out(int pid := free_page_ptr new_page_start_loc * ps))"

text \<open>\<open>int.bit_length\<close>\<close>

fun bit_length :: "nat \<Rightarrow> nat" where
  "bit_length n = (if n = 0 then 0 else Suc (bit_length (n div 2)))"

declare bit_length.simps [simp del]

definition next_power_of_2 :: "nat \<Rightarrow> nat" where
  "next_power_of_2 n = (if n > 0 then 2 ^ bit_length (n - 1) else 1)"

subsection \<open>Slots for a batch: the allocator\<close>

text \<open>\<open>get_num_new_pages\<close> without and with the flag \<open>decode\<close>.\<close>

definition get_num_new_pages :: "int list \<Rightarrow> nat \<Rightarrow> int list \<Rightarrow> int" where
  "get_num_new_pages seq_lens page_size prefix_lens = sum_list (new_pages_of (int page_size) prefix_lens seq_lens)"

definition get_num_new_pages_decode :: "int list \<Rightarrow> nat \<Rightarrow> int" where
  "get_num_new_pages_decode seq_lens page_size =
     int (length (filter (\<lambda>s. s mod int page_size = 1) seq_lens))"

text \<open>The memory that a kernel sees behind a pointer to \<open>xs\<close>; \<open>beyond\<close> is the rest of it.\<close>

definition mem_of :: "int list \<Rightarrow> memory \<Rightarrow> memory" where
  "mem_of xs beyond = (\<lambda>a. if 0 \<le> a \<and> nat a < length xs then xs ! nat a else beyond a)"

definition read_out :: "memory \<Rightarrow> nat \<Rightarrow> int list" where
  "read_out mem n = map (\<lambda>k. mem (int k)) [0..<n]"

text \<open>
  \<open>order\<close> is the order in which the programs of the grid write, \<open>empty\<close> what \<open>torch.empty\<close>
  finds in memory, and \<open>u\<close> and \<open>beyond\<close> are as above.
\<close>

record gpu =
  gp_masked :: int
  gp_beyond :: memory
  gp_empty :: memory
  gp_order :: "nat list"

definition alloc_extend ::
  "gpu \<Rightarrow> int list \<Rightarrow> int list \<Rightarrow> int list \<Rightarrow> nat \<Rightarrow> int option \<Rightarrow> kv_allocator \<Rightarrow> int list option \<times> kv_allocator" where
  "alloc_extend G prefix_lens seq_lens last_loc extend_num_tokens num_new_pages_arg A =
     (let bs = length prefix_lens;
          A1 = (if ka_need_sort A \<and> extend_num_tokens div ka_page_size A + bs + 1 > length (ka_free_pages A)
                then merge_and_sort_free A else A);
          out = fold (alloc_extend_kernel (gp_masked G) prefix_lens seq_lens last_loc
                        (mem_of (ka_free_pages A1) (gp_beyond G)) (next_power_of_2 bs) (ka_page_size A))
                  (gp_order G) (gp_empty G);
          num_new_pages = (case num_new_pages_arg of
             None \<Rightarrow> get_num_new_pages seq_lens (ka_page_size A) prefix_lens | Some n \<Rightarrow> n)
      in if num_new_pages > int (length (ka_free_pages A1)) then (None, A1)
         else (Some (read_out out extend_num_tokens),
               A1\<lparr>ka_free_pages := drop (slice_bound (length (ka_free_pages A1)) num_new_pages) (ka_free_pages A1)\<rparr>))"

definition alloc_decode ::
  "gpu \<Rightarrow> int list \<Rightarrow> int list \<Rightarrow> kv_allocator \<Rightarrow> int list option \<times> kv_allocator" where
  "alloc_decode G seq_lens last_loc A =
     (let bs = length seq_lens;
          A1 = (if ka_need_sort A \<and> bs > length (ka_free_pages A) then merge_and_sort_free A else A);
          out = fold (alloc_decode_kernel (gp_masked G) seq_lens last_loc
                        (mem_of (ka_free_pages A1) (gp_beyond G)) (next_power_of_2 bs) (ka_page_size A))
                  (gp_order G) (gp_empty G);
          num_new_pages = get_num_new_pages_decode seq_lens (ka_page_size A)
      in if num_new_pages > int (length (ka_free_pages A1)) then (None, A1)
         else (Some (read_out out bs),
               A1\<lparr>ka_free_pages := drop (slice_bound (length (ka_free_pages A1)) num_new_pages) (ka_free_pages A1)\<rparr>))"

subsection \<open>Every page is free or held\<close>

text \<open>
  The client's side: \<open>held\<close> are the pages handed out and not released. A page that is released
  inside a free group is pending until the group ends.
\<close>

definition pages_of :: "kv_allocator \<Rightarrow> int list \<Rightarrow> int set" where
  "pages_of A idx = (if ka_paged A then (\<lambda>i. i div int (ka_page_size A)) ` set idx else set idx)"

definition pending :: "kv_allocator \<Rightarrow> int set" where
  "pending A = (if ka_is_not_in_free_group A then {} else pages_of A (concat (ka_free_group A)))"

definition kv_ok :: "kv_allocator \<Rightarrow> int set \<Rightarrow> bool" where
  "kv_ok A held =
     (distinct (ka_free_pages A @ ka_release_pages A) \<and>
      (set (ka_free_pages A) \<union> set (ka_release_pages A)) \<inter> (pending A \<union> held) = {} \<and> pending A \<inter> held = {} \<and>
      set (ka_free_pages A) \<union> set (ka_release_pages A) \<union> pending A \<union> held = {1..int (num_pages A)} \<and>
      (\<not> ka_paged A \<longrightarrow> \<not> ka_is_not_in_free_group A \<longrightarrow> distinct (concat (ka_free_group A))) \<and>
      (ka_paged A \<longrightarrow> 0 < ka_page_size A))"

text \<open>A client of the allocator: it releases only what it holds, and groups do not nest.\<close>

inductive kv_step :: "kv_allocator \<times> int set \<Rightarrow> kv_allocator \<times> int set \<Rightarrow> bool" where
  kv_alloc_some: "kv_alloc n A = (Some idx, A') \<Longrightarrow> kv_step (A, held) (A', held \<union> pages_of A idx)"
| kv_alloc_none: "kv_alloc n A = (None, A') \<Longrightarrow> kv_step (A, held) (A', held)"
| kv_alloc_extend:
    "alloc_extend G pre seq last_loc n None A = (r, A') \<Longrightarrow> 0 \<le> get_num_new_pages seq (ka_page_size A) pre \<Longrightarrow>
     kv_step (A, held) (A', held \<union> (set (ka_free_pages A) \<union> set (ka_release_pages A) -
       (set (ka_free_pages A') \<union> set (ka_release_pages A'))))"
| kv_alloc_decode:
    "alloc_decode G seq last_loc A = (r, A') \<Longrightarrow>
     kv_step (A, held) (A', held \<union> (set (ka_free_pages A) \<union> set (ka_release_pages A) -
       (set (ka_free_pages A') \<union> set (ka_release_pages A'))))"
| kv_release:
    "pages_of A idx \<subseteq> held \<Longrightarrow> ka_paged A \<or> distinct idx \<Longrightarrow> kv_step (A, held) (kv_free idx A, held - pages_of A idx)"
| kv_group_begin: "ka_is_not_in_free_group A \<Longrightarrow> kv_step (A, held) (free_group_begin A, held)"
| kv_group_end: "\<not> ka_is_not_in_free_group A \<Longrightarrow> kv_step (A, held) (free_group_end A, held)"
| kv_reset: "kv_step (A, held) (kv_clear A, {})"

inductive kv_reach :: "kv_allocator \<Rightarrow> kv_allocator \<times> int set \<Rightarrow> bool" for A0 where
  kv_start: "kv_reach A0 (A0, {})"
| kv_more: "kv_reach A0 s \<Longrightarrow> kv_step s s' \<Longrightarrow> kv_reach A0 s'"

lemma torch_unique [simp]: "set (torch_unique xs) = set xs" "distinct (torch_unique xs)"
  by (simp_all add: torch_unique_def)

lemma set_page_indices: "set (page_indices A idx) = (\<lambda>i. i div int (ka_page_size A)) ` set idx"
  by (simp add: page_indices_def)

lemma pages_of_simps [simp]: "pages_of A [] = {}" "pages_of A (xs @ ys) = pages_of A xs \<union> pages_of A ys"
  by (auto simp: pages_of_def)

lemma pages_of_cong: "ka_paged A' = ka_paged A \<Longrightarrow> ka_page_size A' = ka_page_size A \<Longrightarrow> pages_of A' = pages_of A"
  by (rule ext) (simp add: pages_of_def)

lemma merge_simps [simp]:
  "ka_size (merge_and_sort_free A) = ka_size A" "ka_page_size (merge_and_sort_free A) = ka_page_size A"
  "ka_paged (merge_and_sort_free A) = ka_paged A" "ka_need_sort (merge_and_sort_free A) = ka_need_sort A"
  "ka_is_not_in_free_group (merge_and_sort_free A) = ka_is_not_in_free_group A"
  "ka_free_group (merge_and_sort_free A) = ka_free_group A"
  "set (ka_free_pages (merge_and_sort_free A)) = set (ka_free_pages A) \<union> set (ka_release_pages A)"
  "ka_release_pages (merge_and_sort_free A) = []"
  by (simp_all add: merge_and_sort_free_def)

text \<open>Pages that leave the lists go to the client.\<close>

lemma kv_ok_move:
  assumes "kv_ok A held" "mset (ka_free_pages A @ ka_release_pages A) = mset (ka_free_pages A' @ ka_release_pages A' @ taken)"
    and "ka_size A' = ka_size A" "ka_page_size A' = ka_page_size A" "ka_paged A' = ka_paged A"
      "ka_is_not_in_free_group A' = ka_is_not_in_free_group A" "ka_free_group A' = ka_free_group A"
  shows "kv_ok A' (held \<union> set taken)"
    and "set (ka_free_pages A) \<union> set (ka_release_pages A) - (set (ka_free_pages A') \<union> set (ka_release_pages A')) = set taken"
proof -
  have d: "distinct (ka_free_pages A' @ ka_release_pages A' @ taken)"
    using assms(1,2) mset_eq_imp_distinct_iff unfolding kv_ok_def by blast
  have s: "set (ka_free_pages A) \<union> set (ka_release_pages A) = set (ka_free_pages A') \<union> set (ka_release_pages A') \<union> set taken"
    using assms(2) by (metis mset_eq_setD set_append Un_assoc)
  have p: "pending A' = pending A" "num_pages A' = num_pages A"
    using assms(3-7) pages_of_cong [of A' A] by (simp_all add: pending_def num_pages_def)
  let ?F = "set (ka_free_pages A') \<union> set (ka_release_pages A')"
  have F: "?F \<inter> set taken = {}" using d by auto
  have ok: "(?F \<union> set taken) \<inter> (pending A \<union> held) = {}" "pending A \<inter> held = {}"
    "?F \<union> set taken \<union> pending A \<union> held = {1..int (num_pages A)}"
    using assms(1) unfolding kv_ok_def s by blast+
  show "kv_ok A' (held \<union> set taken)"
    unfolding kv_ok_def p assms(4-7)
  proof (intro conjI)
    show "distinct (ka_free_pages A' @ ka_release_pages A')" using d by auto
    show "?F \<inter> (pending A \<union> (held \<union> set taken)) = {}" "pending A \<inter> (held \<union> set taken) = {}" using F ok by blast+
    show "?F \<union> pending A \<union> (held \<union> set taken) = {1..int (num_pages A)}" unfolding ok(3) [symmetric] by blast
  qed (use assms(1) in \<open>simp_all add: kv_ok_def\<close>)
  show "set (ka_free_pages A) \<union> set (ka_release_pages A) - ?F = set taken" unfolding s using F by blast
qed

lemma merge_mset:
  "mset (ka_free_pages (merge_and_sort_free A) @ ka_release_pages (merge_and_sort_free A)) = mset (ka_free_pages A @ ka_release_pages A)"
  by (simp add: merge_and_sort_free_def)

lemma pages_of_expand:
  assumes "0 < ps"
  shows "(\<lambda>i. i div int ps) ` set (expand_pages ps pages) = set pages"
proof -
  have "(\<lambda>k. (p * int ps + int k) div int ps) ` {0..<ps} = {p}" for p
  proof -
    have "(p * int ps + int k) div int ps = p" if "k < ps" for k using that by simp
    then have "(\<lambda>k. (p * int ps + int k) div int ps) ` {0..<ps} = (\<lambda>_. p) ` {0..<ps}" by (intro image_cong) auto
    then show ?thesis using assms by (simp add: image_constant_conv)
  qed
  then show ?thesis by (simp add: expand_pages_def image_UN image_image)
qed

text \<open>Taking pages from the front of the free list, after merging the released ones or not.\<close>

lemma kv_ok_take:
  assumes "kv_ok A held" "B = A \<or> B = merge_and_sort_free A" "A' = B\<lparr>ka_free_pages := drop m (ka_free_pages B)\<rparr>"
  shows "kv_ok A' (held \<union> set (take m (ka_free_pages B)))"
    and "set (ka_free_pages A) \<union> set (ka_release_pages A) - (set (ka_free_pages A') \<union> set (ka_release_pages A')) =
      set (take m (ka_free_pages B))"
proof -
  have B: "mset (ka_free_pages B @ ka_release_pages B) = mset (ka_free_pages A @ ka_release_pages A)"
    "ka_size B = ka_size A" "ka_page_size B = ka_page_size A" "ka_paged B = ka_paged A"
    "ka_is_not_in_free_group B = ka_is_not_in_free_group A" "ka_free_group B = ka_free_group A"
    using assms(2) merge_mset [of A] by auto
  have "mset (ka_free_pages B) = mset (drop m (ka_free_pages B)) + mset (take m (ka_free_pages B))"
    by (metis append_take_drop_id mset_append union_commute)
  then have "mset (ka_free_pages A @ ka_release_pages A) = mset (ka_free_pages A' @ ka_release_pages A' @ take m (ka_free_pages B))"
    using B(1) by (simp add: assms(3) ac_simps)
  note move = kv_ok_move [OF assms(1) this]
  show "kv_ok A' (held \<union> set (take m (ka_free_pages B)))"
    "set (ka_free_pages A) \<union> set (ka_release_pages A) - (set (ka_free_pages A') \<union> set (ka_release_pages A')) =
      set (take m (ka_free_pages B))"
    by (rule move; simp add: assms(3) B)+
qed

lemma kv_ok_source:
  assumes "kv_ok A held" "B = A \<or> B = merge_and_sort_free A"
  shows "kv_ok B held" "set (ka_free_pages A) \<union> set (ka_release_pages A) - (set (ka_free_pages B) \<union> set (ka_release_pages B)) = {}"
  using kv_ok_take [OF assms, of B 0] by simp_all

lemma kv_ok_alloc:
  assumes "kv_ok A held" "kv_alloc n A = (r, A')"
  shows "kv_ok A' (held \<union> (case r of None \<Rightarrow> {} | Some idx \<Rightarrow> pages_of A idx))"
proof -
  define m where "m = (if ka_paged A then n div ka_page_size A else n)"
  define B where "B = (if ka_need_sort A \<and> m > length (ka_free_pages A) then merge_and_sort_free A else A)"
  have B: "B = A \<or> B = merge_and_sort_free A" by (simp add: B_def)
  let ?t = "take m (ka_free_pages B)"
  have r: "kv_alloc n A = (if m > length (ka_free_pages B) then (None, B) else
      (Some (if ka_paged A then expand_pages (ka_page_size A) ?t else ?t), B\<lparr>ka_free_pages := drop m (ka_free_pages B)\<rparr>))"
    by (simp add: kv_alloc_def Let_def m_def [symmetric] B_def [symmetric])
  show ?thesis
  proof (cases "m > length (ka_free_pages B)")
    case True
    then show ?thesis using assms r kv_ok_source(1) [OF assms(1) B] by simp
  next
    case False
    have "pages_of A (if ka_paged A then expand_pages (ka_page_size A) ?t else ?t) = set ?t"
      using assms(1) pages_of_expand [of "ka_page_size A" ?t] by (simp add: pages_of_def kv_ok_def)
    then show ?thesis using assms(2) r False kv_ok_take(1) [OF assms(1) B refl, of m] by auto
  qed
qed

lemma kv_ok_extend:
  assumes "kv_ok A held" "alloc_extend G pre seq last_loc n None A = (r, A')" "0 \<le> get_num_new_pages seq (ka_page_size A) pre"
  shows "kv_ok A' (held \<union> (set (ka_free_pages A) \<union> set (ka_release_pages A) - (set (ka_free_pages A') \<union> set (ka_release_pages A'))))"
proof -
  define B where "B = (if ka_need_sort A \<and> n div ka_page_size A + length pre + 1 > length (ka_free_pages A)
    then merge_and_sort_free A else A)"
  have B: "B = A \<or> B = merge_and_sort_free A" by (simp add: B_def)
  have "A' = B \<or> (\<exists>m. A' = B\<lparr>ka_free_pages := drop m (ka_free_pages B)\<rparr>)"
    using assms(2) unfolding alloc_extend_def Let_def B_def [symmetric] by (auto split: if_splits)
  then show ?thesis using kv_ok_source [OF assms(1) B] kv_ok_take [OF assms(1) B] by (metis sup_bot.right_neutral)
qed

lemma kv_ok_decode:
  assumes "kv_ok A held" "alloc_decode G seq last_loc A = (r, A')"
  shows "kv_ok A' (held \<union> (set (ka_free_pages A) \<union> set (ka_release_pages A) - (set (ka_free_pages A') \<union> set (ka_release_pages A'))))"
proof -
  define B where "B = (if ka_need_sort A \<and> length seq > length (ka_free_pages A) then merge_and_sort_free A else A)"
  have B: "B = A \<or> B = merge_and_sort_free A" by (simp add: B_def)
  have "A' = B \<or> (\<exists>m. A' = B\<lparr>ka_free_pages := drop m (ka_free_pages B)\<rparr>)"
    using assms(2) unfolding alloc_decode_def Let_def B_def [symmetric] by (auto split: if_splits)
  then show ?thesis using kv_ok_source [OF assms(1) B] kv_ok_take [OF assms(1) B] by (metis sup_bot.right_neutral)
qed

text \<open>Pages of the client come back into the lists, or wait for the end of the group.\<close>

lemma kv_ok_back:
  assumes ok: "kv_ok A held" and "T \<subseteq> held" "distinct (ka_free_pages A' @ ka_release_pages A')"
    and s: "set (ka_free_pages A') \<union> set (ka_release_pages A') = set (ka_free_pages A) \<union> set (ka_release_pages A) \<union> T"
    and eq: "num_pages A' = num_pages A" "ka_page_size A' = ka_page_size A" "ka_paged A' = ka_paged A"
      "ka_is_not_in_free_group A' = ka_is_not_in_free_group A" "ka_free_group A' = ka_free_group A"
  shows "kv_ok A' (held - T)"
proof -
  let ?F = "set (ka_free_pages A) \<union> set (ka_release_pages A)"
  have F: "?F \<inter> (pending A \<union> held) = {}" "pending A \<inter> held = {}" "?F \<union> pending A \<union> held = {1..int (num_pages A)}"
    using ok unfolding kv_ok_def by blast+
  have p: "pending A' = pending A" using eq pages_of_cong [of A' A] by (simp add: pending_def)
  show ?thesis unfolding kv_ok_def s p eq
  proof (intro conjI)
    show "(?F \<union> T) \<inter> (pending A \<union> (held - T)) = {}" "pending A \<inter> (held - T) = {}" using F assms(2) by blast+
    show "?F \<union> T \<union> pending A \<union> (held - T) = {1..int (num_pages A)}" unfolding F(3) [symmetric] using assms(2) by blast
  qed (use ok assms(3) in \<open>simp_all add: kv_ok_def\<close>)
qed

lemma kv_ok_free:
  assumes ok: "kv_ok A held" and idx: "pages_of A idx \<subseteq> held" "ka_paged A \<or> distinct idx"
  shows "kv_ok (kv_free idx A) (held - pages_of A idx)"
proof -
  let ?F = "set (ka_free_pages A) \<union> set (ka_release_pages A)" and ?P = "pages_of A idx"
  have F: "?F \<inter> (pending A \<union> held) = {}" "pending A \<inter> held = {}" "?F \<union> pending A \<union> held = {1..int (num_pages A)}"
    "distinct (ka_free_pages A @ ka_release_pages A)"
    using ok unfolding kv_ok_def by blast+
  consider "idx = []" | "idx \<noteq> []" "\<not> ka_is_not_in_free_group A" | "idx \<noteq> []" "ka_is_not_in_free_group A" by blast
  then show ?thesis
  proof cases
    case 1
    then show ?thesis using ok by (simp add: kv_free_def)
  next
    case 2
    let ?A = "A\<lparr>ka_free_group := ka_free_group A @ [idx]\<rparr>"
    have A: "kv_free idx A = ?A" using 2 by (simp add: kv_free_def)
    have p: "pending ?A = pending A \<union> ?P" using 2 by (simp add: pending_def pages_of_def image_Un)
    have n: "num_pages ?A = num_pages A" by (simp add: num_pages_def)
    have "distinct (concat (ka_free_group A @ [idx]))" if "\<not> ka_paged A"
      using that 2(2) ok idx F(2) by (auto simp: kv_ok_def pending_def pages_of_def)
    then show ?thesis unfolding A kv_ok_def p n using ok
      by (intro conjI) (use F idx in \<open>auto simp: kv_ok_def\<close>)
  next
    case 3
    have T: "set (page_indices A idx) = ?P" if "ka_paged A" using that by (simp add: set_page_indices pages_of_def)
    have disj: "?F \<inter> ?P = {}" using F idx by blast
    show ?thesis
    proof (rule kv_ok_back [OF ok idx(1)])
      show "set (ka_free_pages (kv_free idx A)) \<union> set (ka_release_pages (kv_free idx A)) = ?F \<union> ?P"
        using 3 T by (auto simp: kv_free_def pages_of_def)
      show "distinct (ka_free_pages (kv_free idx A) @ ka_release_pages (kv_free idx A))"
        using 3 T disj F(4) idx(2) by (auto simp: kv_free_def page_indices_def pages_of_def)
    qed (use 3 in \<open>simp_all add: kv_free_def num_pages_def\<close>)
  qed
qed

lemma kv_ok_group_begin: "kv_ok A held \<Longrightarrow> ka_is_not_in_free_group A \<Longrightarrow> kv_ok (free_group_begin A) held"
  by (simp add: kv_ok_def free_group_begin_def pending_def num_pages_def)

lemma kv_ok_group_end:
  assumes ok: "kv_ok A held" and g: "\<not> ka_is_not_in_free_group A"
  shows "kv_ok (free_group_end A) held"
proof -
  let ?A = "A\<lparr>ka_is_not_in_free_group := True\<rparr>" and ?idx = "concat (ka_free_group A)"
  have pg: "pages_of ?A = pages_of A" by (rule pages_of_cong) simp_all
  have p: "pending A = pages_of A ?idx" using g by (simp add: pending_def)
  have p1: "pending ?A = {}" "num_pages ?A = num_pages A" by (simp_all add: pending_def num_pages_def)
  have ok1: "kv_ok ?A (held \<union> pending A)"
    unfolding kv_ok_def p1 using ok
    by (intro conjI) (simp_all add: kv_ok_def Un_assoc Un_commute [of held] Int_Un_distrib)
  have "kv_ok (kv_free ?idx ?A) (held \<union> pending A - pages_of ?A ?idx)"
    by (rule kv_ok_free [OF ok1]) (use ok g in \<open>auto simp: pg p kv_ok_def\<close>)
  moreover have "held \<union> pending A - pages_of ?A ?idx = held" using ok unfolding pg p [symmetric] kv_ok_def by blast
  moreover have "free_group_end A = kv_free ?idx ?A" unfolding free_group_end_def Let_def by (simp add: kv_free_def [of "[]"])
  ultimately show ?thesis by simp
qed

lemma num_pages_clear [simp]: "num_pages (kv_clear A) = num_pages A"
  by (simp add: kv_clear_def num_pages_def)

lemma kv_ok_clear: "ka_paged A \<longrightarrow> 0 < ka_page_size A \<Longrightarrow> kv_ok (kv_clear A) {}"
proof -
  have "int ` {Suc 0..<Suc n} = {1..int n}" for n
    by (auto simp: image_int_atLeastLessThan)
  then show "ka_paged A \<longrightarrow> 0 < ka_page_size A \<Longrightarrow> ?thesis"
    by (simp add: kv_ok_def pending_def) (simp add: kv_clear_def distinct_map del: upt_Suc)
qed

lemma kv_ok_step: "kv_step (A, held) (A', held') \<Longrightarrow> kv_ok A held \<Longrightarrow> kv_ok A' held'"
proof (induction "(A, held)" "(A', held')" rule: kv_step.induct)
  case kv_reset
  moreover have "ka_paged A \<longrightarrow> 0 < ka_page_size A" using kv_reset(3) by (simp add: kv_ok_def)
  ultimately show ?case using kv_ok_clear by blast
qed (fastforce dest: kv_ok_alloc intro: kv_ok_extend kv_ok_decode kv_ok_free kv_ok_group_begin kv_ok_group_end)+

lemma kv_ok_reach: "kv_reach A0 (A, held) \<Longrightarrow> kv_ok A0 {} \<Longrightarrow> kv_ok A held"
proof (induction "(A, held)" arbitrary: A held rule: kv_reach.induct)
  case (kv_more s)
  then show ?case by (cases s) (auto intro: kv_ok_step)
qed

lemma kv_ok_available:
  assumes "kv_ok A held"
  shows "length (ka_free_pages A) + length (ka_release_pages A) + card (pending A) + card held = num_pages A"
proof -
  let ?F = "set (ka_free_pages A) \<union> set (ka_release_pages A)"
  have F: "?F \<inter> (pending A \<union> held) = {}" "pending A \<inter> held = {}" "?F \<union> pending A \<union> held = {1..int (num_pages A)}"
    "distinct (ka_free_pages A @ ka_release_pages A)"
    using assms unfolding kv_ok_def by blast+
  have fin: "finite (pending A)" "finite held" using F(3) by (metis finite_Un finite_atLeastAtMost)+
  have "card (?F \<union> (pending A \<union> held)) = num_pages A" using F(3) by (simp add: Un_assoc)
  moreover have "card (?F \<union> (pending A \<union> held)) = card ?F + (card (pending A) + card held)"
    using F fin by (simp add: card_Un_disjoint)
  moreover have "card ?F = length (ka_free_pages A) + length (ka_release_pages A)"
    using F(4) by (metis distinct_card length_append set_append)
  ultimately show ?thesis by simp
qed



end
