(* ===== verification/KV_Extend.thy ===== *)
theory KV_Extend
  imports KV_Allocator
begin

section \<open>The slots of a batch\<close>

text \<open>
  The kernel and the reference computation give a request's tokens the same slots, the kernel
  whatever the order of its programs; what these slots are is \<open>slot\<close>. From it follow the
  properties of \<open>alloc_extend\<close>.
\<close>

lemma bit_length_bound: "n < 2 ^ bit_length n"
proof (induction n rule: bit_length.induct)
  case (1 n)
  then show ?case by (subst bit_length.simps) auto
qed

lemma next_power_of_2_ge: "n \<le> next_power_of_2 n"
  using bit_length_bound [of "n - 1"] by (auto simp: next_power_of_2_def)

subsection \<open>Where a request's tokens go\<close>

text \<open>
  The slot of position \<open>j\<close> of a request whose first \<open>pre\<close> positions are cached, the last one in
  slot \<open>loc\<close>: the rest of the last cached page first, then the free pages from number \<open>base\<close> on.
\<close>

definition slot :: "int \<Rightarrow> int \<Rightarrow> int \<Rightarrow> memory \<Rightarrow> int \<Rightarrow> int \<Rightarrow> int" where
  "slot ps pre loc fp base j =
     (if j < ceil_div pre ps * ps then loc + 1 + (j - pre)
      else fp (base + (j div ps - ceil_div pre ps)) * ps + j mod ps)"

lemma ceil_div_bounds:
  assumes "0 < ps"
  shows "n \<le> ceil_div n ps * ps" "ceil_div n ps * ps < n + ps"
proof -
  have "(n + ps - 1) div ps * ps + (n + ps - 1) mod ps = n + ps - 1" by simp
  moreover have "0 \<le> (n + ps - 1) mod ps" "(n + ps - 1) mod ps < ps" using assms by simp_all
  ultimately show "n \<le> ceil_div n ps * ps" "ceil_div n ps * ps < n + ps"
    unfolding ceil_div_def by linarith+
qed

lemma div_bounds:
  assumes "(0 :: int) < ps"
  shows "n div ps * ps \<le> n" "n < n div ps * ps + ps"
proof -
  have "n div ps * ps + n mod ps = n" by simp
  moreover have "0 \<le> n mod ps" "n mod ps < ps" using assms by simp_all
  ultimately show "n div ps * ps \<le> n" "n < n div ps * ps + ps" by linarith+
qed

lemma ceil_div_eq:
  assumes "(0 :: int) < ps"
  shows "ceil_div n ps = (if n mod ps = 0 then n div ps else n div ps + 1)"
proof -
  have n: "n = n div ps * ps + n mod ps" by simp
  have b: "0 \<le> n mod ps" "n mod ps < ps" using assms by simp_all
  show ?thesis
  proof (cases "n mod ps = 0")
    case True
    have "n + ps - 1 = (ps - 1) + n div ps * ps" using n True by linarith
    then have "ceil_div n ps = n div ps + (ps - 1) div ps"
      using assms unfolding ceil_div_def by (metis div_mult_self1 add.commute less_irrefl mult.commute)
    then show ?thesis using True assms by (simp add: div_pos_pos_trivial)
  next
    case False
    have "n + ps - 1 = (n mod ps - 1) + (n div ps + 1) * ps" using n by (simp add: algebra_simps)
    then have "ceil_div n ps = (n mod ps - 1) div ps + (n div ps + 1)"
      using assms unfolding ceil_div_def by (metis div_mult_self1 add.commute less_irrefl mult.commute)
    then show ?thesis using False b by (simp add: div_pos_pos_trivial)
  qed
qed

text \<open>A position at or behind the page boundary \<open>c * ps\<close> lies \<open>j div ps - c\<close> pages behind it.\<close>

lemma page_offset:
  assumes "(0 :: int) < ps" "0 \<le> d"
  shows "(c * ps + d) div ps = c + d div ps" "(c * ps + d) mod ps = d mod ps"
  using assms by (simp_all add: add.commute)

subsection \<open>Vector stores\<close>

lemma store_lanes_at:
  "store_lanes offs msk (\<lambda>k. b + int k) val mem a =
     (if b \<le> a \<and> nat (a - b) \<in> set offs \<and> msk (nat (a - b)) then val (nat (a - b)) else mem a)"
proof (induction offs arbitrary: mem)
  case (Cons k offs)
  have "store_lanes (k # offs) msk (\<lambda>k. b + int k) val mem =
      store_lanes offs msk (\<lambda>k. b + int k) val (if msk k then mem(b + int k := val k) else mem)"
    by (simp add: store_lanes_def)
  then show ?case by (auto simp: Cons.IH)
qed (simp add: store_lanes_def)

lemma store_blocks_at:
  "fold (\<lambda>block_id. store_lanes (map (\<lambda>k. block_id * K + k) [0..<K]) msk (\<lambda>k. b + int k) val) [0..<n] mem a =
     (if b \<le> a \<and> nat (a - b) < n * K \<and> msk (nat (a - b)) then val (nat (a - b)) else mem a)"
proof (induction n)
  case (Suc n)
  have "x < n * K + K \<longleftrightarrow> x < n * K \<or> x \<in> set (map (\<lambda>k. n * K + k) [0..<K])" for x
  proof -
    have "x \<in> (\<lambda>k. n * K + k) ` {0..<K}" if "\<not> x < n * K" "x < n * K + K"
      using that by (intro image_eqI [of _ _ "x - n * K"]) auto
    then show ?thesis by auto
  qed
  then show ?case using Suc by (auto simp: store_lanes_at add.commute)
qed simp

lemma sum_lanes:
  assumes "f u u = (0 :: int)" "pid < n" "pid < length xs" "length ys = length xs"
  shows "sum_list (map2 f (load_lanes u n pid xs) (load_lanes u n pid ys)) = sum_list (take (Suc pid) (map2 f xs ys))"
proof -
  let ?g = "\<lambda>k. if k \<le> pid then f (xs ! k) (ys ! k) else 0"
  have "map2 f (load_lanes u n pid xs) (load_lanes u n pid ys) = map ?g [0..<n]"
    using assms(1) by (auto simp: load_lanes_def zip_map_map zip_same_conv_map intro!: nth_equalityI)
  also have "sum_list \<dots> = sum_list (map ?g [0..<Suc pid]) + sum_list (map ?g [Suc pid..<n])"
    using assms(2) upt_add_eq_append [of 0 "Suc pid" "n - Suc pid"] by simp
  also have "map ?g [0..<Suc pid] = take (Suc pid) (map2 f xs ys)"
    using assms by (intro nth_equalityI) (auto simp del: upt_Suc)
  also have "sum_list (map ?g [Suc pid..<n]) = 0"
  proof -
    have "map ?g [Suc pid..<n] = map (\<lambda>_. 0) [Suc pid..<n]" by auto
    then show ?thesis by (simp only: sum_list_0)
  qed
  finally show ?thesis by simp
qed

subsection \<open>What one program of the kernel writes\<close>

text \<open>Where the slots and the new pages of request \<open>i\<close> begin.\<close>

definition start_pos :: "int list \<Rightarrow> int list \<Rightarrow> nat \<Rightarrow> int" where
  "start_pos pre seq i = sum_list (take i (extend_lens_of pre seq))"

definition start_page :: "int \<Rightarrow> int list \<Rightarrow> int list \<Rightarrow> nat \<Rightarrow> int" where
  "start_page ps pre seq i = sum_list (take i (new_pages_of ps pre seq))"

definition batch_ok :: "nat \<Rightarrow> int list \<Rightarrow> int list \<Rightarrow> int list \<Rightarrow> bool" where
  "batch_ok page_size pre seq last_loc =
     (0 < page_size \<and> length seq = length pre \<and> length last_loc = length pre \<and>
      (\<forall>i < length pre. 0 \<le> pre ! i \<and> pre ! i \<le> seq ! i))"

lemma batch_ok_lens:
  assumes "batch_ok page_size pre seq last_loc"
  shows "length (extend_lens_of pre seq) = length pre" "length (new_pages_of ps pre seq) = length pre"
    "i < length pre \<Longrightarrow> extend_lens_of pre seq ! i = seq ! i - pre ! i"
    "i < length pre \<Longrightarrow> new_pages_of ps pre seq ! i = ceil_div (seq ! i) ps - ceil_div (pre ! i) ps"
  using assms by (simp_all add: batch_ok_def extend_lens_of_def new_pages_of_def)

lemma cumsum_Suc:
  assumes "batch_ok page_size pre seq last_loc" "i < length pre"
  shows "cumsum (extend_lens_of pre seq) i = start_pos pre seq i + (seq ! i - pre ! i)"
    and "cumsum (new_pages_of ps pre seq) i = start_page ps pre seq i + (ceil_div (seq ! i) ps - ceil_div (pre ! i) ps)"
  using assms(2) by (simp_all add: cumsum_def start_pos_def start_page_def take_Suc_conv_app_nth
      batch_ok_lens [OF assms(1)])

definition req_slot :: "nat \<Rightarrow> int list \<Rightarrow> int list \<Rightarrow> int list \<Rightarrow> memory \<Rightarrow> nat \<Rightarrow> int \<Rightarrow> int" where
  "req_slot page_size pre seq last_loc fp i a =
     slot (int page_size) (pre ! i) (last_loc ! i) fp (start_page (int page_size) pre seq i)
       (pre ! i + (a - start_pos pre seq i))"

definition in_req :: "int list \<Rightarrow> int list \<Rightarrow> nat \<Rightarrow> int \<Rightarrow> bool" where
  "in_req pre seq i a = (start_pos pre seq i \<le> a \<and> a < start_pos pre seq i + (seq ! i - pre ! i))"

lemma kernel_sums:
  assumes ok: "batch_ok page_size pre seq last_loc" and i: "i < length pre" "i < n"
  shows "sum_list (extend_lens_of (load_lanes u n i pre) (load_lanes u n i seq)) - (seq ! i - pre ! i) = start_pos pre seq i"
    and "sum_list (new_pages_of ps (load_lanes u n i pre) (load_lanes u n i seq)) -
      (ceil_div (seq ! i) ps - ceil_div (pre ! i) ps) = start_page ps pre seq i"
proof -
  have len: "length seq = length pre" using ok by (simp add: batch_ok_def)
  show "sum_list (extend_lens_of (load_lanes u n i pre) (load_lanes u n i seq)) - (seq ! i - pre ! i) = start_pos pre seq i"
    using sum_lanes [OF _ i(2,1) len, of "\<lambda>p s. s - p" u] cumsum_Suc(1) [OF ok i(1)]
    by (simp add: extend_lens_of_def cumsum_def)
  show "sum_list (new_pages_of ps (load_lanes u n i pre) (load_lanes u n i seq)) -
      (ceil_div (seq ! i) ps - ceil_div (pre ! i) ps) = start_page ps pre seq i"
    using sum_lanes [OF _ i(2,1) len, of "\<lambda>p s. ceil_div s ps - ceil_div p ps" u] cumsum_Suc(2) [OF ok i(1), of ps]
    by (simp add: new_pages_of_def cumsum_def)
qed

text \<open>The three parts, as positions of the request.\<close>

lemma three_parts:
  assumes "(0 :: int) < ps" "pre \<le> seq"
  defines "c \<equiv> ceil_div pre ps * ps" and "f \<equiv> seq div ps * ps"
  shows "seq \<le> c \<Longrightarrow> min seq c - pre = seq - pre" "c < seq \<Longrightarrow> min seq c - pre = c - pre"
    "pre + (min seq c - pre) = seq \<longleftrightarrow> seq \<le> c" "c < seq \<Longrightarrow> c \<le> f" "f \<le> seq" "pre \<le> c"
proof -
  show "c \<le> f" if "c < seq"
  proof -
    have "ceil_div pre ps \<le> seq div ps"
      using that assms(1) zdiv_mono1 [of c seq ps] by (simp add: c_def)
    then show ?thesis using assms(1) by (simp add: c_def f_def)
  qed
  show "f \<le> seq" "pre \<le> c" using div_bounds(1) [OF assms(1)] ceil_div_bounds(1) [OF assms(1)]
    by (simp_all add: c_def f_def)
qed (use assms in auto)

lemma slot_in_part2:
  assumes "0 < ps" "0 \<le> d"
  shows "slot ps pre loc fp base (ceil_div pre ps * ps + d) = fp (base + d div ps) * ps + d mod ps"
  using assms by (simp add: slot_def page_offset)

lemma slot_in_part3:
  assumes "0 < ps" "q mod ps \<noteq> 0" "ceil_div p ps \<le> q div ps" "0 \<le> d" "d < q mod ps"
  shows "slot ps p loc fp g (q div ps * ps + d) = fp (g + (ceil_div q ps - ceil_div p ps) - 1) * ps + d"
proof -
  have d: "d < ps" using assms(1,5) pos_mod_bound [of ps q] by linarith
  have "ceil_div p ps * ps \<le> q div ps * ps" using assms(1,3) by simp
  then have l: "\<not> q div ps * ps + d < ceil_div p ps * ps" using assms(4) by linarith
  have "ceil_div q ps = q div ps + 1" using assms by (simp add: ceil_div_eq)
  then have g: "g + (ceil_div q ps - ceil_div p ps) - 1 = g + (q div ps - ceil_div p ps)" by simp
  have "(q div ps * ps + d) div ps = q div ps" "(q div ps * ps + d) mod ps = d"
    using assms(1,4) d by (simp_all add: page_offset)
  then show ?thesis using l by (simp only: slot_def g if_False)
qed

text \<open>The stores of the three parts, from \<open>b\<close> of the output on.\<close>

lemma store_part1:
  assumes "page_size = nat ps" "0 < ps" "m - p \<le> ps" "m \<le> ceil_div p ps * ps"
  shows "store_lanes [0..<page_size] (\<lambda>k. int k < m - p) (\<lambda>k. b + int k) (\<lambda>k. loc + 1 + int k) out a =
    (if b \<le> a \<and> a < b + (m - p) then slot ps p loc fp g (p + (a - b)) else out a)"
proof -
  have "slot ps p loc fp g (p + (a - b)) = loc + 1 + (a - b)" if "b \<le> a" "a < b + (m - p)"
    using that assms(4) by (simp add: slot_def)
  then show ?thesis using assms(1-3) by (simp add: store_lanes_at nat_less_eq_zless)
qed

lemma store_part2:
  assumes "0 < ps"
  shows "fold (\<lambda>block_id. store_lanes (map (\<lambda>k. block_id * BLOCK_EXTEND + k) [0..<BLOCK_EXTEND])
      (\<lambda>d. int d < m) (\<lambda>d. b + int d) (\<lambda>d. fp (g + int d div ps) * ps + int d mod ps))
      [0..<nat (ceil_div m (int BLOCK_EXTEND))] out a =
    (if b \<le> a \<and> a < b + m then slot ps p loc fp g (ceil_div p ps * ps + (a - b)) else out a)"
proof -
  have K: "0 < int BLOCK_EXTEND" by (simp add: BLOCK_EXTEND_def)
  have "nat d < nat (ceil_div m (int BLOCK_EXTEND)) * BLOCK_EXTEND" if d: "0 \<le> d" "d < m" for d
  proof -
    have m: "m \<le> ceil_div m (int BLOCK_EXTEND) * int BLOCK_EXTEND" by (rule ceil_div_bounds [OF K])
    then have "0 < ceil_div m (int BLOCK_EXTEND) * int BLOCK_EXTEND" using d by linarith
    then have "0 < ceil_div m (int BLOCK_EXTEND)" using K by (simp add: zero_less_mult_iff)
    then have "int (nat (ceil_div m (int BLOCK_EXTEND)) * BLOCK_EXTEND) = ceil_div m (int BLOCK_EXTEND) * int BLOCK_EXTEND" by simp
    then show ?thesis using d m by linarith
  qed
  then show ?thesis using slot_in_part2 [OF assms, of "a - b" p loc fp g] by (simp add: store_blocks_at)
qed

lemma store_part3:
  assumes "page_size = nat ps" "0 < ps" "q mod ps \<noteq> 0" "ceil_div p ps \<le> q div ps"
  shows "store_lanes [0..<page_size] (\<lambda>k. int k < q - q div ps * ps) (\<lambda>k. b + int k)
      (\<lambda>k. fp (g + (ceil_div q ps - ceil_div p ps) - 1) * ps + int k) out a =
    (if b \<le> a \<and> a < b + (q - q div ps * ps) then slot ps p loc fp g (q div ps * ps + (a - b)) else out a)"
proof -
  have q: "q - q div ps * ps = q mod ps" by (rule minus_div_mult_eq_mod)
  define r where "r = q mod ps"
  have "r < ps" using assms by (simp add: r_def)
  then show ?thesis using assms slot_in_part3 [OF assms(2-4), of "a - b" loc fp g]
    unfolding q r_def [symmetric] by (auto simp: store_lanes_at nat_less_eq_zless)
qed

lemma kernel_at:
  assumes ok: "batch_ok page_size pre seq last_loc" and i: "i < length pre" "i < n"
  shows "alloc_extend_kernel u pre seq last_loc fp n page_size i out a =
    (if in_req pre seq i a then req_slot page_size pre seq last_loc fp i a else out a)"
proof -
  define ps where "ps = int page_size"
  define p where "p = pre ! i"
  define q where "q = seq ! i"
  define b where "b = start_pos pre seq i"
  define g where "g = start_page ps pre seq i"
  have ps: "0 < ps" "page_size = nat ps" and pq: "0 \<le> p" "p \<le> q" using ok i by (auto simp: batch_ok_def ps_def p_def q_def)
  note parts = three_parts [OF ps(1) pq(2)]
  note sums = kernel_sums(1) [OF ok i, folded p_def q_def b_def] kernel_sums(2) [OF ok i, where ps = ps, folded p_def q_def g_def]
  let ?slot = "slot ps p (last_loc ! i) fp g" and ?c = "ceil_div p ps * ps" and ?f = "q div ps * ps"
  note cb = ceil_div_bounds [OF ps(1), of p]
  have "alloc_extend_kernel u pre seq last_loc fp n page_size i out a =
      (if b \<le> a \<and> a < b + (q - p) then ?slot (p + (a - b)) else out a)"
  proof (cases "q \<le> ?c")
    case True
    then show ?thesis unfolding alloc_extend_kernel_def Let_def ps_def [symmetric] p_def [symmetric] q_def [symmetric] sums
      using parts cb store_part1 [OF ps(2,1), of q p b "last_loc ! i" out a fp g] by simp
  next
    case False
    then have c: "?c \<le> ?f" "ceil_div p ps \<le> q div ps" using parts(4) ps by simp_all
    have e2: "?c + (a - (b + (?c - p))) = p + (a - b)"
      and e3: "?f + (a - (b + (?c - p) + (?f - ?c))) = p + (a - b)" by simp_all
    note st1 = store_part1 [OF ps(2,1), of ?c p b "last_loc ! i" out a fp g]
      and st2 = store_part2 [OF ps(1), of "?f - ?c" "b + (?c - p)" fp g _ a p "last_loc ! i", unfolded e2]
    show ?thesis
    proof (cases "q = ?f")
      case True
      then show ?thesis unfolding alloc_extend_kernel_def Let_def ps_def [symmetric] p_def [symmetric] q_def [symmetric] sums
        using False parts cb c st1 st2 by simp
    next
      case f: False
      then have "q mod ps \<noteq> 0" using minus_div_mult_eq_mod [of q ps] by linarith
      note st3 = store_part3 [OF ps(2,1) this c(2), of "b + (?c - p) + (?f - ?c)" fp g _ a "last_loc ! i", unfolded e3]
      define c f where "c = ?c" and "f = ?f"
      note cf = c_def [symmetric] f_def [symmetric]
      have "min q c = c" "c \<noteq> q" "p + (c - p) \<noteq> q" "p + (c - p) + (f - c) \<noteq> q" "p \<le> c" "c \<le> f" "f \<le> q" "c - p \<le> ps"
        using False f cb parts(5) \<open>?c \<le> ?f\<close> unfolding cf by simp_all
      then show ?thesis
        unfolding alloc_extend_kernel_def Let_def ps_def [symmetric] p_def [symmetric] q_def [symmetric] sums cf
        using st1 st2 st3 unfolding cf by auto
    qed
  qed
  then show ?thesis
    unfolding in_req_def req_slot_def b_def [symmetric] p_def [symmetric] q_def [symmetric] ps_def [symmetric] g_def [symmetric] .
qed

subsection \<open>What one turn of the reference loop writes\<close>

lemma slice_bound_in: "0 \<le> i \<Longrightarrow> i \<le> int n \<Longrightarrow> slice_bound n i = nat i"
  by (simp add: slice_bound_def)

lemma py_slice_in:
  assumes "0 \<le> a" "a \<le> b" "b \<le> int (length xs)"
  shows "length (py_slice xs a b) = nat (b - a)"
    and "k < nat (b - a) \<Longrightarrow> py_slice xs a b ! k = xs ! (nat a + k)"
proof -
  have e: "py_slice xs a b = drop (nat a) (take (nat b) xs)" using assms by (simp add: py_slice_def slice_bound_in)
  show "length (py_slice xs a b) = nat (b - a)" using assms unfolding e by simp
  show "py_slice xs a b ! k = xs ! (nat a + k)" if "k < nat (b - a)" using assms that unfolding e by simp
qed

lemma set_slice_in:
  assumes "0 \<le> a" "a \<le> b" "b \<le> int (length xs)" "length vs = nat (b - a)"
  obtains ys where "set_slice xs a b vs = Inr ys" "length ys = length xs"
    "\<And>k. k < length xs \<Longrightarrow> ys ! k = (if a \<le> int k \<and> int k < b then vs ! nat (int k - a) else xs ! k)"
proof
  let ?ys = "take (nat a) xs @ vs @ drop (nat b) xs"
  show "set_slice xs a b vs = Inr ?ys"
    using assms by (simp add: set_slice_def slice_bound_in Let_def max_def nat_diff_distrib)
  show "length ?ys = length xs" using assms by auto
  show "?ys ! k = (if a \<le> int k \<and> int k < b then vs ! nat (int k - a) else xs ! k)" if "k < length xs" for k
    using assms that by (auto simp: nth_append nat_diff_distrib min_def nat_le_iff) 
qed

lemma length_concat_rows: "length (concat (map (\<lambda>p. map (f p) [0..<n]) ps)) = length ps * n"
  by (induction ps) auto

lemma nth_concat_rows:
  assumes "k < length ps * n"
  shows "concat (map (\<lambda>p. map (f p) [0..<n]) ps) ! k = f (ps ! (k div n)) (k mod n)"
  using assms
proof (induction ps arbitrary: k)
  case (Cons p ps)
  show ?case
  proof (cases "k < n")
    case False
    moreover have "0 < n" using Cons.prems by (cases n) auto
    ultimately have "k - n < length ps * n" "k div n = Suc ((k - n) div n)" "k mod n = (k - n) mod n"
      using Cons.prems by (auto simp: le_div_geq le_mod_geq)
    then show ?thesis using False Cons.IH [of "k - n"] by (simp add: nth_append)
  qed (simp add: nth_append)
qed simp

text \<open>The values of the three parts.\<close>

lemma naive_part1:
  assumes "page_size = nat ps" "0 < ps" "p \<le> m" "m - p \<le> ps" "m \<le> ceil_div p ps * ps"
  shows "length (map (\<lambda>k. loc + 1 + k) (py_slice (map int [0..<page_size]) 0 (m - p))) = nat (m - p)"
    and "0 \<le> d \<Longrightarrow> d < m - p \<Longrightarrow>
      map (\<lambda>k. loc + 1 + k) (py_slice (map int [0..<page_size]) 0 (m - p)) ! nat d = slot ps p loc fp g (p + d)"
  using assms by (simp_all add: py_slice_in slot_def)

lemma naive_part2:
  assumes "page_size = nat ps" "0 < ps" "0 \<le> g" "0 \<le> n" "g + n \<le> int (length free_pages)" "fp = mem_of free_pages beyond"
  shows "length (concat (map (\<lambda>p. map (\<lambda>k. p * ps + k) (map int [0..<page_size])) (py_slice free_pages g (g + n)))) = nat (n * ps)"
    and "0 \<le> d \<Longrightarrow> d < n * ps \<Longrightarrow>
      concat (map (\<lambda>p. map (\<lambda>k. p * ps + k) (map int [0..<page_size])) (py_slice free_pages g (g + n))) ! nat d =
      slot ps p loc fp g (ceil_div p ps * ps + d)"
proof -
  have len: "length (py_slice free_pages g (g + n)) = nat n" using assms(3-5) by (simp add: py_slice_in)
  show l: "length (concat (map (\<lambda>p. map (\<lambda>k. p * ps + k) (map int [0..<page_size])) (py_slice free_pages g (g + n)))) = nat (n * ps)"
    using assms(1,2,4) by (simp add: length_concat_rows len nat_mult_distrib comp_def)
  assume d: "0 \<le> d" "d < n * ps"
  have "nat d < nat n * page_size" using d assms(1,4) by (simp add: nat_mult_distrib [symmetric])
  moreover have dv: "nat d div page_size = nat (d div ps)" "int (nat d mod page_size) = d mod ps"
    using d assms(1,2) by (simp_all add: nat_div_distrib zmod_int)
  moreover have dn: "d div ps < n" 
  proof -
    have "d div ps * ps < n * ps" using div_bounds(1) [OF assms(2), of d] d by linarith
    then show ?thesis using assms(2) by simp
  qed
  moreover have "0 \<le> d div ps" using d assms(2) by (simp add: pos_imp_zdiv_nonneg_iff)
  moreover have "nat g + nat (d div ps) < length free_pages" using dn \<open>0 \<le> d div ps\<close> assms(3,5) by linarith
  ultimately show "concat (map (\<lambda>p. map (\<lambda>k. p * ps + k) (map int [0..<page_size])) (py_slice free_pages g (g + n))) ! nat d =
      slot ps p loc fp g (ceil_div p ps * ps + d)"
    using assms d by (simp add: nth_concat_rows len comp_def py_slice_in slot_in_part2 mem_of_def nat_add_distrib)
qed

lemma naive_part3:
  assumes "page_size = nat ps" "0 < ps" "q mod ps \<noteq> 0" "ceil_div p ps \<le> q div ps" "0 \<le> g"
    "g + (ceil_div q ps - ceil_div p ps) \<le> int (length free_pages)" "fp = mem_of free_pages beyond"
  shows "length (map (\<lambda>k. free_pages ! nat (g + (ceil_div q ps - ceil_div p ps) - 1) * ps + k)
      (py_slice (map int [0..<page_size]) 0 (q mod ps))) = nat (q mod ps)"
    and "0 \<le> d \<Longrightarrow> d < q mod ps \<Longrightarrow>
      map (\<lambda>k. free_pages ! nat (g + (ceil_div q ps - ceil_div p ps) - 1) * ps + k)
        (py_slice (map int [0..<page_size]) 0 (q mod ps)) ! nat d = slot ps p loc fp g (q div ps * ps + d)"
    and "0 \<le> g + (ceil_div q ps - ceil_div p ps) - 1" "nat (g + (ceil_div q ps - ceil_div p ps) - 1) < length free_pages"
proof -
  define r where "r = q mod ps"
  have r: "0 < r" "r < ps" using assms(2,3) pos_mod_sign [of ps q] pos_mod_bound [of ps q] unfolding r_def by linarith+
  have sl: "length (py_slice (map int [0..<page_size]) 0 r) = nat r"
    "k < nat r \<Longrightarrow> py_slice (map int [0..<page_size]) 0 r ! k = int k" for k
    using r assms(1) by (simp_all add: py_slice_in)
  have "ceil_div q ps = q div ps + 1" using assms by (simp add: ceil_div_eq)
  then show n: "0 \<le> g + (ceil_div q ps - ceil_div p ps) - 1" "nat (g + (ceil_div q ps - ceil_div p ps) - 1) < length free_pages"
    using assms(4-6) by simp_all
  show "length (map (\<lambda>k. free_pages ! nat (g + (ceil_div q ps - ceil_div p ps) - 1) * ps + k)
      (py_slice (map int [0..<page_size]) 0 (q mod ps))) = nat (q mod ps)"
    unfolding r_def [symmetric] using sl by simp
  assume d: "0 \<le> d" "d < q mod ps"
  then show "map (\<lambda>k. free_pages ! nat (g + (ceil_div q ps - ceil_div p ps) - 1) * ps + k)
        (py_slice (map int [0..<page_size]) 0 (q mod ps)) ! nat d = slot ps p loc fp g (q div ps * ps + d)"
    unfolding slot_in_part3 [OF assms(2-4) d] unfolding r_def [symmetric] using sl n assms(7) by (simp add: mem_of_def)
qed

lemma maybe_set_slice:
  assumes "0 \<le> a" "0 \<le> n" "a + n \<le> int (length xs)" "length vs = nat n"
    and "\<And>d. 0 \<le> d \<Longrightarrow> d < n \<Longrightarrow> vs ! nat d = v d"
  obtains ys where "(if n \<noteq> 0 then set_slice xs a (a + n) vs else Inr xs) = Inr ys" "length ys = length xs"
    "\<And>k. k < length xs \<Longrightarrow> ys ! k = (if a \<le> int k \<and> int k < a + n then v (int k - a) else xs ! k)"
proof (cases "n = 0")
  case True
  then show ?thesis by (intro that [of xs]) auto
next
  case False
  obtain ys where "set_slice xs a (a + n) vs = Inr ys" "length ys = length xs"
    "\<And>k. k < length xs \<Longrightarrow> ys ! k = (if a \<le> int k \<and> int k < a + n then vs ! nat (int k - a) else xs ! k)"
    using set_slice_in [of a "a + n" xs vs] assms(1-4) by auto
  then show ?thesis using that [of ys] assms(5) False by auto
qed

text \<open>Each write fills a range of the output with the slots of a range of positions.\<close>

definition filled :: "int list \<Rightarrow> int \<Rightarrow> int \<Rightarrow> (int \<Rightarrow> int) \<Rightarrow> int list \<Rightarrow> bool" where
  "filled out a b v out' =
     (length out' = length out \<and>
      (\<forall>k < length out. out' ! k = (if a \<le> int k \<and> int k < b then v (int k) else out ! k)))"

lemma filled_trans:
  "filled out a b v out1 \<Longrightarrow> filled out1 b c v out2 \<Longrightarrow> a \<le> b \<Longrightarrow> b \<le> c \<Longrightarrow> filled out a c v out2"
  by (auto simp: filled_def)

lemma filled_refl: "filled out a a v out"
  by (simp add: filled_def)

lemma maybe_set_slice_filled:
  assumes "0 \<le> a" "a \<le> b" "b \<le> int (length xs)" "length vs = nat (b - a)"
    and "\<And>d. 0 \<le> d \<Longrightarrow> d < b - a \<Longrightarrow> vs ! nat d = v (a + d)"
  shows "\<exists>ys. (if b - a \<noteq> 0 then set_slice xs a b vs else Inr xs) = Inr ys \<and> filled xs a b v ys"
proof -
  obtain ys where "(if b - a \<noteq> 0 then set_slice xs a (a + (b - a)) vs else Inr xs) = Inr ys" "length ys = length xs"
    "\<And>k. k < length xs \<Longrightarrow> ys ! k = (if a \<le> int k \<and> int k < a + (b - a) then v (a + (int k - a)) else xs ! k)"
    using maybe_set_slice [of a "b - a" xs vs "\<lambda>d. v (a + d)"] assms by auto
  then show ?thesis by (auto simp: filled_def)
qed

lemma naive_fill1_filled:
  assumes "page_size = nat ps" "0 < ps" "p \<le> m" "m - p \<le> ps" "m \<le> ceil_div p ps * ps"
    and "0 \<le> s" "s + (m - p) \<le> int (length out)"
  shows "\<exists>out1. naive_fill1 page_size loc (m - p) s out = Inr out1 \<and>
    filled out s (s + (m - p)) (\<lambda>k. slot ps p loc fp g (p + (k - s))) out1"
proof -
  let ?vs = "map (\<lambda>k. loc + 1 + k) (py_slice (map int [0..<page_size]) 0 (m - p))"
  have "\<exists>ys. (if s + (m - p) - s \<noteq> 0 then set_slice out s (s + (m - p)) ?vs else Inr out) = Inr ys \<and>
      filled out s (s + (m - p)) (\<lambda>k. slot ps p loc fp g (p + (k - s))) ys"
    by (rule maybe_set_slice_filled) (use assms naive_part1 [OF assms(1-5)] in simp_all)
  then show ?thesis by (simp only: naive_fill1_def add_diff_cancel_left')
qed

lemma naive_fill2_filled:
  assumes "page_size = nat ps" "0 < ps" "0 \<le> g" "0 \<le> n" "g + n \<le> int (length free_pages)" "fp = mem_of free_pages beyond"
    and "0 \<le> a" "a + n * ps \<le> int (length out)"
  shows "\<exists>out1. naive_fill2 page_size (py_slice free_pages g (g + n)) (n * ps) a out = Inr out1 \<and>
    filled out a (a + n * ps) (\<lambda>k. slot ps p loc fp g (ceil_div p ps * ps + (k - a))) out1"
proof -
  let ?vs = "concat (map (\<lambda>p. map (\<lambda>k. p * ps + k) (map int [0..<page_size])) (py_slice free_pages g (g + n)))"
  have n: "0 \<le> n * ps" "int page_size = ps" using assms by simp_all
  have "\<exists>ys. (if a + n * ps - a \<noteq> 0 then set_slice out a (a + n * ps) ?vs else Inr out) = Inr ys \<and>
      filled out a (a + n * ps) (\<lambda>k. slot ps p loc fp g (ceil_div p ps * ps + (k - a))) ys"
    by (rule maybe_set_slice_filled) (use assms(7,8) n naive_part2 [OF assms(1-6)] in simp_all)
  then show ?thesis by (simp only: naive_fill2_def add_diff_cancel_left' n)
qed

lemma naive_fill3_filled:
  assumes "page_size = nat ps" "0 < ps" "q mod ps \<noteq> 0" "ceil_div p ps \<le> q div ps" "0 \<le> g"
    "g + (ceil_div q ps - ceil_div p ps) \<le> int (length free_pages)" "fp = mem_of free_pages beyond"
    and "0 \<le> b - q mod ps" "b \<le> int (length out)"
  shows "\<exists>out1. naive_fill3 page_size free_pages (g + (ceil_div q ps - ceil_div p ps)) (q mod ps) b out = Inr out1 \<and>
    filled out (b - q mod ps) b (\<lambda>k. slot ps p loc fp g (q div ps * ps + (k - (b - q mod ps)))) out1"
proof -
  let ?vs = "map (\<lambda>k. free_pages ! nat (g + (ceil_div q ps - ceil_div p ps) - 1) * ps + k)
      (py_slice (map int [0..<page_size]) 0 (q mod ps))"
  have r: "0 \<le> q mod ps" "int page_size = ps" using assms(1,2) by simp_all
  note part = naive_part3 [OF assms(1-7)]
  have "\<exists>ys. (if b - (b - q mod ps) \<noteq> 0 then set_slice out (b - q mod ps) b ?vs else Inr out) = Inr ys \<and>
      filled out (b - q mod ps) b (\<lambda>k. slot ps p loc fp g (q div ps * ps + (k - (b - q mod ps)))) ys"
    by (rule maybe_set_slice_filled) (use assms(8,9) r part in simp_all)
  moreover have "b - (b - q mod ps) \<noteq> 0" using assms(3) by simp
  ultimately show ?thesis using part(3,4) assms(3) by (simp only: naive_fill3_def r if_True simp_thms not_False_eq_True)
qed

lemma naive_step_filled:
  assumes ok: "batch_ok page_size pre seq last_loc" and i: "i < length pre"
    and b: "0 \<le> start_pos pre seq i" "start_pos pre seq i + (seq ! i - pre ! i) \<le> int (length out)"
    and g: "0 \<le> start_page (int page_size) pre seq i"
      "start_page (int page_size) pre seq i + new_pages_of (int page_size) pre seq ! i \<le> int (length free_pages)"
  shows "\<exists>out'. naive_step pre seq last_loc free_pages page_size i out = Inr out' \<and>
    filled out (start_pos pre seq i) (start_pos pre seq i + (seq ! i - pre ! i))
      (req_slot page_size pre seq last_loc (mem_of free_pages beyond) i) out'"
proof -
  define ps where "ps = int page_size"
  define p where "p = pre ! i"
  define q where "q = seq ! i"
  define fp where "fp = mem_of free_pages beyond"
  define s where "s = start_pos pre seq i"
  define h where "h = start_page ps pre seq i"
  have ps: "0 < ps" "page_size = nat ps" and pq: "0 \<le> p" "p \<le> q" using ok i by (auto simp: batch_ok_def ps_def p_def q_def)
  have bs: "0 \<le> s" "s + (q - p) \<le> int (length out)" using b by (simp_all add: s_def p_def q_def)
  have gs: "0 \<le> h" "h + (ceil_div q ps - ceil_div p ps) \<le> int (length free_pages)"
    using g i by (simp_all add: h_def p_def q_def ps_def batch_ok_lens [OF ok])
  note cb = ceil_div_bounds [OF ps(1), of p]
  have cum: "cumsum (extend_lens_of pre seq) i = s + (q - p)" "extend_lens_of pre seq ! i = q - p"
    "cumsum (new_pages_of ps pre seq) i = h + (ceil_div q ps - ceil_div p ps)"
    using i by (simp_all add: cumsum_Suc [OF ok i] batch_ok_lens [OF ok] s_def h_def p_def q_def)
  note unf = naive_step_def Let_def ps_def [symmetric] p_def [symmetric] q_def [symmetric] cum
  let ?c = "ceil_div p ps * ps" and ?v = "\<lambda>k. slot ps p (last_loc ! i) fp h (p + (k - s))"
  have "\<exists>out'. naive_step pre seq last_loc free_pages page_size i out = Inr out' \<and> filled out s (s + (q - p)) ?v out'"
  proof (cases "q \<le> ?c")
    case True
    obtain out1 where "naive_fill1 page_size (last_loc ! i) (q - p) s out = Inr out1" "filled out s (s + (q - p)) ?v out1"
      using naive_fill1_filled [OF ps(2,1) pq(2) _ True bs, where loc = "last_loc ! i" and fp = fp and g = h] True cb by auto
    moreover have "min q ?c = q" using True by simp
    ultimately show ?thesis unfolding unf by simp
  next
    case False
    let ?f = "q div ps * ps" and ?n = "q div ps - ceil_div p ps"
    have c: "?c \<le> ?f" "ceil_div p ps \<le> q div ps" using False three_parts(4) [OF ps(1) pq(2)] ps by simp_all
    have f: "?f \<le> q" "q - ?f = q mod ps" using div_bounds(1) [OF ps(1), of q] minus_div_mult_eq_mod [of q ps] by simp_all
    have n: "?n * ps = ?f - ?c" by (simp add: algebra_simps)
    have gn: "0 \<le> ?n" "h + ?n \<le> int (length free_pages)" using gs c ceil_div_eq [OF ps(1), of q] by (auto split: if_splits)
    obtain out1 where o1: "naive_fill1 page_size (last_loc ! i) (?c - p) s out = Inr out1" "filled out s (s + (?c - p)) ?v out1"
      using naive_fill1_filled [OF ps(2,1) cb(1) _ order_refl bs(1), of out "last_loc ! i" fp h] False cb bs(2) by auto
    have l1: "length out1 = length out" using o1(2) by (simp add: filled_def)
    have v2: "(\<lambda>k. slot ps p (last_loc ! i) fp h (?c + (k - (s + (?c - p))))) = ?v" by (intro ext arg_cong [where f = "slot ps p (last_loc ! i) fp h"]) simp
    obtain out2 where o2: "naive_fill2 page_size (py_slice free_pages h (h + ?n)) (?n * ps) (s + (?c - p)) out1 = Inr out2"
        "filled out1 (s + (?c - p)) (s + (?c - p) + ?n * ps) ?v out2"
      using naive_fill2_filled [OF ps(2,1) gs(1) gn fp_def, of "s + (?c - p)" out1 p "last_loc ! i", unfolded v2] bs cb(1) f(1) l1 n by auto
    have f2: "filled out s (s + (?f - p)) ?v out2"
      using filled_trans [OF o1(2) o2(2)] cb(1) c(1) n by simp
    have e: "s + (q - p) - (q - p) = s" "min q ?c = ?c" "h + A - A = h" "h + A - (A - ?n) = h + ?n"
      "(p + (?c - p) = q) = False" "(p + (?c - p) + ?n * ps = q) = (?f = q)" for A
      using False n by auto
    have st: "naive_step pre seq last_loc free_pages page_size i out =
        (if ?f = q then Inr out2 else naive_fill3 page_size free_pages (h + (ceil_div q ps - ceil_div p ps)) (q mod ps) (s + (q - p)) out2)"
      unfolding unf e o1(1) o2(1) sum.case if_False f(2) ..
    show ?thesis
    proof (cases "?f = q")
      case True
      then show ?thesis using st f2 by auto
    next
      case nf: False
      then have "q mod ps \<noteq> 0" using f(2) by linarith
      have v3: "(\<lambda>k. slot ps p (last_loc ! i) fp h (?f + (k - (s + (?f - p))))) = ?v"
        by (intro ext arg_cong [where f = "slot ps p (last_loc ! i) fp h"]) simp
      have s3: "s + (q - p) - q mod ps = s + (?f - p)" using f(2) by linarith
      have "\<exists>out3. naive_fill3 page_size free_pages (h + (ceil_div q ps - ceil_div p ps)) (q mod ps) (s + (q - p)) out2 = Inr out3 \<and>
          filled out2 (s + (?f - p)) (s + (q - p)) ?v out3"
        using naive_fill3_filled [OF ps(2,1) \<open>q mod ps \<noteq> 0\<close> c(2) gs fp_def, of "s + (q - p)" out2 "last_loc ! i", unfolded s3, unfolded v3]
          bs cb(1) c(1) f2 by (simp add: filled_def)
      then show ?thesis using st nf filled_trans [OF f2] cb(1) c(1) f(1) by auto
    qed
  qed
  then show ?thesis
    unfolding req_slot_def s_def p_def q_def ps_def h_def fp_def .
qed

subsection \<open>The whole batch\<close>

lemma sum_take_mono:
  assumes "\<And>x. x \<in> set xs \<Longrightarrow> 0 \<le> (x :: int)" "i \<le> j"
  shows "sum_list (take i xs) \<le> sum_list (take j xs)"
proof -
  have "take j xs = take i xs @ take (j - i) (drop i xs)" using assms(2) by (metis le_add_diff_inverse take_add)
  moreover have "0 \<le> sum_list (take (j - i) (drop i xs))"
    using assms(1) by (intro sum_list_nonneg) (meson in_set_dropD in_set_takeD)
  ultimately show ?thesis by simp
qed

lemma ceil_div_mono: "0 < ps \<Longrightarrow> m \<le> n \<Longrightarrow> ceil_div m ps \<le> ceil_div n ps"
  by (simp add: ceil_div_def zdiv_mono1)

lemma batch_nonneg:
  assumes "batch_ok page_size pre seq last_loc"
  shows "x \<in> set (extend_lens_of pre seq) \<Longrightarrow> 0 \<le> x"
    and "y \<in> set (new_pages_of (int page_size) pre seq) \<Longrightarrow> 0 \<le> y"
  using assms
  by (auto simp: in_set_conv_nth batch_ok_lens [OF assms] batch_ok_def intro!: ceil_div_mono)

lemma start_mono:
  assumes "batch_ok page_size pre seq last_loc" "i \<le> j"
  shows "start_pos pre seq i \<le> start_pos pre seq j"
    "start_page (int page_size) pre seq i \<le> start_page (int page_size) pre seq j"
  using sum_take_mono [OF batch_nonneg(1) [OF assms(1)] assms(2)] sum_take_mono [OF batch_nonneg(2) [OF assms(1)] assms(2)]
  by (simp_all add: start_pos_def start_page_def)

lemma start_Suc:
  assumes "batch_ok page_size pre seq last_loc" "i < length pre"
  shows "start_pos pre seq (Suc i) = start_pos pre seq i + (seq ! i - pre ! i)"
    "start_page ps pre seq (Suc i) = start_page ps pre seq i + new_pages_of ps pre seq ! i"
  using cumsum_Suc [OF assms] assms(2) by (simp_all add: start_pos_def start_page_def cumsum_def batch_ok_lens [OF assms(1)])

lemma start_0 [simp]: "start_pos pre seq 0 = 0" "start_page ps pre seq 0 = 0"
  by (simp_all add: start_pos_def start_page_def)

lemma start_all:
  "batch_ok page_size pre seq last_loc \<Longrightarrow> start_pos pre seq (length pre) = sum_list (extend_lens_of pre seq)"
  "batch_ok page_size pre seq last_loc \<Longrightarrow>
     start_page (int page_size) pre seq (length pre) = get_num_new_pages seq page_size pre"
  by (simp_all add: start_pos_def start_page_def batch_ok_lens get_num_new_pages_def)

text \<open>The request that owns a position of the output, and the slot it puts there.\<close>

definition owner :: "int list \<Rightarrow> int list \<Rightarrow> int \<Rightarrow> nat" where
  "owner pre seq a = (LEAST i. a < start_pos pre seq (Suc i))"

definition batch_slot :: "nat \<Rightarrow> int list \<Rightarrow> int list \<Rightarrow> int list \<Rightarrow> memory \<Rightarrow> int \<Rightarrow> int" where
  "batch_slot page_size pre seq last_loc fp a = req_slot page_size pre seq last_loc fp (owner pre seq a) a"

lemma owner_in_req:
  assumes "batch_ok page_size pre seq last_loc" "i < length pre" "in_req pre seq i a"
  shows "owner pre seq a = i"
  unfolding owner_def
proof (rule Least_equality)
  show "a < start_pos pre seq (Suc i)" using assms by (simp add: in_req_def start_Suc)
  show "i \<le> j" if "a < start_pos pre seq (Suc j)" for j
    using that assms(3) start_mono(1) [OF assms(1), of "Suc j" i] by (fastforce simp: in_req_def not_less_eq_eq [symmetric])
qed

lemma in_some_req:
  assumes "batch_ok page_size pre seq last_loc" "0 \<le> a" "a < start_pos pre seq n" "n \<le> length pre"
  shows "\<exists>i < n. in_req pre seq i a"
  using assms(3,4)
proof (induction n)
  case (Suc n)
  then show ?case
    using start_Suc(1) [OF assms(1), of n] by (cases "a < start_pos pre seq n") (auto simp: in_req_def less_Suc_eq)
qed (use assms(2) in simp)

lemma kernel_grid_at:
  assumes ok: "batch_ok page_size pre seq last_loc" and n: "length pre \<le> n" and "\<forall>i \<in> set order. i < length pre"
  shows "fold (alloc_extend_kernel u pre seq last_loc fp n page_size) order out a =
    (if \<exists>i \<in> set order. in_req pre seq i a then batch_slot page_size pre seq last_loc fp a else out a)"
  using assms(3)
proof (induction order arbitrary: out)
  case (Cons i order)
  then have i: "i < length pre" "i < n" using n by auto
  have "in_req pre seq i a \<Longrightarrow> batch_slot page_size pre seq last_loc fp a = req_slot page_size pre seq last_loc fp i a"
    by (simp add: batch_slot_def owner_in_req [OF ok i(1)])
  then show ?case using Cons by (simp add: kernel_at [OF ok i])
qed simp

lemma filled_cong: "filled out a b v out' \<Longrightarrow> (\<And>k. a \<le> k \<Longrightarrow> k < b \<Longrightarrow> v k = w k) \<Longrightarrow> filled out a b w out'"
  by (simp add: filled_def)

lemma run_steps_snoc:
  "run_steps f (is @ [i]) out = (case run_steps f is out of Inl e \<Rightarrow> Inl e | Inr out' \<Rightarrow> f i out')"
  by (induction "is" arbitrary: out) (auto split: sum.splits)

lemma naive_filled:
  assumes ok: "batch_ok page_size pre seq last_loc" and len: "sum_list (extend_lens_of pre seq) \<le> int (length out)"
    and pg: "get_num_new_pages seq page_size pre \<le> int (length free_pages)" and "n \<le> length pre"
  shows "\<exists>out'. run_steps (naive_step pre seq last_loc free_pages page_size) [0..<n] out = Inr out' \<and>
    filled out 0 (start_pos pre seq n) (batch_slot page_size pre seq last_loc (mem_of free_pages beyond)) out'"
  using assms(4)
proof (induction n)
  case (Suc n)
  let ?v = "batch_slot page_size pre seq last_loc (mem_of free_pages beyond)"
  obtain out1 where o1: "run_steps (naive_step pre seq last_loc free_pages page_size) [0..<n] out = Inr out1"
    "filled out 0 (start_pos pre seq n) ?v out1" using Suc by auto
  have n: "n < length pre" using Suc by simp
  note mono = start_mono [OF ok, of 0 n] start_mono [OF ok, of "Suc n" "length pre"]
  have "\<exists>out'. naive_step pre seq last_loc free_pages page_size n out1 = Inr out' \<and>
      filled out1 (start_pos pre seq n) (start_pos pre seq (Suc n)) (req_slot page_size pre seq last_loc (mem_of free_pages beyond) n) out'"
    unfolding start_Suc(1) [OF ok n]
    by (rule naive_step_filled [OF ok n])
      (use mono n len pg o1(2) in \<open>simp_all add: start_Suc [OF ok n, symmetric] start_all [OF ok] filled_def\<close>)
  then obtain out2 where o2: "naive_step pre seq last_loc free_pages page_size n out1 = Inr out2"
    "filled out1 (start_pos pre seq n) (start_pos pre seq (Suc n)) ?v out2"
    using filled_cong owner_in_req [OF ok n] by (fastforce simp: batch_slot_def in_req_def start_Suc(1) [OF ok n])
  then show ?case
    using o1 filled_trans [OF o1(2) o2(2)] start_mono(1) [OF ok, of 0 n] start_mono(1) [OF ok, of n "Suc n"]
    by (simp add: run_steps_snoc)
qed (simp add: filled_refl)

text \<open>
  C11: the GPU kernel and the reference computation give a batch the same slots, in whatever order
  the programs of the grid write, whatever the masked lanes and the uninitialised output hold, and
  whatever lies behind the list of free pages.
\<close>

theorem extend_kernel_eq_naive:
  assumes "batch_ok page_size pre seq last_loc"
    and "int (length out) = sum_list (extend_lens_of pre seq)"
    and "get_num_new_pages seq page_size pre \<le> int (length free_pages)"
    and "set order = {..<length pre}"
  shows "alloc_extend_naive pre seq last_loc free_pages out page_size =
    Inr (read_out (fold (alloc_extend_kernel u pre seq last_loc (mem_of free_pages beyond)
           (next_power_of_2 (length pre)) page_size) order mem) (length out))"
proof -
  let ?v = "batch_slot page_size pre seq last_loc (mem_of free_pages beyond)"
  let ?mem = "fold (alloc_extend_kernel u pre seq last_loc (mem_of free_pages beyond)
    (next_power_of_2 (length pre)) page_size) order mem"
  obtain out' where o: "alloc_extend_naive pre seq last_loc free_pages out page_size = Inr out'"
    "filled out 0 (start_pos pre seq (length pre)) ?v out'"
    using naive_filled [OF assms(1) _ assms(3), of out "length pre"] assms(2) by (auto simp: alloc_extend_naive_def)
  have "?mem (int k) = ?v (int k)" if "k < length out" for k
    using in_some_req [OF assms(1), of "int k" "length pre"] that assms(2,4) start_all(1) [OF assms(1)]
    by (auto simp: kernel_grid_at [OF assms(1) next_power_of_2_ge])
  then have "out' = read_out ?mem (length out)"
    using o(2) assms(2) start_all(1) [OF assms(1)] by (intro nth_equalityI) (simp_all add: filled_def read_out_def)
  then show ?thesis using o(1) by simp
qed

theorem extend_kernel_eq_naive_witness:
  "read_out (fold (alloc_extend_kernel 7 [3, 0] [9, 2] [6, -1] (mem_of [5, 8, 3] (\<lambda>_. 0)) 2 4) [1, 0] (\<lambda>_. 9)) 8 =
     [7, 20, 21, 22, 23, 32, 12, 13]"
proof -
  have "next_power_of_2 2 = 2" by code_simp
  moreover have "alloc_extend_naive [3, 0] [9, 2] [6, -1] [5, 8, 3] (replicate 8 0) 4 = Inr [7, 20, 21, 22, 23, 32, 12, 13]"
    by code_simp
  moreover have "get_num_new_pages [9, 2] 4 [3, 0] \<le> 3" "batch_ok 4 [3, 0] [9, 2] [6, -1]" by code_simp+
  moreover have "set [1, 0 :: nat] = {..<length [3, 0 :: int]}" by auto
  ultimately show ?thesis
    using extend_kernel_eq_naive [of 4 "[3, 0]" "[9, 2]" "[6, -1]" "replicate 8 0" "[5, 8, 3]" "[1, 0]" 7 "\<lambda>_. 0" "\<lambda>_. 9"]
    by (simp add: extend_lens_of_def numeral_2_eq_2)
qed

subsection \<open>No slot is handed out twice\<close>

lemma split_page:
  assumes "(0 :: int) < ps" "0 \<le> r" "r < ps"
  shows "(k * ps + r) div ps = k" "(k * ps + r) mod ps = r"
  using assms by simp_all

lemma slot_partial:
  assumes "0 < ps" "(loc + 1) mod ps = pre mod ps" "pre \<le> j" "j < ceil_div pre ps * ps"
  shows "slot ps pre loc fp g j div ps = loc div ps" "slot ps pre loc fp g j mod ps = j mod ps"
proof -
  define r where "r = pre mod ps"
  have r: "r \<noteq> 0" using assms(3,4) ceil_div_eq [OF assms(1), of pre] div_bounds(1) [OF assms(1), of pre]
    by (auto simp: r_def split: if_splits)
  have rb: "0 \<le> r" "r < ps" using assms(1) by (simp_all add: r_def)
  have pre: "pre = pre div ps * ps + r" by (simp add: r_def)
  have "ceil_div pre ps = pre div ps + 1" using r ceil_div_eq [OF assms(1), of pre] by (simp add: r_def)
  then have d: "j - pre + r < ps" "0 \<le> j - pre + r" using assms(3,4) pre rb by (simp_all add: distrib_right)
  have loc: "loc + 1 = (loc + 1) div ps * ps + r" using assms(2) by (metis div_mult_mod_eq r_def)
  then have l: "loc = (loc + 1) div ps * ps + (r - 1)" by linarith
  have "loc div ps = (loc + 1) div ps"
    using split_page(1) [of ps "r - 1" "(loc + 1) div ps"] l r rb assms(1) by simp
  moreover have "slot ps pre loc fp g j = (loc + 1) div ps * ps + (j - pre + r)"
    using assms(4) loc by (simp add: slot_def)
  moreover have "j = pre div ps * ps + (j - pre + r)" using pre by linarith
  ultimately show "slot ps pre loc fp g j div ps = loc div ps" "slot ps pre loc fp g j mod ps = j mod ps"
    using split_page [OF assms(1) d(2,1)] by metis+
qed

lemma slot_new:
  assumes "0 < ps" "\<not> j < ceil_div pre ps * ps"
  shows "slot ps pre loc fp g j div ps = fp (g + (j div ps - ceil_div pre ps))" "slot ps pre loc fp g j mod ps = j mod ps"
  using assms by (simp_all add: slot_def)

text \<open>
  What the callers provide: the last cached slot of a request ends where its cached positions
  end, and a page that is not full belongs to one request and is not free.
\<close>

definition last_pages_ok :: "nat \<Rightarrow> int list \<Rightarrow> int list \<Rightarrow> int list \<Rightarrow> bool" where
  "last_pages_ok page_size pre last_loc free_pages =
     (let ps = int page_size
      in (\<forall>i < length pre. (last_loc ! i + 1) mod ps = pre ! i mod ps) \<and>
         (\<forall>i < length pre. pre ! i mod ps \<noteq> 0 \<longrightarrow> last_loc ! i div ps \<notin> set free_pages) \<and>
         (\<forall>i < length pre. \<forall>k < length pre. pre ! i mod ps \<noteq> 0 \<and> pre ! k mod ps \<noteq> 0 \<and>
            last_loc ! i div ps = last_loc ! k div ps \<longrightarrow> i = k))"

text \<open>The number of the new page of position \<open>j\<close> of request \<open>i\<close>.\<close>

definition page_no :: "nat \<Rightarrow> int list \<Rightarrow> int list \<Rightarrow> nat \<Rightarrow> int \<Rightarrow> int" where
  "page_no page_size pre seq i j =
     start_page (int page_size) pre seq i + (j div int page_size - ceil_div (pre ! i) (int page_size))"

lemma page_no_range:
  assumes ok: "batch_ok page_size pre seq last_loc" and i: "i < length pre"
    and j: "ceil_div (pre ! i) (int page_size) * int page_size \<le> j" "j < seq ! i"
  shows "start_page (int page_size) pre seq i \<le> page_no page_size pre seq i j"
    and "page_no page_size pre seq i j < start_page (int page_size) pre seq (Suc i)"
proof -
  define ps where "ps = int page_size"
  have ps: "0 < ps" using ok by (simp add: batch_ok_def ps_def)
  have "ceil_div (pre ! i) ps \<le> j div ps" using j(1) zdiv_mono1 [of "ceil_div (pre ! i) ps * ps" j ps] ps
    by (simp add: ps_def)
  then show "start_page (int page_size) pre seq i \<le> page_no page_size pre seq i j" by (simp add: page_no_def ps_def)
  have "j div ps * ps < ceil_div (seq ! i) ps * ps"
    using div_bounds(1) [OF ps, of j] ceil_div_bounds(1) [OF ps, of "seq ! i"] j(2) by linarith
  then have "j div ps < ceil_div (seq ! i) ps" using ps by simp
  then show "page_no page_size pre seq i j < start_page (int page_size) pre seq (Suc i)"
    by (simp add: page_no_def start_Suc [OF ok i] batch_ok_lens [OF ok] i ps_def)
qed

lemma page_no_inj:
  assumes ok: "batch_ok page_size pre seq last_loc" and "i < length pre" "k < length pre"
    and "ceil_div (pre ! i) (int page_size) * int page_size \<le> j" "j < seq ! i"
    and "ceil_div (pre ! k) (int page_size) * int page_size \<le> l" "l < seq ! k"
    and "page_no page_size pre seq i j = page_no page_size pre seq k l"
  shows "i = k \<and> j div int page_size = l div int page_size"
proof -
  note r = page_no_range [OF ok assms(2,4,5)] page_no_range [OF ok assms(3,6,7)]
  have "i = k"
  proof (rule ccontr)
    assume "i \<noteq> k"
    then consider "Suc i \<le> k" | "Suc k \<le> i" by linarith
    then show False using start_mono(2) [OF ok] r assms(8) by cases fastforce+
  qed
  then show ?thesis using assms(8) by (simp add: page_no_def)
qed

text \<open>The page and the offset of a slot of the batch.\<close>

lemma batch_slot_parts:
  assumes ok: "batch_ok page_size pre seq last_loc" and lp: "last_pages_ok page_size pre last_loc free_pages"
    and n: "get_num_new_pages seq page_size pre \<le> int (length free_pages)"
    and i: "i < length pre" "in_req pre seq i a" and j: "j = pre ! i + (a - start_pos pre seq i)"
    and xd: "x = batch_slot page_size pre seq last_loc (mem_of free_pages beyond) a"
  shows "x mod int page_size = j mod int page_size"
    and "j < ceil_div (pre ! i) (int page_size) * int page_size \<Longrightarrow>
      pre ! i mod int page_size \<noteq> 0 \<and> x div int page_size = last_loc ! i div int page_size"
    and "\<not> j < ceil_div (pre ! i) (int page_size) * int page_size \<Longrightarrow>
      0 \<le> page_no page_size pre seq i j \<and> page_no page_size pre seq i j < get_num_new_pages seq page_size pre \<and>
      x div int page_size = free_pages ! nat (page_no page_size pre seq i j)"
proof -
  have ps: "0 < int page_size" using ok by (simp add: batch_ok_def)
  have x: "x = slot (int page_size) (pre ! i) (last_loc ! i) (mem_of free_pages beyond) (start_page (int page_size) pre seq i) j"
    by (simp add: xd batch_slot_def owner_in_req [OF ok i] req_slot_def j)
  have jb: "pre ! i \<le> j" "j < seq ! i" using i(2) by (auto simp: j in_req_def)
  have al: "(last_loc ! i + 1) mod int page_size = pre ! i mod int page_size" using lp i(1) by (simp add: last_pages_ok_def Let_def)
  show "x mod int page_size = j mod int page_size"
    unfolding x using slot_partial(2) [OF ps al jb(1)] slot_new(2) [OF ps] by blast
  { assume p: "j < ceil_div (pre ! i) (int page_size) * int page_size"
    then have "pre ! i mod int page_size \<noteq> 0"
      using jb ceil_div_eq [OF ps, of "pre ! i"] div_bounds(1) [OF ps, of "pre ! i"] by (auto split: if_splits)
    then show "pre ! i mod int page_size \<noteq> 0 \<and> x div int page_size = last_loc ! i div int page_size"
      unfolding x using slot_partial(1) [OF ps al jb(1) p] by simp }
  { assume p: "\<not> j < ceil_div (pre ! i) (int page_size) * int page_size"
    then have r: "start_page (int page_size) pre seq i \<le> page_no page_size pre seq i j"
      "page_no page_size pre seq i j < start_page (int page_size) pre seq (Suc i)"
      using page_no_range [OF ok i(1) _ jb(2)] by simp_all
    have g: "0 \<le> page_no page_size pre seq i j" "page_no page_size pre seq i j < get_num_new_pages seq page_size pre"
      using r start_mono(2) [OF ok, of 0 i] start_mono(2) [OF ok, of "Suc i" "length pre"] i(1) start_all(2) [OF ok] by simp_all
    moreover have "nat (page_no page_size pre seq i j) < length free_pages" using g n by linarith
    ultimately show "0 \<le> page_no page_size pre seq i j \<and> page_no page_size pre seq i j < get_num_new_pages seq page_size pre \<and>
      x div int page_size = free_pages ! nat (page_no page_size pre seq i j)"
      unfolding x slot_new(1) [OF ps p] page_no_def [symmetric] by (simp add: mem_of_def) }
qed

lemma batch_slot_inj:
  assumes ok: "batch_ok page_size pre seq last_loc" and lp: "last_pages_ok page_size pre last_loc free_pages"
    and n: "get_num_new_pages seq page_size pre \<le> int (length free_pages)" and d: "distinct free_pages"
    and i: "i < length pre" "in_req pre seq i a" and k: "k < length pre" "in_req pre seq k b"
    and x: "x = batch_slot page_size pre seq last_loc (mem_of free_pages beyond) a"
      "x = batch_slot page_size pre seq last_loc (mem_of free_pages beyond) b"
  shows "a = b"
proof -
  define j where "j = pre ! i + (a - start_pos pre seq i)"
  define l where "l = pre ! k + (b - start_pos pre seq k)"
  note A = batch_slot_parts [OF ok lp n i j_def x(1)] and B = batch_slot_parts [OF ok lp n k l_def x(2)]
  have ps: "0 < int page_size" using ok by (simp add: batch_ok_def)
  have jb: "j < seq ! i" "l < seq ! k" using i(2) k(2) by (simp_all add: j_def l_def in_req_def)
  let ?ci = "ceil_div (pre ! i) (int page_size) * int page_size" and ?ck = "ceil_div (pre ! k) (int page_size) * int page_size"
  have in_free: "free_pages ! nat m \<in> set free_pages" if "0 \<le> m" "m < get_num_new_pages seq page_size pre" for m
    using that n by simp
  have not_free: "last_loc ! m div int page_size \<notin> set free_pages" if "m < length pre" "pre ! m mod int page_size \<noteq> 0" for m
    using lp that by (simp add: last_pages_ok_def Let_def)
  consider "j < ?ci" "l < ?ck" | "\<not> j < ?ci" "\<not> l < ?ck" | "j < ?ci" "\<not> l < ?ck" | "\<not> j < ?ci" "l < ?ck" by blast
  then have "i = k \<and> j = l"
  proof cases
    case 1
    then have "i = k" using A(2) B(2) lp i(1) k(1) by (simp add: last_pages_ok_def Let_def)
    moreover have "j = l"
      using x 1 \<open>i = k\<close> unfolding batch_slot_def owner_in_req [OF ok i] owner_in_req [OF ok k] req_slot_def
      by (simp add: slot_def j_def l_def)
    ultimately show ?thesis by simp
  next
    case 2
    let ?m = "page_no page_size pre seq i j" and ?o = "page_no page_size pre seq k l"
    have m: "0 \<le> ?m" "nat ?m < length free_pages" "0 \<le> ?o" "nat ?o < length free_pages"
      "free_pages ! nat ?m = free_pages ! nat ?o" using 2 A(3) B(3) n by auto
    then have "?m = ?o" using nth_eq_iff_index_eq [OF d m(2,4)] by simp
    then have "i = k \<and> j div int page_size = l div int page_size"
      using page_no_inj [OF ok i(1) k(1) _ jb(1) _ jb(2)] 2 by (simp add: not_less)
    then show ?thesis using A(1) B(1) by (metis div_mult_mod_eq)
  next
    case 3
    then show ?thesis using A(2) B(3) in_free not_free [OF i(1)] by metis
  next
    case 4
    then show ?thesis using A(3) B(2) in_free not_free [OF k(1)] by metis
  qed
  then show ?thesis by (auto simp: j_def l_def)
qed

text \<open>The state in which \<open>alloc_extend\<close> takes its pages.\<close>

definition extend_source :: "nat \<Rightarrow> nat \<Rightarrow> kv_allocator \<Rightarrow> kv_allocator" where
  "extend_source bs extend_num_tokens A =
     (if ka_need_sort A \<and> extend_num_tokens div ka_page_size A + bs + 1 > length (ka_free_pages A)
      then merge_and_sort_free A else A)"

text \<open>
  C12: what a successful \<open>alloc_extend\<close> hands out. There is one slot per new token, no slot twice,
  a token at position \<open>j\<close> of its sequence gets a slot at offset \<open>j mod page_size\<close> of a page, the
  pages are the one the request has not filled yet and the first \<open>get_num_new_pages\<close> free pages,
  and exactly these are no longer free.
\<close>

theorem alloc_extend_slots:
  assumes "alloc_extend G pre seq last_loc num_tokens None A = (Some locs, A')"
    and "batch_ok (ka_page_size A) pre seq last_loc"
    and "int num_tokens = sum_list (extend_lens_of pre seq)"
    and "set (gp_order G) = {..<length pre}"
    and "B = extend_source (length pre) num_tokens A" and "distinct (ka_free_pages B)"
    and "last_pages_ok (ka_page_size A) pre last_loc (ka_free_pages B)"
  shows "length locs = num_tokens \<and> distinct locs \<and>
    (\<exists>taken. ka_free_pages B = taken @ ka_free_pages A' \<and>
       int (length taken) = get_num_new_pages seq (ka_page_size A) pre \<and>
       (\<forall>i < length pre. \<forall>j. pre ! i \<le> j \<and> j < seq ! i \<longrightarrow>
          (let x = locs ! nat (start_pos pre seq i + (j - pre ! i)); ps = int (ka_page_size A)
           in x mod ps = j mod ps \<and>
              (if j < ceil_div (pre ! i) ps * ps then x div ps = last_loc ! i div ps else x div ps \<in> set taken))))"
proof -
  let ?ps = "ka_page_size A" and ?F = "ka_free_pages B" and ?n = "get_num_new_pages seq (ka_page_size A) pre"
  note ok = assms(2)
  let ?v = "batch_slot ?ps pre seq last_loc (mem_of ?F (gp_beyond G))"
  have n: "?n \<le> int (length ?F)" and A': "ka_free_pages A' = drop (slice_bound (length ?F) ?n) ?F"
    and locs: "locs = read_out (fold (alloc_extend_kernel (gp_masked G) pre seq last_loc (mem_of ?F (gp_beyond G))
      (next_power_of_2 (length pre)) ?ps) (gp_order G) (gp_empty G)) num_tokens"
    using assms(1) unfolding assms(5) alloc_extend_def Let_def extend_source_def option.case by (auto split: if_splits)
  have n0: "0 \<le> ?n" using start_mono(2) [OF ok, of 0 "length pre"] start_all(2) [OF ok] by simp
  have at: "locs ! nat a = ?v a" "\<exists>i < length pre. in_req pre seq i a" if "0 \<le> a" "a < int num_tokens" for a
  proof -
    show *: "\<exists>i < length pre. in_req pre seq i a"
      using in_some_req [OF ok that(1), of "length pre"] that(2) assms(3) start_all(1) [OF ok] by simp
    show "locs ! nat a = ?v a" using that * assms(4) unfolding locs
      by (auto simp: read_out_def kernel_grid_at [OF ok next_power_of_2_ge])
  qed
  have len: "length locs = num_tokens" by (simp add: locs read_out_def)
  have dist: "distinct locs"
    unfolding distinct_conv_nth
  proof (intro allI impI)
    fix k l assume kl: "k < length locs" "l < length locs" "k \<noteq> l"
    obtain i m where "i < length pre" "in_req pre seq i (int k)" "m < length pre" "in_req pre seq m (int l)"
      using at(2) [of "int k"] at(2) [of "int l"] kl len by auto
    then show "locs ! k \<noteq> locs ! l"
      using batch_slot_inj [OF ok assms(7) n assms(6), of i "int k" m "int l" _ "gp_beyond G"] at(1) [of "int k"] at(1) [of "int l"] kl len by auto
  qed
  let ?taken = "take (nat ?n) ?F"
  have "let x = locs ! nat (start_pos pre seq i + (j - pre ! i)); ps = int ?ps
      in x mod ps = j mod ps \<and> (if j < ceil_div (pre ! i) ps * ps then x div ps = last_loc ! i div ps else x div ps \<in> set ?taken)"
    if ij: "i < length pre" "pre ! i \<le> j" "j < seq ! i" for i j
  proof -
    let ?a = "start_pos pre seq i + (j - pre ! i)"
    have a: "in_req pre seq i ?a" "0 \<le> ?a" "?a < int num_tokens"
      using ij start_mono(1) [OF ok, of 0 i] start_mono(1) [OF ok, of "Suc i" "length pre"] start_Suc(1) [OF ok ij(1)]
        start_all(1) [OF ok] assms(3) by (simp_all add: in_req_def)
    note parts = batch_slot_parts [OF ok assms(7) n ij(1) a(1) _ refl, of j "gp_beyond G"]
    have "free_pages ! nat m \<in> set (take (nat k) free_pages)" if "0 \<le> m" "m < k" "k \<le> int (length free_pages)"
      for m k and free_pages :: "int list"
      using that by (auto simp: in_set_conv_nth intro!: exI [of _ "nat m"])
    then show ?thesis using parts n unfolding at(1) [OF a(2,3)] Let_def by auto
  qed
  moreover have "?F = ?taken @ ka_free_pages A'" "int (length ?taken) = ?n"
    using n n0 unfolding A' by (simp_all add: slice_bound_in)
  ultimately show ?thesis using len dist by blast
qed

text \<open>An allocator of eight pages of four slots, the first of which is taken.\<close>

definition sample_allocator :: kv_allocator where
  "sample_allocator = snd (kv_alloc 4 (init_paged_allocator 32 4 False))"

definition sample_gpu :: gpu where
  "sample_gpu = \<lparr>gp_masked = 7, gp_beyond = (\<lambda>_. 0), gp_empty = (\<lambda>_. 9), gp_order = [1, 0]\<rparr>"

theorem alloc_extend_slots_witness:
  "distinct (the (fst (alloc_extend sample_gpu [3, 0] [9, 2] [6, -1] 8 None sample_allocator))) \<and>
   ka_free_pages (snd (alloc_extend sample_gpu [3, 0] [9, 2] [6, -1] 8 None sample_allocator)) = [5, 6, 7, 8]"
proof -
  let ?r = "alloc_extend sample_gpu [3, 0] [9, 2] [6, -1] 8 None sample_allocator"
  let ?A = "sample_allocator"
  have A: "ka_page_size ?A = 4" "ka_free_pages ?A = [2, 3, 4, 5, 6, 7, 8]" "extend_source (Suc (Suc 0)) 8 ?A = ?A" by code_simp+
  have g: "get_num_new_pages [9, 2] 4 [3, 0] = 3" "slice_bound (Suc (Suc (Suc (Suc (Suc (Suc (Suc 0))))))) 3 = 3" "batch_ok 4 [3, 0] [9, 2] [6, -1]"
    "ka_need_sort ?A = False" by code_simp+
  have l: "last_pages_ok 4 [3, 0] [6, -1] [2, 3, 4, 5, 6, 7, 8]" by (auto simp: last_pages_ok_def Let_def less_Suc_eq)
  have r: "?r = (Some (the (fst ?r)), snd ?r)" "ka_free_pages (snd ?r) = [5, 6, 7, 8]"
    by (simp_all add: alloc_extend_def Let_def A g)
  have o: "set (gp_order sample_gpu) = {..<length [3, 0 :: int]}" by (auto simp: sample_gpu_def)
  have "distinct (the (fst ?r))"
    by (rule alloc_extend_slots [THEN conjunct2, THEN conjunct1, OF r(1) _ _ o refl])
      (simp_all only: A g l list.size add_0 add_Suc plus_1_eq_Suc One_nat_def extend_lens_of_def, simp_all)
  then show ?thesis using r(2) by blast
qed

end
