(* ===== verification/Radix_Key.thy ===== *)
theory Radix_Key
  imports Prelude
begin

section \<open>Keys of the prefix caches\<close>

text \<open>
  \<open>RadixKey\<close> of \<open>mem_cache/radix_cache.py\<close>: the tokens of a prompt under an optional
  namespace. A bigram key, used with speculative decoding, is a view on pairs of neighbouring
  tokens. The lemmas see a key as the list of its logical units and show that slicing,
  matching and the dictionary key of its first page act on these units.
\<close>

record radix_key =
  rk_token_ids :: "int list"
  rk_extra_key :: "string option"
  rk_is_bigram :: bool

definition rk_len :: "radix_key \<Rightarrow> nat" where
  "rk_len k =
     (if rk_is_bigram k then (if length (rk_token_ids k) > 0 then length (rk_token_ids k) - 1 else 0)
      else length (rk_token_ids k))"

text \<open>\<open>key[start:stop]\<close> for bounds that are not negative.\<close>

definition rk_slice :: "nat \<Rightarrow> nat \<Rightarrow> radix_key \<Rightarrow> radix_key" where
  "rk_slice start stop k =
     (let a = min start (rk_len k); b = min stop (rk_len k)
      in if rk_is_bigram k
         then k\<lparr>rk_token_ids := (if b > a then drop a (take (b + 1) (rk_token_ids k)) else [])\<rparr>
         else k\<lparr>rk_token_ids := drop a (take b (rk_token_ids k))\<rparr>)"

definition rk_take :: "nat \<Rightarrow> radix_key \<Rightarrow> radix_key" where
  "rk_take n k = rk_slice 0 n k"

definition rk_drop :: "nat \<Rightarrow> radix_key \<Rightarrow> radix_key" where
  "rk_drop n k = rk_slice n (rk_len k) k"

definition page_aligned :: "nat \<Rightarrow> radix_key \<Rightarrow> radix_key" where
  "page_aligned page_size k = (if page_size = 1 then k else rk_take (rk_len k div page_size * page_size) k)"

definition maybe_to_bigram_view ::
  "bool \<Rightarrow> radix_key \<Rightarrow> int list option \<Rightarrow> radix_key \<times> int list option" where
  "maybe_to_bigram_view is_eagle k val =
     (if is_eagle \<and> \<not> rk_is_bigram k
      then let k' = k\<lparr>rk_is_bigram := True\<rparr> in (k', map_option (take (rk_len k')) val)
      else (k, val))"

text \<open>The loop over \<open>zip(t0, t1)\<close> that counts equal elements up to the first difference.\<close>

fun common :: "'a list \<Rightarrow> 'a list \<Rightarrow> nat" where
  "common (a # as) (b # bs) = (if a = b then Suc (common as bs) else 0)"
| "common _ _ = 0"

text \<open>The loop over pages.\<close>

function match_pages :: "nat \<Rightarrow> int list \<Rightarrow> int list \<Rightarrow> nat \<Rightarrow> nat \<Rightarrow> nat" where
  "match_pages page_size t0 t1 min_len i =
     (if i < min_len \<and> 0 < page_size
      then if take page_size (drop i t0) \<noteq> take page_size (drop i t1) then i
           else match_pages page_size t0 t1 min_len (i + page_size)
      else i)"
  by pat_completeness auto
termination
  by (relation "measure (\<lambda>(page_size, t0, t1, min_len, i). min_len - i)") auto

declare match_pages.simps [simp del]

text \<open>\<open>RadixKey.match\<close>, which refuses keys of different namespaces.\<close>

definition rk_match :: "radix_key \<Rightarrow> radix_key \<Rightarrow> nat \<Rightarrow> nat res" where
  "rk_match k k' page_size =
     (if rk_extra_key k \<noteq> rk_extra_key k' then Inl ValueError
      else
        let t0 = rk_token_ids k; t1 = rk_token_ids k'
        in Inr (if rk_is_bigram k
             then let matched = min (common t0 t1 - 1) (min (rk_len k) (rk_len k'))
                  in if page_size > 1 then matched div page_size * page_size else matched
             else if page_size = 1 then common t0 t1
             else match_pages page_size t0 t1 (min (rk_len k) (rk_len k')) 0))"

text \<open>
  What \<open>child_key\<close> returns: a token, a tuple of tokens or a tuple of pairs, together with the
  namespace. A bigram key that is too short raises \<open>IndexError\<close>.
\<close>

datatype ck_plain = Ck_token int | Ck_tuple "int list" | Ck_pairs "(int \<times> int) list"

type_synonym child_key = "string option \<times> ck_plain"

definition child_key :: "nat \<Rightarrow> radix_key \<Rightarrow> child_key res" where
  "child_key page_size k =
     (let t = rk_token_ids k
      in if rk_is_bigram k
         then if page_size = 1
              then if length t < 2 then Inl IndexError else Inr (rk_extra_key k, Ck_tuple [t ! 0, t ! 1])
              else if 0 < page_size \<and> length t < page_size + 1 then Inl IndexError
              else Inr (rk_extra_key k, Ck_pairs (map (\<lambda>j. (t ! j, t ! (j + 1))) [0..<page_size]))
         else if page_size = 1
              then if t = [] then Inl IndexError else Inr (rk_extra_key k, Ck_token (t ! 0))
              else Inr (rk_extra_key k, Ck_tuple (take page_size t)))"

subsection \<open>The logical units\<close>

type_synonym key_unit = "int \<times> int option"

definition rk_units :: "radix_key \<Rightarrow> key_unit list" where
  "rk_units k =
     (if rk_is_bigram k then map2 (\<lambda>a b. (a, Some b)) (rk_token_ids k) (tl (rk_token_ids k))
      else map (\<lambda>a. (a, None)) (rk_token_ids k))"

lemma length_rk_units [simp]: "length (rk_units k) = rk_len k"
  by (cases "rk_token_ids k") (auto simp: rk_units_def rk_len_def)

lemma rk_units_Nil [simp]: "rk_units k = [] \<longleftrightarrow> rk_len k = 0"
  by (metis length_0_conv length_rk_units)

lemma nth_rk_units:
  "i < rk_len k \<Longrightarrow> rk_units k ! i =
     (if rk_is_bigram k then (rk_token_ids k ! i, Some (rk_token_ids k ! Suc i)) else (rk_token_ids k ! i, None))"
  by (auto simp: rk_units_def rk_len_def nth_tl split: if_splits)

lemma rk_slice_simps [simp]:
  "rk_extra_key (rk_slice a b k) = rk_extra_key k" "rk_is_bigram (rk_slice a b k) = rk_is_bigram k"
  by (simp_all add: rk_slice_def Let_def)

lemma rk_len_slice: "rk_len (rk_slice a b k) = min b (rk_len k) - min a (rk_len k)"
  by (auto simp: rk_slice_def Let_def rk_len_def)

lemma rk_units_slice: "rk_units (rk_slice a b k) = drop a (take b (rk_units k))"
proof (rule nth_equalityI)
  show l: "length (rk_units (rk_slice a b k)) = length (drop a (take b (rk_units k)))"
    by (auto simp: rk_len_slice)
  fix i assume "i < length (rk_units (rk_slice a b k))"
  then have i: "i < min b (rk_len k) - min a (rk_len k)" by (simp add: rk_len_slice)
  then have ai: "a + i < b" "a + i < rk_len k" "min a (rk_len k) = a" by (auto simp: min_def split: if_splits)
  have "rk_token_ids (rk_slice a b k) ! i = rk_token_ids k ! (a + i)"
    "rk_is_bigram k \<Longrightarrow> rk_token_ids (rk_slice a b k) ! Suc i = rk_token_ids k ! Suc (a + i)"
    using ai by (auto simp: rk_slice_def Let_def rk_len_def split: if_splits)
  then show "rk_units (rk_slice a b k) ! i = drop a (take b (rk_units k)) ! i"
    using i ai by (auto simp: nth_rk_units rk_len_slice)
qed

lemma rk_take_simps [simp]:
  "rk_extra_key (rk_take n k) = rk_extra_key k" "rk_is_bigram (rk_take n k) = rk_is_bigram k"
  "rk_units (rk_take n k) = take n (rk_units k)" "rk_len (rk_take n k) = min n (rk_len k)"
  by (simp_all add: rk_take_def rk_units_slice rk_len_slice)

lemma rk_drop_simps [simp]:
  "rk_extra_key (rk_drop n k) = rk_extra_key k" "rk_is_bigram (rk_drop n k) = rk_is_bigram k"
  "rk_units (rk_drop n k) = drop n (rk_units k)" "rk_len (rk_drop n k) = rk_len k - n"
  by (simp_all add: rk_drop_def rk_units_slice rk_len_slice)

lemma page_aligned_simps:
  "rk_extra_key (page_aligned ps k) = rk_extra_key k" "rk_is_bigram (page_aligned ps k) = rk_is_bigram k"
  "rk_units (page_aligned ps k) = take (rk_len k div ps * ps) (rk_units k)"
  "rk_len (page_aligned ps k) = rk_len k div ps * ps"
  by (auto simp: page_aligned_def min_def)

subsection \<open>Common prefixes\<close>

lemma common_le: "common xs ys \<le> length xs" "common xs ys \<le> length ys"
  by (induction xs ys rule: common.induct) auto

lemma take_common: "take (common xs ys) xs = take (common xs ys) ys"
  by (induction xs ys rule: common.induct) auto

lemma common_ge: "n \<le> length xs \<Longrightarrow> n \<le> length ys \<Longrightarrow> take n xs = take n ys \<Longrightarrow> n \<le> common xs ys"
proof (induction xs ys arbitrary: n rule: common.induct)
  case (1 a as b bs)
  then show ?case by (cases n) auto
qed auto

lemma common_iff:
  "n \<le> length xs \<Longrightarrow> n \<le> length ys \<Longrightarrow> take n xs = take n ys \<longleftrightarrow> n \<le> common xs ys"
  by (metis common_ge min.absorb_iff1 take_common take_take)

lemma common_map: "inj f \<Longrightarrow> common (map f xs) (map f ys) = common xs ys"
  by (induction xs ys rule: common.induct) (auto dest: injD)

lemma common_pairs:
  "common (map2 (\<lambda>a b. (a, Some b)) xs (tl xs)) (map2 (\<lambda>a b. (a, Some b)) ys (tl ys)) = common xs ys - 1"
proof (induction xs arbitrary: ys)
  case (Cons a as)
  show ?case using Cons.IH [of "tl ys"] by (cases ys; cases as; cases "tl ys") auto
qed simp

lemma common_units:
  assumes "rk_is_bigram k' = rk_is_bigram k"
  shows "common (rk_units k) (rk_units k') =
    (if rk_is_bigram k then common (rk_token_ids k) (rk_token_ids k') - 1 else common (rk_token_ids k) (rk_token_ids k'))"
  using assms by (simp add: rk_units_def common_pairs common_map inj_def)

lemma match_pages_common:
  assumes "0 < ps" "ps dvd length xs" "ps dvd length ys" "ps dvd i" "i \<le> common xs ys"
  shows "match_pages ps xs ys (min (length xs) (length ys)) i = common xs ys div ps * ps"
  using assms(4,5)
proof (induction "min (length xs) (length ys) - i" arbitrary: i rule: less_induct)
  case less
  let ?m = "min (length xs) (length ys)"
  note cl = common_le [of xs ys]
  show ?case
  proof (cases "i < ?m")
    case False
    then have "common xs ys = i" using cl less.prems False by (cases "length xs \<le> length ys") auto
    then show ?thesis using False less.prems by (subst match_pages.simps) auto
  next
    case True
    have "ps dvd ?m" using assms(2,3) by (simp add: min_def)
    then have ip: "i + ps \<le> ?m" using True less.prems(1) assms(1) by (metis dvd_add_right_iff dvd_imp_le le_add_diff_inverse less_imp_le nat_add_left_cancel_le zero_less_diff)
    have "take i xs = take i ys" using less.prems(2) True by (simp add: common_iff)
    then have eq: "take ps (drop i xs) = take ps (drop i ys) \<longleftrightarrow> i + ps \<le> common xs ys"
      using ip common_iff [of "i + ps" xs ys] by (simp add: take_add)
    show ?thesis
    proof (cases "i + ps \<le> common xs ys")
      case t: True
      have "match_pages ps xs ys ?m (i + ps) = common xs ys div ps * ps"
        by (rule less.hyps) (use t True less.prems(1) assms(1) in auto)
      then show ?thesis using t True eq assms(1) by (subst match_pages.simps) simp
    next
      case f: False
      obtain q where q: "i = ps * q" using less.prems(1) by blast
      have "common xs ys div ps = q"
        using f less.prems(2) assms(1) q by (intro div_nat_eqI) (simp_all add: algebra_simps)
      then show ?thesis using f True eq q by (subst match_pages.simps) (simp add: mult.commute)
    qed
  qed
qed

text \<open>On keys of whole pages, \<open>match\<close> is the common prefix in units, rounded down to pages.\<close>

lemma rk_match_units:
  assumes "0 < ps" "rk_extra_key k = rk_extra_key k'" "rk_is_bigram k' = rk_is_bigram k" "ps dvd rk_len k" "ps dvd rk_len k'"
  shows "rk_match k k' ps = Inr (common (rk_units k) (rk_units k') div ps * ps)"
proof (cases "rk_is_bigram k")
  case True
  have "common (rk_units k) (rk_units k') \<le> min (rk_len k) (rk_len k')" using common_le [of "rk_units k" "rk_units k'"] by simp
  then show ?thesis using assms(1-3) True by (auto simp: rk_match_def Let_def common_units min_def)
next
  case False
  then have "rk_len k = length (rk_token_ids k)" "rk_len k' = length (rk_token_ids k')" using assms by (simp_all add: rk_len_def)
  then show ?thesis
    using assms False match_pages_common [of ps "rk_token_ids k" "rk_token_ids k'" 0]
    by (simp add: rk_match_def Let_def common_units)
qed

subsection \<open>The first page\<close>

definition first_page :: "nat \<Rightarrow> radix_key \<Rightarrow> string option \<times> key_unit list" where
  "first_page ps k = (rk_extra_key k, take ps (rk_units k))"

lemma child_key_Inr: "0 < ps \<Longrightarrow> ps \<le> rk_len k \<Longrightarrow> \<exists>ck. child_key ps k = Inr ck"
  by (auto simp: child_key_def Let_def rk_len_def split: if_splits)

lemma child_key_eq_iff:
  assumes "0 < ps" "ps \<le> rk_len k" "ps \<le> rk_len k'" "rk_is_bigram k' = rk_is_bigram k"
  shows "child_key ps k = child_key ps k' \<longleftrightarrow> first_page ps k = first_page ps k'"
proof -
  have u: "take ps (rk_units k) = take ps (rk_units k') \<longleftrightarrow> (\<forall>i < ps. rk_units k ! i = rk_units k' ! i)"
    using assms by (auto simp: list_eq_iff_nth_eq)
  show ?thesis
  proof (cases "rk_is_bigram k")
    case True
    then have l: "ps < length (rk_token_ids k)" "ps < length (rk_token_ids k')"
      using assms by (auto simp: rk_len_def split: if_splits)
    have "first_page ps k = first_page ps k' \<longleftrightarrow> rk_extra_key k = rk_extra_key k' \<and>
        (\<forall>i < ps. rk_token_ids k ! i = rk_token_ids k' ! i \<and> rk_token_ids k ! Suc i = rk_token_ids k' ! Suc i)"
      using assms True unfolding first_page_def prod.inject u by (auto simp: nth_rk_units)
    then show ?thesis using assms(1,4) True l by (auto simp: child_key_def Let_def)
  next
    case False
    then have "take ps (rk_token_ids k) = take ps (rk_token_ids k') \<longleftrightarrow> (\<forall>i < ps. rk_token_ids k ! i = rk_token_ids k' ! i)"
      using assms by (auto simp: list_eq_iff_nth_eq rk_len_def)
    then show ?thesis using assms False unfolding first_page_def prod.inject u
      by (auto simp: child_key_def Let_def nth_rk_units rk_len_def)
  qed
qed

lemma first_page_slice:
  assumes "ps \<le> n"
  shows "first_page ps (rk_take n k) = first_page ps k"
  using assms by (simp add: first_page_def min_def)

end
