(* ===== verification/Radix_Tree.thy ===== *)
theory Radix_Tree
  imports Radix_Key "HOL-Library.Sublist"
begin

section \<open>Radix trees of linked nodes\<close>

text \<open>
  What the prefix caches share: nodes in a heap that point to their parent and, by the first page
  of their key, to their children. The shape of a cache forgets everything but these pointers,
  the keys and the cached indices. \<open>path\<close> follows the pointers down and collects keys and
  indices; \<open>stored\<close> is the set of prefixes that the tree holds. The three ways in which the
  caches change the shape are to split a node, to add a leaf and to delete a leaf.
\<close>

record tree_node =
  tn_children :: "(child_key, nat) odict"
  tn_parent :: "nat option"
  tn_key :: radix_key
  tn_value :: "int list option"

type_synonym shape = "nat \<Rightarrow> tree_node option"

definition node_ok :: "nat \<Rightarrow> bool \<Rightarrow> nat \<Rightarrow> shape \<Rightarrow> nat \<Rightarrow> tree_node \<Rightarrow> bool" where
  "node_ok ps bg rt S n x =
     (\<exists>p y v ck. tn_parent x = Some p \<and> S p = Some y \<and>
        child_key ps (tn_key x) = Inr ck \<and> od_get (tn_children y) ck = Some n \<and>
        tn_value x = Some v \<and> length v = rk_len (tn_key x) \<and>
        0 < rk_len (tn_key x) \<and> ps dvd rk_len (tn_key x) \<and> rk_is_bigram (tn_key x) = bg \<and>
        (p \<noteq> rt \<longrightarrow> rk_extra_key (tn_key y) = rk_extra_key (tn_key x)))"

definition tree_ok :: "nat \<Rightarrow> bool \<Rightarrow> nat \<Rightarrow> shape \<Rightarrow> bool" where
  "tree_ok ps bg rt S =
     (0 < ps \<and> (\<exists>r. S rt = Some r \<and> tn_parent r = None \<and> tn_value r = Some []) \<and>
      (\<forall>n x. S n = Some x \<longrightarrow> n \<noteq> rt \<longrightarrow> node_ok ps bg rt S n x) \<and>
      (\<forall>p y ck n. S p = Some y \<longrightarrow> od_get (tn_children y) ck = Some n \<longrightarrow>
         (\<exists>x. S n = Some x \<and> n \<noteq> rt \<and> tn_parent x = Some p \<and> child_key ps (tn_key x) = Inr ck)) \<and>
      (\<forall>p y. S p = Some y \<longrightarrow> od_ok (tn_children y)) \<and>
      (\<exists>d :: nat \<Rightarrow> nat. \<forall>n x p. S n = Some x \<longrightarrow> tn_parent x = Some p \<longrightarrow> d p < d n))"

inductive path :: "shape \<Rightarrow> string option \<Rightarrow> nat \<Rightarrow> key_unit list \<Rightarrow> int list \<Rightarrow> nat \<Rightarrow> bool" for S e where
  path_nil: "path S e n [] [] n"
| path_cons: "S c = Some x \<Longrightarrow> tn_parent x = Some n \<Longrightarrow> rk_extra_key (tn_key x) = e \<Longrightarrow> tn_value x = Some v \<Longrightarrow>
     path S e c us vs m \<Longrightarrow> path S e n (rk_units (tn_key x) @ us) (v @ vs) m"

text \<open>The prefix \<open>us\<close> of whole pages is cached with the indices \<open>vs\<close>.\<close>

definition stored :: "nat \<Rightarrow> shape \<Rightarrow> nat \<Rightarrow> string option \<Rightarrow> key_unit list \<Rightarrow> int list \<Rightarrow> bool" where
  "stored ps S rt e us vs =
     (ps dvd length us \<and> (\<exists>m ws xs. path S e rt ws xs m \<and> prefix us ws \<and> vs = take (length us) xs))"

subsection \<open>Facts of a well-formed tree\<close>

lemma tree_okD:
  assumes "tree_ok ps bg rt S"
  shows "0 < ps" "\<exists>r. S rt = Some r \<and> tn_parent r = None \<and> tn_value r = Some []"
    "S n = Some x \<Longrightarrow> n \<noteq> rt \<Longrightarrow> node_ok ps bg rt S n x"
    "S p = Some y \<Longrightarrow> od_get (tn_children y) ck = Some n \<Longrightarrow>
       \<exists>x. S n = Some x \<and> n \<noteq> rt \<and> tn_parent x = Some p \<and> child_key ps (tn_key x) = Inr ck"
    "\<exists>d :: nat \<Rightarrow> nat. \<forall>n x p. S n = Some x \<longrightarrow> tn_parent x = Some p \<longrightarrow> d p < d n"
    "S p = Some y \<Longrightarrow> od_ok (tn_children y)"
  using assms unfolding tree_ok_def by blast+

lemma parent_not_root:
  "tree_ok ps bg rt S \<Longrightarrow> S n = Some x \<Longrightarrow> tn_parent x = Some p \<Longrightarrow> n \<noteq> rt"
  using tree_okD(2) by fastforce

lemma node_ok_of_parent:
  "tree_ok ps bg rt S \<Longrightarrow> S n = Some x \<Longrightarrow> tn_parent x = Some p \<Longrightarrow> node_ok ps bg rt S n x"
  by (simp add: parent_not_root tree_okD(3))

text \<open>A node's key has at least one page, so its dictionary key exists.\<close>

lemma node_key:
  assumes "tree_ok ps bg rt S" "S n = Some x" "n \<noteq> rt"
  shows "ps \<le> rk_len (tn_key x)" "ps dvd rk_len (tn_key x)" "rk_is_bigram (tn_key x) = bg"
    "\<exists>v. tn_value x = Some v \<and> length v = rk_len (tn_key x)"
  using tree_okD(3) [OF assms] by (auto simp: node_ok_def dvd_imp_le)

text \<open>Two children of a node with the same first page are the same node.\<close>

lemma child_unique:
  assumes ok: "tree_ok ps bg rt S" and "S c = Some x" "S d = Some z" "tn_parent x = Some n" "tn_parent z = Some n"
    and "first_page ps (tn_key x) = first_page ps (tn_key z)"
  shows "c = d"
proof -
  have r: "c \<noteq> rt" "d \<noteq> rt" using assms parent_not_root by blast+
  note kx = node_key [OF ok assms(2) r(1)] and kz = node_key [OF ok assms(3) r(2)]
  have "child_key ps (tn_key x) = child_key ps (tn_key z)"
    using child_key_eq_iff [OF tree_okD(1) [OF ok] kx(1) kz(1)] kx(3) kz(3) assms(6) by simp
  then show ?thesis
    using tree_okD(3) [OF ok assms(2) r(1)] tree_okD(3) [OF ok assms(3) r(2)] assms(4,5) by (auto simp: node_ok_def)
qed

subsection \<open>Paths\<close>

lemma path_iff:
  "path S e n ws xs m \<longleftrightarrow> ws = [] \<and> xs = [] \<and> m = n \<or>
     (\<exists>c x v us vs. S c = Some x \<and> tn_parent x = Some n \<and> rk_extra_key (tn_key x) = e \<and> tn_value x = Some v \<and>
        path S e c us vs m \<and> ws = rk_units (tn_key x) @ us \<and> xs = v @ vs)"
  by (subst path.simps) blast

lemma prefix_take_eq: "prefix (a @ b) (c @ d) \<Longrightarrow> n \<le> length a \<Longrightarrow> n \<le> length c \<Longrightarrow> take n a = take n c"
  by (auto simp: prefix_def) (metis append_Nil2 diff_is_0_eq' take0 take_append)

lemma path_append: "path S e n us vs p \<Longrightarrow> path S e p ws xs m \<Longrightarrow> path S e n (us @ ws) (vs @ xs) m"
  by (induction rule: path.induct) (auto intro: path_cons)

lemma path_edge:
  "S c = Some x \<Longrightarrow> tn_parent x = Some n \<Longrightarrow> rk_extra_key (tn_key x) = e \<Longrightarrow> tn_value x = Some v \<Longrightarrow>
     path S e n (rk_units (tn_key x)) v c"
  using path_cons [of S c x n e v "[]" "[]" c] path_nil [of S e c] by simp

lemma path_snoc:
  "path S e n us vs p \<Longrightarrow> S c = Some x \<Longrightarrow> tn_parent x = Some p \<Longrightarrow> rk_extra_key (tn_key x) = e \<Longrightarrow>
     tn_value x = Some v \<Longrightarrow> path S e n (us @ rk_units (tn_key x)) (vs @ v) c"
  by (rule path_append [OF _ path_edge])

lemma path_lengths:
  assumes "tree_ok ps bg rt S" "path S e n us vs m"
  shows "length vs = length us \<and> ps dvd length us"
  using assms(2)
proof (induction rule: path.induct)
  case (path_cons c x n v us vs m)
  then show ?case using node_key [OF assms(1) path_cons(1)] parent_not_root [OF assms(1) path_cons(1,2)] by auto
qed simp

text \<open>A path that begins with the units of another one passes through its end.\<close>

lemma path_compare:
  assumes ok: "tree_ok ps bg rt S" and "path S e n us vs p" "path S e n ws xs m" "prefix us ws"
  obtains ws' xs' where "ws = us @ ws'" "xs = vs @ xs'" "path S e p ws' xs' m"
  using assms(2-4)
proof (induction arbitrary: ws xs thesis rule: path.induct)
  case (path_nil n)
  then show ?case by simp
next
  case (path_cons c x n v us vs p)
  note cr = parent_not_root [OF ok path_cons(1,2)]
  note kx = node_key [OF ok path_cons(1) cr]
  have "ws \<noteq> []" using path_cons.prems(3) kx(1) tree_okD(1) [OF ok] by auto
  then obtain d z w us2 vs2 where 2: "S d = Some z" "tn_parent z = Some n" "rk_extra_key (tn_key z) = e" "tn_value z = Some w"
    "path S e d us2 vs2 m" "ws = rk_units (tn_key z) @ us2" "xs = w @ vs2"
    using path_cons.prems(2) unfolding path_iff [of S e n ws] by blast
  note kz = node_key [OF ok 2(1) parent_not_root [OF ok 2(1,2)]]
  have pre: "prefix (rk_units (tn_key x) @ us) (rk_units (tn_key z) @ us2)" using path_cons.prems(3) 2(6) by simp
  then have "take ps (rk_units (tn_key x)) = take ps (rk_units (tn_key z))"
    by (rule prefix_take_eq) (use kx(1) kz(1) in simp_all)
  then have cd: "c = d"
    using child_unique [OF ok path_cons(1) 2(1) path_cons(2) 2(2)] path_cons(3) 2(3) by (simp add: first_page_def)
  then have z: "z = x" "w = v" using 2 path_cons by auto
  then obtain ws' xs' where "us2 = us @ ws'" "vs2 = vs @ xs'" "path S e p ws' xs' m"
    using path_cons.IH [of us2 vs2] 2(5) cd pre by auto
  then show ?case using path_cons.prems(1) 2(6,7) z by auto
qed

text \<open>Every node hangs below the root.\<close>

lemma path_to_node:
  assumes ok: "tree_ok ps bg rt S" and "S n = Some x"
  shows "\<exists>us vs. path S (rk_extra_key (tn_key x)) rt us vs n \<and> (n = rt \<longrightarrow> us = [])"
proof -
  obtain d :: "nat \<Rightarrow> nat" where d: "\<And>n x p. S n = Some x \<Longrightarrow> tn_parent x = Some p \<Longrightarrow> d p < d n"
    using tree_okD(5) [OF ok] by blast
  show ?thesis
    using assms(2)
  proof (induction "d n" arbitrary: n x rule: less_induct)
    case less
    show ?case
    proof (cases "n = rt")
      case True
      then show ?thesis by (auto intro: path_nil)
    next
      case False
      then obtain p y v where p: "tn_parent x = Some p" "S p = Some y" "tn_value x = Some v"
        "p \<noteq> rt \<longrightarrow> rk_extra_key (tn_key y) = rk_extra_key (tn_key x)"
        using tree_okD(3) [OF ok less.prems] by (auto simp: node_ok_def)
      have "\<exists>us vs. path S (rk_extra_key (tn_key x)) rt us vs p"
        using less.hyps [OF d [OF less.prems p(1)] p(2)] p(4) by (cases "p = rt") (auto intro: path_nil)
      then show ?thesis using path_snoc less.prems p(1,3) False by blast
    qed
  qed
qed

lemma path_target: "path S e n us vs m \<Longrightarrow> m = n \<or> (\<exists>x. S m = Some x \<and> rk_extra_key (tn_key x) = e)"
  by (induction rule: path.induct) auto

lemma path_ends_live: "path S e n us vs m \<Longrightarrow> S n \<noteq> None \<Longrightarrow> S m \<noteq> None"
  using path_target by fastforce

text \<open>The last step of a path.\<close>

lemma path_last:
  "path S e n us vs m \<Longrightarrow> us = [] \<and> vs = [] \<and> m = n \<or>
     (\<exists>p x v us0 vs0. path S e n us0 vs0 p \<and> S m = Some x \<and> tn_parent x = Some p \<and> rk_extra_key (tn_key x) = e \<and>
        tn_value x = Some v \<and> us = us0 @ rk_units (tn_key x) \<and> vs = vs0 @ v)"
proof (induction rule: path.induct)
  case (path_cons c x n v us vs m)
  then show ?case
  proof (elim disjE)
    assume "us = [] \<and> vs = [] \<and> m = c"
    then show ?thesis using path_cons path_nil [of S e n] by (metis append_Nil append_Nil2)
  next
    assume "\<exists>p x v us0 vs0. path S e c us0 vs0 p \<and> S m = Some x \<and> tn_parent x = Some p \<and> rk_extra_key (tn_key x) = e \<and>
        tn_value x = Some v \<and> us = us0 @ rk_units (tn_key x) \<and> vs = vs0 @ v"
    then show ?thesis using path.path_cons [of S c x n e v, OF path_cons(1-4)] by (metis append_assoc)
  qed
qed simp

text \<open>A path is decided by where it starts and where it ends.\<close>

lemma path_unique:
  assumes ok: "tree_ok ps bg rt S" "path S e rt us vs m" "path S e rt us' vs' m"
  shows "us = us' \<and> vs = vs'"
proof -
  obtain d :: "nat \<Rightarrow> nat" where d: "\<And>n x p. S n = Some x \<Longrightarrow> tn_parent x = Some p \<Longrightarrow> d p < d n"
    using tree_okD(5) [OF ok(1)] by blast
  show ?thesis using ok(2,3)
  proof (induction "d m" arbitrary: m us vs us' vs' rule: less_induct)
    case less
    show ?case
    proof (cases "m = rt")
      case True
      then have "us = [] \<and> vs = []" "us' = [] \<and> vs' = []"
        using path_last [OF less.prems(1)] path_last [OF less.prems(2)] parent_not_root [OF ok(1)] by metis+
      then show ?thesis by simp
    next
      case False
      obtain p x v us0 vs0 where 1: "path S e rt us0 vs0 p" "S m = Some x" "tn_parent x = Some p" "tn_value x = Some v"
        "us = us0 @ rk_units (tn_key x)" "vs = vs0 @ v"
        using path_last [OF less.prems(1)] False by blast
      moreover obtain us1 vs1 where "path S e rt us1 vs1 p" "us' = us1 @ rk_units (tn_key x)" "vs' = vs1 @ v"
        using path_last [OF less.prems(2)] False 1 by auto
      ultimately show ?thesis using less.hyps [OF d [OF 1(2,3)]] by auto
    qed
  qed
qed

text \<open>A path survives in another shape that has the nodes on its way.\<close>

lemma path_transfer:
  assumes "path S e n us vs n'" "n' \<noteq> m" and "\<And>d z. S d = Some z \<Longrightarrow> tn_parent z \<noteq> Some m"
    and same: "\<And>d z. S d = Some z \<Longrightarrow> d \<noteq> m \<Longrightarrow>
      \<exists>z'. S' d = Some z' \<and> tn_parent z' = tn_parent z \<and> tn_key z' = tn_key z \<and> tn_value z' = tn_value z"
  shows "path S' e n us vs n'"
  using assms(1,2)
proof (induction rule: path.induct)
  case (path_cons c x n v us vs n')
  have "c \<noteq> m" using path_cons(5) path_cons.prems assms(3) unfolding path_iff [of S e c] by auto
  then obtain z' where z': "S' c = Some z'" "tn_parent z' = Some n" "tn_key z' = tn_key x" "tn_value z' = Some v"
    using same [OF path_cons(1)] path_cons(2,4) by auto
  then show ?case using path.path_cons [of S', OF z'(1,2) _ z'(4) path_cons.IH [OF path_cons.prems]] path_cons(3) by simp
qed (rule path_nil)

text \<open>Below a node there is one namespace, and no way back.\<close>

lemma path_self: "tree_ok ps bg rt S \<Longrightarrow> path S e n us vs n \<Longrightarrow> us = [] \<and> vs = []"
proof -
  assume ok: "tree_ok ps bg rt S" and p: "path S e n us vs n"
  obtain d :: "nat \<Rightarrow> nat" where d: "\<And>n x p. S n = Some x \<Longrightarrow> tn_parent x = Some p \<Longrightarrow> d p < d n"
    using tree_okD(5) [OF ok] by blast
  have "m = n \<and> us = [] \<and> vs = [] \<or> d n < d m" if "path S e n us vs m" for n us vs m
    using that
  proof (induction rule: path.induct)
    case (path_cons c x n v us vs m)
    then show ?case using d [OF path_cons(1,2)] by auto
  qed simp
  from this [OF p] show ?thesis by simp
qed

lemma path_namespace:
  assumes ok: "tree_ok ps bg rt S"
  shows "path S e n us vs m \<Longrightarrow> S n = Some x \<Longrightarrow> n \<noteq> rt \<Longrightarrow> m = n \<or> e = rk_extra_key (tn_key x)"
proof (induction rule: path.induct)
  case (path_cons c z n v us vs m)
  have "node_ok ps bg rt S c z" by (rule node_ok_of_parent [OF ok path_cons(1,2)])
  then have "rk_extra_key (tn_key x) = rk_extra_key (tn_key z)"
    using path_cons(2) path_cons.prems unfolding node_ok_def by auto
  then show ?case using path_cons(3) by simp
qed simp

lemma path_into_root: "tree_ok ps bg rt S \<Longrightarrow> path S e n us vs rt \<Longrightarrow> n = rt \<and> us = [] \<and> vs = []"
  using path_last parent_not_root by metis

subsection \<open>What the tree stores\<close>

lemma stored_Nil: "0 < ps \<Longrightarrow> stored ps S rt e [] []"
  by (auto simp: stored_def intro: path_nil)

lemma stored_path: "tree_ok ps bg rt S \<Longrightarrow> path S e rt us vs m \<Longrightarrow> stored ps S rt e us vs"
  using path_lengths [of ps bg rt S e rt us vs m] by (auto simp: stored_def intro!: exI [of _ us] exI [of _ vs])

lemma storedE:
  assumes "stored ps S rt e us vs"
  obtains m ws xs where "ps dvd length us" "path S e rt ws xs m" "prefix us ws" "vs = take (length us) xs"
  using assms unfolding stored_def by blast

lemma storedI:
  "ps dvd length us \<Longrightarrow> path S e rt ws xs m \<Longrightarrow> prefix us ws \<Longrightarrow> vs = take (length us) xs \<Longrightarrow> stored ps S rt e us vs"
  unfolding stored_def by blast

lemma stored_prefix:
  assumes "stored ps S rt e us vs" "prefix ws us" "ps dvd length ws"
  shows "stored ps S rt e ws (take (length ws) vs)"
proof -
  obtain m ys xs where *: "path S e rt ys xs m" "prefix us ys" "vs = take (length us) xs" by (rule storedE [OF assms(1)])
  have "length ws \<le> length us" using assms(2) by (simp add: prefix_length_le)
  then show ?thesis
    by (intro storedI [OF assms(3) *(1) prefix_order.trans [OF assms(2) *(2)]]) (simp add: *(3) min_def)
qed

lemma stored_length:
  assumes "tree_ok ps bg rt S" "stored ps S rt e us vs"
  shows "length vs = length us"
proof -
  obtain m ys xs where *: "path S e rt ys xs m" "prefix us ys" "vs = take (length us) xs" by (rule storedE [OF assms(2)])
  then show ?thesis using path_lengths [OF assms(1) *(1)] prefix_length_le [OF *(2)] by simp
qed

text \<open>Where a path ends is decided by the children of its end.\<close>

lemma stored_beyond:
  assumes ok: "tree_ok ps bg rt S" and p: "path S e rt us vs p" and st: "stored ps S rt e (us @ ws) xs" and ws: "ws \<noteq> []"
  obtains c x v where "S c = Some x" "tn_parent x = Some p" "rk_extra_key (tn_key x) = e" "tn_value x = Some v"
    "take ps ws = take ps (rk_units (tn_key x))" "ps \<le> length ws"
    "prefix ws (rk_units (tn_key x)) \<or> prefix (rk_units (tn_key x)) ws"
proof -
  obtain m ys zs where *: "ps dvd length (us @ ws)" "path S e rt ys zs m" "prefix (us @ ws) ys" "xs = take (length (us @ ws)) zs"
    by (rule storedE [OF st])
  obtain ys' zs' where 1: "ys = us @ ys'" "zs = vs @ zs'" "path S e p ys' zs' m"
    using path_compare [OF ok p *(2)] *(3) by (metis append_prefixD)
  have pre: "prefix ws ys'" using *(3) 1(1) by simp
  then have "ys' \<noteq> []" using ws by auto
  then obtain c x v us2 vs2 where c: "S c = Some x" "tn_parent x = Some p" "rk_extra_key (tn_key x) = e" "tn_value x = Some v"
    "ys' = rk_units (tn_key x) @ us2"
    using 1(3) unfolding path_iff [of S e p ys'] by blast
  note k = node_key [OF ok c(1) parent_not_root [OF ok c(1,2)]]
  have pl: "length vs = length us" "ps dvd length us" using path_lengths [OF ok p] by simp_all
  then have "ps dvd length ws" using *(1) by (simp add: dvd_add_right_iff)
  then have l: "ps \<le> length ws" using ws by (simp add: dvd_imp_le)
  have "take ps ws = take ps (rk_units (tn_key x))"
    using prefix_take_eq [of ws "[]" "rk_units (tn_key x)" us2 ps] pre c(5) k(1) l by simp
  moreover have "prefix ws (rk_units (tn_key x)) \<or> prefix (rk_units (tn_key x)) ws"
    using prefix_same_cases [OF pre, of "rk_units (tn_key x)"] c(5) by simp
  ultimately show thesis by (rule that [OF c(1-4) _ l])
qed

lemma path_agree:
  assumes ok: "tree_ok ps bg rt S"
  shows "path S e n us1 vs1 m1 \<Longrightarrow> path S e n us2 vs2 m2 \<Longrightarrow> prefix us us1 \<Longrightarrow> prefix us us2 \<Longrightarrow> ps dvd length us \<Longrightarrow>
    take (length us) vs1 = take (length us) vs2"
proof (induction arbitrary: us us2 vs2 rule: path.induct)
  case (path_cons c x n v us1 vs1 m1)
  show ?case
  proof (cases "us = []")
    case False
    then have l: "ps \<le> length us" using path_cons.prems(4) by (simp add: dvd_imp_le)
    have "us2 \<noteq> []" using path_cons.prems(3) False by auto
    then obtain d z w us3 vs3 where 2: "S d = Some z" "tn_parent z = Some n" "rk_extra_key (tn_key z) = e" "tn_value z = Some w"
      "path S e d us3 vs3 m2" "us2 = rk_units (tn_key z) @ us3" "vs2 = w @ vs3"
      using path_cons.prems(1) unfolding path_iff [of S e n us2] by blast
    note kx = node_key [OF ok path_cons(1) parent_not_root [OF ok path_cons(1,2)]]
      and kz = node_key [OF ok 2(1) parent_not_root [OF ok 2(1,2)]]
    have "take ps us = take ps (rk_units (tn_key x))" "take ps us = take ps (rk_units (tn_key z))"
      using prefix_take_eq [of us "[]" "rk_units (tn_key x)" us1 ps] prefix_take_eq [of us "[]" "rk_units (tn_key z)" us3 ps]
        path_cons.prems(2,3) 2(6) l kx(1) kz(1) by simp_all
    then have "c = d"
      using child_unique [OF ok path_cons(1) 2(1) path_cons(2) 2(2)] path_cons(3) 2(3) by (simp add: first_page_def)
    then have z: "z = x" "w = v" "c = d" using 2 path_cons by auto
    have lv: "length v = rk_len (tn_key x)" using kx(4) path_cons(4) by simp
    show ?thesis
    proof (cases "length us \<le> rk_len (tn_key x)")
      case True
      then show ?thesis using 2(7) z lv by simp
    next
      case False
      then have "prefix (rk_units (tn_key x)) us"
        using path_cons.prems(2) by (metis length_rk_units nat_le_linear prefixI prefix_length_prefix)
      then obtain us' where us': "us = rk_units (tn_key x) @ us'" by (auto simp: prefix_def)
      have "ps dvd length us'" using path_cons.prems(4) kx(2) us' by (simp add: dvd_add_right_iff)
      then have "take (length us') vs1 = take (length us') vs3"
        using path_cons.IH [of us3 vs3 us'] 2(5,6) path_cons.prems(2,3) us' z by simp
      then show ?thesis using 2(7) z lv us' by simp
    qed
  qed simp
qed simp

lemma stored_functional:
  assumes ok: "tree_ok ps bg rt S" and "stored ps S rt e us vs" "stored ps S rt e us vs'"
  shows "vs = vs'"
  using assms(2,3) path_agree [OF ok] unfolding stored_def by metis

subsection \<open>Splitting a node\<close>

text \<open>The node \<open>m\<close> takes the first \<open>L\<close> units of \<open>c\<close> and its place below \<open>p\<close>.\<close>

definition is_split :: "nat \<Rightarrow> nat \<Rightarrow> nat \<Rightarrow> nat \<Rightarrow> nat \<Rightarrow> tree_node \<Rightarrow> int list \<Rightarrow> shape \<Rightarrow> shape \<Rightarrow> bool" where
  "is_split ps m c p L x v S S' =
     (\<exists>y ck ck2. S c = Some x \<and> tn_parent x = Some p \<and> S p = Some y \<and> S m = None \<and> tn_value x = Some v \<and>
        0 < L \<and> L < rk_len (tn_key x) \<and> ps dvd L \<and>
        child_key ps (tn_key x) = Inr ck \<and> child_key ps (rk_drop L (tn_key x)) = Inr ck2 \<and>
        S' = S(p \<mapsto> y\<lparr>tn_children := od_set ck m (tn_children y)\<rparr>,
               m \<mapsto> \<lparr>tn_children = [(ck2, c)], tn_parent = Some p, tn_key = rk_take L (tn_key x), tn_value = Some (take L v)\<rparr>,
               c \<mapsto> x\<lparr>tn_parent := Some m, tn_key := rk_drop L (tn_key x), tn_value := Some (drop L v)\<rparr>))"

lemma od_set_not_Nil [simp]: "od_set k v d \<noteq> []"
  by (induction d) (auto split: if_splits)

lemma parent_neq: "tree_ok ps bg rt S \<Longrightarrow> S c = Some x \<Longrightarrow> tn_parent x = Some p \<Longrightarrow> p \<noteq> c"
  using tree_okD(5) by blast

lemma child_key_take: "0 < ps \<Longrightarrow> ps \<le> n \<Longrightarrow> ps \<le> rk_len k \<Longrightarrow> child_key ps (rk_take n k) = child_key ps k"
  by (subst child_key_eq_iff) (simp_all add: first_page_slice)

lemma is_splitE:
  assumes ok: "tree_ok ps bg rt S" and sp: "is_split ps m c p L x v S S'"
  obtains y ck ck2 where
    "S c = Some x" "tn_parent x = Some p" "S p = Some y" "S m = None" "tn_value x = Some v" "0 < L" "L < rk_len (tn_key x)"
    "ps dvd L" "child_key ps (tn_key x) = Inr ck" "child_key ps (rk_drop L (tn_key x)) = Inr ck2"
    "S' = S(p \<mapsto> y\<lparr>tn_children := od_set ck m (tn_children y)\<rparr>,
       m \<mapsto> \<lparr>tn_children = [(ck2, c)], tn_parent = Some p, tn_key = rk_take L (tn_key x), tn_value = Some (take L v)\<rparr>,
       c \<mapsto> x\<lparr>tn_parent := Some m, tn_key := rk_drop L (tn_key x), tn_value := Some (drop L v)\<rparr>)"
    "p \<noteq> c" "m \<noteq> c" "m \<noteq> p" "c \<noteq> rt" "m \<noteq> rt"
    "od_get (tn_children y) ck = Some c" "child_key ps (rk_take L (tn_key x)) = Inr ck"
    "length v = rk_len (tn_key x)" "ps dvd rk_len (tn_key x)" "rk_is_bigram (tn_key x) = bg"
    "p \<noteq> rt \<longrightarrow> rk_extra_key (tn_key y) = rk_extra_key (tn_key x)"
proof -
  obtain y ck ck2 where a: "S c = Some x" "tn_parent x = Some p" "S p = Some y" "S m = None" "tn_value x = Some v"
    "0 < L" "L < rk_len (tn_key x)" "ps dvd L" "child_key ps (tn_key x) = Inr ck" "child_key ps (rk_drop L (tn_key x)) = Inr ck2"
    and S': "S' = S(p \<mapsto> y\<lparr>tn_children := od_set ck m (tn_children y)\<rparr>,
               m \<mapsto> \<lparr>tn_children = [(ck2, c)], tn_parent = Some p, tn_key = rk_take L (tn_key x), tn_value = Some (take L v)\<rparr>,
               c \<mapsto> x\<lparr>tn_parent := Some m, tn_key := rk_drop L (tn_key x), tn_value := Some (drop L v)\<rparr>)"
    using sp unfolding is_split_def by blast
  have ne: "p \<noteq> c" "m \<noteq> c" "m \<noteq> p" "m \<noteq> rt" and cr: "c \<noteq> rt"
    using parent_neq [OF ok a(1,2)] a tree_okD(2) [OF ok] by auto
  note k = node_key [OF ok a(1) cr]
  have "child_key ps (rk_take L (tn_key x)) = Inr ck"
    using child_key_take [OF tree_okD(1) [OF ok] _ k(1)] a(6,8,9) by (simp add: dvd_imp_le)
  moreover have "od_get (tn_children y) ck = Some c" "p \<noteq> rt \<longrightarrow> rk_extra_key (tn_key y) = rk_extra_key (tn_key x)"
    using tree_okD(3) [OF ok a(1) cr] a(2,3,9) by (auto simp: node_ok_def)
  ultimately show thesis using that [OF a S' ne(1-3) cr ne(4)] k a(5) by simp
qed

lemma no_link_to_dead:
  assumes ok: "tree_ok ps bg rt S" and "S m = None" "S n = Some z"
  shows "tn_parent z \<noteq> Some m" "od_get (tn_children z) q \<noteq> Some m"
proof -
  show "tn_parent z \<noteq> Some m"
    using node_ok_of_parent [OF ok assms(3)] assms(2) by (auto simp: node_ok_def)
  show "od_get (tn_children z) q \<noteq> Some m" using tree_okD(4) [OF ok assms(3), of q m] assms(2) by auto
qed

lemma split_nodes:
  assumes ok: "tree_ok ps bg rt S" and sp: "is_split ps m c p L x v S S'" and z: "S' n = Some z" "n \<noteq> rt"
  shows "node_ok ps bg rt S' n z"
proof -
  obtain y ck ck2 where a: "S c = Some x" "tn_parent x = Some p" "S p = Some y" "S m = None" "tn_value x = Some v"
    "0 < L" "L < rk_len (tn_key x)" "ps dvd L" "child_key ps (tn_key x) = Inr ck" "child_key ps (rk_drop L (tn_key x)) = Inr ck2"
    and S': "S' = S(p \<mapsto> y\<lparr>tn_children := od_set ck m (tn_children y)\<rparr>,
       m \<mapsto> \<lparr>tn_children = [(ck2, c)], tn_parent = Some p, tn_key = rk_take L (tn_key x), tn_value = Some (take L v)\<rparr>,
       c \<mapsto> x\<lparr>tn_parent := Some m, tn_key := rk_drop L (tn_key x), tn_value := Some (drop L v)\<rparr>)"
    and ne: "p \<noteq> c" "m \<noteq> c" "m \<noteq> p" "c \<noteq> rt" "m \<noteq> rt"
    and f: "od_get (tn_children y) ck = Some c" "child_key ps (rk_take L (tn_key x)) = Inr ck"
    "length v = rk_len (tn_key x)" "ps dvd rk_len (tn_key x)" "rk_is_bigram (tn_key x) = bg"
    "p \<noteq> rt \<longrightarrow> rk_extra_key (tn_key y) = rk_extra_key (tn_key x)"
    by (rule is_splitE [OF ok sp])
  consider "n = m" | "n = c" | "n \<noteq> m" "n \<noteq> c" by blast
  then show ?thesis
  proof cases
    case 1
    then have "z = \<lparr>tn_children = [(ck2, c)], tn_parent = Some p, tn_key = rk_take L (tn_key x), tn_value = Some (take L v)\<rparr>"
      using z ne by (simp add: S')
    then show ?thesis using 1 ne a(6-8) f by (simp add: node_ok_def S')
  next
    case 2
    then have "z = x\<lparr>tn_parent := Some m, tn_key := rk_drop L (tn_key x), tn_value := Some (drop L v)\<rparr>"
      using z ne by (simp add: S')
    then show ?thesis using 2 ne a(6-10) f by (simp add: node_ok_def S' dvd_diff_nat)
  next
    case 3
    then obtain z0 where z0: "S n = Some z0" "tn_parent z = tn_parent z0" "tn_key z = tn_key z0" "tn_value z = tn_value z0"
      using z a(3) by (auto simp: S' split: if_splits)
    then obtain q y0 w ck0 where q: "tn_parent z0 = Some q" "S q = Some y0" "child_key ps (tn_key z0) = Inr ck0"
      "od_get (tn_children y0) ck0 = Some n" "tn_value z0 = Some w" "length w = rk_len (tn_key z0)"
      "0 < rk_len (tn_key z0)" "ps dvd rk_len (tn_key z0)" "rk_is_bigram (tn_key z0) = bg"
      "q \<noteq> rt \<longrightarrow> rk_extra_key (tn_key y0) = rk_extra_key (tn_key z0)"
      using tree_okD(3) [OF ok z0(1) z(2)] unfolding node_ok_def by blast
    have "q = p \<Longrightarrow> ck0 \<noteq> ck" using q(2,4) a(3) f(1) 3 by auto
    moreover have "q \<noteq> m" using q(2) a(4) by auto
    ultimately show ?thesis using q z0 ne a(1,3) by (auto simp: node_ok_def S')
  qed
qed

lemma split_kids:
  assumes ok: "tree_ok ps bg rt S" and sp: "is_split ps m c p L x v S S'"
    and q: "S' q = Some w" "od_get (tn_children w) ckq = Some n"
  shows "\<exists>z. S' n = Some z \<and> n \<noteq> rt \<and> tn_parent z = Some q \<and> child_key ps (tn_key z) = Inr ckq"
proof -
  obtain y ck ck2 where a: "S c = Some x" "tn_parent x = Some p" "S p = Some y" "S m = None" "tn_value x = Some v"
    "0 < L" "L < rk_len (tn_key x)" "ps dvd L" "child_key ps (tn_key x) = Inr ck" "child_key ps (rk_drop L (tn_key x)) = Inr ck2"
    and S': "S' = S(p \<mapsto> y\<lparr>tn_children := od_set ck m (tn_children y)\<rparr>,
       m \<mapsto> \<lparr>tn_children = [(ck2, c)], tn_parent = Some p, tn_key = rk_take L (tn_key x), tn_value = Some (take L v)\<rparr>,
       c \<mapsto> x\<lparr>tn_parent := Some m, tn_key := rk_drop L (tn_key x), tn_value := Some (drop L v)\<rparr>)"
    and ne: "p \<noteq> c" "m \<noteq> c" "m \<noteq> p" "c \<noteq> rt" "m \<noteq> rt"
    and f: "od_get (tn_children y) ck = Some c" "child_key ps (rk_take L (tn_key x)) = Inr ck" "length v = rk_len (tn_key x)"
    by (rule is_splitE [OF ok sp])
  show ?thesis
  proof (cases "q = m \<or> (q = p \<and> ckq = ck)")
    case True
    then show ?thesis using q ne a f(2) by (auto simp: S' split: if_splits)
  next
    case False
    then obtain w0 where w0: "S q = Some w0" "od_get (tn_children w0) ckq = Some n"
      using q a(1,3) ne by (auto simp: S' split: if_splits)
    obtain z where z: "S n = Some z" "n \<noteq> rt" "tn_parent z = Some q" "child_key ps (tn_key z) = Inr ckq"
      using tree_okD(4) [OF ok w0] by blast
    have "n \<noteq> c" using z(1,3,4) a(1,2,9) False by auto
    moreover have "n \<noteq> m" using z(1) a(4) by auto
    ultimately show ?thesis using z a(3) by (auto simp: S')
  qed
qed

lemma split_tree_ok:
  assumes ok: "tree_ok ps bg rt S" and sp: "is_split ps m c p L x v S S'"
  shows "tree_ok ps bg rt S'"
proof -
  obtain y ck ck2 where a: "S c = Some x" "tn_parent x = Some p" "S p = Some y" "S m = None" "tn_value x = Some v"
    "0 < L" "L < rk_len (tn_key x)" "ps dvd L" "child_key ps (tn_key x) = Inr ck" "child_key ps (rk_drop L (tn_key x)) = Inr ck2"
    and S': "S' = S(p \<mapsto> y\<lparr>tn_children := od_set ck m (tn_children y)\<rparr>,
       m \<mapsto> \<lparr>tn_children = [(ck2, c)], tn_parent = Some p, tn_key = rk_take L (tn_key x), tn_value = Some (take L v)\<rparr>,
       c \<mapsto> x\<lparr>tn_parent := Some m, tn_key := rk_drop L (tn_key x), tn_value := Some (drop L v)\<rparr>)"
    and ne: "p \<noteq> c" "m \<noteq> c" "m \<noteq> p" "c \<noteq> rt" "m \<noteq> rt"
    and f: "od_get (tn_children y) ck = Some c" "child_key ps (rk_take L (tn_key x)) = Inr ck" "length v = rk_len (tn_key x)"
    by (rule is_splitE [OF ok sp])
  obtain d :: "nat \<Rightarrow> nat" where d: "\<And>n x p. S n = Some x \<Longrightarrow> tn_parent x = Some p \<Longrightarrow> d p < d n"
    using tree_okD(5) [OF ok] by blast
  let ?d = "\<lambda>n. if n = m then 2 * d c - 1 else 2 * d n"
  have "?d q < ?d n" if z: "S' n = Some z" "tn_parent z = Some q" for n z q
  proof (cases "n = m \<or> n = c")
    case True
    then show ?thesis using z d [OF a(1,2)] ne by (auto simp: S')
  next
    case False
    then obtain z0 where "S n = Some z0" "tn_parent z0 = Some q" using z a(3) by (auto simp: S' split: if_splits)
    then have "d q < d n" "q \<noteq> m" using d no_link_to_dead(1) [OF ok a(4)] by blast+
    then show ?thesis using False by simp
  qed
  then have dd: "\<exists>d :: nat \<Rightarrow> nat. \<forall>n x p. S' n = Some x \<longrightarrow> tn_parent x = Some p \<longrightarrow> d p < d n" by (intro exI [of _ ?d]) blast
  have r: "\<exists>r. S' rt = Some r \<and> tn_parent r = None \<and> tn_value r = Some []"
    using tree_okD(2) [OF ok] ne a(3) by (auto simp: S')
  have "od_ok (tn_children w)" if "S' q = Some w" for q w
    using that tree_okD(6) [OF ok a(1)] tree_okD(6) [OF ok a(3)] tree_okD(6) [OF ok] ne
    by (auto simp: S' od_ok_def od_keys_set split: if_splits)
  then show ?thesis
    unfolding tree_ok_def using tree_okD(1) [OF ok] r split_nodes [OF ok sp] split_kids [OF ok sp] dd by blast
qed

text \<open>Paths between old nodes are the same.\<close>

lemma path_join_edges:
  assumes "S m = Some y" "tn_parent y = Some p" "rk_extra_key (tn_key y) = e" "tn_value y = Some v"
    and "S c = Some x" "tn_parent x = Some m" "rk_extra_key (tn_key x) = e" "tn_value x = Some w"
  shows "path S e p (rk_units (tn_key y) @ rk_units (tn_key x)) (v @ w) c"
  by (rule path_append [OF path_edge [of S, OF assms(1-4)] path_edge [of S, OF assms(5-8)]])

lemma split_path_forward:
  assumes ok: "tree_ok ps bg rt S" and sp: "is_split ps m c p L x v S S'" and "path S e n us vs n'"
  shows "path S' e n us vs n'"
proof -
  obtain y ck ck2 where a: "S c = Some x" "tn_parent x = Some p" "S p = Some y" "S m = None" "tn_value x = Some v"
    "0 < L" "L < rk_len (tn_key x)" "ps dvd L" "child_key ps (tn_key x) = Inr ck" "child_key ps (rk_drop L (tn_key x)) = Inr ck2"
    and S': "S' = S(p \<mapsto> y\<lparr>tn_children := od_set ck m (tn_children y)\<rparr>,
       m \<mapsto> \<lparr>tn_children = [(ck2, c)], tn_parent = Some p, tn_key = rk_take L (tn_key x), tn_value = Some (take L v)\<rparr>,
       c \<mapsto> x\<lparr>tn_parent := Some m, tn_key := rk_drop L (tn_key x), tn_value := Some (drop L v)\<rparr>)"
    and ne: "p \<noteq> c" "m \<noteq> c" "m \<noteq> p" "c \<noteq> rt" "m \<noteq> rt"
    and f: "od_get (tn_children y) ck = Some c" "child_key ps (rk_take L (tn_key x)) = Inr ck" "length v = rk_len (tn_key x)"
    by (rule is_splitE [OF ok sp])
  show ?thesis using assms(3)
  proof (induction rule: path.induct)
    case (path_cons d z n w us vs n')
    show ?case
    proof (cases "d = c")
      case True
      then have z: "z = x" "n = p" "w = v" using path_cons(1,2,4) a by simp_all
      have "path S' e p (take L (rk_units (tn_key x)) @ drop L (rk_units (tn_key x))) (take L v @ drop L v) c"
        using path_join_edges [of S' m "\<lparr>tn_children = [(ck2, c)], tn_parent = Some p, tn_key = rk_take L (tn_key x), tn_value = Some (take L v)\<rparr>" p e
            "take L v" c "x\<lparr>tn_parent := Some m, tn_key := rk_drop L (tn_key x), tn_value := Some (drop L v)\<rparr>" "drop L v"]
          path_cons(3) z ne by (simp add: S')
      then show ?thesis using path_append path_cons.IH z True by fastforce
    next
      case False
      moreover have "d \<noteq> m" using path_cons(1) a(4) by auto
      ultimately obtain z' where z': "S' d = Some z'" "tn_parent z' = Some n" "tn_key z' = tn_key z" "tn_value z' = Some w"
        using path_cons(1,2,4) a(3) by (cases "d = p") (auto simp: S')
      show ?thesis using path.path_cons [of S', OF z'(1,2) _ z'(4) path_cons.IH] z'(3) path_cons(3) by simp
    qed
  qed (rule path_nil)
qed

lemma split_path_backward:
  assumes ok: "tree_ok ps bg rt S" and sp: "is_split ps m c p L x v S S'" and "path S' e n us vs n'" "n' \<noteq> m"
  shows "if n = m then e = rk_extra_key (tn_key x) \<and>
      (\<exists>us' vs'. us = drop L (rk_units (tn_key x)) @ us' \<and> vs = drop L v @ vs' \<and> path S e c us' vs' n')
    else path S e n us vs n'"
proof -
  obtain y ck ck2 where a: "S c = Some x" "tn_parent x = Some p" "S p = Some y" "S m = None" "tn_value x = Some v"
    "0 < L" "L < rk_len (tn_key x)" "ps dvd L" "child_key ps (tn_key x) = Inr ck" "child_key ps (rk_drop L (tn_key x)) = Inr ck2"
    and S': "S' = S(p \<mapsto> y\<lparr>tn_children := od_set ck m (tn_children y)\<rparr>,
       m \<mapsto> \<lparr>tn_children = [(ck2, c)], tn_parent = Some p, tn_key = rk_take L (tn_key x), tn_value = Some (take L v)\<rparr>,
       c \<mapsto> x\<lparr>tn_parent := Some m, tn_key := rk_drop L (tn_key x), tn_value := Some (drop L v)\<rparr>)"
    and ne: "p \<noteq> c" "m \<noteq> c" "m \<noteq> p" "c \<noteq> rt" "m \<noteq> rt"
    and f: "od_get (tn_children y) ck = Some c" "child_key ps (rk_take L (tn_key x)) = Inr ck" "length v = rk_len (tn_key x)"
    by (rule is_splitE [OF ok sp])
  show ?thesis using assms(3,4)
  proof (induction rule: path.induct)
    case (path_cons d z n w us vs n')
    consider "d = m" | "d = c" | "d \<noteq> m" "d \<noteq> c" by blast
    then show ?case
    proof cases
      case 1
      then have z: "z = \<lparr>tn_children = [(ck2, c)], tn_parent = Some p, tn_key = rk_take L (tn_key x), tn_value = Some (take L v)\<rparr>"
        using path_cons(1) ne by (simp add: S')
      then have n: "n = p" "w = take L v" using path_cons(2,4) by simp_all
      obtain us' vs' where u: "e = rk_extra_key (tn_key x)" "us = drop L (rk_units (tn_key x)) @ us'" "vs = drop L v @ vs'"
        "path S e c us' vs' n'"
        using path_cons.IH path_cons.prems 1 by auto
      show ?thesis
        using path.path_cons [of S, OF a(1,2) _ a(5) u(4)] u z n ne by (simp flip: append_assoc)
    next
      case 2
      then have z: "z = x\<lparr>tn_parent := Some m, tn_key := rk_drop L (tn_key x), tn_value := Some (drop L v)\<rparr>"
        using path_cons(1) ne by (simp add: S')
      then show ?thesis using path_cons 2 ne by auto
    next
      case 3
      then obtain z0 where z0: "S d = Some z0" "tn_parent z0 = Some n" "tn_key z0 = tn_key z" "tn_value z0 = Some w"
        using path_cons(1,2,4) a(3) by (auto simp: S' split: if_splits)
      have "n \<noteq> m" using no_link_to_dead(1) [OF ok a(4) z0(1)] z0(2) by auto
      moreover have "path S e d us vs n'" using path_cons.IH path_cons.prems 3 by simp
      ultimately show ?thesis using path.path_cons [of S, OF z0(1,2) _ z0(4)] z0(3) path_cons(3) by simp
    qed
  qed (simp add: path_nil)
qed

lemma split_path:
  assumes ok: "tree_ok ps bg rt S" and sp: "is_split ps m c p L x v S S'" and "n \<noteq> m" "n' \<noteq> m"
  shows "path S' e n us vs n' \<longleftrightarrow> path S e n us vs n'"
  using split_path_forward [OF ok sp] split_path_backward [OF ok sp _ assms(4), of e n us vs] assms(3) by auto

lemma split_edge:
  assumes ok: "tree_ok ps bg rt S" and sp: "is_split ps m c p L x v S S'"
  shows "path S' (rk_extra_key (tn_key x)) p (take L (rk_units (tn_key x))) (take L v) m"
proof -
  obtain y ck ck2 where "S' = S(p \<mapsto> y\<lparr>tn_children := od_set ck m (tn_children y)\<rparr>,
       m \<mapsto> \<lparr>tn_children = [(ck2, c)], tn_parent = Some p, tn_key = rk_take L (tn_key x), tn_value = Some (take L v)\<rparr>,
       c \<mapsto> x\<lparr>tn_parent := Some m, tn_key := rk_drop L (tn_key x), tn_value := Some (drop L v)\<rparr>)" "m \<noteq> c"
    by (rule is_splitE [OF ok sp])
  then show ?thesis
    using path_edge [of S' m "\<lparr>tn_children = [(ck2, c)], tn_parent = Some p, tn_key = rk_take L (tn_key x), tn_value = Some (take L v)\<rparr>"
        p "rk_extra_key (tn_key x)" "take L v"] by simp
qed

text \<open>What is stored does not change.\<close>

lemma split_stored:
  assumes ok: "tree_ok ps bg rt S" and sp: "is_split ps m c p L x v S S'"
  shows "stored ps S' rt e us vs \<longleftrightarrow> stored ps S rt e us vs"
proof
  obtain y where a: "S c = Some x" "tn_parent x = Some p" "S m = None" "tn_value x = Some v" "m \<noteq> rt"
    "length v = rk_len (tn_key x)" "m \<noteq> c" "m \<noteq> p" by (rule is_splitE [OF ok sp])
  assume "stored ps S' rt e us vs"
  then obtain n ws xs where *: "ps dvd length us" "path S' e rt ws xs n" "prefix us ws" "vs = take (length us) xs" by (rule storedE)
  show "stored ps S rt e us vs"
  proof (cases "n = m")
    case False
    then show ?thesis using * split_path [OF ok sp, of rt n] a(5) storedI by blast
  next
    case True
    then obtain q z w ws0 xs0 where l: "path S' e rt ws0 xs0 q" "S' m = Some z" "tn_parent z = Some q" "rk_extra_key (tn_key z) = e"
      "tn_value z = Some w" "ws = ws0 @ rk_units (tn_key z)" "xs = xs0 @ w"
      using path_last [OF *(2)] a(5) by blast
    have z: "q = p" "tn_key z = rk_take L (tn_key x)" "w = take L v"
      using l(2,3,5) sp a(7,8) by (auto simp: is_split_def)
    then have "path S e rt ws0 xs0 p" using l(1) split_path [OF ok sp, of rt p] a by simp
    then have "path S e rt (ws0 @ rk_units (tn_key x)) (xs0 @ v) c"
      using path_snoc [of S e rt ws0 xs0 p c x v] a l(4) z(2) by simp
    moreover have "prefix us (ws0 @ rk_units (tn_key x))"
      using *(3) l(6) z(2) by (metis append_take_drop_id prefixI prefix_order.trans rk_take_simps(3) same_prefix_prefix)
    moreover have "length us \<le> length xs"
      using prefix_length_le [OF *(3)] path_lengths [OF split_tree_ok [OF ok sp] *(2)] by simp
    then have "vs = take (length us) (xs0 @ v)" using *(4) l(7) z(3) by (auto simp: min_def split: if_splits)
    ultimately show ?thesis using *(1) storedI by blast
  qed
qed (use split_path_forward [OF ok sp] in \<open>unfold stored_def, blast\<close>)

subsection \<open>Adding a leaf\<close>

definition is_new_leaf :: "nat \<Rightarrow> bool \<Rightarrow> nat \<Rightarrow> nat \<Rightarrow> nat \<Rightarrow> radix_key \<Rightarrow> int list \<Rightarrow> shape \<Rightarrow> shape \<Rightarrow> bool" where
  "is_new_leaf ps bg rt m p k v S S' =
     (\<exists>y ck. S p = Some y \<and> S m = None \<and> child_key ps k = Inr ck \<and> od_get (tn_children y) ck = None \<and>
        0 < rk_len k \<and> ps dvd rk_len k \<and> rk_is_bigram k = bg \<and> length v = rk_len k \<and>
        (p \<noteq> rt \<longrightarrow> rk_extra_key (tn_key y) = rk_extra_key k) \<and>
        S' = S(p \<mapsto> y\<lparr>tn_children := od_set ck m (tn_children y)\<rparr>,
               m \<mapsto> \<lparr>tn_children = [], tn_parent = Some p, tn_key = k, tn_value = Some v\<rparr>))"

lemma new_leaf_nodes:
  assumes ok: "tree_ok ps bg rt S" and nl: "is_new_leaf ps bg rt m p k v S S'" and z: "S' n = Some z" "n \<noteq> rt"
  shows "node_ok ps bg rt S' n z"
proof -
  obtain y ck where a: "S p = Some y" "S m = None" "child_key ps k = Inr ck" "od_get (tn_children y) ck = None"
    "0 < rk_len k" "ps dvd rk_len k" "rk_is_bigram k = bg" "length v = rk_len k"
    "p \<noteq> rt \<longrightarrow> rk_extra_key (tn_key y) = rk_extra_key k"
    and S': "S' = S(p \<mapsto> y\<lparr>tn_children := od_set ck m (tn_children y)\<rparr>,
               m \<mapsto> \<lparr>tn_children = [], tn_parent = Some p, tn_key = k, tn_value = Some v\<rparr>)"
    using nl unfolding is_new_leaf_def by blast
  have mp: "m \<noteq> p" using a(1,2) by auto
  show ?thesis
  proof (cases "n = m")
    case True
    then have "z = \<lparr>tn_children = [], tn_parent = Some p, tn_key = k, tn_value = Some v\<rparr>" using z by (simp add: S')
    then show ?thesis using True a mp by (simp add: node_ok_def S')
  next
    case False
    then obtain z0 where z0: "S n = Some z0" "tn_parent z = tn_parent z0" "tn_key z = tn_key z0" "tn_value z = tn_value z0"
      using z a(1) by (auto simp: S' split: if_splits)
    then obtain q y0 w ck0 where q: "tn_parent z0 = Some q" "S q = Some y0" "child_key ps (tn_key z0) = Inr ck0"
      "od_get (tn_children y0) ck0 = Some n" "tn_value z0 = Some w" "length w = rk_len (tn_key z0)"
      "0 < rk_len (tn_key z0)" "ps dvd rk_len (tn_key z0)" "rk_is_bigram (tn_key z0) = bg"
      "q \<noteq> rt \<longrightarrow> rk_extra_key (tn_key y0) = rk_extra_key (tn_key z0)"
      using tree_okD(3) [OF ok z0(1) z(2)] unfolding node_ok_def by blast
    have "q = p \<Longrightarrow> ck0 \<noteq> ck" using q(2,4) a(1,4) by auto
    moreover have "q \<noteq> m" using q(2) a(2) by auto
    ultimately show ?thesis using q z0 a(1) by (auto simp: node_ok_def S')
  qed
qed

lemma new_leaf_tree_ok:
  assumes ok: "tree_ok ps bg rt S" and nl: "is_new_leaf ps bg rt m p k v S S'"
  shows "tree_ok ps bg rt S'"
proof -
  obtain y ck where a: "S p = Some y" "S m = None" "child_key ps k = Inr ck"
    and S': "S' = S(p \<mapsto> y\<lparr>tn_children := od_set ck m (tn_children y)\<rparr>,
               m \<mapsto> \<lparr>tn_children = [], tn_parent = Some p, tn_key = k, tn_value = Some v\<rparr>)"
    using nl unfolding is_new_leaf_def by blast
  have ne: "m \<noteq> p" "m \<noteq> rt" using a tree_okD(2) [OF ok] by auto
  have kids: "\<exists>z. S' n = Some z \<and> n \<noteq> rt \<and> tn_parent z = Some q \<and> child_key ps (tn_key z) = Inr ckq"
    if q: "S' q = Some w" "od_get (tn_children w) ckq = Some n" for q w ckq n
  proof (cases "q = p \<and> ckq = ck")
    case True
    then show ?thesis using q ne a(3) by (auto simp: S' split: if_splits)
  next
    case False
    then obtain w0 where w0: "S q = Some w0" "od_get (tn_children w0) ckq = Some n"
      using q a(1) ne by (auto simp: S' split: if_splits)
    then obtain z where z: "S n = Some z" "n \<noteq> rt" "tn_parent z = Some q" "child_key ps (tn_key z) = Inr ckq"
      using tree_okD(4) [OF ok] by blast
    then show ?thesis using a(1,2) by (auto simp: S')
  qed
  obtain d :: "nat \<Rightarrow> nat" where d: "\<And>n x p. S n = Some x \<Longrightarrow> tn_parent x = Some p \<Longrightarrow> d p < d n"
    using tree_okD(5) [OF ok] by blast
  have "(d(m := Suc (d p))) q < (d(m := Suc (d p))) n" if z: "S' n = Some z" "tn_parent z = Some q" for n z q
  proof (cases "n = m")
    case True
    then show ?thesis using z ne by (auto simp: S')
  next
    case False
    then obtain z0 where "S n = Some z0" "tn_parent z0 = Some q" using z a(1) by (auto simp: S' split: if_splits)
    then have "d q < d n" "q \<noteq> m" using d no_link_to_dead(1) [OF ok a(2)] by blast+
    then show ?thesis using False by simp
  qed
  then have dd: "\<exists>d :: nat \<Rightarrow> nat. \<forall>n x p. S' n = Some x \<longrightarrow> tn_parent x = Some p \<longrightarrow> d p < d n" by (intro exI [of _ "d(m := Suc (d p))"]) blast
  have r: "\<exists>r. S' rt = Some r \<and> tn_parent r = None \<and> tn_value r = Some []"
    using tree_okD(2) [OF ok] ne a(1) by (auto simp: S')
  have "od_ok (tn_children w)" if "S' q = Some w" for q w
    using that tree_okD(6) [OF ok a(1)] tree_okD(6) [OF ok] ne by (auto simp: S' split: if_splits)
  then show ?thesis
    unfolding tree_ok_def using tree_okD(1) [OF ok] r new_leaf_nodes [OF ok nl] kids dd by blast
qed

lemma new_leaf_path:
  assumes ok: "tree_ok ps bg rt S" and nl: "is_new_leaf ps bg rt m p k v S S'" and "n' \<noteq> m"
  shows "path S' e n us vs n' \<longleftrightarrow> path S e n us vs n'"
proof -
  obtain y ck where a: "S p = Some y" "S m = None"
    and S': "S' = S(p \<mapsto> y\<lparr>tn_children := od_set ck m (tn_children y)\<rparr>,
               m \<mapsto> \<lparr>tn_children = [], tn_parent = Some p, tn_key = k, tn_value = Some v\<rparr>)"
    using nl unfolding is_new_leaf_def by blast
  have "tn_parent z \<noteq> Some m" if "S' d = Some z" for d z
    using that no_link_to_dead(1) [OF ok a(2)] a by (auto simp: S' split: if_splits)
  moreover have "\<exists>z'. S d = Some z' \<and> tn_parent z' = tn_parent z \<and> tn_key z' = tn_key z \<and> tn_value z' = tn_value z"
    if "S' d = Some z" "d \<noteq> m" for d z using that a(1) by (auto simp: S' split: if_splits)
  moreover have "\<exists>z'. S' d = Some z' \<and> tn_parent z' = tn_parent z \<and> tn_key z' = tn_key z \<and> tn_value z' = tn_value z"
    if "S d = Some z" "d \<noteq> m" for d z using that a(1) by (auto simp: S')
  ultimately show ?thesis using path_transfer [of S e n us vs n' m S'] path_transfer [of S' e n us vs n' m S]
      no_link_to_dead(1) [OF ok a(2)] assms(3) by blast
qed

lemma new_leaf_edge:
  "is_new_leaf ps bg rt m p k v S S' \<Longrightarrow> path S' (rk_extra_key k) p (rk_units k) v m"
  using path_edge [of S' m "\<lparr>tn_children = [], tn_parent = Some p, tn_key = k, tn_value = Some v\<rparr>" p "rk_extra_key k" v]
  by (auto simp: is_new_leaf_def)

lemma new_leaf_stored:
  assumes ok: "tree_ok ps bg rt S" and nl: "is_new_leaf ps bg rt m p k v S S'"
    and p: "path S (rk_extra_key k) rt us0 vs0 p"
  shows "stored ps S' rt e us vs \<longleftrightarrow> stored ps S rt e us vs \<or>
    e = rk_extra_key k \<and> ps dvd length us \<and> prefix us (us0 @ rk_units k) \<and> vs = take (length us) (vs0 @ v)"
proof -
  have mr: "m \<noteq> rt" "m \<noteq> p" using nl tree_okD(2) [OF ok] by (auto simp: is_new_leaf_def)
  note new = path_append [OF p [folded new_leaf_path [OF ok nl mr(2) [symmetric]]] new_leaf_edge [OF nl]]
  have ends: "e = rk_extra_key k \<and> ws = us0 @ rk_units k \<and> xs = vs0 @ v" if w: "path S' e rt ws xs m" for ws xs
  proof -
    obtain z q w ws0 xs0 where l: "path S' e rt ws0 xs0 q" "S' m = Some z" "tn_parent z = Some q" "rk_extra_key (tn_key z) = e"
      "tn_value z = Some w" "ws = ws0 @ rk_units (tn_key z)" "xs = xs0 @ w"
      using path_last [OF w] mr(1) by blast
    then have z: "q = p" "tn_key z = k" "w = v" using nl by (auto simp: is_new_leaf_def)
    then have "path S e rt ws0 xs0 p" using l(1) new_leaf_path [OF ok nl] mr by simp
    then show ?thesis using l z path_unique [OF ok _ p] by auto
  qed
  show ?thesis
  proof
    assume "stored ps S' rt e us vs"
    then obtain n ws xs where *: "ps dvd length us" "path S' e rt ws xs n" "prefix us ws" "vs = take (length us) xs" by (rule storedE)
    show "stored ps S rt e us vs \<or>
      e = rk_extra_key k \<and> ps dvd length us \<and> prefix us (us0 @ rk_units k) \<and> vs = take (length us) (vs0 @ v)"
    proof (cases "n = m")
      case True
      then show ?thesis using ends * by auto
    next
      case False
      then show ?thesis using * new_leaf_path [OF ok nl] storedI by blast
    qed
  next
    assume "stored ps S rt e us vs \<or>
      e = rk_extra_key k \<and> ps dvd length us \<and> prefix us (us0 @ rk_units k) \<and> vs = take (length us) (vs0 @ v)"
    then show "stored ps S' rt e us vs"
    proof
      assume "stored ps S rt e us vs"
      then obtain n ws xs where *: "ps dvd length us" "path S e rt ws xs n" "prefix us ws" "vs = take (length us) xs" by (rule storedE)
      have "S n \<noteq> None" using path_ends_live [OF *(2)] tree_okD(2) [OF ok] by auto
      then have "n \<noteq> m" using nl by (auto simp: is_new_leaf_def)
      then show ?thesis using * new_leaf_path [OF ok nl] storedI by blast
    qed (use new storedI in blast)
  qed
qed

subsection \<open>Deleting a leaf\<close>

definition is_del_leaf :: "nat \<Rightarrow> nat \<Rightarrow> nat \<Rightarrow> shape \<Rightarrow> shape \<Rightarrow> bool" where
  "is_del_leaf ps m p S S' =
     (\<exists>x y ck. S m = Some x \<and> tn_children x = [] \<and> tn_parent x = Some p \<and> S p = Some y \<and>
        child_key ps (tn_key x) = Inr ck \<and>
        S' = (S(p \<mapsto> y\<lparr>tn_children := od_del ck (tn_children y)\<rparr>))(m := None))"

lemma leaf_no_child:
  assumes ok: "tree_ok ps bg rt S" and "S m = Some x" "tn_children x = []" "S d = Some z"
  shows "tn_parent z \<noteq> Some m"
  using node_ok_of_parent [OF ok assms(4)] assms(2,3) by (auto simp: node_ok_def)

lemma del_leaf_tree_ok:
  assumes ok: "tree_ok ps bg rt S" and dl: "is_del_leaf ps m p S S'"
  shows "tree_ok ps bg rt S'"
proof -
  obtain x y ck where a: "S m = Some x" "tn_children x = []" "tn_parent x = Some p" "S p = Some y" "child_key ps (tn_key x) = Inr ck"
    and S': "S' = (S(p \<mapsto> y\<lparr>tn_children := od_del ck (tn_children y)\<rparr>))(m := None)"
    using dl unfolding is_del_leaf_def by blast
  have ne: "p \<noteq> m" "m \<noteq> rt" using parent_neq [OF ok a(1,3)] parent_not_root [OF ok a(1,3)] by auto
  note leaf = leaf_no_child [OF ok a(1,2)]
  have ckm: "od_get (tn_children y) ck = Some m" using tree_okD(3) [OF ok a(1) ne(2)] a by (auto simp: node_ok_def)
  have nodes: "node_ok ps bg rt S' n z" if z: "S' n = Some z" "n \<noteq> rt" for n z
  proof -
    obtain z0 where z0: "S n = Some z0" "tn_parent z = tn_parent z0" "tn_key z = tn_key z0" "tn_value z = tn_value z0" "n \<noteq> m"
      using z a(4) by (auto simp: S' split: if_splits)
    then obtain q y0 w ck0 where q: "tn_parent z0 = Some q" "S q = Some y0" "child_key ps (tn_key z0) = Inr ck0"
      "od_get (tn_children y0) ck0 = Some n" "tn_value z0 = Some w" "length w = rk_len (tn_key z0)"
      "0 < rk_len (tn_key z0)" "ps dvd rk_len (tn_key z0)" "rk_is_bigram (tn_key z0) = bg"
      "q \<noteq> rt \<longrightarrow> rk_extra_key (tn_key y0) = rk_extra_key (tn_key z0)"
      using tree_okD(3) [OF ok z0(1) z(2)] unfolding node_ok_def by blast
    have "q = p \<Longrightarrow> ck0 \<noteq> ck" using q(2,4) a(4) ckm z0(5) by auto
    moreover have "q \<noteq> m" using leaf [OF z0(1)] q(1) by auto
    ultimately show ?thesis using q z0 a(4) by (auto simp: node_ok_def S')
  qed
  have kids: "\<exists>z. S' n = Some z \<and> n \<noteq> rt \<and> tn_parent z = Some q \<and> child_key ps (tn_key z) = Inr ckq"
    if q: "S' q = Some w" "od_get (tn_children w) ckq = Some n" for q w ckq n
  proof -
    obtain w0 where w0: "S q = Some w0" "od_get (tn_children w0) ckq = Some n" "q = p \<longrightarrow> ckq \<noteq> ck"
      using q a(4) by (auto simp: S' split: if_splits)
    obtain z where z: "S n = Some z" "n \<noteq> rt" "tn_parent z = Some q" "child_key ps (tn_key z) = Inr ckq"
      using tree_okD(4) [OF ok w0(1,2)] by blast
    then have "n \<noteq> m" using a(1,3,5) w0(3) by auto
    then show ?thesis using z a(4) by (auto simp: S')
  qed
  obtain d :: "nat \<Rightarrow> nat" where d: "\<And>n x p. S n = Some x \<Longrightarrow> tn_parent x = Some p \<Longrightarrow> d p < d n"
    using tree_okD(5) [OF ok] by blast
  have "d q < d n" if "S' n = Some z" "tn_parent z = Some q" for n z q
    using that d a(4) by (auto simp: S' split: if_splits)
  then have dd: "\<exists>d :: nat \<Rightarrow> nat. \<forall>n x p. S' n = Some x \<longrightarrow> tn_parent x = Some p \<longrightarrow> d p < d n" by blast
  have r: "\<exists>r. S' rt = Some r \<and> tn_parent r = None \<and> tn_value r = Some []"
    using tree_okD(2) [OF ok] ne a(4) by (auto simp: S')
  have "od_ok (tn_children w)" if "S' q = Some w" for q w
    using that tree_okD(6) [OF ok a(4)] tree_okD(6) [OF ok] by (auto simp: S' split: if_splits)
  then show ?thesis
    unfolding tree_ok_def using tree_okD(1) [OF ok] r nodes kids dd by blast
qed

lemma del_leaf_path:
  assumes ok: "tree_ok ps bg rt S" and dl: "is_del_leaf ps m p S S'" and "n' \<noteq> m"
  shows "path S' e n us vs n' \<longleftrightarrow> path S e n us vs n'"
proof -
  obtain x y ck where a: "S m = Some x" "tn_children x = []" "S p = Some y"
    and S': "S' = (S(p \<mapsto> y\<lparr>tn_children := od_del ck (tn_children y)\<rparr>))(m := None)"
    using dl unfolding is_del_leaf_def by blast
  note leaf = leaf_no_child [OF ok a(1,2)]
  have "tn_parent z \<noteq> Some m" if "S' d = Some z" for d z using that leaf a(3) by (auto simp: S' split: if_splits)
  moreover have "\<exists>z'. S d = Some z' \<and> tn_parent z' = tn_parent z \<and> tn_key z' = tn_key z \<and> tn_value z' = tn_value z"
    if "S' d = Some z" "d \<noteq> m" for d z using that a(3) by (auto simp: S' split: if_splits)
  moreover have "\<exists>z'. S' d = Some z' \<and> tn_parent z' = tn_parent z \<and> tn_key z' = tn_key z \<and> tn_value z' = tn_value z"
    if "S d = Some z" "d \<noteq> m" for d z using that a(3) by (auto simp: S')
  ultimately show ?thesis using path_transfer [of S e n us vs n' m S'] path_transfer [of S' e n us vs n' m S]
      leaf assms(3) by blast
qed

text \<open>Nothing new is stored, and what remains reachable from the other nodes stays.\<close>

lemma del_leaf_stored:
  assumes ok: "tree_ok ps bg rt S" and dl: "is_del_leaf ps m p S S'" and st: "stored ps S' rt e us vs"
  shows "stored ps S rt e us vs"
proof -
  obtain n ws xs where *: "ps dvd length us" "path S' e rt ws xs n" "prefix us ws" "vs = take (length us) xs" by (rule storedE [OF st])
  have "S' rt \<noteq> None" using tree_okD(2) [OF del_leaf_tree_ok [OF ok dl]] by auto
  then have "S' n \<noteq> None" using path_ends_live [OF *(2)] by simp
  then have "n \<noteq> m" using dl by (auto simp: is_del_leaf_def)
  then show ?thesis using * del_leaf_path [OF ok dl] storedI by blast
qed

end
