(* ===== verification/Radix_Cache.thy ===== *)
theory Radix_Cache
  imports Radix_Tree KV_Allocator
begin

section \<open>The prefix cache\<close>

text \<open>
  \<open>RadixCache\<close> of \<open>mem_cache/radix_cache.py\<close> and the strategies of \<open>mem_cache/evict_policy.py\<close>.
  Nodes are objects on a heap, named by their \<open>id\<close>; the record of the cache holds the heap, and the
  allocator and the table \<open>req_to_token\<close> that the cache refers to. A deleted node leaves the heap, and
  following a reference to it is a \<open>KeyError\<close>. An exception ends the operation, so results are
  \<open>'a res\<close> with the new state inside. A loop that may run forever on an ill-formed tree is a
  partial function; \<open>None\<close> is a loop that does not end. KV events are off, as by default, and metrics are
  left out. The clock is an argument: \<open>now\<close> is the time an operation reads, and \<open>birth n\<close> the two times
  that the constructor of node \<open>n\<close> reads.
\<close>

subsection \<open>Nodes and state\<close>

record radix_node = tree_node +
  rn_lock_ref :: int
  rn_last_access_time :: real
  rn_creation_time :: real
  rn_hit_count :: int
  rn_priority :: int

datatype eviction_policy = LRU | LFU | FIFO | MRU | FILO | PRIORITY | SLRU

record radix_cache =
  rc_disable :: bool
  rc_page_size :: nat
  rc_is_eagle :: bool
  rc_disable_finished_insert :: bool
  rc_eviction_policy :: eviction_policy
  rc_root :: nat
  rc_nodes :: "nat \<Rightarrow> radix_node option"
  rc_counter :: nat
  rc_evictable_size :: int
  rc_protected_size :: int
  rc_evictable_leaves :: "nat list"
  rc_allocator :: kv_allocator
  rc_req_to_token :: "int list list"

type_synonym birth = "nat \<Rightarrow> real \<times> real"

definition node_evicted :: "radix_node \<Rightarrow> bool" where
  "node_evicted x = (tn_value x = None)"

definition upd_node :: "nat \<Rightarrow> (radix_node \<Rightarrow> radix_node) \<Rightarrow> radix_cache \<Rightarrow> radix_cache" where
  "upd_node n f C = C\<lparr>rc_nodes := (rc_nodes C)(n := map_option f (rc_nodes C n))\<rparr>"

text \<open>\<open>TreeNode(priority=...)\<close>, before its attributes are assigned.\<close>

definition new_tree_node :: "birth \<Rightarrow> nat \<Rightarrow> int \<Rightarrow> radix_node" where
  "new_tree_node birth n priority =
     \<lparr>tn_children = [], tn_parent = None, tn_key = \<lparr>rk_token_ids = [], rk_extra_key = None, rk_is_bigram = False\<rparr>,
      tn_value = None, rn_lock_ref = 0, rn_last_access_time = fst (birth n), rn_creation_time = snd (birth n),
      rn_hit_count = 0, rn_priority = priority\<rparr>"

text \<open>\<open>reset\<close>: the nodes of the old tree are garbage.\<close>

definition reset_cache :: "birth \<Rightarrow> radix_cache \<Rightarrow> radix_cache" where
  "reset_cache birth C =
     (let r = rc_counter C
      in C\<lparr>rc_root := r, rc_counter := r + 1,
           rc_nodes := [r \<mapsto> (new_tree_node birth r (- sys_maxsize))
             \<lparr>tn_key := \<lparr>rk_token_ids = [], rk_extra_key = None, rk_is_bigram = False\<rparr>, tn_value := Some [], rn_lock_ref := 1\<rparr>],
           rc_evictable_size := 0, rc_protected_size := 0, rc_evictable_leaves := []\<rparr>)"

text \<open>\<open>str.lower\<close> on ASCII.\<close>

definition lower :: "string \<Rightarrow> string" where
  "lower s = map (\<lambda>c. let n = of_char c :: nat in if 65 \<le> n \<and> n \<le> 90 then char_of (n + 32) else c) s"

definition policy_of_name :: "string \<Rightarrow> eviction_policy res" where
  "policy_of_name name =
     (if name = ''lru'' then Inr LRU else if name = ''lfu'' then Inr LFU else if name = ''fifo'' then Inr FIFO
      else if name = ''mru'' then Inr MRU else if name = ''filo'' then Inr FILO
      else if name = ''priority'' then Inr PRIORITY else if name = ''slru'' then Inr SLRU
      else Inl ValueError)"

definition init_radix_cache ::
  "bool \<Rightarrow> nat \<Rightarrow> bool \<Rightarrow> bool \<Rightarrow> string \<Rightarrow> kv_allocator \<Rightarrow> int list list \<Rightarrow> nat \<Rightarrow> birth \<Rightarrow> radix_cache res" where
  "init_radix_cache disable page_size is_eagle disable_finished_insert policy A table counter birth =
     (case policy_of_name (lower policy) of
        Inl e \<Rightarrow> Inl e
      | Inr strategy \<Rightarrow>
          Inr (reset_cache birth
            \<lparr>rc_disable = disable, rc_page_size = page_size, rc_is_eagle = is_eagle,
             rc_disable_finished_insert = disable_finished_insert, rc_eviction_policy = strategy,
             rc_root = 0, rc_nodes = Map.empty, rc_counter = counter, rc_evictable_size = 0, rc_protected_size = 0,
             rc_evictable_leaves = [], rc_allocator = A, rc_req_to_token = table\<rparr>))"

subsection \<open>Evictable leaves\<close>

definition set_add :: "nat \<Rightarrow> nat list \<Rightarrow> nat list" where
  "set_add n xs = (if n \<in> set xs then xs else xs @ [n])"

definition has_cached_child :: "radix_cache \<Rightarrow> radix_node \<Rightarrow> bool" where
  "has_cached_child C x =
     list_ex (\<lambda>c. case rc_nodes C c of None \<Rightarrow> False | Some y \<Rightarrow> \<not> node_evicted y) (od_values (tn_children x))"

definition update_leaf_status :: "nat \<Rightarrow> radix_cache \<Rightarrow> radix_cache" where
  "update_leaf_status n C =
     (case rc_nodes C n of
        None \<Rightarrow> C
      | Some x \<Rightarrow>
          if node_evicted x \<or> rn_lock_ref x > 0 \<or> has_cached_child C x
          then C\<lparr>rc_evictable_leaves := removeAll n (rc_evictable_leaves C)\<rparr>
          else C\<lparr>rc_evictable_leaves := set_add n (rc_evictable_leaves C)\<rparr>)"

subsection \<open>Looking up a prefix\<close>

text \<open>\<open>_split_node\<close>; every call passes the child's own key.\<close>

definition split_node :: "birth \<Rightarrow> nat \<Rightarrow> nat \<Rightarrow> radix_cache \<Rightarrow> (nat \<times> radix_cache) res" where
  "split_node birth child split_len C =
     (case rc_nodes C child of
        None \<Rightarrow> Inl KeyError
      | Some x \<Rightarrow>
          let key = tn_key x; m = rc_counter C in
          case child_key (rc_page_size C) (rk_drop split_len key) of
            Inl e \<Rightarrow> Inl e
          | Inr ck2 \<Rightarrow>
          (case tn_value x of
            None \<Rightarrow> Inl TypeError
          | Some v \<Rightarrow>
          (case child_key (rc_page_size C) key of
            Inl e \<Rightarrow> Inl e
          | Inr ck \<Rightarrow>
          (case tn_parent x of
            None \<Rightarrow> Inl AttributeError
          | Some p \<Rightarrow>
          (case rc_nodes C p of
            None \<Rightarrow> Inl KeyError
          | Some y \<Rightarrow>
              let new_node = (new_tree_node birth m (rn_priority x))
                    \<lparr>rn_hit_count := rn_hit_count x, tn_children := [(ck2, child)], tn_parent := Some p,
                     rn_lock_ref := rn_lock_ref x, tn_key := rk_take split_len key, tn_value := Some (take split_len v)\<rparr>
              in Inr (m, C\<lparr>rc_counter := m + 1,
                   rc_nodes := (rc_nodes C)
                     (p \<mapsto> y\<lparr>tn_children := od_set ck m (tn_children y)\<rparr>,
                      m \<mapsto> new_node,
                      child \<mapsto> x\<lparr>tn_parent := Some m, tn_key := rk_drop split_len key, tn_value := Some (drop split_len v)\<rparr>)\<rparr>))))))"

partial_function (option) match_loop ::
  "birth \<Rightarrow> real \<Rightarrow> nat \<Rightarrow> radix_key \<Rightarrow> child_key \<Rightarrow> int list list \<Rightarrow> radix_cache \<Rightarrow> (int list list \<times> nat \<times> radix_cache) res option" where
  "match_loop birth access_time n key ck val C =
     (case rc_nodes C n of
        None \<Rightarrow> Some (Inl KeyError)
      | Some x \<Rightarrow>
          if rk_len key > 0 \<and> od_mem ck (tn_children x) then
            let child = the (od_get (tn_children x) ck);
                C1 = upd_node child (\<lambda>y. y\<lparr>rn_last_access_time := access_time\<rparr>) C in
            case rc_nodes C1 child of
              None \<Rightarrow> Some (Inl KeyError)
            | Some y \<Rightarrow>
            (case rk_match (tn_key y) key (rc_page_size C) of
              Inl e \<Rightarrow> Some (Inl e)
            | Inr prefix_len \<Rightarrow>
                if prefix_len < rk_len (tn_key y) then
                  case split_node birth child prefix_len C1 of
                    Inl e \<Rightarrow> Some (Inl e)
                  | Inr (new_node, C2) \<Rightarrow> Some (Inr (val @ [take prefix_len (the (tn_value y))], new_node, C2))
                else
                  case tn_value y of
                    None \<Rightarrow> Some (Inl TypeError)
                  | Some v \<Rightarrow>
                      let key' = rk_drop prefix_len key in
                      if rk_len key' > 0 then
                        case child_key (rc_page_size C) key' of
                          Inl e \<Rightarrow> Some (Inl e)
                        | Inr ck' \<Rightarrow> match_loop birth access_time child key' ck' (val @ [v]) C1
                      else match_loop birth access_time child key' ck (val @ [v]) C1)
          else Some (Inr (val, n, C)))"

definition match_prefix_helper ::
  "birth \<Rightarrow> real \<Rightarrow> nat \<Rightarrow> radix_key \<Rightarrow> radix_cache \<Rightarrow> (int list list \<times> nat \<times> radix_cache) res option" where
  "match_prefix_helper birth access_time n key C =
     (let C1 = upd_node n (\<lambda>x. x\<lparr>rn_last_access_time := access_time\<rparr>) C in
      case child_key (rc_page_size C) key of
        Inl e \<Rightarrow> Some (Inl e)
      | Inr ck \<Rightarrow> match_loop birth access_time n key ck [] C1)"

text \<open>\<open>MatchResult\<close>: the cached indices and the last node.\<close>

record match_result =
  mr_device_indices :: "int list"
  mr_last_device_node :: nat

definition match_prefix ::
  "birth \<Rightarrow> real \<Rightarrow> radix_key \<Rightarrow> radix_cache \<Rightarrow> (match_result \<times> radix_cache) res option" where
  "match_prefix birth access_time key0 C =
     (let key = fst (maybe_to_bigram_view (rc_is_eagle C) key0 None);
          empty_match_result = \<lparr>mr_device_indices = [], mr_last_device_node = rc_root C\<rparr>
      in if rc_disable C \<or> rk_len key = 0 then Some (Inr (empty_match_result, C))
         else
           let key1 = page_aligned (rc_page_size C) key
           in if rk_len key1 = 0 then Some (Inr (empty_match_result, C))
              else
                case match_prefix_helper birth access_time (rc_root C) key1 C of
                  None \<Rightarrow> None
                | Some (Inl e) \<Rightarrow> Some (Inl e)
                | Some (Inr (val, last_node, C1)) \<Rightarrow>
                    Some (Inr (\<lparr>mr_device_indices = concat val, mr_last_device_node = last_node\<rparr>, C1)))"

subsection \<open>Inserting\<close>

definition inc_hit_count :: "nat \<Rightarrow> bool \<Rightarrow> radix_cache \<Rightarrow> radix_cache" where
  "inc_hit_count n chunked C = (if chunked then C else upd_node n (\<lambda>x. x\<lparr>rn_hit_count := rn_hit_count x + 1\<rparr>) C)"

definition raise_priority :: "nat \<Rightarrow> int \<Rightarrow> radix_cache \<Rightarrow> radix_cache" where
  "raise_priority n priority C = upd_node n (\<lambda>x. x\<lparr>rn_priority := max (rn_priority x) priority\<rparr>) C"

text \<open>What a turn of the loop of \<open>_insert_helper\<close> does to the node that matches \<open>prefix_len\<close> units.\<close>

definition insert_visit :: "birth \<Rightarrow> int \<Rightarrow> bool \<Rightarrow> nat \<Rightarrow> nat \<Rightarrow> radix_node \<Rightarrow> radix_cache \<Rightarrow> (nat \<times> radix_cache) res" where
  "insert_visit birth priority chunked node prefix_len y C =
     (if prefix_len < rk_len (tn_key y)
      then case split_node birth node prefix_len C of
             Inl e \<Rightarrow> Inl e
           | Inr (new_node, C1) \<Rightarrow> Inr (new_node, inc_hit_count new_node chunked (raise_priority new_node priority C1))
      else Inr (node, inc_hit_count node chunked (raise_priority node priority C)))"

partial_function (option) insert_loop ::
  "birth \<Rightarrow> real \<Rightarrow> int \<Rightarrow> bool \<Rightarrow> nat \<Rightarrow> radix_key \<Rightarrow> child_key \<Rightarrow> int list \<Rightarrow> nat \<Rightarrow> radix_cache \<Rightarrow>
     (nat \<times> radix_key \<times> child_key \<times> int list \<times> nat \<times> radix_cache) res option" where
  "insert_loop birth access_time priority chunked n key ck val total_len C =
     (case rc_nodes C n of
        None \<Rightarrow> Some (Inl KeyError)
      | Some x \<Rightarrow>
          if rk_len key > 0 \<and> od_mem ck (tn_children x) then
            let node = the (od_get (tn_children x) ck);
                C1 = upd_node node (\<lambda>y. y\<lparr>rn_last_access_time := access_time\<rparr>) C in
            case rc_nodes C1 node of
              None \<Rightarrow> Some (Inl KeyError)
            | Some y \<Rightarrow>
            (case rk_match (tn_key y) key (rc_page_size C) of
              Inl e \<Rightarrow> Some (Inl e)
            | Inr prefix_len \<Rightarrow>
                let total_len' = total_len + prefix_len; key' = rk_drop prefix_len key; val' = drop prefix_len val in
                case insert_visit birth priority chunked node prefix_len y C1 of
                  Inl e \<Rightarrow> Some (Inl e)
                | Inr (n', C3) \<Rightarrow>
                    if rk_len key' > 0 then
                      case child_key (rc_page_size C) key' of
                        Inl e \<Rightarrow> Some (Inl e)
                      | Inr ck' \<Rightarrow> insert_loop birth access_time priority chunked n' key' ck' val' total_len' C3
                    else insert_loop birth access_time priority chunked n' key' ck val' total_len' C3)
          else Some (Inr (n, key, ck, val, total_len, C)))"

text \<open>The end of \<open>_insert_helper\<close>: a leaf for what is left of the key.\<close>

definition add_leaf :: "birth \<Rightarrow> int \<Rightarrow> bool \<Rightarrow> nat \<Rightarrow> radix_key \<Rightarrow> child_key \<Rightarrow> int list \<Rightarrow> radix_cache \<Rightarrow> radix_cache" where
  "add_leaf birth priority chunked n key ck val C =
     (let m = rc_counter C;
          C1 = C\<lparr>rc_counter := m + 1,
            rc_nodes := (rc_nodes C)(m \<mapsto> (new_tree_node birth m priority)\<lparr>tn_parent := Some n, tn_key := key, tn_value := Some val\<rparr>)\<rparr>;
          C2 = inc_hit_count m chunked C1;
          C3 = upd_node n (\<lambda>x. x\<lparr>tn_children := od_set ck m (tn_children x)\<rparr>) C2;
          C4 = C3\<lparr>rc_evictable_size := rc_evictable_size C3 + int (rk_len key)\<rparr>
      in update_leaf_status m (update_leaf_status n C4))"

definition insert_helper ::
  "birth \<Rightarrow> real \<Rightarrow> nat \<Rightarrow> radix_key \<Rightarrow> int list \<Rightarrow> int \<Rightarrow> bool \<Rightarrow> radix_cache \<Rightarrow> (nat \<times> radix_cache) res option" where
  "insert_helper birth access_time n key val priority chunked C =
     (let C1 = raise_priority n priority (upd_node n (\<lambda>x. x\<lparr>rn_last_access_time := access_time\<rparr>) C)
      in if rk_len key = 0 then Some (Inr (0, C1))
         else
           case child_key (rc_page_size C) key of
             Inl e \<Rightarrow> Some (Inl e)
           | Inr ck \<Rightarrow>
           (case insert_loop birth access_time priority chunked n key ck val 0 C1 of
             None \<Rightarrow> None
           | Some (Inl e) \<Rightarrow> Some (Inl e)
           | Some (Inr (n', key', ck', val', total_len, C2)) \<Rightarrow>
               Some (Inr (total_len, if rk_len key' > 0 then add_leaf birth priority chunked n' key' ck' val' C2 else C2))))"

text \<open>\<open>insert\<close>; a missing priority counts as zero.\<close>

definition insert_cache ::
  "birth \<Rightarrow> real \<Rightarrow> radix_key \<Rightarrow> int list option \<Rightarrow> int option \<Rightarrow> bool \<Rightarrow> radix_cache \<Rightarrow> (nat \<times> radix_cache) res option" where
  "insert_cache birth access_time key0 val0 priority chunked C =
     (if rc_disable C then Some (Inr (0, C))
      else
        let (key1, val1) = maybe_to_bigram_view (rc_is_eagle C) key0 val0;
            key = page_aligned (rc_page_size C) key1;
            val = (case val1 of Some v \<Rightarrow> take (rk_len key) v | None \<Rightarrow> take (rk_len key) (rk_token_ids key))
        in insert_helper birth access_time (rc_root C) key val (case priority of None \<Rightarrow> 0 | Some p \<Rightarrow> p) chunked C)"

subsection \<open>Locks\<close>

partial_function (option) inc_lock_loop :: "nat \<Rightarrow> int \<Rightarrow> radix_cache \<Rightarrow> (int \<times> radix_cache) res option" where
  "inc_lock_loop n delta C =
     (if n = rc_root C then Some (Inr (delta, C))
      else
        case rc_nodes C n of
          None \<Rightarrow> Some (Inl KeyError)
        | Some x \<Rightarrow>
            let l = int (rk_len (tn_key x));
                (delta', C1) = (if rn_lock_ref x = 0
                  then (delta - l, C\<lparr>rc_evictable_size := rc_evictable_size C - l, rc_protected_size := rc_protected_size C + l\<rparr>)
                  else (delta, C));
                C2 = update_leaf_status n (upd_node n (\<lambda>x. x\<lparr>rn_lock_ref := rn_lock_ref x + 1\<rparr>) C1)
            in case tn_parent x of
                 None \<Rightarrow> Some (Inl AttributeError)
               | Some p \<Rightarrow> inc_lock_loop p delta' C2)"

definition inc_lock_ref :: "nat \<Rightarrow> radix_cache \<Rightarrow> (int \<times> radix_cache) res option" where
  "inc_lock_ref n C = (if rc_disable C then Some (Inr (0, C)) else inc_lock_loop n 0 C)"

partial_function (option) dec_lock_loop :: "nat \<Rightarrow> int \<Rightarrow> radix_cache \<Rightarrow> (int \<times> radix_cache) res option" where
  "dec_lock_loop n delta C =
     (if n = rc_root C then Some (Inr (delta, C))
      else
        case rc_nodes C n of
          None \<Rightarrow> Some (Inl KeyError)
        | Some x \<Rightarrow>
            let l = int (rk_len (tn_key x));
                (delta', C1) = (if rn_lock_ref x = 1
                  then (delta + l, C\<lparr>rc_evictable_size := rc_evictable_size C + l, rc_protected_size := rc_protected_size C - l\<rparr>)
                  else (delta, C));
                C2 = update_leaf_status n (upd_node n (\<lambda>x. x\<lparr>rn_lock_ref := rn_lock_ref x - 1\<rparr>) C1)
            in case tn_parent x of
                 None \<Rightarrow> Some (Inl AssertionError)
               | Some p \<Rightarrow> dec_lock_loop p delta' C2)"

definition dec_lock_ref :: "nat \<Rightarrow> radix_cache \<Rightarrow> (int \<times> radix_cache) res option" where
  "dec_lock_ref n C = (if rc_disable C then Some (Inr (0, C)) else dec_lock_loop n 0 C)"

subsection \<open>Eviction\<close>

text \<open>Python compares tuples from the left, and lists of numbers are ordered the same way.\<close>

definition protected_threshold :: int where
  "protected_threshold = 2"

fun get_priority :: "eviction_policy \<Rightarrow> radix_node \<Rightarrow> real list" where
  "get_priority LRU x = [rn_last_access_time x]"
| "get_priority LFU x = [of_int (rn_hit_count x), rn_last_access_time x]"
| "get_priority FIFO x = [rn_creation_time x]"
| "get_priority MRU x = [- rn_last_access_time x]"
| "get_priority FILO x = [- rn_creation_time x]"
| "get_priority PRIORITY x = [of_int (rn_priority x), rn_last_access_time x]"
| "get_priority SLRU x = [if rn_hit_count x \<ge> protected_threshold then 1 else 0, rn_last_access_time x]"

text \<open>
  An entry \<open>(priority, node)\<close> of the heap, with the time by which \<open>TreeNode.__lt__\<close> decides between equal
  priorities. Entries that are equal in both have no order in Python; here the first one is popped.
\<close>

definition heap_entry :: "eviction_policy \<Rightarrow> radix_node \<Rightarrow> real list" where
  "heap_entry policy x = get_priority policy x @ [rn_last_access_time x]"

definition heap_pop :: "(real list \<times> nat) list \<Rightarrow> nat \<times> (real list \<times> nat) list" where
  "heap_pop heap =
     (let k = min_list (map fst heap); e = hd (filter (\<lambda>e. fst e = k) heap)
      in (snd e, remove1 e heap))"

definition delete_leaf :: "nat \<Rightarrow> radix_cache \<Rightarrow> radix_cache res" where
  "delete_leaf n C =
     (case rc_nodes C n of
        None \<Rightarrow> Inl KeyError
      | Some x \<Rightarrow>
          (case child_key (rc_page_size C) (tn_key x) of
            Inl e \<Rightarrow> Inl e
          | Inr ck \<Rightarrow>
          (case tn_parent x of
            None \<Rightarrow> Inl AttributeError
          | Some p \<Rightarrow>
          (case rc_nodes C p of
            None \<Rightarrow> Inl KeyError
          | Some y \<Rightarrow>
              if od_get (tn_children y) ck \<noteq> Some n then Inl AssertionError
              else
                Inr (update_leaf_status p
                  (C\<lparr>rc_nodes := ((rc_nodes C)(p \<mapsto> y\<lparr>tn_children := od_del ck (tn_children y)\<rparr>))(n := None),
                     rc_evictable_size := rc_evictable_size C - int (rk_len (tn_key x)),
                     rc_evictable_leaves := removeAll n (rc_evictable_leaves C)\<rparr>))))))"

partial_function (option) evict_loop ::
  "int \<Rightarrow> int \<Rightarrow> (real list \<times> nat) list \<Rightarrow> radix_cache \<Rightarrow> (int \<times> radix_cache) res option" where
  "evict_loop num_tokens num_evicted heap C =
     (if num_evicted < num_tokens \<and> heap \<noteq> [] then
        let (n, heap1) = heap_pop heap in
        case rc_nodes C n of
          None \<Rightarrow> Some (Inl KeyError)
        | Some x \<Rightarrow>
        (case tn_value x of
          None \<Rightarrow> Some (Inl AttributeError)
        | Some v \<Rightarrow>
        (case delete_leaf n (C\<lparr>rc_allocator := kv_free v (rc_allocator C)\<rparr>) of
          Inl e \<Rightarrow> Some (Inl e)
        | Inr C1 \<Rightarrow>
        (case tn_parent x of
          None \<Rightarrow> Some (Inl AttributeError)
        | Some p \<Rightarrow>
        (case rc_nodes C1 p of
          None \<Rightarrow> Some (Inl KeyError)
        | Some y \<Rightarrow>
            evict_loop num_tokens (num_evicted + int (length v))
              (if tn_children y = [] \<and> rn_lock_ref y = 0
               then heap1 @ [(heap_entry (rc_eviction_policy C) y, p)] else heap1) C1))))
      else Some (Inr (num_evicted, C)))"

definition evict :: "int \<Rightarrow> radix_cache \<Rightarrow> (int \<times> radix_cache) res option" where
  "evict num_tokens C =
     (if rc_disable C then Some (Inr (0, C))
      else
        let heap = map (\<lambda>n. (case rc_nodes C n of None \<Rightarrow> [] | Some x \<Rightarrow> heap_entry (rc_eviction_policy C) x, n)) (rc_evictable_leaves C)
        in evict_loop num_tokens 0 heap C)"

subsection \<open>Sizes\<close>

definition evictable_size :: "radix_cache \<Rightarrow> int" where
  "evictable_size C = rc_evictable_size C"

definition protected_size :: "radix_cache \<Rightarrow> int" where
  "protected_size C = rc_protected_size C"

partial_function (option) total_size_loop :: "radix_cache \<Rightarrow> nat list \<Rightarrow> nat \<Rightarrow> nat res option" where
  "total_size_loop C stack total_len =
     (if stack = [] then Some (Inr total_len)
      else
        case rc_nodes C (last stack) of
          None \<Rightarrow> Some (Inl KeyError)
        | Some x \<Rightarrow>
        (case tn_value x of
          None \<Rightarrow> Some (Inl TypeError)
        | Some v \<Rightarrow>
            total_size_loop C
              (butlast stack @ filter (\<lambda>c. case rc_nodes C c of None \<Rightarrow> False | Some y \<Rightarrow> \<not> node_evicted y) (od_values (tn_children x)))
              (total_len + length v)))"

definition total_size :: "radix_cache \<Rightarrow> nat res option" where
  "total_size C = total_size_loop C [rc_root C] 0"

end
