(* ===== verification/Radix_Laws.thy ===== *)
theory Radix_Laws
  imports Radix_Cache
begin

section \<open>The invariant of the prefix cache\<close>

text \<open>
  What the invariant talks about is the core of a node: its part of the tree and its lock count.
  Times, hit counts and priorities decide only which leaf is evicted first. The invariant \<open>rc_ok C hs\<close> says that
  the tree is well formed, that the two sizes count the tokens of unlocked and locked nodes,
  that \<open>evictable_leaves\<close> is the set of unlocked leaves, and that a node's lock count is the number of
  handles in \<open>hs\<close> at or below it. A handle is a \<open>last_node\<close> that a request holds.
\<close>

type_synonym cores = "nat \<Rightarrow> (tree_node \<times> int) option"

definition core :: "radix_node \<Rightarrow> tree_node \<times> int" where
  "core x = (tree_node.truncate x, rn_lock_ref x)"

definition cores :: "radix_cache \<Rightarrow> cores" where
  "cores C = (\<lambda>n. map_option core (rc_nodes C n))"

definition shape_of :: "cores \<Rightarrow> shape" where
  "shape_of K = (\<lambda>n. map_option fst (K n))"

abbreviation shape :: "radix_cache \<Rightarrow> shape" where
  "shape C \<equiv> shape_of (cores C)"

definition core_sum :: "(nat \<Rightarrow> tree_node \<times> int \<Rightarrow> 'a :: comm_monoid_add) \<Rightarrow> cores \<Rightarrow> 'a" where
  "core_sum w K = (\<Sum>n \<in> dom K. w n (the (K n)))"

text \<open>The tokens of the nodes whose lock count satisfies \<open>P\<close>.\<close>

definition tokens :: "nat \<Rightarrow> (int \<Rightarrow> bool) \<Rightarrow> cores \<Rightarrow> int" where
  "tokens rt P K = core_sum (\<lambda>n (x, l). if n \<noteq> rt \<and> P l then int (rk_len (tn_key x)) else 0) K"

definition free_leaf :: "nat \<Rightarrow> cores \<Rightarrow> nat \<Rightarrow> bool" where
  "free_leaf rt K n = (\<exists>x. K n = Some (x, 0) \<and> n \<noteq> rt \<and> tn_children x = [])"

definition below :: "shape \<Rightarrow> nat \<Rightarrow> nat \<Rightarrow> bool" where
  "below S n h = (\<exists>e us vs. path S e n us vs h)"

definition lock_count :: "shape \<Rightarrow> nat list \<Rightarrow> nat \<Rightarrow> int" where
  "lock_count S hs n = int (length (filter (below S n) hs))"

definition locks_ok :: "nat \<Rightarrow> nat list \<Rightarrow> cores \<Rightarrow> bool" where
  "locks_ok rt hs K =
     (set hs \<subseteq> dom K \<and> (\<exists>x. K rt = Some (x, 1)) \<and>
      (\<forall>n x l. K n = Some (x, l) \<longrightarrow> n \<noteq> rt \<longrightarrow> l = lock_count (shape_of K) hs n))"

definition heap_bound :: "nat \<Rightarrow> cores \<Rightarrow> bool" where
  "heap_bound c K = (\<forall>n. K n \<noteq> None \<longrightarrow> n < c)"

definition rc_ok :: "radix_cache \<Rightarrow> nat list \<Rightarrow> bool" where
  "rc_ok C hs =
     (let K = cores C; rt = rc_root C in
      tree_ok (rc_page_size C) (rc_is_eagle C) rt (shape_of K) \<and> heap_bound (rc_counter C) K \<and> locks_ok rt hs K \<and>
      rc_evictable_size C = tokens rt (\<lambda>l. l = 0) K \<and> rc_protected_size C = tokens rt (\<lambda>l. l > 0) K \<and>
      distinct (rc_evictable_leaves C) \<and> (\<forall>n. n \<in> set (rc_evictable_leaves C) \<longleftrightarrow> free_leaf rt K n))"

lemma rc_okD:
  assumes "rc_ok C hs"
  shows "tree_ok (rc_page_size C) (rc_is_eagle C) (rc_root C) (shape C)" "heap_bound (rc_counter C) (cores C)"
    "locks_ok (rc_root C) hs (cores C)"
    "rc_evictable_size C = tokens (rc_root C) (\<lambda>l. l = 0) (cores C)"
    "rc_protected_size C = tokens (rc_root C) (\<lambda>l. l > 0) (cores C)"
    "distinct (rc_evictable_leaves C)" "\<And>n. n \<in> set (rc_evictable_leaves C) \<longleftrightarrow> free_leaf (rc_root C) (cores C) n"
  using assms unfolding rc_ok_def Let_def by blast+

subsection \<open>Cores\<close>

lemma cores_Some: "cores C n = Some k \<longleftrightarrow> (\<exists>x. rc_nodes C n = Some x \<and> k = core x)"
  by (auto simp: cores_def)

lemma cores_None [simp]: "cores C n = None \<longleftrightarrow> rc_nodes C n = None"
  by (simp add: cores_def)

lemma shape_of_None [simp]: "shape_of K n = None \<longleftrightarrow> K n = None"
  by (simp add: shape_of_def)

lemma core_simps [simp]:
  "fst (core x) = tree_node.truncate x" "snd (core x) = rn_lock_ref x"
  "tn_children (tree_node.truncate x) = tn_children x" "tn_parent (tree_node.truncate x) = tn_parent x"
  "tn_key (tree_node.truncate x) = tn_key x" "tn_value (tree_node.truncate x) = tn_value x" for x :: radix_node
  by (simp_all add: core_def tree_node.truncate_def)

lemma shape_Some: "rc_nodes C n = Some x \<Longrightarrow> shape C n = Some (tree_node.truncate x)"
  by (simp add: shape_of_def cores_def)

lemma shape_SomeE:
  assumes "shape C n = Some t"
  obtains x where "rc_nodes C n = Some x" "t = tree_node.truncate x"
  using assms by (auto simp: shape_of_def cores_def core_def)

lemma shape_of_upd [simp]: "shape_of (K(n \<mapsto> k)) = (shape_of K)(n \<mapsto> fst k)"
  by (auto simp: shape_of_def)

lemma shape_of_del [simp]: "shape_of (K(n := None)) = (shape_of K)(n := None)"
  by (auto simp: shape_of_def)

lemma heap_bound_finite: "heap_bound c K \<Longrightarrow> finite (dom K)"
  by (rule finite_subset [of _ "{..<c}"]) (auto simp: heap_bound_def)

lemma heap_bound_upd: "heap_bound c K \<Longrightarrow> n < c \<Longrightarrow> heap_bound c (K(n \<mapsto> k))"
  by (simp add: heap_bound_def)

lemma heap_bound_del: "heap_bound c K \<Longrightarrow> heap_bound c (K(n := None))"
  by (simp add: heap_bound_def)

lemma heap_bound_mono: "heap_bound c K \<Longrightarrow> c \<le> d \<Longrightarrow> heap_bound d K"
  unfolding heap_bound_def by (meson order_less_le_trans)

lemma heap_boundD: "heap_bound c K \<Longrightarrow> K n = Some k \<Longrightarrow> n < c"
  by (simp add: heap_bound_def)

lemma heap_bound_fresh: "heap_bound c K \<Longrightarrow> K c = None"
  unfolding heap_bound_def by blast

text \<open>Operations that change only times, hit counts and priorities.\<close>

definition touches :: "radix_cache \<Rightarrow> radix_cache \<Rightarrow> bool" where
  "touches C C' = (C' = C\<lparr>rc_nodes := rc_nodes C'\<rparr> \<and> cores C' = cores C)"

lemma touches_refl [simp]: "touches C C"
  by (simp add: touches_def)

lemma touches_trans: "touches C C' \<Longrightarrow> touches C' C'' \<Longrightarrow> touches C C''"
  by (cases C; cases C'; cases C'') (auto simp: touches_def)

lemma touchesD:
  assumes "touches C C'"
  shows "cores C' = cores C" "rc_page_size C' = rc_page_size C" "rc_root C' = rc_root C" "rc_counter C' = rc_counter C"
    "rc_is_eagle C' = rc_is_eagle C" "rc_allocator C' = rc_allocator C" "rc_req_to_token C' = rc_req_to_token C"
    "rc_evictable_size C' = rc_evictable_size C" "rc_protected_size C' = rc_protected_size C"
    "rc_evictable_leaves C' = rc_evictable_leaves C" "rc_disable C' = rc_disable C"
    "rc_disable_finished_insert C' = rc_disable_finished_insert C" "rc_eviction_policy C' = rc_eviction_policy C"
proof -
  have *: "C' = C\<lparr>rc_nodes := rc_nodes C'\<rparr>" and "cores C' = cores C" using assms by (simp_all add: touches_def)
  then show "cores C' = cores C" by simp
  show "rc_page_size C' = rc_page_size C" "rc_root C' = rc_root C" "rc_counter C' = rc_counter C"
    "rc_is_eagle C' = rc_is_eagle C" "rc_allocator C' = rc_allocator C" "rc_req_to_token C' = rc_req_to_token C"
    "rc_evictable_size C' = rc_evictable_size C" "rc_protected_size C' = rc_protected_size C"
    "rc_evictable_leaves C' = rc_evictable_leaves C" "rc_disable C' = rc_disable C"
    "rc_disable_finished_insert C' = rc_disable_finished_insert C" "rc_eviction_policy C' = rc_eviction_policy C"
    by (subst *, simp)+
qed

lemma touches_ok: "touches C C' \<Longrightarrow> rc_ok C' hs \<longleftrightarrow> rc_ok C hs"
  by (simp add: rc_ok_def touchesD)

lemma touches_upd: "(\<And>x. core (f x) = core x) \<Longrightarrow> touches C (upd_node n f C)"
  by (auto simp: touches_def upd_node_def cores_def fun_eq_iff option.map_comp comp_def)

lemma core_meta [simp]:
  "core (x\<lparr>rn_last_access_time := t\<rparr>) = core x" "core (x\<lparr>rn_hit_count := h\<rparr>) = core x" "core (x\<lparr>rn_priority := p\<rparr>) = core x"
  by (simp_all add: core_def tree_node.truncate_def)

lemma touches_time [simp]: "touches C (upd_node n (\<lambda>x. x\<lparr>rn_last_access_time := t\<rparr>) C)"
  by (rule touches_upd) simp

lemma touches_hit [simp]: "touches C (inc_hit_count n chunked C)"
  by (auto simp: inc_hit_count_def intro!: touches_upd)

lemma touches_priority [simp]: "touches C (raise_priority n p C)"
  by (auto simp: raise_priority_def intro!: touches_upd)

subsection \<open>Sums over the tree\<close>

lemma core_sum_new: "finite (dom K) \<Longrightarrow> K n = None \<Longrightarrow> core_sum w (K(n \<mapsto> k)) = core_sum w K + w n k"
proof -
  assume f: "finite (dom K)" and n: "K n = None"
  have "(\<Sum>i \<in> dom K. w i (the ((K(n \<mapsto> k)) i))) = (\<Sum>i \<in> dom K. w i (the (K i)))"
    by (rule sum.cong) (use n in auto)
  then show ?thesis using f n by (simp add: core_sum_def domIff add.commute)
qed

lemma core_sum_del: "finite (dom K) \<Longrightarrow> K n = Some k \<Longrightarrow> core_sum w (K(n := None)) + w n k = core_sum w K"
  using core_sum_new [of "K(n := None)" n w k] by (simp add: map_upd_triv)

lemma core_sum_upd:
  "finite (dom K) \<Longrightarrow> K n = Some k \<Longrightarrow> core_sum w (K(n \<mapsto> k')) + w n k = core_sum w K + w n k'"
  using core_sum_new [of "K(n := None)" n w k'] core_sum_del [of K n k w]
  by (simp add: ac_simps) (metis (no_types, lifting) add.assoc add.commute)

lemma core_sum_same: "finite (dom K) \<Longrightarrow> K n = Some k \<Longrightarrow> w n k' = w n k \<Longrightarrow> core_sum w (K(n \<mapsto> k')) = core_sum w K"
  unfolding core_sum_def by (simp add: domIff insert_absorb) (rule sum.cong, auto)

subsection \<open>Splitting keeps the invariant\<close>

definition core_split :: "nat \<Rightarrow> nat \<Rightarrow> nat \<Rightarrow> nat \<Rightarrow> nat \<Rightarrow> tree_node \<Rightarrow> int \<Rightarrow> int list \<Rightarrow> cores \<Rightarrow> cores \<Rightarrow> bool" where
  "core_split ps m c p L x l v K K' =
     (\<exists>y lp ck ck2. K c = Some (x, l) \<and> tn_parent x = Some p \<and> K p = Some (y, lp) \<and> K m = None \<and> tn_value x = Some v \<and>
        0 < L \<and> L < rk_len (tn_key x) \<and> ps dvd L \<and>
        child_key ps (tn_key x) = Inr ck \<and> child_key ps (rk_drop L (tn_key x)) = Inr ck2 \<and>
        K' = K(p \<mapsto> (y\<lparr>tn_children := od_set ck m (tn_children y)\<rparr>, lp),
               m \<mapsto> (\<lparr>tn_children = [(ck2, c)], tn_parent = Some p, tn_key = rk_take L (tn_key x), tn_value = Some (take L v)\<rparr>, l),
               c \<mapsto> (x\<lparr>tn_parent := Some m, tn_key := rk_drop L (tn_key x), tn_value := Some (drop L v)\<rparr>, l)))"

lemma core_split_shape: "core_split ps m c p L x l v K K' \<Longrightarrow> is_split ps m c p L x v (shape_of K) (shape_of K')"
  unfolding core_split_def is_split_def by (elim exE conjE) (simp add: shape_of_def fun_eq_iff)

lemma core_sum_split:
  fixes w :: "nat \<Rightarrow> tree_node \<times> int \<Rightarrow> 'a :: cancel_comm_monoid_add"
  assumes "finite (dom K)" "p \<noteq> c" "m \<noteq> c" "m \<noteq> p" "K p = Some k" "K c = Some kc" "K m = None"
    and "w p kp = w p k" "w m km + w c kc' = w c kc"
  shows "core_sum w (K(p \<mapsto> kp, m \<mapsto> km, c \<mapsto> kc')) = core_sum w K"
proof -
  have "core_sum w (K(p \<mapsto> kp, m \<mapsto> km, c \<mapsto> kc')) + w c kc = core_sum w (K(p \<mapsto> kp, m \<mapsto> km)) + w c kc'"
    by (rule core_sum_upd) (use assms in auto)
  also have "core_sum w (K(p \<mapsto> kp, m \<mapsto> km)) = core_sum w (K(p \<mapsto> kp)) + w m km" by (rule core_sum_new) (use assms in auto)
  also have "core_sum w (K(p \<mapsto> kp)) = core_sum w K" by (rule core_sum_same) (use assms in auto)
  finally show ?thesis by (simp only: add.assoc assms(9) add_right_cancel)
qed

lemma split_tokens:
  assumes ok: "tree_ok ps bg rt (shape_of K)" and "finite (dom K)" and sp: "core_split ps m c p L x l v K K'"
  shows "tokens rt P K' = tokens rt P K"
proof -
  obtain y lp ck ck2 where a: "K c = Some (x, l)" "K p = Some (y, lp)" "K m = None" "L < rk_len (tn_key x)"
    and K': "K' = K(p \<mapsto> (y\<lparr>tn_children := od_set ck m (tn_children y)\<rparr>, lp),
         m \<mapsto> (\<lparr>tn_children = [(ck2, c)], tn_parent = Some p, tn_key = rk_take L (tn_key x), tn_value = Some (take L v)\<rparr>, l),
         c \<mapsto> (x\<lparr>tn_parent := Some m, tn_key := rk_drop L (tn_key x), tn_value := Some (drop L v)\<rparr>, l))"
    using sp unfolding core_split_def by blast
  obtain z where "p \<noteq> c" "m \<noteq> c" "m \<noteq> p" "c \<noteq> rt" "m \<noteq> rt" by (rule is_splitE [OF ok core_split_shape [OF sp]])
  then show ?thesis unfolding tokens_def K' using a assms(2) by (intro core_sum_split) auto
qed

lemma split_below:
  assumes ok: "tree_ok ps bg rt S" and sp: "is_split ps m c p L x v S S'" and h: "h \<noteq> m"
  shows "n \<noteq> m \<Longrightarrow> below S' n h \<longleftrightarrow> below S n h" "below S' m h \<longleftrightarrow> below S c h"
proof -
  show "n \<noteq> m \<Longrightarrow> below S' n h \<longleftrightarrow> below S n h" using split_path [OF ok sp _ h] by (simp add: below_def)
  obtain y ck ck2 where a: "tn_parent x = Some p" "S c = Some x" "m \<noteq> c"
    and S': "S' = S(p \<mapsto> y\<lparr>tn_children := od_set ck m (tn_children y)\<rparr>,
       m \<mapsto> \<lparr>tn_children = [(ck2, c)], tn_parent = Some p, tn_key = rk_take L (tn_key x), tn_value = Some (take L v)\<rparr>,
       c \<mapsto> x\<lparr>tn_parent := Some m, tn_key := rk_drop L (tn_key x), tn_value := Some (drop L v)\<rparr>)"
    by (rule is_splitE [OF ok sp])
  show "below S' m h \<longleftrightarrow> below S c h"
  proof
    assume "below S' m h"
    then obtain e us vs where "path S' e m us vs h" by (auto simp: below_def)
    from split_path_backward [OF ok sp this h] show "below S c h" by (auto simp: below_def)
  next
    assume "below S c h"
    then obtain e us vs where p: "path S e c us vs h" by (auto simp: below_def)
    have e: "e = rk_extra_key (tn_key x) \<or> h = c"
      using p path_namespace [OF ok p a(2)] parent_not_root [OF ok a(2,1)] by auto
    have "path S' (rk_extra_key (tn_key x)) c us vs h"
      using split_path_forward [OF ok sp p] e p path_self [OF ok, of e c us vs] by (auto intro: path_nil)
    then show "below S' m h"
      using path_cons [of S' c "x\<lparr>tn_parent := Some m, tn_key := rk_drop L (tn_key x), tn_value := Some (drop L v)\<rparr>" m
          "rk_extra_key (tn_key x)" "drop L v" us vs h] by (auto simp: below_def S')
  qed
qed

lemma lock_count_cong: "(\<And>h. h \<in> set hs \<Longrightarrow> below S n h = below S' n' h) \<Longrightarrow> lock_count S hs n = lock_count S' hs n'"
  unfolding lock_count_def by (metis (mono_tags, lifting) filter_cong)

lemma split_locks:
  assumes ok: "tree_ok ps bg rt (shape_of K)" and sp: "core_split ps m c p L x l v K K'" and lk: "locks_ok rt hs K"
  shows "locks_ok rt hs K'"
proof -
  obtain y lp ck ck2 where a: "K c = Some (x, l)" "tn_parent x = Some p" "K p = Some (y, lp)" "K m = None"
    and K': "K' = K(p \<mapsto> (y\<lparr>tn_children := od_set ck m (tn_children y)\<rparr>, lp),
         m \<mapsto> (\<lparr>tn_children = [(ck2, c)], tn_parent = Some p, tn_key = rk_take L (tn_key x), tn_value = Some (take L v)\<rparr>, l),
         c \<mapsto> (x\<lparr>tn_parent := Some m, tn_key := rk_drop L (tn_key x), tn_value := Some (drop L v)\<rparr>, l))"
    using sp unfolding core_split_def by blast
  note sh = core_split_shape [OF sp]
  obtain y' ck' where ne: "p \<noteq> c" "m \<noteq> c" "m \<noteq> p" "c \<noteq> rt" "m \<noteq> rt"
    and y': "shape_of K p = Some y'" "od_get (tn_children y') ck' = Some c" by (rule is_splitE [OF ok sh])
  have hs: "h \<noteq> m" if "h \<in> set hs" for h using lk a(4) that by (auto simp: locks_ok_def)
  have same: "lock_count (shape_of K') hs n = lock_count (shape_of K) hs n" if "n \<noteq> m" for n
    by (rule lock_count_cong) (use split_below(1) [OF ok sh hs that] in simp)
  have new: "lock_count (shape_of K') hs m = lock_count (shape_of K) hs c"
    by (rule lock_count_cong) (use split_below(2) [OF ok sh hs] in simp)
  have l: "l = lock_count (shape_of K) hs c" using lk a(1) ne(4) by (simp add: locks_ok_def)
  have "ln = lock_count (shape_of K') hs n" if "K' n = Some (z, ln)" "n \<noteq> rt" for n z ln
  proof (cases "n = m")
    case True
    then show ?thesis using that l new ne by (simp add: K')
  next
    case False
    then have "\<exists>z'. K n = Some (z', ln)" using that(1) a(1,3) by (auto simp: K' split: if_splits)
    then show ?thesis using lk that(2) same [OF False] by (auto simp: locks_ok_def)
  qed
  moreover have "set hs \<subseteq> dom K'" "\<exists>z. K' rt = Some (z, 1)" using lk ne a by (auto simp: locks_ok_def K')
  ultimately show ?thesis by (simp add: locks_ok_def)
qed

lemma split_free_leaf:
  assumes ok: "tree_ok ps bg rt (shape_of K)" and sp: "core_split ps m c p L x l v K K'"
  shows "free_leaf rt K' n \<longleftrightarrow> free_leaf rt K n"
proof -
  obtain y lp ck ck2 where a: "K c = Some (x, l)" "tn_parent x = Some p" "K p = Some (y, lp)" "K m = None"
    and K': "K' = K(p \<mapsto> (y\<lparr>tn_children := od_set ck m (tn_children y)\<rparr>, lp),
         m \<mapsto> (\<lparr>tn_children = [(ck2, c)], tn_parent = Some p, tn_key = rk_take L (tn_key x), tn_value = Some (take L v)\<rparr>, l),
         c \<mapsto> (x\<lparr>tn_parent := Some m, tn_key := rk_drop L (tn_key x), tn_value := Some (drop L v)\<rparr>, l))"
    using sp unfolding core_split_def by blast
  note sh = core_split_shape [OF sp]
  obtain y' ck' where ne: "p \<noteq> c" "m \<noteq> c" "m \<noteq> p" "c \<noteq> rt" "m \<noteq> rt"
    and y': "shape_of K p = Some y'" "od_get (tn_children y') ck' = Some c" by (rule is_splitE [OF ok sh])
  have "tn_children y \<noteq> []" using y' a(3) by (auto simp: shape_of_def)
  then show ?thesis using a ne by (auto simp: free_leaf_def K')
qed

lemma split_ok:
  assumes ok: "rc_ok C hs" and sp: "core_split (rc_page_size C) (rc_counter C) c p L x l v (cores C) (cores C')"
    and C': "C' = C\<lparr>rc_counter := rc_counter C + 1, rc_nodes := rc_nodes C'\<rparr>"
  shows "rc_ok C' hs"
proof -
  note t = rc_okD(1) [OF ok] and f = heap_bound_finite [OF rc_okD(2) [OF ok]]
  have fields: "rc_page_size C' = rc_page_size C" "rc_is_eagle C' = rc_is_eagle C" "rc_root C' = rc_root C"
    "rc_counter C' = rc_counter C + 1" "rc_evictable_size C' = rc_evictable_size C" "rc_protected_size C' = rc_protected_size C"
    "rc_evictable_leaves C' = rc_evictable_leaves C" by (subst C', simp)+
  have "heap_bound (rc_counter C + 1) (cores C')"
    using heap_bound_mono [OF rc_okD(2) [OF ok], of "rc_counter C + 1"] heap_boundD [OF rc_okD(2) [OF ok]] sp
    unfolding core_split_def by (fastforce intro!: heap_bound_upd)
  then show ?thesis
    using rc_okD [OF ok] split_tree_ok [OF t core_split_shape [OF sp]] split_tokens [OF t f sp] split_locks [OF t sp]
      split_free_leaf [OF t sp] unfolding rc_ok_def Let_def fields by simp
qed

text \<open>\<open>_split_node\<close> succeeds on a node below the root.\<close>

lemma split_node_effect:
  assumes ok: "rc_ok C hs" and x: "rc_nodes C c = Some x" "c \<noteq> rc_root C" "tn_parent x = Some p" "tn_value x = Some v"
    and L: "0 < L" "L < rk_len (tn_key x)" "rc_page_size C dvd L"
  shows "\<exists>C'. split_node birth c L C = Inr (rc_counter C, C') \<and> C' = C\<lparr>rc_counter := rc_counter C + 1, rc_nodes := rc_nodes C'\<rparr> \<and>
    core_split (rc_page_size C) (rc_counter C) c p L (tree_node.truncate x) (rn_lock_ref x) v (cores C) (cores C')"
proof -
  note t = rc_okD(1) [OF ok]
  let ?ps = "rc_page_size C"
  note k = node_key [OF t shape_Some [OF x(1)] x(2), unfolded core_simps]
  obtain t ck where "shape C p = Some t" and y0: "child_key ?ps (tn_key x) = Inr ck"
    using tree_okD(3) [OF t shape_Some [OF x(1)] x(2)] x(3) by (auto simp: node_ok_def)
  then obtain y where y: "rc_nodes C p = Some y" by (elim shape_SomeE)
  have "?ps \<le> rk_len (rk_drop L (tn_key x))" using L k(2) by (simp add: dvd_imp_le dvd_diff_nat)
  then obtain ck2 where ck2: "child_key ?ps (rk_drop L (tn_key x)) = Inr ck2" using child_key_Inr tree_okD(1) [OF t] by blast
  have fresh: "rc_nodes C (rc_counter C) = None" using heap_bound_fresh [OF rc_okD(2) [OF ok]] by simp
  show ?thesis
    unfolding split_node_def core_split_def using x y y0 ck2 L fresh
    by (auto simp: Let_def cores_def fun_eq_iff core_def tree_node.truncate_def new_tree_node_def)
qed

text \<open>The indices that the tree holds.\<close>

definition slots :: "cores \<Rightarrow> int multiset" where
  "slots K = core_sum (\<lambda>n (x, l). case tn_value x of None \<Rightarrow> {#} | Some v \<Rightarrow> mset v) K"

text \<open>
  Indices in pages: the index at position \<open>j\<close> has the offset of \<open>j\<close> in its page, and the indices of one
  page are together. Allocated slots have this layout.
\<close>

definition lay :: "nat \<Rightarrow> int list \<Rightarrow> bool" where
  "lay ps v = (\<forall>j < length v. v ! j mod int ps = int (j mod ps) \<and> v ! j div int ps = v ! (j div ps * ps) div int ps)"

definition laid :: "nat \<Rightarrow> cores \<Rightarrow> bool" where
  "laid ps K = (\<forall>n x l v. K n = Some (x, l) \<longrightarrow> tn_value x = Some v \<longrightarrow> lay ps v)"

lemma lay_Nil [simp]: "lay ps []"
  by (simp add: lay_def)

lemma lay_one: "lay 1 v"
  by (simp add: lay_def)

lemma lay_take: "lay ps v \<Longrightarrow> lay ps (take n v)"
proof -
  assume l: "lay ps v"
  have "j div ps * ps \<le> j" for j by simp
  then have "j div ps * ps < n" if "j < n" for j using that le_less_trans by blast
  then show ?thesis using l by (simp add: lay_def)
qed

lemma lay_drop:
  assumes "lay ps v" "ps dvd n"
  shows "lay ps (drop n v)"
proof (cases "ps = 0")
  case False
  obtain k where n: "n = ps * k" using assms(2) by auto
  have "v ! (n + j) mod int ps = int (j mod ps) \<and> v ! (n + j) div int ps = v ! (n + j div ps * ps) div int ps" if "n + j < length v" for j
  proof -
    have "(n + j) mod ps = j mod ps" "(n + j) div ps * ps = n + j div ps * ps" using False n by (simp_all add: algebra_simps)
    then show ?thesis using assms(1) that unfolding lay_def by metis
  qed
  then show ?thesis by (simp add: lay_def)
qed (use assms in simp)

lemma laid_upd: "laid ps K \<Longrightarrow> (\<And>v. tn_value (fst k) = Some v \<Longrightarrow> lay ps v) \<Longrightarrow> laid ps (K(n \<mapsto> k))"
  by (auto simp: laid_def)

lemma laid_del: "laid ps K \<Longrightarrow> laid ps (K(n := None))"
  by (auto simp: laid_def)

lemma laidD: "laid ps K \<Longrightarrow> K n = Some (x, l) \<Longrightarrow> tn_value x = Some v \<Longrightarrow> lay ps v"
  unfolding laid_def by blast

lemma split_laid:
  assumes sp: "core_split ps m c p L x l v K K'" and la: "laid ps K"
  shows "laid ps K'"
proof -
  obtain y lp ck ck2 where a: "K c = Some (x, l)" "K p = Some (y, lp)" "tn_value x = Some v" "ps dvd L"
    and K': "K' = K(p \<mapsto> (y\<lparr>tn_children := od_set ck m (tn_children y)\<rparr>, lp),
         m \<mapsto> (\<lparr>tn_children = [(ck2, c)], tn_parent = Some p, tn_key = rk_take L (tn_key x), tn_value = Some (take L v)\<rparr>, l),
         c \<mapsto> (x\<lparr>tn_parent := Some m, tn_key := rk_drop L (tn_key x), tn_value := Some (drop L v)\<rparr>, l))"
    using sp unfolding core_split_def by blast
  show ?thesis unfolding K'
    by (intro laid_upd la) (use laidD [OF la a(1,3)] laidD [OF la a(2)] a(4) in \<open>auto intro: lay_take lay_drop\<close>)
qed

lemma split_slots:
  assumes ok: "tree_ok ps bg rt (shape_of K)" and "finite (dom K)" and sp: "core_split ps m c p L x l v K K'"
  shows "slots K' = slots K"
proof -
  obtain y lp ck ck2 where a: "K c = Some (x, l)" "K p = Some (y, lp)" "K m = None" "tn_value x = Some v"
    and K': "K' = K(p \<mapsto> (y\<lparr>tn_children := od_set ck m (tn_children y)\<rparr>, lp),
         m \<mapsto> (\<lparr>tn_children = [(ck2, c)], tn_parent = Some p, tn_key = rk_take L (tn_key x), tn_value = Some (take L v)\<rparr>, l),
         c \<mapsto> (x\<lparr>tn_parent := Some m, tn_key := rk_drop L (tn_key x), tn_value := Some (drop L v)\<rparr>, l))"
    using sp unfolding core_split_def by blast
  obtain z where "p \<noteq> c" "m \<noteq> c" "m \<noteq> p" by (rule is_splitE [OF ok core_split_shape [OF sp]])
  then show ?thesis unfolding slots_def K' using a assms(2)
    by (intro core_sum_split) (auto simp flip: mset_append)
qed

subsection \<open>Evictable leaves\<close>

text \<open>The fields that the operations on the tree leave alone.\<close>

definition same_env :: "radix_cache \<Rightarrow> radix_cache \<Rightarrow> bool" where
  "same_env C C' =
     (C' = C\<lparr>rc_nodes := rc_nodes C', rc_counter := rc_counter C', rc_evictable_size := rc_evictable_size C',
        rc_protected_size := rc_protected_size C', rc_evictable_leaves := rc_evictable_leaves C'\<rparr>)"

lemma same_env_iff:
  "same_env C C' \<longleftrightarrow> rc_disable C' = rc_disable C \<and> rc_page_size C' = rc_page_size C \<and> rc_is_eagle C' = rc_is_eagle C \<and>
     rc_disable_finished_insert C' = rc_disable_finished_insert C \<and> rc_eviction_policy C' = rc_eviction_policy C \<and>
     rc_root C' = rc_root C \<and> rc_allocator C' = rc_allocator C \<and> rc_req_to_token C' = rc_req_to_token C"
  by (cases C; cases C') (auto simp: same_env_def)

lemma same_env_refl [simp]: "same_env C C"
  by (simp add: same_env_iff)

lemma same_env_trans: "same_env C C' \<Longrightarrow> same_env C' C'' \<Longrightarrow> same_env C C''"
  by (simp add: same_env_iff)

lemma touches_env: "touches C C' \<Longrightarrow> same_env C C'"
  by (simp add: same_env_iff touchesD)

lemma update_leaf_status_env [simp]: "same_env C (update_leaf_status n C)"
  by (simp add: update_leaf_status_def same_env_iff split: option.split)

lemma set_set_add [simp]: "set (set_add n xs) = insert n (set xs)" "distinct xs \<Longrightarrow> distinct (set_add n xs)"
  by (auto simp: set_add_def)

lemma update_leaf_status_fields [simp]:
  "rc_nodes (update_leaf_status n C) = rc_nodes C" "rc_counter (update_leaf_status n C) = rc_counter C"
  "rc_evictable_size (update_leaf_status n C) = rc_evictable_size C"
  "rc_protected_size (update_leaf_status n C) = rc_protected_size C" "rc_root (update_leaf_status n C) = rc_root C"
  "rc_page_size (update_leaf_status n C) = rc_page_size C" "rc_is_eagle (update_leaf_status n C) = rc_is_eagle C"
  by (simp_all add: update_leaf_status_def split: option.split)

lemma update_leaf_status_cores [simp]: "cores (update_leaf_status n C) = cores C"
  by (simp add: cores_def)

lemma update_leaf_status_effect:
  assumes ok: "tree_ok ps bg rt (shape C)" and x: "rc_nodes C n = Some x" and l: "0 \<le> rn_lock_ref x" "n = rt \<Longrightarrow> 0 < rn_lock_ref x"
  shows "rc_evictable_leaves (update_leaf_status n C) =
    (if free_leaf rt (cores C) n then set_add n (rc_evictable_leaves C) else removeAll n (rc_evictable_leaves C))"
proof -
  have val: "\<not> node_evicted z" if "rc_nodes C k = Some z" for k z
    using node_key(4) [OF ok shape_Some [OF that]] tree_okD(2) [OF ok] shape_Some [OF that]
    by (cases "k = rt") (auto simp: node_evicted_def)
  have "has_cached_child C x \<longleftrightarrow> tn_children x \<noteq> []"
  proof (cases "tn_children x")
    case (Cons e es)
    then have "od_get (tn_children x) (fst e) = Some (snd e)" by (cases e) simp
    then obtain t where "shape C (snd e) = Some t" using tree_okD(4) [OF ok shape_Some [OF x], of "fst e" "snd e"] by auto
    then obtain z where z: "rc_nodes C (snd e) = Some z" by (elim shape_SomeE)
    show ?thesis using Cons z val [OF z] by (simp add: has_cached_child_def)
  qed (simp add: has_cached_child_def)
  then show ?thesis using x l val [OF x]
    by (auto simp: update_leaf_status_def free_leaf_def cores_def core_def)
qed

text \<open>The set is right except at the nodes in \<open>X\<close>.\<close>

definition leaves_ok :: "nat set \<Rightarrow> radix_cache \<Rightarrow> bool" where
  "leaves_ok X C = (distinct (rc_evictable_leaves C) \<and>
     (\<forall>n. n \<notin> X \<longrightarrow> (n \<in> set (rc_evictable_leaves C) \<longleftrightarrow> free_leaf (rc_root C) (cores C) n)))"

lemma leaves_ok_update:
  assumes "leaves_ok X C" and ok: "tree_ok ps bg (rc_root C) (shape C)" and k: "cores C n = Some (z, l)"
    and l: "0 \<le> l" "n = rc_root C \<Longrightarrow> 0 < l"
  shows "leaves_ok (X - {n}) (update_leaf_status n C)"
proof -
  obtain x where x: "rc_nodes C n = Some x" "rn_lock_ref x = l" using k unfolding cores_Some by (auto simp: core_def)
  then show ?thesis using assms(1) l unfolding leaves_ok_def
    by (auto simp: update_leaf_status_effect [OF ok x(1)] distinct_removeAll)
qed

lemma rc_okI:
  assumes "tree_ok (rc_page_size C) (rc_is_eagle C) (rc_root C) (shape C)" "heap_bound (rc_counter C) (cores C)"
    "locks_ok (rc_root C) hs (cores C)"
    "rc_evictable_size C = tokens (rc_root C) (\<lambda>l. l = 0) (cores C)"
    "rc_protected_size C = tokens (rc_root C) (\<lambda>l. l > 0) (cores C)"
    "leaves_ok {} C"
  shows "rc_ok C hs"
  using assms by (simp add: rc_ok_def leaves_ok_def)

lemma rc_ok_leaves: "rc_ok C hs \<Longrightarrow> leaves_ok {} C"
  by (simp add: leaves_ok_def rc_okD(6,7))

lemma rc_ok_lock:
  assumes ok: "rc_ok C hs" and "rc_nodes C n = Some x"
  shows "0 \<le> rn_lock_ref x" "n = rc_root C \<Longrightarrow> rn_lock_ref x = 1"
    "n \<noteq> rc_root C \<Longrightarrow> rn_lock_ref x = lock_count (shape C) hs n"
proof -
  have c: "cores C n = Some (tree_node.truncate x, rn_lock_ref x)" using assms(2) by (simp add: cores_def core_def)
  show 1: "n = rc_root C \<Longrightarrow> rn_lock_ref x = 1" and 2: "n \<noteq> rc_root C \<Longrightarrow> rn_lock_ref x = lock_count (shape C) hs n"
    using rc_okD(3) [OF ok] c by (auto simp: locks_ok_def)
  show "0 \<le> rn_lock_ref x" using 1 2 by (cases "n = rc_root C") (simp_all add: lock_count_def)
qed

subsection \<open>Adding a leaf keeps the invariant\<close>

lemma add_leaf_cores:
  assumes "rc_nodes C n = Some y" "rc_nodes C (rc_counter C) = None"
  shows "cores (add_leaf birth priority chunked n key ck val C) =
    (cores C)(n \<mapsto> (tree_node.truncate y\<lparr>tn_children := od_set ck (rc_counter C) (tn_children y)\<rparr>, rn_lock_ref y),
       rc_counter C \<mapsto> (\<lparr>tn_children = [], tn_parent = Some n, tn_key = key, tn_value = Some val\<rparr>, 0))"
proof -
  have "n \<noteq> rc_counter C" using assms by auto
  then show ?thesis using assms
    by (auto simp: add_leaf_def Let_def cores_def upd_node_def inc_hit_count_def core_def tree_node.truncate_def new_tree_node_def fun_eq_iff)
qed

lemma add_leaf_env: "same_env C (add_leaf birth priority chunked n key ck val C)"
  unfolding add_leaf_def Let_def
  by (rule same_env_trans [OF same_env_trans [OF _ update_leaf_status_env] update_leaf_status_env])
    (simp add: same_env_iff upd_node_def inc_hit_count_def)

lemma add_leaf_fields:
  "rc_counter (add_leaf birth priority chunked n key ck val C) = rc_counter C + 1"
  "rc_evictable_size (add_leaf birth priority chunked n key ck val C) = rc_evictable_size C + int (rk_len key)"
  "rc_protected_size (add_leaf birth priority chunked n key ck val C) = rc_protected_size C"
  by (simp_all add: add_leaf_def Let_def upd_node_def inc_hit_count_def)

lemma new_leaf_locks:
  assumes ok: "tree_ok ps bg rt (shape_of K)" and nl: "is_new_leaf ps bg rt m p k v (shape_of K) (shape_of K')"
    and K': "K' = K(p \<mapsto> (y', ly), m \<mapsto> (z, 0))" "K p = Some (y, ly)" "K m = None" and lk: "locks_ok rt hs K"
  shows "locks_ok rt hs K'"
proof -
  have mr: "m \<noteq> rt" "m \<noteq> p" using tree_okD(2) [OF ok] K'(2,3) by (auto simp: shape_of_def)
  have hs: "h \<noteq> m" if "h \<in> set hs" for h using lk K'(3) that by (auto simp: locks_ok_def)
  have same: "lock_count (shape_of K') hs n = lock_count (shape_of K) hs n" for n
    by (rule lock_count_cong) (use new_leaf_path [OF ok nl hs] in \<open>simp add: below_def\<close>)
  have "\<not> below (shape_of K) m h" if h: "h \<in> set hs" for h
  proof
    assume "below (shape_of K) m h"
    then obtain e us vs where "path (shape_of K) e m us vs h" by (auto simp: below_def)
    then obtain c x where "shape_of K c = Some x" "tn_parent x = Some m"
      unfolding path_iff [of "shape_of K" e m] using hs [OF h] by auto
    then show False using no_link_to_dead(1) [OF ok, of m] K'(3) by simp
  qed
  then have "lock_count (shape_of K) hs m = 0" by (simp add: lock_count_def)
  then show ?thesis using lk mr K' same by (auto simp: locks_ok_def split: if_splits)
qed

lemma core_sum_leaf:
  fixes w :: "nat \<Rightarrow> tree_node \<times> int \<Rightarrow> 'a :: cancel_comm_monoid_add"
  assumes "finite (dom K)" "K n = Some k" "K m = None" "w n k' = w n k"
  shows "core_sum w (K(n \<mapsto> k', m \<mapsto> z)) = core_sum w K + w m z"
proof -
  have "core_sum w (K(n \<mapsto> k', m \<mapsto> z)) = core_sum w (K(n \<mapsto> k')) + w m z" by (rule core_sum_new) (use assms in auto)
  also have "core_sum w (K(n \<mapsto> k')) = core_sum w K" by (rule core_sum_same) (use assms in auto)
  finally show ?thesis .
qed

lemma root_live: "rc_ok C hs \<Longrightarrow> rc_nodes C (rc_root C) \<noteq> None"
  using rc_okD(3) [of C hs] by (auto simp: locks_ok_def cores_def)

text \<open>The state before the two calls of \<open>_update_leaf_status\<close>.\<close>

lemma add_leaf_leaves:
  assumes ok: "rc_ok C hs" and y: "rc_nodes C n = Some y" and C': "C' = add_leaf birth priority chunked n key ck val C"
    and t': "tree_ok (rc_page_size C) (rc_is_eagle C) (rc_root C) (shape C')"
  shows "leaves_ok {} C'"
proof -
  let ?m = "rc_counter C" and ?rt = "rc_root C"
  have fresh: "rc_nodes C ?m = None" using heap_bound_fresh [OF rc_okD(2) [OF ok]] by simp
  note K' = add_leaf_cores [OF y fresh, of birth priority chunked key ck val, folded C']
  define C4 where "C4 = (let C3 = upd_node n (\<lambda>x. x\<lparr>tn_children := od_set ck ?m (tn_children x)\<rparr>)
     (inc_hit_count ?m chunked (C\<lparr>rc_counter := ?m + 1, rc_nodes := (rc_nodes C)(?m \<mapsto> (new_tree_node birth ?m priority)
        \<lparr>tn_parent := Some n, tn_key := key, tn_value := Some val\<rparr>)\<rparr>)) in C3\<lparr>rc_evictable_size := rc_evictable_size C3 + int (rk_len key)\<rparr>)"
  have C'4: "C' = update_leaf_status ?m (update_leaf_status n C4)" by (simp add: C' add_leaf_def C4_def Let_def)
  have K4: "cores C4 = cores C'" by (simp add: C'4)
  have r4: "rc_root C4 = ?rt" by (simp add: C4_def Let_def upd_node_def inc_hit_count_def)
  have mn: "?m \<noteq> n" "?m \<noteq> ?rt" using fresh y root_live [OF ok] by auto
  have "rc_evictable_leaves C4 = rc_evictable_leaves C" by (simp add: C4_def Let_def upd_node_def inc_hit_count_def)
  moreover have "free_leaf ?rt (cores C') k = free_leaf ?rt (cores C) k" if "k \<notin> {n, ?m}" for k
    using that by (simp add: free_leaf_def K')
  ultimately have "leaves_ok {n, ?m} C4" using rc_ok_leaves [OF ok] K4 r4 by (simp add: leaves_ok_def)
  then have "leaves_ok ({n, ?m} - {n}) (update_leaf_status n C4)"
    by (rule leaves_ok_update) (use t' K4 r4 K' mn rc_ok_lock(1,2) [OF ok y] in \<open>auto simp: fun_upd_def\<close>)
  then have "leaves_ok ({n, ?m} - {n} - {?m}) C'" unfolding C'4
    by (rule leaves_ok_update) (use t' K4 r4 K' mn in \<open>auto simp: fun_upd_def\<close>)
  then show ?thesis by (rule back_subst [where P = "\<lambda>X. leaves_ok X C'"]) auto
qed

lemma add_leaf_effect:
  assumes ok: "rc_ok C hs" and y: "rc_nodes C n = Some y" and ck: "child_key (rc_page_size C) key = Inr ck" "od_get (tn_children y) ck = None"
    and key: "0 < rk_len key" "rc_page_size C dvd rk_len key" "rk_is_bigram key = rc_is_eagle C" "length val = rk_len key"
      "n \<noteq> rc_root C \<longrightarrow> rk_extra_key (tn_key y) = rk_extra_key key"
    and C': "C' = add_leaf birth priority chunked n key ck val C"
  shows "rc_ok C' hs" "is_new_leaf (rc_page_size C) (rc_is_eagle C) (rc_root C) (rc_counter C) n key val (shape C) (shape C')"
    "slots (cores C') = slots (cores C) + mset val" "laid ps (cores C) \<Longrightarrow> lay ps val \<Longrightarrow> laid ps (cores C')"
proof -
  let ?m = "rc_counter C" and ?rt = "rc_root C"
  note t = rc_okD(1) [OF ok] and f = heap_bound_finite [OF rc_okD(2) [OF ok]]
  have fresh: "rc_nodes C ?m = None" using heap_bound_fresh [OF rc_okD(2) [OF ok]] by simp
  have env: "rc_page_size C' = rc_page_size C" "rc_is_eagle C' = rc_is_eagle C" "rc_root C' = ?rt"
    using add_leaf_env [of C birth priority chunked n key ck val] by (simp_all add: C' same_env_iff)
  note K' = add_leaf_cores [OF y fresh, of birth priority chunked key ck val, folded C']
  have Ky: "cores C n = Some (tree_node.truncate y, rn_lock_ref y)" using y by (simp add: cores_def core_def)
  have mn: "?m \<noteq> n" "?m \<noteq> ?rt" using fresh y root_live [OF ok] by auto
  show nl: "is_new_leaf (rc_page_size C) (rc_is_eagle C) ?rt ?m n key val (shape C) (shape C')"
    unfolding is_new_leaf_def K' using shape_Some [OF y] fresh ck key
    by (intro exI [of _ "tree_node.truncate y"] exI [of _ ck] conjI) simp_all
  note sums = core_sum_leaf [OF f Ky, of ?m]
  show "slots (cores C') = slots (cores C) + mset val"
    unfolding slots_def K' by (subst sums) (use fresh in simp_all)
  show "laid ps (cores C) \<Longrightarrow> lay ps val \<Longrightarrow> laid ps (cores C')"
    unfolding K' using laidD [of ps "cores C" n, OF _ Ky] by (intro laid_upd) auto
  have tok: "tokens ?rt P (cores C') = tokens ?rt P (cores C) + (if P 0 then int (rk_len key) else 0)" for P
    unfolding tokens_def K' by (subst sums) (use fresh mn in simp_all)
  have t': "tree_ok (rc_page_size C) (rc_is_eagle C) ?rt (shape C')" by (rule new_leaf_tree_ok [OF t nl])
  have "locks_ok ?rt hs (cores C')" by (rule new_leaf_locks [OF t nl K' Ky _ rc_okD(3) [OF ok]]) (use fresh in simp)
  moreover have cnt: "rc_counter C' = ?m + 1" by (simp add: C' add_leaf_fields)
  have "heap_bound (rc_counter C') (cores C')"
    unfolding K' cnt using heap_bound_mono [OF rc_okD(2) [OF ok]] heap_boundD [OF rc_okD(2) [OF ok] Ky]
    by (intro heap_bound_upd) auto
  ultimately show "rc_ok C' hs"
    using add_leaf_leaves [OF ok y C' t'] t' env tok rc_okD(4,5) [OF ok] by (intro rc_okI) (simp_all add: C' add_leaf_fields)
qed

subsection \<open>Deleting a leaf keeps the invariant\<close>

lemma del_leaf_locks:
  assumes ok: "tree_ok ps bg rt (shape_of K)" and dl: "is_del_leaf ps m p (shape_of K) (shape_of K')"
    and K': "K' = (K(p \<mapsto> (y', ly)))(m := None)" "K p = Some (y, ly)" and lk: "locks_ok rt hs K" and mh: "m \<notin> set hs"
  shows "locks_ok rt hs K'"
proof -
  have mr: "m \<noteq> rt" using dl parent_not_root [OF ok] by (auto simp: is_del_leaf_def)
  have "h \<noteq> m" if "h \<in> set hs" for h using that mh by auto
  then have "lock_count (shape_of K') hs n = lock_count (shape_of K) hs n" for n
    by (intro lock_count_cong) (simp add: below_def del_leaf_path [OF ok dl])
  moreover have "\<exists>z'. K n = Some (z', l)" if "K' n = Some (z, l)" for n z l using that K' by (auto split: if_splits)
  moreover have "set hs \<subseteq> dom K'" "\<exists>z. K' rt = Some (z, 1)" using lk mh mr K' by (auto simp: locks_ok_def)
  ultimately show ?thesis using lk unfolding locks_ok_def by metis
qed

lemma lock_zero_no_handle: "lock_count S hs n = 0 \<Longrightarrow> n \<notin> set hs"
  using path_nil [of S _ n] by (auto simp: lock_count_def below_def filter_empty_conv)

text \<open>The state before the call of \<open>_update_leaf_status\<close> in \<open>_delete_leaf\<close>.\<close>

definition cut_leaf :: "nat \<Rightarrow> nat \<Rightarrow> radix_node \<Rightarrow> radix_node \<Rightarrow> child_key \<Rightarrow> radix_cache \<Rightarrow> radix_cache" where
  "cut_leaf n p x y ck C =
     C\<lparr>rc_nodes := ((rc_nodes C)(p \<mapsto> y\<lparr>tn_children := od_del ck (tn_children y)\<rparr>))(n := None),
       rc_evictable_size := rc_evictable_size C - int (rk_len (tn_key x)),
       rc_evictable_leaves := removeAll n (rc_evictable_leaves C)\<rparr>"

lemma cut_leaf_cores:
  "cores (cut_leaf n p x y ck C) =
     ((cores C)(p \<mapsto> (tree_node.truncate y\<lparr>tn_children := od_del ck (tn_children y)\<rparr>, rn_lock_ref y)))(n := None)"
  by (auto simp: cut_leaf_def cores_def core_def tree_node.truncate_def fun_eq_iff)

lemma delete_leaf_cut:
  assumes ok: "rc_ok C hs" and fl: "free_leaf (rc_root C) (cores C) n"
  obtains x p y ck v where "rc_nodes C n = Some x" "n \<noteq> rc_root C" "rn_lock_ref x = 0" "tn_children x = []"
    "tn_parent x = Some p" "rc_nodes C p = Some y" "p \<noteq> n" "tn_value x = Some v" "length v = rk_len (tn_key x)"
    "child_key (rc_page_size C) (tn_key x) = Inr ck"
    "delete_leaf n C = Inr (update_leaf_status p (cut_leaf n p x y ck C))"
proof -
  note t = rc_okD(1) [OF ok]
  obtain x where x: "rc_nodes C n = Some x" "n \<noteq> rc_root C" "rn_lock_ref x = 0" "tn_children x = []"
    using fl unfolding free_leaf_def cores_Some by (auto simp: core_def tree_node.truncate_def)
  note no = tree_okD(3) [OF t shape_Some [OF x(1)] x(2)]
  obtain p yt ck v where p: "tn_parent x = Some p" "shape C p = Some yt" "child_key (rc_page_size C) (tn_key x) = Inr ck"
    "od_get (tn_children yt) ck = Some n" "tn_value x = Some v" "length v = rk_len (tn_key x)"
    using no unfolding node_ok_def core_simps by blast
  obtain y where y: "rc_nodes C p = Some y" "yt = tree_node.truncate y" by (rule shape_SomeE [OF p(2)])
  have "p \<noteq> n" using parent_neq [OF t shape_Some [OF x(1)]] p(1) by simp
  then show thesis using that [OF x(1-4) p(1) y(1) _ p(5,6,3)] x p y by (simp add: delete_leaf_def cut_leaf_def)
qed

lemma core_sum_cut:
  fixes w :: "nat \<Rightarrow> tree_node \<times> int \<Rightarrow> 'a :: cancel_comm_monoid_add"
  assumes "finite (dom K)" "K n = Some k" "K p = Some (y, l)" "p \<noteq> n" "w p (y', l) = w p (y, l)"
  shows "core_sum w ((K(p \<mapsto> (y', l)))(n := None)) + w n k = core_sum w K"
proof -
  have "core_sum w ((K(p \<mapsto> (y', l)))(n := None)) + w n k = core_sum w (K(p \<mapsto> (y', l)))" by (rule core_sum_del) (use assms in auto)
  also have "\<dots> = core_sum w K" by (rule core_sum_same) (use assms in auto)
  finally show ?thesis .
qed

lemma cut_leaf_leaves:
  assumes ok: "rc_ok C hs" and x: "rc_nodes C n = Some x" "rn_lock_ref x = 0" and p: "rc_nodes C p = Some y" "p \<noteq> n"
    and t: "tree_ok (rc_page_size C) (rc_is_eagle C) (rc_root C) (shape (cut_leaf n p x y ck C))"
  shows "leaves_ok {} (update_leaf_status p (cut_leaf n p x y ck C))"
proof -
  let ?C = "cut_leaf n p x y ck C"
  have r: "rc_root ?C = rc_root C" "rc_evictable_leaves ?C = removeAll n (rc_evictable_leaves C)" by (simp_all add: cut_leaf_def)
  have "leaves_ok {p} ?C" using rc_ok_leaves [OF ok] unfolding leaves_ok_def r
    by (auto simp: cut_leaf_cores free_leaf_def distinct_removeAll)
  then have "leaves_ok ({p} - {p}) (update_leaf_status p ?C)"
    by (rule leaves_ok_update) (use t r p rc_ok_lock(1,2) [OF ok p(1)] in \<open>auto simp: cut_leaf_cores\<close>)
  then show ?thesis by simp
qed

lemma delete_leaf_effect:
  assumes ok: "rc_ok C hs" and fl: "free_leaf (rc_root C) (cores C) n"
  obtains C' x p v where "delete_leaf n C = Inr C'" "rc_ok C' hs" "same_env C C'" "rc_nodes C n = Some x" "tn_parent x = Some p"
    "tn_value x = Some v" "is_del_leaf (rc_page_size C) n p (shape C) (shape C')"
    "slots (cores C) = slots (cores C') + mset v" "rc_evictable_size C' = rc_evictable_size C - int (length v)"
    "rc_protected_size C' = rc_protected_size C" "rc_nodes C' p \<noteq> None" "\<And>k. k \<noteq> p \<Longrightarrow> k \<noteq> n \<Longrightarrow> rc_nodes C' k = rc_nodes C k"
    "card (dom (rc_nodes C')) < card (dom (rc_nodes C))" "\<And>ps. laid ps (cores C) \<Longrightarrow> laid ps (cores C') \<and> lay ps v"
proof -
  let ?rt = "rc_root C"
  note t = rc_okD(1) [OF ok] and f = heap_bound_finite [OF rc_okD(2) [OF ok]]
  obtain x p y ck v where x: "rc_nodes C n = Some x" "n \<noteq> ?rt" "rn_lock_ref x = 0" "tn_children x = []"
    and p: "tn_parent x = Some p" "rc_nodes C p = Some y" "p \<noteq> n" "tn_value x = Some v" "length v = rk_len (tn_key x)"
      "child_key (rc_page_size C) (tn_key x) = Inr ck"
    and d: "delete_leaf n C = Inr (update_leaf_status p (cut_leaf n p x y ck C))"
    by (rule delete_leaf_cut [OF ok fl])
  define C1 where "C1 = cut_leaf n p x y ck C"
  note K1 = cut_leaf_cores [of n p x y ck C, folded C1_def]
  have Kn: "cores C n = Some (tree_node.truncate x, 0)" and Kp: "cores C p = Some (tree_node.truncate y, rn_lock_ref y)"
    using x p by (simp_all add: cores_def core_def)
  have env: "same_env C C1" by (simp add: C1_def cut_leaf_def same_env_iff)
  have dl: "is_del_leaf (rc_page_size C) n p (shape C) (shape C1)"
    unfolding is_del_leaf_def K1 using shape_Some [OF x(1)] shape_Some [OF p(2)] x p
    by (intro exI [of _ "tree_node.truncate x"] exI [of _ "tree_node.truncate y"] exI [of _ ck] conjI) simp_all
  note t1 = del_leaf_tree_ok [OF t dl]
  have nh: "n \<notin> set hs" using rc_ok_lock(3) [OF ok x(1,2)] x(3) lock_zero_no_handle by simp
  note sums = core_sum_cut [OF f Kn Kp p(3), of _ "tree_node.truncate y\<lparr>tn_children := od_del ck (tn_children y)\<rparr>", folded K1]
  have sl: "slots (cores C) = slots (cores C1) + mset v"
    unfolding slots_def by (subst sums [symmetric]) (use p in simp_all)
  have tok: "tokens ?rt P (cores C) = tokens ?rt P (cores C1) + (if P 0 then int (length v) else 0)" for P
    unfolding tokens_def by (subst sums [symmetric]) (use p x in simp_all)
  have lo: "locks_ok ?rt hs (cores C1)" by (rule del_leaf_locks [OF t dl K1 Kp rc_okD(3) [OF ok] nh])
  have le: "leaves_ok {} (update_leaf_status p C1)" using cut_leaf_leaves [OF ok x(1,3) p(2,3) t1 [unfolded C1_def]] by (simp add: C1_def)
  have hb: "heap_bound (rc_counter C) (cores C1)" 
    unfolding K1 by (intro heap_bound_del heap_bound_upd rc_okD(2) [OF ok] heap_boundD [OF rc_okD(2) [OF ok] Kp])
  have sizes: "rc_evictable_size C1 = rc_evictable_size C - int (length v)" "rc_protected_size C1 = rc_protected_size C"
    "rc_counter C1 = rc_counter C" by (simp_all add: C1_def cut_leaf_def p)
  have dom: "dom (rc_nodes C1) = dom (rc_nodes C) - {n}" using p(2) by (auto simp: C1_def cut_leaf_def)
  have "rc_ok (update_leaf_status p C1) hs"
    using t1 hb lo le env sizes tok rc_okD(4,5) [OF ok] by (intro rc_okI) (simp_all add: same_env_iff)
  moreover have "laid ps (cores C1) \<and> lay ps v" if la: "laid ps (cores C)" for ps
    unfolding K1 using laidD [OF la Kn] laidD [OF la Kp] p(4) by (auto intro!: laid_del laid_upd la)
  moreover have "card (dom (rc_nodes C1)) < card (dom (rc_nodes C))"
    unfolding dom using x(1) f by (intro psubset_card_mono) (auto simp: cores_def dom_def)
  ultimately show thesis
    using that [OF d [folded C1_def] _ same_env_trans [OF env update_leaf_status_env] x(1) p(1,4)] dl sl sizes p(3)
    by (simp add: C1_def cut_leaf_def)
qed

subsection \<open>Locking and unlocking\<close>

text \<open>The invariant inside the loops, while the counts on a path are being changed.\<close>

definition rc_pre :: "radix_cache \<Rightarrow> bool" where
  "rc_pre C =
     (tree_ok (rc_page_size C) (rc_is_eagle C) (rc_root C) (shape C) \<and> heap_bound (rc_counter C) (cores C) \<and>
      (\<forall>n x l. cores C n = Some (x, l) \<longrightarrow> 0 \<le> l) \<and> (\<exists>x. cores C (rc_root C) = Some (x, 1)) \<and>
      rc_evictable_size C = tokens (rc_root C) (\<lambda>l. l = 0) (cores C) \<and>
      rc_protected_size C = tokens (rc_root C) (\<lambda>l. l > 0) (cores C) \<and> leaves_ok {} C)"

lemma rc_ok_iff_pre: "rc_ok C hs \<longleftrightarrow> rc_pre C \<and> locks_ok (rc_root C) hs (cores C)"
proof
  assume ok: "rc_ok C hs"
  have "0 \<le> l" if "cores C n = Some (x, l)" for n x l
    using that rc_ok_lock(1) [OF ok, of n] unfolding cores_Some by (auto simp: core_def)
  then show "rc_pre C \<and> locks_ok (rc_root C) hs (cores C)"
    using rc_okD [OF ok] rc_ok_leaves [OF ok] unfolding rc_pre_def by (auto simp: locks_ok_def)
next
  assume "rc_pre C \<and> locks_ok (rc_root C) hs (cores C)"
  then show "rc_ok C hs" by (intro rc_okI) (simp_all add: rc_pre_def)
qed

definition bump :: "int \<Rightarrow> nat set \<Rightarrow> cores \<Rightarrow> cores" where
  "bump d X K = (\<lambda>n. map_option (\<lambda>(x, l). (x, if n \<in> X then l + d else l)) (K n))"

lemma shape_of_bump [simp]: "shape_of (bump d X K) = shape_of K"
  by (auto simp: shape_of_def bump_def fun_eq_iff option.map_comp comp_def case_prod_beta)

lemma bump_bump: "X \<inter> Y = {} \<Longrightarrow> bump d X (bump d Y K) = bump d (Y \<union> X) K"
  by (auto simp: bump_def fun_eq_iff option.map_comp comp_def case_prod_beta intro!: option.map_cong)

lemma bump_single: "K n = Some (x, l) \<Longrightarrow> bump d {n} K = K(n \<mapsto> (x, l + d))"
  by (auto simp: bump_def fun_eq_iff case_prod_beta option.map_id0 [unfolded id_def] option.map_id)

lemma lock_step:
  assumes pre: "rc_pre C" and x: "rc_nodes C n = Some x" "n \<noteq> rc_root C" and l: "0 \<le> rn_lock_ref x + d"
    and C1: "C1 = C\<lparr>rc_evictable_size := rc_evictable_size C + \<delta>, rc_protected_size := rc_protected_size C - \<delta>\<rparr>"
    and \<delta>: "\<delta> = (if rn_lock_ref x + d = 0 then int (rk_len (tn_key x)) else 0) - (if rn_lock_ref x = 0 then int (rk_len (tn_key x)) else 0)"
    and C2: "C2 = update_leaf_status n (upd_node n (\<lambda>x. x\<lparr>rn_lock_ref := rn_lock_ref x + d\<rparr>) C1)"
  shows "rc_pre C2 \<and> cores C2 = bump d {n} (cores C) \<and> same_env C C2 \<and> rc_counter C2 = rc_counter C \<and>
    rc_evictable_size C2 = rc_evictable_size C + \<delta>"
proof -
  define C3 where "C3 = upd_node n (\<lambda>x. x\<lparr>rn_lock_ref := rn_lock_ref x + d\<rparr>) C1"
  have Kn: "cores C n = Some (tree_node.truncate x, rn_lock_ref x)" using x by (simp add: cores_def core_def)
  have K3: "cores C3 = (cores C)(n \<mapsto> (tree_node.truncate x, rn_lock_ref x + d))"
    using x by (auto simp: C3_def C1 cores_def upd_node_def core_def fun_eq_iff tree_node.truncate_def)
  have env3: "same_env C C3" by (simp add: C3_def C1 same_env_iff upd_node_def)
  have f3: "rc_counter C3 = rc_counter C" "rc_evictable_size C3 = rc_evictable_size C + \<delta>" "rc_protected_size C3 = rc_protected_size C - \<delta>"
    "rc_evictable_leaves C3 = rc_evictable_leaves C" by (simp_all add: C3_def C1 upd_node_def)
  have fin: "finite (dom (cores C))" using pre heap_bound_finite by (auto simp: rc_pre_def)
  have tok: "tokens (rc_root C) P (cores C3) = tokens (rc_root C) P (cores C) +
      (if P (rn_lock_ref x + d) then int (rk_len (tn_key x)) else 0) - (if P (rn_lock_ref x) then int (rk_len (tn_key x)) else 0)" for P
    using core_sum_upd [OF fin Kn, of "\<lambda>n (x, l). if n \<noteq> rc_root C \<and> P l then int (rk_len (tn_key x)) else 0"
        "(tree_node.truncate x, rn_lock_ref x + d)"] x(2)
    unfolding tokens_def K3 by (simp split: if_splits)
  have l0: "0 \<le> rn_lock_ref x" using pre Kn by (auto simp: rc_pre_def)
  have sh: "shape C3 = shape C" using shape_Some [OF x(1)] by (auto simp: K3 fun_eq_iff)
  have "leaves_ok {n} C3" using pre env3 unfolding rc_pre_def leaves_ok_def f3 by (auto simp: free_leaf_def K3 same_env_iff)
  then have "leaves_ok ({n} - {n}) (update_leaf_status n C3)"
    by (rule leaves_ok_update) (use pre sh env3 x(2) K3 l in \<open>auto simp: rc_pre_def same_env_iff\<close>)
  then have "leaves_ok {} C2" by (simp add: C2 C3_def)
  moreover have "same_env C C2" unfolding C2 C3_def [symmetric] by (rule same_env_trans [OF env3 update_leaf_status_env])
  moreover have "cores C2 = bump d {n} (cores C)" by (simp add: C2 C3_def [symmetric] K3 bump_single [of "cores C" n, OF Kn])
  moreover have "heap_bound (rc_counter C3) (cores C3)" unfolding K3 f3 using pre heap_boundD [of "rc_counter C" "cores C" n, OF _ Kn]
    by (intro heap_bound_upd) (simp_all add: rc_pre_def)
  moreover have "0 \<le> lk" if "cores C3 k = Some (z, lk)" for k z lk
    using that pre l by (auto simp: rc_pre_def K3 split: if_splits)
  moreover have "\<exists>z. cores C3 (rc_root C) = Some (z, 1)" using pre x(2) by (simp add: rc_pre_def K3)
  moreover have "rc_evictable_size C3 = tokens (rc_root C) (\<lambda>l. l = 0) (cores C3)"
    "rc_protected_size C3 = tokens (rc_root C) (\<lambda>l. l > 0) (cores C3)"
    using pre tok l l0 by (simp_all add: f3 \<delta> rc_pre_def)
  moreover have "tree_ok (rc_page_size C) (rc_is_eagle C) (rc_root C) (shape C3)" using pre sh by (simp add: rc_pre_def)
  ultimately show ?thesis using env3 f3(1,2) unfolding rc_pre_def C2 C3_def [symmetric] by (simp add: same_env_iff)
qed

text \<open>The nodes that a lock on \<open>n\<close> counts for.\<close>

definition up :: "nat \<Rightarrow> shape \<Rightarrow> nat \<Rightarrow> nat set" where
  "up rt S n = {k. k \<noteq> rt \<and> below S k n}"

lemma below_parent:
  assumes ok: "tree_ok ps bg rt S" and x: "S n = Some x" "tn_parent x = Some p"
  shows "below S k n \<longleftrightarrow> k = n \<or> below S k p"
proof
  assume "below S k n"
  then obtain e us vs where "path S e k us vs n" by (auto simp: below_def)
  from path_last [OF this] show "k = n \<or> below S k p" using x by (auto simp: below_def)
next
  obtain y v where y: "S p = Some y" "p \<noteq> rt \<longrightarrow> rk_extra_key (tn_key y) = rk_extra_key (tn_key x)" "tn_value x = Some v"
    using node_ok_of_parent [OF ok x] x(2) by (auto simp: node_ok_def)
  assume "k = n \<or> below S k p"
  then show "below S k n"
  proof
    assume "below S k p"
    then obtain e us vs where p: "path S e k us vs p" by (auto simp: below_def)
    have "\<exists>us vs. path S (rk_extra_key (tn_key x)) k us vs p"
    proof (cases "p = k")
      case False
      then have "rk_extra_key (tn_key y) = e" "p \<noteq> rt"
        using path_target [OF p] y(1) path_into_root [OF ok] p by auto
      then show ?thesis using p y(2) by auto
    qed (auto intro: path_nil)
    then obtain us vs where "path S (rk_extra_key (tn_key x)) k us vs p" by blast
    then show ?thesis unfolding below_def using path_snoc [of S "rk_extra_key (tn_key x)" k us vs p n x v] x y(3) by blast
  qed (auto simp: below_def intro: path_nil)
qed

lemma up_root: "tree_ok ps bg rt S \<Longrightarrow> up rt S rt = {}"
  using path_into_root by (fastforce simp: up_def below_def)

lemma up_parent:
  assumes ok: "tree_ok ps bg rt S" and x: "S n = Some x" "tn_parent x = Some p" and "n \<noteq> rt"
  shows "up rt S n = insert n (up rt S p)" "n \<notin> up rt S p"
proof -
  show "up rt S n = insert n (up rt S p)" using below_parent [OF ok x] assms(4) by (auto simp: up_def)
  show "n \<notin> up rt S p"
  proof
    assume "n \<in> up rt S p"
    then obtain e us vs where p: "path S e n us vs p" by (auto simp: up_def below_def)
    have "p \<noteq> n" by (rule parent_neq [OF ok x])
    then have "rk_extra_key (tn_key x) = e" using path_namespace [OF ok p x(1) assms(4)] by auto
    moreover obtain v where "tn_value x = Some v" using node_key(4) [OF ok x(1) assms(4)] by auto
    ultimately have "us @ rk_units (tn_key x) = []" using path_self [OF ok path_snoc [of S e n us vs p n x v]] p x by blast
    then show False using node_key(1) [OF ok x(1) assms(4)] tree_okD(1) [OF ok] by simp
  qed
qed

lemma bump_empty [simp]: "bump d {} K = K"
  by (auto simp: bump_def fun_eq_iff option.map_ident case_prod_beta option.map_id0 [unfolded id_def] option.map_id)

text \<open>Both loops, given what one turn does.\<close>

lemma lock_loop_effect:
  fixes f :: "nat \<Rightarrow> int \<Rightarrow> radix_cache \<Rightarrow> (int \<times> radix_cache) res option"
  assumes root: "\<And>\<delta> C. f (rc_root C) \<delta> C = Some (Inr (\<delta>, C))"
    and turn: "\<And>\<delta> C n x p. rc_pre C \<Longrightarrow> rc_nodes C n = Some x \<Longrightarrow> n \<noteq> rc_root C \<Longrightarrow> tn_parent x = Some p \<Longrightarrow> 0 \<le> rn_lock_ref x + i \<Longrightarrow>
      \<exists>C2. rc_pre C2 \<and> cores C2 = bump i {n} (cores C) \<and> same_env C C2 \<and> rc_counter C2 = rc_counter C \<and>
        f n \<delta> C = f p (\<delta> + (rc_evictable_size C2 - rc_evictable_size C)) C2"
    and C: "rc_pre C" "rc_nodes C n \<noteq> None"
    and low: "\<forall>k x l. k \<in> up (rc_root C) (shape C) n \<longrightarrow> cores C k = Some (x, l) \<longrightarrow> 0 \<le> l + i"
  shows "\<exists>\<delta>' C'. f n \<delta> C = Some (Inr (\<delta>', C')) \<and> rc_pre C' \<and> same_env C C' \<and> rc_counter C' = rc_counter C \<and>
    cores C' = bump i (up (rc_root C) (shape C) n) (cores C) \<and> \<delta>' - \<delta> = rc_evictable_size C' - rc_evictable_size C"
proof -
  obtain d :: "nat \<Rightarrow> nat" where d: "\<forall>n x p. shape C n = Some x \<longrightarrow> tn_parent x = Some p \<longrightarrow> d p < d n"
    using C(1) tree_okD(5) unfolding rc_pre_def by blast
  show ?thesis using d C low
  proof (induction "d n" arbitrary: n C \<delta> rule: less_induct)
    case less
    let ?rt = "rc_root C" and ?S = "shape C"
    have t: "tree_ok (rc_page_size C) (rc_is_eagle C) ?rt ?S" using less.prems(2) by (simp add: rc_pre_def)
    show ?case
    proof (cases "n = ?rt")
      case True
      then show ?thesis using less.prems root up_root [OF t] by simp
    next
      case False
      obtain x where x: "rc_nodes C n = Some x" using less.prems(3) by auto
      note Sn = shape_Some [OF x]
      obtain p yt where p: "tn_parent x = Some p" "?S p = Some yt" using tree_okD(3) [OF t Sn False] by (auto simp: node_ok_def)
      have up: "up ?rt ?S n = insert n (up ?rt ?S p)" "n \<notin> up ?rt ?S p" using up_parent [OF t Sn] p(1) False by auto
      have "0 \<le> rn_lock_ref x + i" using less.prems(4) up(1) x by (simp add: cores_def core_def)
      then obtain C2 where C2: "rc_pre C2" "cores C2 = bump i {n} (cores C)" "same_env C C2" "rc_counter C2 = rc_counter C"
        "f n \<delta> C = f p (\<delta> + (rc_evictable_size C2 - rc_evictable_size C)) C2"
        using turn [OF less.prems(2) x False p(1)] by blast
      have S2: "shape C2 = ?S" "rc_root C2 = ?rt" using C2(2,3) by (simp_all add: same_env_iff)
      have p2: "rc_nodes C2 p \<noteq> None" using p(2) S2(1) cores_None [of C2 p] shape_of_None [of "cores C2" p] by auto
      have low2: "\<forall>k z l. k \<in> up (rc_root C2) (shape C2) p \<longrightarrow> cores C2 k = Some (z, l) \<longrightarrow> 0 \<le> l + i"
      proof (intro allI impI)
        fix k z l assume k: "k \<in> up (rc_root C2) (shape C2) p" "cores C2 k = Some (z, l)"
        then have "k \<noteq> n" "k \<in> up ?rt ?S n" using up S2 by auto
        then show "0 \<le> l + i" using less.prems(4) k(2) by (auto simp: C2(2) bump_def)
      qed
      have "d p < d n" using less.prems(1) Sn p(1) by auto
      from less.hyps [OF this less.prems(1) [folded S2(1)] C2(1) p2 low2]
      obtain \<delta>' C' where C': "f p (\<delta> + (rc_evictable_size C2 - rc_evictable_size C)) C2 = Some (Inr (\<delta>', C'))" "rc_pre C'"
        "same_env C2 C'" "rc_counter C' = rc_counter C2" "cores C' = bump i (up ?rt ?S p) (cores C2)"
        "\<delta>' - (\<delta> + (rc_evictable_size C2 - rc_evictable_size C)) = rc_evictable_size C' - rc_evictable_size C2"
        unfolding S2 by blast
      have "cores C' = bump i (up ?rt ?S n) (cores C)" using C'(5) C2(2) up bump_bump [of "up ?rt ?S p" "{n}"] by simp
      then show ?thesis using C' C2 same_env_trans [OF C2(3) C'(3)] by auto
    qed
  qed
qed

lemma inc_lock_turn:
  assumes pre: "rc_pre C" and x: "rc_nodes C n = Some x" "n \<noteq> rc_root C" "tn_parent x = Some p" and l: "0 \<le> rn_lock_ref x + 1"
  shows "\<exists>C2. rc_pre C2 \<and> cores C2 = bump 1 {n} (cores C) \<and> same_env C C2 \<and> rc_counter C2 = rc_counter C \<and>
    inc_lock_loop n \<delta> C = inc_lock_loop p (\<delta> + (rc_evictable_size C2 - rc_evictable_size C)) C2"
proof -
  have l0: "0 \<le> rn_lock_ref x" using pre x(1) unfolding rc_pre_def by (auto simp: cores_def core_def)
  define \<delta>1 where "\<delta>1 = (if rn_lock_ref x + 1 = 0 then int (rk_len (tn_key x)) else 0) - (if rn_lock_ref x = 0 then int (rk_len (tn_key x)) else 0)"
  define C2 where "C2 = update_leaf_status n (upd_node n (\<lambda>x. x\<lparr>rn_lock_ref := rn_lock_ref x + 1\<rparr>)
    (C\<lparr>rc_evictable_size := rc_evictable_size C + \<delta>1, rc_protected_size := rc_protected_size C - \<delta>1\<rparr>))"
  note st = lock_step [OF pre x(1,2) l refl \<delta>1_def C2_def]
  have "inc_lock_loop n \<delta> C = inc_lock_loop p (\<delta> + \<delta>1) C2"
    unfolding C2_def by (subst inc_lock_loop.simps, cases C) (use x l0 in \<open>auto simp: Let_def \<delta>1_def\<close>)
  then show ?thesis using st by auto
qed

lemma dec_lock_turn:
  assumes pre: "rc_pre C" and x: "rc_nodes C n = Some x" "n \<noteq> rc_root C" "tn_parent x = Some p" and l: "0 \<le> rn_lock_ref x + -1"
  shows "\<exists>C2. rc_pre C2 \<and> cores C2 = bump (-1) {n} (cores C) \<and> same_env C C2 \<and> rc_counter C2 = rc_counter C \<and>
    dec_lock_loop n \<delta> C = dec_lock_loop p (\<delta> + (rc_evictable_size C2 - rc_evictable_size C)) C2"
proof -
  define \<delta>1 where "\<delta>1 = (if rn_lock_ref x + -1 = 0 then int (rk_len (tn_key x)) else 0) - (if rn_lock_ref x = 0 then int (rk_len (tn_key x)) else 0)"
  define C2 where "C2 = update_leaf_status n (upd_node n (\<lambda>x. x\<lparr>rn_lock_ref := rn_lock_ref x + -1\<rparr>)
    (C\<lparr>rc_evictable_size := rc_evictable_size C + \<delta>1, rc_protected_size := rc_protected_size C - \<delta>1\<rparr>))"
  note st = lock_step [OF pre x(1,2) l refl \<delta>1_def C2_def]
  have "dec_lock_loop n \<delta> C = dec_lock_loop p (\<delta> + \<delta>1) C2"
    unfolding C2_def by (subst dec_lock_loop.simps, cases C) (use x l in \<open>auto simp: Let_def \<delta>1_def\<close>)
  then show ?thesis using st by auto
qed

lemma core_sum_bump: "(\<And>n x l l'. w n (x, l) = w n (x, l')) \<Longrightarrow> core_sum w (bump d X K) = core_sum w K"
proof -
  assume w: "\<And>n x l l'. w n (x, l) = w n (x, l')"
  have "dom (bump d X K) = dom K" by (auto simp: bump_def)
  then show ?thesis unfolding core_sum_def
    by (intro sum.cong) (use w in \<open>auto simp: bump_def split: prod.split\<close>)
qed

lemma slots_bump [simp]: "slots (bump d X K) = slots K"
  unfolding slots_def by (rule core_sum_bump) simp

lemma laid_bump [simp]: "laid ps (bump d X K) = laid ps K"
  by (auto simp: laid_def bump_def split: option.splits)

lemma lock_count_Cons: "lock_count S (n # hs) k = lock_count S hs k + (if below S k n then 1 else 0)"
  by (simp add: lock_count_def)

lemma lock_count_remove1: "n \<in> set hs \<Longrightarrow> lock_count S (remove1 n hs) k = lock_count S hs k - (if below S k n then 1 else 0)"
proof -
  assume n: "n \<in> set hs"
  have "filter (below S k) (remove1 n hs) = remove1 n (filter (below S k) hs)" by (rule filter_remove1)
  moreover have "n \<in> set (filter (below S k) hs) \<longleftrightarrow> below S k n" using n by simp
  moreover have "below S k n \<Longrightarrow> 0 < length (filter (below S k) hs)" using n by (auto simp: filter_empty_conv)
  ultimately show ?thesis by (auto simp: lock_count_def length_remove1 of_nat_diff Suc_le_eq simp del: filter_remove1)
qed

lemma locks_ok_bump:
  assumes lk: "locks_ok rt hs K"
    and hs': "set hs' \<subseteq> dom K" "\<And>k. k \<noteq> rt \<Longrightarrow> lock_count (shape_of K) hs' k = lock_count (shape_of K) hs k + (if below (shape_of K) k n then d else 0)"
  shows "locks_ok rt hs' (bump d (up rt (shape_of K) n) K)"
proof -
  have "dom (bump d (up rt (shape_of K) n) K) = dom K" by (auto simp: bump_def)
  moreover have "\<exists>x. bump d (up rt (shape_of K) n) K rt = Some (x, 1)" using lk by (auto simp: locks_ok_def bump_def up_def)
  ultimately show ?thesis using lk hs' unfolding locks_ok_def shape_of_bump
    by (auto simp: bump_def up_def)
qed

lemma inc_lock_ref_effect:
  assumes ok: "rc_ok C hs" and "\<not> rc_disable C" and n: "rc_nodes C n \<noteq> None"
  shows "\<exists>\<delta> C'. inc_lock_ref n C = Some (Inr (\<delta>, C')) \<and> rc_ok C' (n # hs) \<and> same_env C C' \<and> rc_counter C' = rc_counter C \<and>
    shape C' = shape C \<and> slots (cores C') = slots (cores C) \<and> \<delta> = rc_evictable_size C' - rc_evictable_size C"
proof -
  have pre: "rc_pre C" and lk: "locks_ok (rc_root C) hs (cores C)" using ok by (simp_all add: rc_ok_iff_pre)
  have "\<forall>k x l. k \<in> up (rc_root C) (shape C) n \<longrightarrow> cores C k = Some (x, l) \<longrightarrow> 0 \<le> l + 1"
    using pre unfolding rc_pre_def by fastforce
  then have "\<exists>\<delta> C'. inc_lock_loop n 0 C = Some (Inr (\<delta>, C')) \<and> rc_pre C' \<and> same_env C C' \<and> rc_counter C' = rc_counter C \<and>
    cores C' = bump 1 (up (rc_root C) (shape C) n) (cores C) \<and> \<delta> - 0 = rc_evictable_size C' - rc_evictable_size C"
    by (intro lock_loop_effect pre n inc_lock_turn) (simp add: inc_lock_loop.simps)
  then obtain \<delta> C' where C': "inc_lock_loop n 0 C = Some (Inr (\<delta>, C'))" "rc_pre C'" "same_env C C'" "rc_counter C' = rc_counter C"
    "cores C' = bump 1 (up (rc_root C) (shape C) n) (cores C)" "\<delta> = rc_evictable_size C' - rc_evictable_size C"
    by auto
  have "locks_ok (rc_root C) (n # hs) (cores C')" unfolding C'(5)
    by (rule locks_ok_bump [OF lk]) (use lk n in \<open>auto simp: lock_count_Cons locks_ok_def cores_def\<close>)
  then show ?thesis using C' assms(2) unfolding rc_ok_iff_pre by (auto simp: inc_lock_ref_def same_env_iff)
qed

lemma dec_lock_ref_effect:
  assumes ok: "rc_ok C hs" and "\<not> rc_disable C" and n: "n \<in> set hs"
  shows "\<exists>\<delta> C'. dec_lock_ref n C = Some (Inr (\<delta>, C')) \<and> rc_ok C' (remove1 n hs) \<and> same_env C C' \<and> rc_counter C' = rc_counter C \<and>
    shape C' = shape C \<and> slots (cores C') = slots (cores C) \<and> \<delta> = rc_evictable_size C' - rc_evictable_size C"
proof -
  have pre: "rc_pre C" and lk: "locks_ok (rc_root C) hs (cores C)" using ok by (simp_all add: rc_ok_iff_pre)
  have "n \<in> dom (cores C)" using lk n unfolding locks_ok_def by blast
  then have live: "rc_nodes C n \<noteq> None" by (simp add: domIff)
  have "\<forall>k x l. k \<in> up (rc_root C) (shape C) n \<longrightarrow> cores C k = Some (x, l) \<longrightarrow> 0 \<le> l + -1"
  proof (intro allI impI)
    fix k x l assume "k \<in> up (rc_root C) (shape C) n" "cores C k = Some (x, l)"
    then have "l = lock_count (shape C) hs k" "below (shape C) k n" using lk by (auto simp: locks_ok_def up_def)
    moreover from this have "0 < length (filter (below (shape C) k) hs)" using n by (auto simp: filter_empty_conv)
    ultimately show "0 \<le> l + -1" by (simp add: lock_count_def)
  qed
  then have "\<exists>\<delta> C'. dec_lock_loop n 0 C = Some (Inr (\<delta>, C')) \<and> rc_pre C' \<and> same_env C C' \<and> rc_counter C' = rc_counter C \<and>
    cores C' = bump (-1) (up (rc_root C) (shape C) n) (cores C) \<and> \<delta> - 0 = rc_evictable_size C' - rc_evictable_size C"
    by (intro lock_loop_effect pre live dec_lock_turn) (simp add: dec_lock_loop.simps)
  then obtain \<delta> C' where C': "dec_lock_loop n 0 C = Some (Inr (\<delta>, C'))" "rc_pre C'" "same_env C C'" "rc_counter C' = rc_counter C"
    "cores C' = bump (-1) (up (rc_root C) (shape C) n) (cores C)" "\<delta> = rc_evictable_size C' - rc_evictable_size C"
    by auto
  have "locks_ok (rc_root C) (remove1 n hs) (cores C')" unfolding C'(5)
    by (rule locks_ok_bump [OF lk])
      (use lk n set_remove1_subset [of n hs] in \<open>auto simp: lock_count_remove1 locks_ok_def\<close>)
  then show ?thesis using C' assms(2) unfolding rc_ok_iff_pre by (auto simp: dec_lock_ref_def same_env_iff)
qed

end
