(* ===== verification/Radix_Lookup.thy ===== *)
theory Radix_Lookup
  imports Radix_Laws
begin

section \<open>Looking up and inserting\<close>

text \<open>
  The loops of \<open>_match_prefix_helper\<close> and \<open>_insert_helper\<close> end, raise nothing and keep the
  invariant on a well-formed tree. A lookup ends at the longest stored prefix and changes nothing of
  what is stored; an insertion adds exactly the prefixes of its key that were not stored.
\<close>

subsection \<open>One step down the tree\<close>

lemma child_found:
  assumes ok: "tree_ok ps bg rt S" and "S n = Some x" "od_get (tn_children x) ck = Some c" "child_key ps k = Inr ck"
    "rk_is_bigram k = bg" "ps \<le> rk_len k"
  obtains y v where "S c = Some y" "c \<noteq> rt" "tn_parent y = Some n" "rk_extra_key (tn_key y) = rk_extra_key k" "tn_value y = Some v"
    "length v = rk_len (tn_key y)" "take ps (rk_units (tn_key y)) = take ps (rk_units k)" "ps \<le> rk_len (tn_key y)"
    "ps dvd rk_len (tn_key y)" "rk_is_bigram (tn_key y) = bg"
proof -
  obtain y where y: "S c = Some y" "c \<noteq> rt" "tn_parent y = Some n" "child_key ps (tn_key y) = Inr ck"
    using tree_okD(4) [OF ok assms(2,3)] by blast
  note k = node_key [OF ok y(1,2)]
  have "first_page ps (tn_key y) = first_page ps k"
    using child_key_eq_iff [OF tree_okD(1) [OF ok] k(1) assms(6)] y(4) assms(4,5) k(3) by simp
  then show thesis using that y k by (auto simp: first_page_def)
qed

lemma child_missing:
  assumes ok: "tree_ok ps bg rt S" and p: "path S e rt us vs n" and x: "S n = Some x" "od_get (tn_children x) ck = None"
    and k: "child_key ps k = Inr ck" "rk_is_bigram k = bg" "ps \<le> rk_len k" "rk_extra_key k = e"
    and ws: "prefix ws (rk_units k)" "stored ps S rt e (us @ ws) xs"
  shows "ws = []"
proof (rule ccontr)
  assume "ws \<noteq> []"
  from stored_beyond [OF ok p ws(2) this]
  obtain c y where c: "S c = Some y" "tn_parent y = Some n" "rk_extra_key (tn_key y) = e"
    "take ps ws = take ps (rk_units (tn_key y))" "ps \<le> length ws" .
  have cr: "c \<noteq> rt" by (rule parent_not_root [OF ok c(1,2)])
  note kk = node_key [OF ok c(1) cr]
  have "take ps ws = take ps (rk_units k)" using ws(1) c(5) by (auto simp: prefix_def)
  then have "first_page ps (tn_key y) = first_page ps k" using c(3,4) k(4) by (simp add: first_page_def)
  then have "child_key ps (tn_key y) = Inr ck" using child_key_eq_iff [OF tree_okD(1) [OF ok] kk(1) k(3)] k(1,2) kk(3) by simp
  then show False using tree_okD(3) [OF ok c(1) cr] c(2) x by (auto simp: node_ok_def)
qed

text \<open>How far the key of a child and the key that is looked up agree, in whole pages.\<close>

lemma common_pages:
  assumes "0 < ps" "ps \<le> length a" "ps \<le> length b" "take ps a = take ps b" and L: "L = common a b div ps * ps"
  shows "ps \<le> L" "L \<le> length a" "L \<le> length b" "ps dvd L" "take L a = take L b"
proof -
  have c: "ps \<le> common a b" using assms(2-4) by (simp add: common_iff)
  then show "ps \<le> L" using assms(1) L by (metis div_le_mono div_self le_numeral_extra(4) mult_le_mono1 mult_1 less_numeral_extra(3) nat_neq_iff)
  have "L \<le> common a b" using L by (simp add: div_times_less_eq_dividend)
  then show "L \<le> length a" "L \<le> length b" "take L a = take L b" using common_iff [of L a b] common_le [of a b] by auto
  show "ps dvd L" using L by simp
qed

lemma common_pages_max:
  assumes "0 < ps" and L: "L = common a b div ps * ps" and "prefix ws b" "prefix ws a \<or> prefix a ws" "ps dvd length ws" "ps dvd length a"
  shows "min (length ws) (length a) \<le> L"
proof -
  let ?m = "min (length ws) (length a)"
  have "take ?m a = take ?m b"
    using assms(3,4) by (auto simp: prefix_def min_def)
  moreover have "?m \<le> length a" "?m \<le> length b" using assms(3) prefix_length_le by fastforce+
  ultimately have "?m \<le> common a b" by (simp add: common_iff)
  moreover have "ps dvd ?m" using assms(5,6) by (simp add: min_def)
  ultimately show ?thesis using L assms(1) by (metis div_le_mono dvd_div_mult_self mult_le_mono1)
qed

subsection \<open>What stays the same\<close>

text \<open>Paths between old nodes survive when the tree grows.\<close>

definition grows :: "shape \<Rightarrow> shape \<Rightarrow> bool" where
  "grows S S' = (\<forall>n. S n \<noteq> None \<longrightarrow> S' n \<noteq> None \<and>
     (\<forall>e us vs n'. S n' \<noteq> None \<longrightarrow> (path S' e n us vs n' \<longleftrightarrow> path S e n us vs n')))"

lemma grows_refl [simp]: "grows S S"
  by (simp add: grows_def)

lemma grows_trans: "grows S S' \<Longrightarrow> grows S' S'' \<Longrightarrow> grows S S''"
  by (simp add: grows_def)

lemma grows_live: "grows S S' \<Longrightarrow> S n \<noteq> None \<Longrightarrow> S' n \<noteq> None"
  by (simp add: grows_def)

lemma grows_path: "grows S S' \<Longrightarrow> S n \<noteq> None \<Longrightarrow> S n' \<noteq> None \<Longrightarrow> path S' e n us vs n' \<longleftrightarrow> path S e n us vs n'"
  by (simp add: grows_def)

lemma split_grows:
  assumes ok: "tree_ok ps bg rt S" and sp: "is_split ps m c p L x v S S'"
  shows "grows S S'"
proof -
  have m: "S m = None" using sp by (auto simp: is_split_def)
  have "S' n \<noteq> None" if "S n \<noteq> None" for n using that sp by (auto simp: is_split_def)
  moreover have "n \<noteq> m" if "S n \<noteq> None" for n using that m by auto
  ultimately show ?thesis using split_path [OF ok sp] unfolding grows_def by blast
qed

lemma new_leaf_grows:
  assumes ok: "tree_ok ps bg rt S" and nl: "is_new_leaf ps bg rt m p k v S S'"
  shows "grows S S'"
proof -
  have m: "S m = None" using nl by (auto simp: is_new_leaf_def)
  have "S' n \<noteq> None" if "S n \<noteq> None" for n using that nl by (auto simp: is_new_leaf_def split: if_splits)
  moreover have "n \<noteq> m" if "S n \<noteq> None" for n using that m by auto
  ultimately show ?thesis using new_leaf_path [OF ok nl] unfolding grows_def by blast
qed

text \<open>
  What a lookup does to the cache: it changes times and may split a node, which keeps the invariant, what is
  stored, the slots and the paths between old nodes.
\<close>

definition refines :: "radix_cache \<Rightarrow> radix_cache \<Rightarrow> bool" where
  "refines C C' = ((\<forall>hs. rc_ok C hs \<longrightarrow> rc_ok C' hs) \<and> (laid (rc_page_size C) (cores C) \<longrightarrow> laid (rc_page_size C) (cores C')) \<and> same_env C C' \<and> grows (shape C) (shape C') \<and>
     slots (cores C') = slots (cores C) \<and> rc_evictable_size C' = rc_evictable_size C \<and> rc_protected_size C' = rc_protected_size C \<and>
     (\<forall>e us vs. stored (rc_page_size C) (shape C') (rc_root C) e us vs \<longleftrightarrow> stored (rc_page_size C) (shape C) (rc_root C) e us vs))"

lemma refines_touches: "touches C C' \<Longrightarrow> refines C C'"
  by (simp add: refines_def touches_env touches_ok touchesD)

lemma refines_trans: "refines C C' \<Longrightarrow> refines C' C'' \<Longrightarrow> refines C C''"
  unfolding refines_def by (auto simp: same_env_iff intro: grows_trans)

lemma refines_refl [simp]: "refines C C"
  by (simp add: refines_touches)

lemma refines_split:
  assumes ok: "rc_ok C hs" and sp: "core_split (rc_page_size C) (rc_counter C) c p L x l v (cores C) (cores C')"
    and C': "C' = C\<lparr>rc_counter := rc_counter C + 1, rc_nodes := rc_nodes C'\<rparr>"
  shows "refines C C'"
proof -
  note t = rc_okD(1) [OF ok] and f = heap_bound_finite [OF rc_okD(2) [OF ok]] and sh = core_split_shape [OF sp]
  have "same_env C C'" "rc_evictable_size C' = rc_evictable_size C" "rc_protected_size C' = rc_protected_size C"
    by (subst C', simp add: same_env_iff)+
  then show ?thesis
    using split_ok [OF _ sp C'] split_grows [OF t sh] split_slots [OF t f sp] split_stored [OF t sh] split_laid [OF sp] by (simp add: refines_def)
qed

text \<open>Where the lookup of \<open>key\<close> below a node ends: \<open>n\<close> ahead of the node, at the last node \<open>m\<close>.\<close>

definition ends_at :: "radix_cache \<Rightarrow> radix_key \<Rightarrow> key_unit list \<Rightarrow> int list \<Rightarrow> int list \<Rightarrow> nat \<Rightarrow> radix_cache \<Rightarrow> bool" where
  "ends_at C key us vs val m C' =
     (let S = shape C; rt = rc_root C; e = rk_extra_key key; n = length val in
      n \<le> rk_len key \<and> rc_page_size C dvd n \<and> path (shape C') e rt (us @ take n (rk_units key)) (vs @ val) m \<and>
      (\<forall>ws xs. prefix ws (rk_units key) \<longrightarrow> stored (rc_page_size C) S rt e (us @ ws) xs \<longrightarrow> length ws \<le> n))"

lemma ends_hereI:
  assumes ok: "rc_ok C hs" and p: "path (shape C) (rk_extra_key key) (rc_root C) us vs n" and x: "rc_nodes C n = Some x"
    and k: "rk_len key = 0 \<or> child_key (rc_page_size C) key = Inr ck \<and> od_get (tn_children x) ck = None"
      "rk_is_bigram key = rc_is_eagle C" "rc_page_size C dvd rk_len key"
  shows "ends_at C key us vs [] n C"
proof -
  note t = rc_okD(1) [OF ok]
  have "ws = []" if "prefix ws (rk_units key)" "stored (rc_page_size C) (shape C) (rc_root C) (rk_extra_key key) (us @ ws) xs" for ws xs
  proof (cases "rk_len key = 0")
    case True
    then show ?thesis using prefix_length_le [OF that(1)] by simp
  next
    case False
    then have "rc_page_size C \<le> rk_len key" using k(3) by (simp add: dvd_imp_le)
    then show ?thesis using child_missing [OF t p shape_Some [OF x] _ _ k(2) _ refl that, of ck] k(1) False by simp
  qed
  then show ?thesis using p by (auto simp: ends_at_def Let_def)
qed

lemma ends_in_childI:
  assumes ok: "rc_ok C hs" and p: "path (shape C) (rk_extra_key key) (rc_root C) us vs n" and y: "rc_nodes C c = Some y"
    and c: "tn_parent y = Some n" "rk_extra_key (tn_key y) = rk_extra_key key" "tn_value y = Some v"
      "take (rc_page_size C) (rk_units (tn_key y)) = take (rc_page_size C) (rk_units key)"
    and k: "rk_is_bigram key = rc_is_eagle C" "rc_page_size C dvd rk_len key" "0 < rk_len key"
    and L: "L = common (rk_units (tn_key y)) (rk_units key) div rc_page_size C * rc_page_size C" "L < rk_len (tn_key y)"
    and sp: "core_split (rc_page_size C) m c n L (tree_node.truncate y) l v (cores C) (cores C')"
  shows "ends_at C key us vs (take L v) m C'"
proof -
  let ?ps = "rc_page_size C" and ?S = "shape C" and ?rt = "rc_root C" and ?e = "rk_extra_key key"
  note t = rc_okD(1) [OF ok] and sh = core_split_shape [OF sp] and Sc = shape_Some [OF y]
  have cr: "c \<noteq> ?rt" using parent_not_root [OF t Sc] c(1) by simp
  note ky = node_key [OF t Sc cr, unfolded core_simps]
  have ps: "0 < ?ps" "?ps \<le> rk_len key" using tree_okD(1) [OF t] k(2,3) by (simp_all add: dvd_imp_le)
  note cp = common_pages [OF ps(1) _ _ c(4) L(1), unfolded length_rk_units, OF ky(1) ps(2)]
  have lv: "length v = rk_len (tn_key y)" using ky(4) c(3) by simp
  have "path (shape C') ?e ?rt us vs n" using split_path_forward [OF t sh p] .
  moreover have "path (shape C') ?e n (take L (rk_units (tn_key y))) (take L v) m" using split_edge [OF t sh] c(2) by simp
  ultimately have "path (shape C') ?e ?rt (us @ take L (rk_units key)) (vs @ take L v) m"
    unfolding cp(5) by (rule path_append)
  moreover have "length ws \<le> L" if ws: "prefix ws (rk_units key)" "stored ?ps ?S ?rt ?e (us @ ws) xs" for ws xs
  proof (cases "ws = []")
    case False
    from stored_beyond [OF t p ws(2) False]
    obtain d z where d: "?S d = Some z" "tn_parent z = Some n" "rk_extra_key (tn_key z) = ?e" "take ?ps ws = take ?ps (rk_units (tn_key z))"
      "?ps \<le> length ws" "prefix ws (rk_units (tn_key z)) \<or> prefix (rk_units (tn_key z)) ws" .
    have "take ?ps ws = take ?ps (rk_units key)" using ws(1) d(5) by (auto simp: prefix_def)
    then have "d = c" using child_unique [OF t d(1) Sc d(2)] c d(3,4) by (simp add: first_page_def)
    then have "z = tree_node.truncate y" using d(1) Sc by simp
    moreover have "?ps dvd length ws"
      using ws(2) path_lengths [OF t p] by (auto simp: stored_def dvd_add_right_iff)
    ultimately have "min (length ws) (rk_len (tn_key y)) \<le> L"
      using common_pages_max [OF ps(1) L(1) ws(1)] d(6) ky(2) by simp
    then show ?thesis using L(2) by simp
  qed simp
  ultimately show ?thesis using cp lv by (auto simp: ends_at_def Let_def)
qed

text \<open>A lookup that goes on after \<open>L\<close> units.\<close>

lemma ends_at_step:
  assumes w: "length w = L" "L \<le> rk_len key" "rc_page_size C dvd L" and C1: "refines C C1"
    and e: "ends_at C1 (rk_drop L key) (us @ take L (rk_units key)) (vs @ w) val m C'"
  shows "ends_at C key us vs (w @ val) m C'"
proof -
  let ?ps = "rc_page_size C" and ?S = "shape C" and ?rt = "rc_root C" and ?e = "rk_extra_key key"
  have fields: "rc_page_size C1 = ?ps" "rc_root C1 = ?rt" "\<And>e us vs. stored ?ps (shape C1) ?rt e us vs \<longleftrightarrow> stored ?ps ?S ?rt e us vs"
    using C1 by (simp_all add: refines_def same_env_iff)
  have ex: "length val \<le> rk_len key - L" "?ps dvd length val"
    "path (shape C') ?e ?rt ((us @ take L (rk_units key)) @ take (length val) (drop L (rk_units key))) ((vs @ w) @ val) m"
    "\<And>ws xs. prefix ws (drop L (rk_units key)) \<Longrightarrow> stored ?ps ?S ?rt ?e ((us @ take L (rk_units key)) @ ws) xs \<Longrightarrow> length ws \<le> length val"
    using e unfolding ends_at_def Let_def fields by (simp_all, blast)
  have "length ws \<le> L + length val" if ws: "prefix ws (rk_units key)" "stored ?ps ?S ?rt ?e (us @ ws) xs" for ws xs
  proof (cases "length ws \<le> L")
    case False
    have "ws = take L (rk_units key) @ drop L ws" using ws(1) False by (auto simp: prefix_def)
    moreover have "prefix (drop L ws) (drop L (rk_units key))" using ws(1) by (auto simp: prefix_def)
    ultimately have "length (drop L ws) \<le> length val" using ex(4) [of "drop L ws"] ws(2) by simp
    then show ?thesis by simp
  qed simp
  moreover have "take (length w + length val) (rk_units key) = take L (rk_units key) @ take (length val) (drop L (rk_units key))"
    by (simp add: w take_add)
  ultimately show ?thesis using ex w unfolding ends_at_def Let_def by simp
qed

subsection \<open>The loop of a lookup\<close>

lemma ends_at_touches: "touches C C1 \<Longrightarrow> ends_at C1 key us vs val m C' \<longleftrightarrow> ends_at C key us vs val m C'"
  by (simp add: ends_at_def touchesD)

text \<open>The child that the loops go to, after its access time has been set.\<close>

lemma descend:
  assumes ok: "rc_ok C hs" and p: "path (shape C) (rk_extra_key key) (rc_root C) us vs n"
    and k: "rk_is_bigram key = rc_is_eagle C" "rc_page_size C dvd rk_len key" "0 < rk_len key" "child_key (rc_page_size C) key = Inr ck"
    and x: "rc_nodes C n = Some x" "od_get (tn_children x) ck = Some c"
    and C1: "C1 = upd_node c (\<lambda>y. y\<lparr>rn_last_access_time := t\<rparr>) C"
  obtains y v L where "touches C C1" "rc_ok C1 hs" "rc_nodes C1 c = Some y" "c \<noteq> rc_root C1" "tn_parent y = Some n"
    "rk_extra_key (tn_key y) = rk_extra_key key" "tn_value y = Some v" "path (shape C1) (rk_extra_key key) (rc_root C1) us vs n"
    "take (rc_page_size C1) (rk_units (tn_key y)) = take (rc_page_size C1) (rk_units key)"
    "rk_match (tn_key y) key (rc_page_size C) = Inr L"
    "L = common (rk_units (tn_key y)) (rk_units key) div rc_page_size C1 * rc_page_size C1"
    "rc_page_size C1 dvd L" "0 < L" "L \<le> rk_len (tn_key y)" "L \<le> rk_len key" "take L (rk_units (tn_key y)) = take L (rk_units key)"
    "length v = rk_len (tn_key y)"
proof -
  let ?ps = "rc_page_size C"
  note t = rc_okD(1) [OF ok]
  have tch: "touches C C1" unfolding C1 by simp
  note D = touchesD [OF tch]
  have ps: "0 < ?ps" "?ps \<le> rk_len key" using tree_okD(1) [OF t] k(2,3) by (simp_all add: dvd_imp_le)
  obtain yt v where yt: "shape C c = Some yt" "c \<noteq> rc_root C" "tn_parent yt = Some n" "rk_extra_key (tn_key yt) = rk_extra_key key"
    "tn_value yt = Some v" "length v = rk_len (tn_key yt)" "take ?ps (rk_units (tn_key yt)) = take ?ps (rk_units key)"
    "?ps \<le> rk_len (tn_key yt)" "?ps dvd rk_len (tn_key yt)" "rk_is_bigram (tn_key yt) = rc_is_eagle C"
    using child_found [OF t shape_Some [OF x(1)] _ k(4,1) ps(2), of c] x(2) by auto
  have "shape C1 c = Some yt" using yt(1) D(1) by simp
  then obtain y where y: "rc_nodes C1 c = Some y" "yt = tree_node.truncate y" by (elim shape_SomeE)
  note yt = yt [unfolded y(2) core_simps]
  define L where "L = common (rk_units (tn_key y)) (rk_units key) div ?ps * ?ps"
  note cp = common_pages [OF ps(1) _ _ yt(7) L_def, unfolded length_rk_units, OF yt(8) ps(2)]
  have m: "rk_match (tn_key y) key ?ps = Inr L"
    unfolding L_def by (rule rk_match_units) (use ps yt k in simp_all)
  show thesis
    by (rule that [of y v L]) (use tch touches_ok [OF tch] ok y yt p m cp ps(1) L_def D in simp_all)
qed

lemma path_live: "rc_ok C hs \<Longrightarrow> path (shape C) e (rc_root C) us vs n \<Longrightarrow> rc_nodes C n \<noteq> None"
  using path_ends_live [of "shape C" e "rc_root C" us vs n] root_live [of C hs] by simp

text \<open>The dictionary key for the next turn.\<close>

lemma next_child_key:
  assumes "0 < ps" "ps dvd rk_len k"
  obtains ck' where "0 < rk_len k \<Longrightarrow> child_key ps k = Inr ck'" "rk_len k = 0 \<Longrightarrow> ck' = ck"
proof (cases "rk_len k = 0")
  case False
  then obtain ck' where "child_key ps k = Inr ck'" using child_key_Inr [OF assms(1), of k] assms(2) by (auto simp: dvd_imp_le)
  then show ?thesis using that False by simp
qed (use that in simp)

lemma match_loop_effect:
  assumes "rc_ok C hs" "path (shape C) (rk_extra_key key) (rc_root C) us vs n"
    and "rk_is_bigram key = rc_is_eagle C" "rc_page_size C dvd rk_len key" "0 < rk_len key \<longrightarrow> child_key (rc_page_size C) key = Inr ck"
  shows "\<exists>val' m C'. match_loop birth t n key ck val C = Some (Inr (val @ val', m, C')) \<and> refines C C' \<and>
    ends_at C key us vs (concat val') m C'"
  using assms
proof (induction "rk_len key" arbitrary: C key ck us vs n val rule: less_induct)
  case less
  note ok = less.prems(1) and p = less.prems(2) and tr = rc_okD(1) [OF less.prems(1)]
  obtain x where x: "rc_nodes C n = Some x" using path_live [OF ok p] by auto
  show ?case
  proof (cases "0 < rk_len key \<and> od_mem ck (tn_children x)")
    case False
    then have "ends_at C key us vs [] n C"
      using less.prems x by (intro ends_hereI [OF ok p x]) (auto simp: od_mem_iff)
    then show ?thesis using x False
      by (subst match_loop.simps) (auto intro!: exI [of _ "[]"])
  next
    case True
    then obtain c where c: "od_get (tn_children x) ck = Some c" and k0: "0 < rk_len key" "child_key (rc_page_size C) key = Inr ck"
      using less.prems(5) by (auto simp: od_mem_iff)
    define C1 where "C1 = upd_node c (\<lambda>y. y\<lparr>rn_last_access_time := t\<rparr>) C"
    obtain y v L where tch: "touches C C1" and ok1: "rc_ok C1 hs" and y: "rc_nodes C1 c = Some y" "c \<noteq> rc_root C1" "tn_parent y = Some n"
      "rk_extra_key (tn_key y) = rk_extra_key key" "tn_value y = Some v" and p1: "path (shape C1) (rk_extra_key key) (rc_root C1) us vs n"
      and pg: "take (rc_page_size C1) (rk_units (tn_key y)) = take (rc_page_size C1) (rk_units key)"
      and m: "rk_match (tn_key y) key (rc_page_size C) = Inr L"
      and L: "L = common (rk_units (tn_key y)) (rk_units key) div rc_page_size C1 * rc_page_size C1"
      "rc_page_size C1 dvd L" "0 < L" "L \<le> rk_len (tn_key y)" "L \<le> rk_len key" "take L (rk_units (tn_key y)) = take L (rk_units key)"
      and lv: "length v = rk_len (tn_key y)"
      by (rule descend [OF ok p less.prems(3,4) k0 x c C1_def])
    note D = touchesD [OF tch]
    show ?thesis
    proof (cases "L < rk_len (tn_key y)")
      case lt: True
      obtain C2 where C2: "split_node birth c L C1 = Inr (rc_counter C1, C2)" "C2 = C1\<lparr>rc_counter := rc_counter C1 + 1, rc_nodes := rc_nodes C2\<rparr>"
        "core_split (rc_page_size C1) (rc_counter C1) c n L (tree_node.truncate y) (rn_lock_ref y) v (cores C1) (cores C2)"
        using split_node_effect [OF ok1 y(1-3,5) L(3) lt L(2)] by blast
      have "ends_at C1 key us vs (take L v) (rc_counter C1) C2"
        by (rule ends_in_childI [OF ok1 p1 y(1,3,4,5) pg _ _ k0(1) L(1) lt C2(3)]) (use less.prems D in simp_all)
      then have "ends_at C key us vs (concat [take L v]) (rc_counter C1) C2" using ends_at_touches [OF tch] by simp
      moreover have "refines C C2" using refines_trans [OF refines_touches [OF tch] refines_split [OF ok1 C2(3,2)]] .
      moreover have "match_loop birth t n key ck val C = Some (Inr (val @ [take L v], rc_counter C1, C2))"
        using x True c y(1,5) m lt C2(1) by (subst match_loop.simps) (simp add: Let_def C1_def [symmetric])
      ultimately show ?thesis by blast
    next
      case False
      then have Ly: "L = rk_len (tn_key y)" using L(4) by simp
      let ?key = "rk_drop L key"
      have dv: "rc_page_size C1 dvd rk_len ?key" using less.prems(4) L(2) D by (simp add: dvd_diff_nat)
      obtain ck' where ck': "0 < rk_len ?key \<Longrightarrow> child_key (rc_page_size C1) ?key = Inr ck'" "rk_len ?key = 0 \<Longrightarrow> ck' = ck"
        using next_child_key [OF tree_okD(1) [OF rc_okD(1) [OF ok1]] dv] by blast
      have p2: "path (shape C1) (rk_extra_key ?key) (rc_root C1) (us @ rk_units (tn_key y)) (vs @ v) c"
        using path_snoc [OF p1 shape_Some [OF y(1)]] y by simp
      have "rk_len ?key < rk_len key" using L(3) k0(1) by simp
      from less.hyps [OF this ok1 p2 _ dv, of ck' "val @ [v]"] obtain val' m' C' where IH: "match_loop birth t c ?key ck' (val @ [v]) C1 = Some (Inr ((val @ [v]) @ val', m', C'))"
        "refines C1 C'" "ends_at C1 ?key (us @ rk_units (tn_key y)) (vs @ v) (concat val') m' C'"
        using less.prems(3) ck'(1) D(5) by auto
      have "match_loop birth t n key ck val C = match_loop birth t c ?key ck' (val @ [v]) C1"
        using x True c y(1,5) m False ck' D(2) by (subst match_loop.simps) (simp add: Let_def C1_def [symmetric])
      moreover have "ends_at C key us vs (v @ concat val') m' C'"
        by (rule ends_at_step [OF _ L(5) _ refines_touches [OF tch]]) (use IH(3) lv Ly L(2,6) D(2) in simp_all)
      moreover have "refines C C'" using refines_trans [OF refines_touches [OF tch] IH(2)] .
      ultimately show ?thesis using IH(1) by (intro exI [of _ "v # val'"] exI [of _ m'] exI [of _ C']) simp
    qed
  qed
qed

lemma match_prefix_helper_effect:
  assumes ok: "rc_ok C hs" and k: "rk_is_bigram key = rc_is_eagle C" "rc_page_size C dvd rk_len key" "0 < rk_len key"
  shows "\<exists>val m C'. match_prefix_helper birth t (rc_root C) key C = Some (Inr (val, m, C')) \<and> refines C C' \<and>
    ends_at C key [] [] (concat val) m C'"
proof -
  let ?C = "upd_node (rc_root C) (\<lambda>x. x\<lparr>rn_last_access_time := t\<rparr>) C"
  have tch: "touches C ?C" by simp
  note D = touchesD [OF tch]
  obtain ck where ck: "child_key (rc_page_size C) key = Inr ck"
    using child_key_Inr [OF tree_okD(1) [OF rc_okD(1) [OF ok]], of key] k by (auto simp: dvd_imp_le)
  obtain val m C' where "match_loop birth t (rc_root C) key ck [] ?C = Some (Inr (val, m, C'))" "refines ?C C'" "ends_at ?C key [] [] (concat val) m C'"
    using match_loop_effect [of ?C hs key "[]" "[]" "rc_root C" ck birth t "[]"] touches_ok [OF tch] ok k ck D
    by (auto intro: path_nil)
  then show ?thesis using refines_trans [OF refines_touches [OF tch]] ends_at_touches [OF tch] ck
    by (auto simp: match_prefix_helper_def)
qed

subsection \<open>The loop of an insertion\<close>

lemma insert_turn:
  assumes ok: "rc_ok C hs" and p: "path (shape C) (rk_extra_key key) (rc_root C) us vs n"
    and k: "rk_is_bigram key = rc_is_eagle C" "rc_page_size C dvd rk_len key" "0 < rk_len key" "child_key (rc_page_size C) key = Inr ck"
    and x: "rc_nodes C n = Some x" "od_get (tn_children x) ck = Some c"
    and C1: "C1 = upd_node c (\<lambda>y. y\<lparr>rn_last_access_time := t\<rparr>) C"
  obtains y w L n' C2 where "rc_nodes C1 c = Some y" "rk_match (tn_key y) key (rc_page_size C) = Inr L"
    "insert_visit birth priority chunked c L y C1 = Inr (n', C2)"
    "refines C C2" "rc_ok C2 hs" "path (shape C2) (rk_extra_key key) (rc_root C) (us @ take L (rk_units key)) (vs @ w) n'"
    "length w = L" "0 < L" "L \<le> rk_len key" "rc_page_size C dvd L"
proof -
  obtain y v L where tch: "touches C C1" and ok1: "rc_ok C1 hs" and y: "rc_nodes C1 c = Some y" "c \<noteq> rc_root C1" "tn_parent y = Some n"
    "rk_extra_key (tn_key y) = rk_extra_key key" "tn_value y = Some v" and p1: "path (shape C1) (rk_extra_key key) (rc_root C1) us vs n"
    and pg: "take (rc_page_size C1) (rk_units (tn_key y)) = take (rc_page_size C1) (rk_units key)"
    and m: "rk_match (tn_key y) key (rc_page_size C) = Inr L"
    and L: "L = common (rk_units (tn_key y)) (rk_units key) div rc_page_size C1 * rc_page_size C1"
    "rc_page_size C1 dvd L" "0 < L" "L \<le> rk_len (tn_key y)" "L \<le> rk_len key" "take L (rk_units (tn_key y)) = take L (rk_units key)"
    and lv: "length v = rk_len (tn_key y)"
    by (rule descend [OF ok p k x C1])
  note D = touchesD [OF tch]
  have meta: "touches C' (inc_hit_count i chunked (raise_priority i priority C'))" for C' i
    by (rule touches_trans [OF touches_priority touches_hit])
  show thesis
  proof (cases "L < rk_len (tn_key y)")
    case True
    obtain C2 where C2: "split_node birth c L C1 = Inr (rc_counter C1, C2)" "C2 = C1\<lparr>rc_counter := rc_counter C1 + 1, rc_nodes := rc_nodes C2\<rparr>"
      "core_split (rc_page_size C1) (rc_counter C1) c n L (tree_node.truncate y) (rn_lock_ref y) v (cores C1) (cores C2)"
      using split_node_effect [OF ok1 y(1-3,5) L(3) True L(2)] by blast
    define C3 where "C3 = inc_hit_count (rc_counter C1) chunked (raise_priority (rc_counter C1) priority C2)"
    have "ends_at C1 key us vs (take L v) (rc_counter C1) C2"
      by (rule ends_in_childI [OF ok1 p1 y(1,3,4,5) pg _ _ k(3) L(1) True C2(3)]) (use k D in simp_all)
    then have "path (shape C2) (rk_extra_key key) (rc_root C) (us @ take L (rk_units key)) (vs @ take L v) (rc_counter C1)"
      using L(4) lv D(3) by (simp add: ends_at_def Let_def)
    moreover have r: "refines C C3" unfolding C3_def
      by (rule refines_trans [OF refines_touches [OF tch] refines_trans [OF refines_split [OF ok1 C2(3,2)] refines_touches [OF meta]]])
    moreover have "cores C3 = cores C2" unfolding C3_def by (rule touchesD(1) [OF meta])
    moreover have "rc_ok C3 hs" using r ok by (simp add: refines_def)
    ultimately show thesis
      using that [OF y(1) m _ r, of "rc_counter C1" "take L v"] C2(1) True L lv D(2) by (simp add: insert_visit_def C3_def [symmetric])
  next
    case False
    then have Ly: "L = rk_len (tn_key y)" using L(4) by simp
    define C3 where "C3 = inc_hit_count c chunked (raise_priority c priority C1)"
    have t3: "touches C C3" unfolding C3_def by (rule touches_trans [OF tch meta])
    have "path (shape C1) (rk_extra_key key) (rc_root C1) (us @ rk_units (tn_key y)) (vs @ v) c"
      using path_snoc [OF p1 shape_Some [OF y(1)]] y by simp
    moreover have "rk_units (tn_key y) = take L (rk_units key)" using L(6) Ly by simp
    ultimately show thesis
      using that [OF y(1) m _ refines_touches [OF t3], of c v] False Ly L lv D touchesD(1) [OF t3] touches_ok [OF t3] ok
      by (simp add: insert_visit_def C3_def [symmetric])
  qed
qed

text \<open>What is left of a key after its first \<open>n\<close> units.\<close>

definition rest_of :: "radix_key \<Rightarrow> nat \<Rightarrow> radix_key \<Rightarrow> bool" where
  "rest_of key n key' = (rk_units key' = drop n (rk_units key) \<and> rk_extra_key key' = rk_extra_key key \<and> rk_is_bigram key' = rk_is_bigram key)"

lemma rest_of_len: "rest_of key n key' \<Longrightarrow> rk_len key' = rk_len key - n"
  unfolding rest_of_def by (metis length_drop length_rk_units)

lemma insert_loop_effect:
  assumes "rc_ok C hs" "path (shape C) (rk_extra_key key) (rc_root C) us vs n"
    and "rk_is_bigram key = rc_is_eagle C" "rc_page_size C dvd rk_len key" "0 < rk_len key \<longrightarrow> child_key (rc_page_size C) key = Inr ck"
  shows "\<exists>n' key' ck' w C'. insert_loop birth t priority chunked n key ck val tot C =
      Some (Inr (n', key', ck', drop (length w) val, tot + length w, C')) \<and> rest_of key (length w) key' \<and>
    refines C C' \<and> rc_ok C' hs \<and> ends_at C key us vs w n' C' \<and>
    (0 < rk_len key' \<longrightarrow> child_key (rc_page_size C) key' = Inr ck' \<and> (\<exists>x. rc_nodes C' n' = Some x \<and> od_get (tn_children x) ck' = None))"
  using assms
proof (induction "rk_len key" arbitrary: C key ck us vs n val tot rule: less_induct)
  case less
  note ok = less.prems(1) and p = less.prems(2)
  obtain x where x: "rc_nodes C n = Some x" using path_live [OF ok p] by auto
  show ?case
  proof (cases "0 < rk_len key \<and> od_mem ck (tn_children x)")
    case False
    then have "ends_at C key us vs [] n C"
      using less.prems x by (intro ends_hereI [OF ok p x]) (auto simp: od_mem_iff)
    moreover have "insert_loop birth t priority chunked n key ck val tot C = Some (Inr (n, key, ck, val, tot, C))"
      using x False by (subst insert_loop.simps) auto
    ultimately show ?thesis using x False less.prems(5) ok
      by (intro exI [of _ n] exI [of _ key] exI [of _ ck] exI [of _ "[]"] exI [of _ C]) (auto simp: od_mem_iff rest_of_def)
  next
    case True
    then obtain c where c: "od_get (tn_children x) ck = Some c" and k0: "0 < rk_len key" "child_key (rc_page_size C) key = Inr ck"
      using less.prems(5) by (auto simp: od_mem_iff)
    define C1 where "C1 = upd_node c (\<lambda>y. y\<lparr>rn_last_access_time := t\<rparr>) C"
    obtain y w L n' C2 where y: "rc_nodes C1 c = Some y" "rk_match (tn_key y) key (rc_page_size C) = Inr L"
      "insert_visit birth priority chunked c L y C1 = Inr (n', C2)"
      and r: "refines C C2" "rc_ok C2 hs" "path (shape C2) (rk_extra_key key) (rc_root C) (us @ take L (rk_units key)) (vs @ w) n'"
      and L: "length w = L" "0 < L" "L \<le> rk_len key" "rc_page_size C dvd L"
      by (rule insert_turn [OF ok p less.prems(3,4) k0 x c C1_def])
    let ?key = "rk_drop L key"
    have D: "rc_page_size C2 = rc_page_size C" "rc_root C2 = rc_root C" "rc_is_eagle C2 = rc_is_eagle C"
      using r(1) by (simp_all add: refines_def same_env_iff)
    have dv: "rc_page_size C2 dvd rk_len ?key" using less.prems(4) L D by (simp add: dvd_diff_nat)
    obtain ck' where ck': "0 < rk_len ?key \<Longrightarrow> child_key (rc_page_size C2) ?key = Inr ck'" "rk_len ?key = 0 \<Longrightarrow> ck' = ck"
      using next_child_key [OF tree_okD(1) [OF rc_okD(1) [OF r(2)]] dv] by blast
    have "rk_len ?key < rk_len key" using L(2) k0(1) by simp
    from less.hyps [OF this r(2) _ _ dv, of "us @ take L (rk_units key)" "vs @ w" n' ck' "drop L val" "tot + L"]
    obtain n'' key'' ck'' w' C' where IH: "insert_loop birth t priority chunked n' ?key ck' (drop L val) (tot + L) C2 =
        Some (Inr (n'', key'', ck'', drop (length w') (drop L val), tot + L + length w', C'))" "rest_of ?key (length w') key''"
      "refines C2 C'" "rc_ok C' hs" "ends_at C2 ?key (us @ take L (rk_units key)) (vs @ w) w' n'' C'"
      "0 < rk_len key'' \<longrightarrow> child_key (rc_page_size C) key'' = Inr ck'' \<and> (\<exists>x. rc_nodes C' n'' = Some x \<and> od_get (tn_children x) ck'' = None)"
      using r(3) less.prems(3) ck'(1) D by auto
    have "insert_loop birth t priority chunked n key ck val tot C = insert_loop birth t priority chunked n' ?key ck' (drop L val) (tot + L) C2"
      using x True c y ck' D by (subst insert_loop.simps) (simp add: Let_def C1_def [symmetric])
    moreover have "ends_at C key us vs (w @ w') n'' C'" by (rule ends_at_step [OF L(1,3,4) r(1) IH(5)])
    moreover have "refines C C'" by (rule refines_trans [OF r(1) IH(3)])
    moreover have "rest_of key (length (w @ w')) key''" using IH(2) L(1) by (simp add: rest_of_def add.commute)
    ultimately show ?thesis using IH(1,4,6) L(1)
      by (intro exI [of _ n''] exI [of _ key''] exI [of _ ck''] exI [of _ "w @ w'"] exI [of _ C']) (simp add: add.commute)
  qed
qed

subsection \<open>Lookups and insertions\<close>

text \<open>The prefix \<open>us\<close> of whole pages is in the cache, with the indices \<open>vs\<close>.\<close>

definition cached :: "radix_cache \<Rightarrow> string option \<Rightarrow> key_unit list \<Rightarrow> int list \<Rightarrow> bool" where
  "cached C e us vs = stored (rc_page_size C) (shape C) (rc_root C) e us vs"

text \<open>The units of a key that the cache looks at: whole pages, as bigrams in EAGLE mode.\<close>

definition cache_key :: "radix_cache \<Rightarrow> radix_key \<Rightarrow> radix_key" where
  "cache_key C key = page_aligned (rc_page_size C) (fst (maybe_to_bigram_view (rc_is_eagle C) key None))"

abbreviation cache_units :: "radix_cache \<Rightarrow> radix_key \<Rightarrow> key_unit list" where
  "cache_units C key \<equiv> rk_units (cache_key C key)"

lemma bigram_view_simps [simp]:
  "rk_extra_key (fst (maybe_to_bigram_view b key v)) = rk_extra_key key"
  "rk_is_bigram (fst (maybe_to_bigram_view b key v)) \<longleftrightarrow> rk_is_bigram key \<or> b"
  by (auto simp: maybe_to_bigram_view_def Let_def)

lemma cache_key_simps:
  assumes "0 < rc_page_size C"
  shows "rk_extra_key (cache_key C key) = rk_extra_key key"
    "rk_is_bigram (cache_key C key) \<longleftrightarrow> rk_is_bigram key \<or> rc_is_eagle C" "rc_page_size C dvd rk_len (cache_key C key)"
  using assms by (auto simp: cache_key_def page_aligned_def)

lemma cached_path: "rc_ok C hs \<Longrightarrow> path (shape C) e (rc_root C) us vs m \<Longrightarrow> cached C e us vs"
  unfolding cached_def by (rule stored_path [OF rc_okD(1)])

lemma ends_at_cached:
  assumes ok: "rc_ok C' hs" and r: "refines C C'" and e: "ends_at C key [] [] val m C'"
  shows "cached C (rk_extra_key key) (take (length val) (rk_units key)) val"
    "\<And>ws xs. prefix ws (rk_units key) \<Longrightarrow> cached C (rk_extra_key key) ws xs \<Longrightarrow> length ws \<le> length val"
    "path (shape C') (rk_extra_key key) (rc_root C) (take (length val) (rk_units key)) val m" "length val \<le> rk_len key"
    "rc_page_size C dvd length val"
proof -
  show p: "path (shape C') (rk_extra_key key) (rc_root C) (take (length val) (rk_units key)) val m" "length val \<le> rk_len key"
    "rc_page_size C dvd length val" and "\<And>ws xs. prefix ws (rk_units key) \<Longrightarrow> cached C (rk_extra_key key) ws xs \<Longrightarrow> length ws \<le> length val"
    using e unfolding ends_at_def Let_def cached_def by auto
  have "cached C' (rk_extra_key key) (take (length val) (rk_units key)) val"
    using cached_path [OF ok] p(1) r by (simp add: refines_def same_env_iff)
  then show "cached C (rk_extra_key key) (take (length val) (rk_units key)) val"
    using r by (simp add: refines_def cached_def same_env_iff)
qed

lemma match_prefix_effect:
  assumes ok: "rc_ok C hs" and "\<not> rc_disable C" and b: "rk_is_bigram key \<longrightarrow> rc_is_eagle C"
  shows "\<exists>val m C'. match_prefix birth now key C = Some (Inr (\<lparr>mr_device_indices = val, mr_last_device_node = m\<rparr>, C')) \<and>
    refines C C' \<and> rc_ok C' hs \<and> ends_at C (cache_key C key) [] [] val m C'"
proof -
  note ps = tree_okD(1) [OF rc_okD(1) [OF ok]]
  let ?v = "fst (maybe_to_bigram_view (rc_is_eagle C) key None)"
  have ck: "cache_key C key = page_aligned (rc_page_size C) ?v" by (simp add: cache_key_def)
  note k = cache_key_simps [OF ps, of key]
  show ?thesis
  proof (cases "rk_len (cache_key C key) = 0")
    case True
    then have u: "cache_units C key = []" by simp
    have "ends_at C (cache_key C key) [] [] [] (rc_root C) C" by (simp add: ends_at_def Let_def u path_nil)
    moreover have "match_prefix birth now key C = Some (Inr (\<lparr>mr_device_indices = [], mr_last_device_node = rc_root C\<rparr>, C))"
      using True assms(2) by (simp add: match_prefix_def Let_def ck)
    ultimately show ?thesis using ok by fastforce
  next
    case False
    have "rk_len ?v = 0 \<Longrightarrow> rk_len (cache_key C key) = 0" unfolding ck by (simp add: page_aligned_def)
    with False have "rk_len ?v \<noteq> 0" by auto
    moreover obtain val m C' where "match_prefix_helper birth now (rc_root C) (cache_key C key) C = Some (Inr (val, m, C'))"
      "refines C C'" "ends_at C (cache_key C key) [] [] (concat val) m C'"
      using match_prefix_helper_effect [OF ok _ k(3), of birth now] k(2) b False by auto
    ultimately show ?thesis using assms(2) False ok unfolding ck by (auto simp: match_prefix_def Let_def refines_def)
  qed
qed

text \<open>The leaf for what is left of the key.\<close>

lemma insert_leaf_effect:
  assumes ok: "rc_ok C hs" and p: "path (shape C) (rk_extra_key key) (rc_root C) (take L (rk_units key)) w n"
    and k: "rk_is_bigram key = rc_is_eagle C" "rc_page_size C dvd rk_len key" "rc_page_size C dvd L" "L \<le> rk_len key"
      "rest_of key L key'" "0 < rk_len key'" "child_key (rc_page_size C) key' = Inr ck" and val: "length val = rk_len key"
    and x: "rc_nodes C n = Some x" "od_get (tn_children x) ck = None"
    and C': "C' = add_leaf birth priority chunked n key' ck (drop L val) C"
  shows "rc_ok C' hs \<and> grows (shape C) (shape C') \<and> slots (cores C') = slots (cores C) + mset (drop L val) \<and>
    rc_evictable_size C' = rc_evictable_size C + int (rk_len key - L) \<and>
    (laid (rc_page_size C) (cores C) \<longrightarrow> lay (rc_page_size C) (drop L val) \<longrightarrow> laid (rc_page_size C) (cores C')) \<and>
    (\<forall>e us vs. cached C' e us vs \<longleftrightarrow> cached C e us vs \<or>
       e = rk_extra_key key \<and> rc_page_size C dvd length us \<and> prefix us (rk_units key) \<and> vs = take (length us) (w @ drop L val))"
proof -
  note t = rc_okD(1) [OF ok] and len = rest_of_len [OF k(5)]
  have key': "rk_units key' = drop L (rk_units key)" "rk_extra_key key' = rk_extra_key key" "rk_is_bigram key' = rc_is_eagle C"
    using k(1,5) by (simp_all add: rest_of_def)
  have "n \<noteq> rc_root C \<longrightarrow> rk_extra_key (tn_key x) = rk_extra_key key'"
    using path_target [OF p] shape_Some [OF x(1)] key'(2) by auto
  note eff = add_leaf_effect [OF ok x(1) k(7) x(2) k(6) _ key'(3) _ this C']
  have dv: "rc_page_size C dvd rk_len key'" using len k(2,3) by (simp add: dvd_diff_nat)
  have lv: "length (drop L val) = rk_len key'" using val len by simp
  note eff = eff [OF dv lv]
  have "cached C' e us vs \<longleftrightarrow> cached C e us vs \<or>
      e = rk_extra_key key \<and> rc_page_size C dvd length us \<and> prefix us (rk_units key) \<and> vs = take (length us) (w @ drop L val)" for e us vs
    using new_leaf_stored [OF t eff(2), of "take L (rk_units key)" w e us vs] p key' add_leaf_env [of C birth priority chunked n key' ck "drop L val"]
    unfolding cached_def C' [symmetric] same_env_iff by simp
  then show ?thesis using eff new_leaf_grows [OF t eff(2)] len by (simp add: C' add_leaf_fields)
qed

lemma insert_helper_effect:
  assumes ok: "rc_ok C hs" and k: "rk_is_bigram key = rc_is_eagle C" "rc_page_size C dvd rk_len key" and v: "length val = rk_len key"
  shows "\<exists>L w C'. insert_helper birth t (rc_root C) key val priority chunked C = Some (Inr (L, C')) \<and>
    rc_ok C' hs \<and> same_env C C' \<and> grows (shape C) (shape C') \<and> slots (cores C') = slots (cores C) + mset (drop L val) \<and>
    rc_evictable_size C' = rc_evictable_size C + int (rk_len key - L) \<and> rc_protected_size C' = rc_protected_size C \<and>
    (laid (rc_page_size C) (cores C) \<longrightarrow> lay (rc_page_size C) (drop L val) \<longrightarrow> laid (rc_page_size C) (cores C')) \<and>
    L \<le> rk_len key \<and> rc_page_size C dvd L \<and> length w = L \<and> cached C (rk_extra_key key) (take L (rk_units key)) w \<and>
    (\<forall>ws xs. prefix ws (rk_units key) \<longrightarrow> cached C (rk_extra_key key) ws xs \<longrightarrow> length ws \<le> L) \<and>
    (\<forall>e us vs. cached C' e us vs \<longleftrightarrow> cached C e us vs \<or>
       e = rk_extra_key key \<and> rc_page_size C dvd length us \<and> prefix us (rk_units key) \<and> vs = take (length us) (w @ drop L val))"
proof -
  define C1 where "C1 = raise_priority (rc_root C) priority (upd_node (rc_root C) (\<lambda>x. x\<lparr>rn_last_access_time := t\<rparr>) C)"
  have t1: "touches C C1" unfolding C1_def by (rule touches_trans [OF touches_time touches_priority])
  have ok1: "rc_ok C1 hs" using touches_ok [OF t1] ok by simp
  note D = touchesD [OF t1] and ps = tree_okD(1) [OF rc_okD(1) [OF ok]]
  show ?thesis
  proof (cases "rk_len key = 0")
    case True
    have "insert_helper birth t (rc_root C) key val priority chunked C = Some (Inr (0, C1))"
      using True by (simp add: insert_helper_def Let_def C1_def)
    moreover have "cached C e [] []" for e using stored_Nil [OF ps] by (simp add: cached_def)
    moreover have "us = []" if "prefix us (rk_units key)" for us using prefix_length_le [OF that] True by simp
    moreover have "cached C1 = cached C" by (auto simp: fun_eq_iff cached_def D)
    ultimately show ?thesis using True ok1 touches_env [OF t1] v
      by (intro exI [of _ 0] exI [of _ "[]"] exI [of _ C1]) (auto simp: D)
  next
    case False
    obtain ck where ck: "child_key (rc_page_size C) key = Inr ck"
      using child_key_Inr [OF ps, of key] k False by (auto simp: dvd_imp_le)
    have "path (shape C1) (rk_extra_key key) (rc_root C1) [] [] (rc_root C)" unfolding D by (rule path_nil)
    from insert_loop_effect [OF ok1 this, of ck birth t priority chunked val 0] k ck D
    obtain n' key' ck' w C2 where lp: "insert_loop birth t priority chunked (rc_root C) key ck val 0 C1 =
        Some (Inr (n', key', ck', drop (length w) val, length w, C2))" and rest: "rest_of key (length w) key'"
      and r: "refines C1 C2" and ok2: "rc_ok C2 hs" and e: "ends_at C1 key [] [] w n' C2"
      and nx: "0 < rk_len key' \<longrightarrow> child_key (rc_page_size C) key' = Inr ck' \<and> (\<exists>x. rc_nodes C2 n' = Some x \<and> od_get (tn_children x) ck' = None)"
      by auto
    note rC = refines_trans [OF refines_touches [OF t1] r] and ea = e [unfolded ends_at_touches [OF t1]]
    note f = ends_at_cached [OF ok2 rC ea]
    have D2: "rc_page_size C2 = rc_page_size C" "rc_root C2 = rc_root C" "rc_is_eagle C2 = rc_is_eagle C" "same_env C C2"
      "slots (cores C2) = slots (cores C)" "rc_evictable_size C2 = rc_evictable_size C" "rc_protected_size C2 = rc_protected_size C"
      "grows (shape C) (shape C2)" "cached C2 = cached C" "laid (rc_page_size C) (cores C) \<longrightarrow> laid (rc_page_size C) (cores C2)"
      using rC by (auto simp: refines_def same_env_iff cached_def fun_eq_iff)
    define C' where "C' = (if rk_len key' > 0 then add_leaf birth priority chunked n' key' ck' (drop (length w) val) C2 else C2)"
    have run: "insert_helper birth t (rc_root C) key val priority chunked C = Some (Inr (length w, C'))"
      using False ck lp by (simp add: insert_helper_def Let_def C1_def [symmetric] C'_def)
    have "rc_ok C' hs \<and> grows (shape C2) (shape C') \<and> slots (cores C') = slots (cores C2) + mset (drop (length w) val) \<and>
      rc_evictable_size C' = rc_evictable_size C2 + int (rk_len key - length w) \<and>
      (laid (rc_page_size C2) (cores C2) \<longrightarrow> lay (rc_page_size C2) (drop (length w) val) \<longrightarrow> laid (rc_page_size C2) (cores C')) \<and>
      (\<forall>e us vs. cached C' e us vs \<longleftrightarrow> cached C2 e us vs \<or> e = rk_extra_key key \<and> rc_page_size C2 dvd length us \<and>
         prefix us (rk_units key) \<and> vs = take (length us) (w @ drop (length w) val))"
    proof (cases "rk_len key' > 0")
      case True
      then obtain x where "rc_nodes C2 n' = Some x" "od_get (tn_children x) ck' = None" "child_key (rc_page_size C2) key' = Inr ck'"
        using nx D2(1) by auto
      with insert_leaf_effect [OF ok2, of key "length w" w n' key' ck' val x C' birth priority chunked] show ?thesis
        using f k rest True v D2 by (simp add: C'_def)
    next
      case no: False
      then have L: "length w = rk_len key" using rest_of_len [OF rest] f(4) by simp
      have "cached C (rk_extra_key key) us (take (length us) w)" if "prefix us (rk_units key)" "rc_page_size C dvd length us" for us
        using stored_prefix [OF f(1) [unfolded cached_def] _ that(2)] that(1) L by (simp add: cached_def)
      then show ?thesis using no ok2 L v D2 by (auto simp: C'_def)
    qed
    moreover have "same_env C C'" "rc_protected_size C' = rc_protected_size C"
      using same_env_trans [OF D2(4) add_leaf_env] D2 by (auto simp: C'_def add_leaf_fields)
    ultimately show ?thesis using run f D2 grows_trans [OF D2(8)]
      by (intro exI [of _ "length w"] exI [of _ w] exI [of _ C']) auto
  qed
qed

text \<open>\<open>insert\<close> with a value for at least every unit of the key.\<close>

lemma insert_cache_effect:
  assumes ok: "rc_ok C hs" and "\<not> rc_disable C" and b: "rk_is_bigram key \<longrightarrow> rc_is_eagle C" and v: "rk_len (cache_key C key) \<le> length val"
  shows "\<exists>L w C'. insert_cache birth now key (Some val) priority chunked C = Some (Inr (L, C')) \<and>
    rc_ok C' hs \<and> same_env C C' \<and> grows (shape C) (shape C') \<and>
    slots (cores C') = slots (cores C) + mset (drop L (take (rk_len (cache_key C key)) val)) \<and>
    rc_evictable_size C' = rc_evictable_size C + int (rk_len (cache_key C key) - L) \<and> rc_protected_size C' = rc_protected_size C \<and>
    (laid (rc_page_size C) (cores C) \<longrightarrow> lay (rc_page_size C) (drop L (take (rk_len (cache_key C key)) val)) \<longrightarrow> laid (rc_page_size C) (cores C')) \<and>
    L \<le> rk_len (cache_key C key) \<and> rc_page_size C dvd L \<and> length w = L \<and> cached C (rk_extra_key key) (take L (cache_units C key)) w \<and>
    (\<forall>ws xs. prefix ws (cache_units C key) \<longrightarrow> cached C (rk_extra_key key) ws xs \<longrightarrow> length ws \<le> L) \<and>
    (\<forall>e us vs. cached C' e us vs \<longleftrightarrow> cached C e us vs \<or> e = rk_extra_key key \<and> rc_page_size C dvd length us \<and>
       prefix us (cache_units C key) \<and> vs = take (length us) (w @ drop L (take (rk_len (cache_key C key)) val)))"
proof -
  note ps = tree_okD(1) [OF rc_okD(1) [OF ok]]
  note k = cache_key_simps [OF ps, of key]
  have "insert_cache birth now key (Some val) priority chunked C =
      insert_helper birth now (rc_root C) (cache_key C key) (take (rk_len (cache_key C key)) val) (case priority of None \<Rightarrow> 0 | Some p \<Rightarrow> p) chunked C"
  proof -
    have "rk_len (cache_key C key) \<le> rk_len (fst (maybe_to_bigram_view (rc_is_eagle C) key None))"
      by (simp add: cache_key_def page_aligned_def)
    then show ?thesis using assms(2) b
      by (auto simp: insert_cache_def cache_key_def maybe_to_bigram_view_def Let_def min_def split: if_splits)
  qed
  note eq = this
  have kb: "rk_is_bigram (cache_key C key) = rc_is_eagle C" using k(2) b by auto
  have lv: "length (take (rk_len (cache_key C key)) val) = rk_len (cache_key C key)" using v by simp
  show ?thesis using insert_helper_effect [OF ok kb k(3) lv] unfolding k(1) eq by simp
qed

end
