(* ===== verification/Radix_Eviction.thy ===== *)
theory Radix_Eviction
  imports Radix_Lookup
begin

section \<open>Eviction and sizes\<close>

text \<open>
  \<open>evict\<close> ends, raises nothing, keeps the invariant, releases the slots of the leaves it deletes and
  stops as soon as it has freed enough; if it frees less, nothing unlocked is left. \<open>total_size\<close> ends
  and agrees with the two counters.
\<close>

subsection \<open>The heap\<close>

lemma heap_pop_min:
  assumes "heap \<noteq> []" "heap_pop heap = (n, heap1)"
  obtains e where "e \<in> set heap" "snd e = n" "\<And>e'. e' \<in> set heap \<Longrightarrow> fst e \<le> fst e'" "heap1 = remove1 e heap"
proof -
  define k where "k = min_list (map fst heap)"
  have k: "k = Min (fst ` set heap)" using assms(1) by (simp add: k_def min_list_Min)
  then have "k \<in> fst ` set heap" using assms(1) by simp
  then have ne: "filter (\<lambda>e. fst e = k) heap \<noteq> []" by (auto simp: filter_empty_conv)
  define e where "e = hd (filter (\<lambda>e. fst e = k) heap)"
  have "e \<in> set (filter (\<lambda>e. fst e = k) heap)" unfolding e_def by (rule hd_in_set [OF ne])
  then have e: "e \<in> set heap" "fst e = k" by simp_all
  moreover have "fst e \<le> fst e'" if "e' \<in> set heap" for e' unfolding e(2) k using that by simp
  ultimately show thesis using that [of e] assms(2) by (simp add: heap_pop_def Let_def e_def k_def)
qed

lemma heap_pop_nodes:
  assumes "heap \<noteq> []" "heap_pop heap = (n, heap1)" "distinct (map snd heap)"
  shows "n \<in> set (map snd heap)" "distinct (map snd heap1)" "set (map snd heap1) = set (map snd heap) - {n}"
proof -
  obtain e where e: "e \<in> set heap" "snd e = n" "heap1 = remove1 e heap" using heap_pop_min [OF assms(1,2)] by metis
  show "n \<in> set (map snd heap)" using e by auto
  obtain xs ys where h: "heap = xs @ e # ys" "e \<notin> set xs" using e(1) by (meson split_list_first)
  then have "heap1 = xs @ ys" using e(3) by (simp add: remove1_append)
  then show "distinct (map snd heap1)" "set (map snd heap1) = set (map snd heap) - {n}" using h assms(3) e(2) by auto
qed

subsection \<open>No free leaf, nothing to evict\<close>

lemma below_child:
  assumes ok: "tree_ok ps bg rt S" and x: "S c = Some x" "tn_parent x = Some n" and h: "below S c h"
  shows "below S n h"
proof -
  obtain e us vs where p: "path S e c us vs h" using h by (auto simp: below_def)
  have cr: "c \<noteq> rt" by (rule parent_not_root [OF ok x])
  obtain v where v: "tn_value x = Some v" using node_key(4) [OF ok x(1) cr] by auto
  show ?thesis
  proof (cases "h = c")
    case True
    then show ?thesis using path_edge [of S c x n _ v] x v by (auto simp: below_def)
  next
    case False
    then have "e = rk_extra_key (tn_key x)" using path_namespace [OF ok p x(1) cr] by simp
    then show ?thesis using path_cons [of S c x n e v us vs h] x v p by (auto simp: below_def)
  qed
qed

lemma lock_count_mono:
  assumes "\<And>h. below S c h \<Longrightarrow> below S n h"
  shows "lock_count S hs c \<le> lock_count S hs n"
  unfolding lock_count_def using assms by (induction hs) auto

lemma od_has_entry: "d \<noteq> [] \<Longrightarrow> \<exists>k v. od_get d k = Some v"
proof (cases d)
  case (Cons e es)
  then have "od_get d (fst e) = Some (snd e)" by (cases e) simp
  then show ?thesis by blast
qed simp

lemma unlocked_has_free_leaf:
  assumes ok: "rc_ok C hs" and "cores C n = Some (x, 0)" "n \<noteq> rc_root C"
  shows "\<exists>m. free_leaf (rc_root C) (cores C) m"
proof -
  note t = rc_okD(1) [OF ok]
  obtain d :: "nat \<Rightarrow> nat" where d: "\<And>n x p. shape C n = Some x \<Longrightarrow> tn_parent x = Some p \<Longrightarrow> d p < d n"
    using tree_okD(5) [OF t] by blast
  let ?U = "{n. n \<noteq> rc_root C \<and> (\<exists>x. cores C n = Some (x, 0))}"
  have "?U \<subseteq> dom (cores C)" by auto
  then have fin: "finite (d ` ?U)" using heap_bound_finite [OF rc_okD(2) [OF ok]] finite_subset by blast
  moreover have "d ` ?U \<noteq> {}" using assms by auto
  ultimately have "Max (d ` ?U) \<in> d ` ?U" by (rule Max_in)
  then obtain m where m0: "Max (d ` ?U) = d m" "m \<in> ?U" by (rule imageE)
  have m: "m \<in> ?U" "\<And>k. k \<in> ?U \<Longrightarrow> d k \<le> d m" using m0 Max_ge [OF fin] by simp_all
  then obtain z where z: "cores C m = Some (z, 0)" "m \<noteq> rc_root C" by auto
  have "tn_children z = []"
  proof (rule ccontr)
    assume "tn_children z \<noteq> []"
    then obtain ck c where "od_get (tn_children z) ck = Some c" using od_has_entry by blast
    moreover have "shape C m = Some z" using z(1) by (simp add: shape_of_def)
    ultimately obtain y where y: "shape C c = Some y" "c \<noteq> rc_root C" "tn_parent y = Some m" using tree_okD(4) [OF t] by metis
    obtain l where l: "cores C c = Some (y, l)" using y(1) by (auto simp: shape_of_def)
    then have "l = lock_count (shape C) hs c" "0 = lock_count (shape C) hs m"
      using rc_okD(3) [OF ok] y(2) z by (auto simp: locks_ok_def)
    moreover have "lock_count (shape C) hs c \<le> lock_count (shape C) hs m"
      by (rule lock_count_mono) (rule below_child [OF t y(1,3)])
    ultimately have "l = 0" by (simp add: lock_count_def)
    then have "d c \<le> d m" using m(2) [of c] l y(2) by simp
    then show False using d [OF y(1,3)] by simp
  qed
  then show ?thesis using z by (auto simp: free_leaf_def)
qed

lemma nothing_evictable:
  assumes ok: "rc_ok C hs" and "\<And>m. \<not> free_leaf (rc_root C) (cores C) m"
  shows "rc_evictable_size C = 0"
proof -
  have "\<not> (n \<noteq> rc_root C \<and> snd (the (cores C n)) = 0)" if "n \<in> dom (cores C)" for n
    using unlocked_has_free_leaf [OF ok, of n] assms(2) that by auto
  then have "tokens (rc_root C) (\<lambda>l. l = 0) (cores C) = 0"
    unfolding tokens_def core_sum_def by (intro sum.neutral ballI) (auto simp: case_prod_beta)
  then show ?thesis using rc_okD(4) [OF ok] by simp
qed

subsection \<open>The loop\<close>

lemma alloc_irrelevant [simp]:
  "cores (C\<lparr>rc_allocator := A\<rparr>) = cores C" "rc_ok (C\<lparr>rc_allocator := A\<rparr>) hs = rc_ok C hs"
  by (simp_all add: cores_def rc_ok_def)

lemma handle_not_free_leaf: "rc_ok C hs \<Longrightarrow> free_leaf (rc_root C) (cores C) n \<Longrightarrow> n \<notin> set hs"
  using rc_okD(3) [of C hs] lock_zero_no_handle [of "shape C" hs n] by (auto simp: free_leaf_def locks_ok_def)

text \<open>What one deletion does, seen from the loop.\<close>

lemma evict_turn:
  assumes ok: "rc_ok C hs" and fl: "free_leaf (rc_root C) (cores C) n"
  obtains x p v y C1 where "rc_nodes C n = Some x" "tn_parent x = Some p" "tn_value x = Some v" "v \<noteq> []"
    "delete_leaf n (C\<lparr>rc_allocator := kv_free v (rc_allocator C)\<rparr>) = Inr C1" "rc_ok C1 hs" "rc_nodes C1 p = Some y"
    "same_env (C\<lparr>rc_allocator := kv_free v (rc_allocator C)\<rparr>) C1" "slots (cores C) = slots (cores C1) + mset v"
    "rc_evictable_size C1 = rc_evictable_size C - int (length v)" "rc_protected_size C1 = rc_protected_size C"
    "card (dom (rc_nodes C1)) < card (dom (rc_nodes C))"
    "\<And>h e us vs. h \<noteq> n \<Longrightarrow> path (shape C1) e (rc_root C) us vs h \<longleftrightarrow> path (shape C) e (rc_root C) us vs h"
    "\<And>e us vs. cached C1 e us vs \<Longrightarrow> cached C e us vs"
    "\<And>m. free_leaf (rc_root C) (cores C1) m \<longleftrightarrow>
       m \<noteq> n \<and> free_leaf (rc_root C) (cores C) m \<or> m = p \<and> tn_children y = [] \<and> rn_lock_ref y = 0"
    "\<not> free_leaf (rc_root C) (cores C) p" "\<And>ps. laid ps (cores C) \<Longrightarrow> laid ps (cores C1) \<and> lay ps v"
proof -
  obtain x0 v where v: "rc_nodes C n = Some x0" "tn_value x0 = Some v" "length v = rk_len (tn_key x0)" "n \<noteq> rc_root C"
    by (rule delete_leaf_cut [OF ok fl])
  define A where "A = C\<lparr>rc_allocator := kv_free v (rc_allocator C)\<rparr>"
  have A: "rc_ok A hs" "free_leaf (rc_root A) (cores A) n" using ok fl by (simp_all add: A_def)
  obtain C1 x p v' where d: "delete_leaf n A = Inr C1" "rc_ok C1 hs" "same_env A C1" "rc_nodes A n = Some x" "tn_parent x = Some p"
    "tn_value x = Some v'" "is_del_leaf (rc_page_size A) n p (shape A) (shape C1)" "slots (cores A) = slots (cores C1) + mset v'"
    "rc_evictable_size C1 = rc_evictable_size A - int (length v')" "rc_protected_size C1 = rc_protected_size A" "rc_nodes C1 p \<noteq> None"
    "\<And>k. k \<noteq> p \<Longrightarrow> k \<noteq> n \<Longrightarrow> rc_nodes C1 k = rc_nodes A k" "card (dom (rc_nodes C1)) < card (dom (rc_nodes A))"
    "\<And>ps. laid ps (cores A) \<Longrightarrow> laid ps (cores C1) \<and> lay ps v'"
    by (rule delete_leaf_effect [OF A]) blast
  have xv: "x = x0" "v' = v" using d(4,6) v by (simp_all add: A_def)
  obtain y where y: "rc_nodes C1 p = Some y" using d(11) by auto
  note t = rc_okD(1) [OF ok] and dl = d(7) [unfolded A_def, simplified]
  have pn: "p \<noteq> n" using parent_neq [OF t shape_Some [OF v(1)]] d(5) xv(1) by simp
  have Cn: "cores C1 n = None" using dl by (auto simp: is_del_leaf_def simp flip: shape_of_None)
  have root1: "rc_root C1 = rc_root C" using d(3) by (simp add: same_env_iff A_def)
  obtain z ck where "shape C p = Some z" "od_get (tn_children z) ck = Some n"
    using tree_okD(3) [OF t shape_Some [OF v(1)] v(4)] d(5) xv(1) by (auto simp: node_ok_def)
  then have np: "\<not> free_leaf (rc_root C) (cores C) p" by (auto simp: free_leaf_def shape_of_def)
  have leaf: "free_leaf (rc_root C) (cores C1) m \<longleftrightarrow>
      m \<noteq> n \<and> free_leaf (rc_root C) (cores C) m \<or> m = p \<and> tn_children y = [] \<and> rn_lock_ref y = 0" for m
  proof -
    consider "m = n" | "m = p" | "m \<noteq> n" "m \<noteq> p" by blast
    then show ?thesis
    proof cases
      case 1
      then show ?thesis using Cn pn by (simp add: free_leaf_def cores_def)
    next
      case 2
      have "free_leaf (rc_root C) (cores C1) p \<longleftrightarrow> tn_children y = [] \<and> rn_lock_ref y = 0"
        using y rc_ok_lock(2) [OF d(2) y] root1 by (auto simp: free_leaf_def cores_def core_def tree_node.truncate_def)
      then show ?thesis using 2 np by simp
    next
      case 3
      then show ?thesis using d(12) [of m] by (simp add: free_leaf_def cores_def A_def)
    qed
  qed
  have vne: "v \<noteq> []" using v(3) node_key(1) [OF t shape_Some [OF v(1)] v(4)] tree_okD(1) [OF t] by auto
  have pg: "rc_page_size C1 = rc_page_size C" using d(3) by (simp add: same_env_iff A_def)
  show thesis
    by (rule that [of x p v C1 y, OF _ _ _ vne _ d(2) y d(3) [unfolded A_def] _ _ _ _ _ _ leaf np d(14) [unfolded xv A_def, simplified]])
      (use d xv v del_leaf_path [OF t dl] del_leaf_stored [OF t dl] in \<open>simp_all add: A_def cached_def root1 pg\<close>)
qed

lemma evict_loop_effect:
  assumes "rc_ok C hs" "distinct (map snd heap)" "\<And>n. n \<in> set (map snd heap) \<longleftrightarrow> free_leaf (rc_root C) (cores C) n"
  shows "\<exists>vss C'. evict_loop num k heap C = Some (Inr (k + int (length (concat vss)), C')) \<and> rc_ok C' hs \<and>
    rc_allocator C' = fold kv_free vss (rc_allocator C) \<and> same_env (C\<lparr>rc_allocator := rc_allocator C'\<rparr>) C' \<and>
    slots (cores C) = slots (cores C') + mset (concat vss) \<and>
    rc_evictable_size C' = rc_evictable_size C - int (length (concat vss)) \<and> rc_protected_size C' = rc_protected_size C \<and>
    (num \<le> k + int (length (concat vss)) \<or> rc_evictable_size C' = 0) \<and>
    (vss \<noteq> [] \<longrightarrow> k + int (length (concat (butlast vss))) < num) \<and>
    (\<forall>h \<in> set hs. \<forall>e us vs. path (shape C') e (rc_root C) us vs h \<longleftrightarrow> path (shape C) e (rc_root C) us vs h) \<and>
    (\<forall>e us vs. cached C' e us vs \<longrightarrow> cached C e us vs) \<and>
    (\<forall>ps. laid ps (cores C) \<longrightarrow> laid ps (cores C') \<and> (\<forall>v \<in> set vss. lay ps v))"
  using assms
proof (induction "card (dom (rc_nodes C))" arbitrary: C k heap rule: less_induct)
  case less
  show ?case
  proof (cases "k < num \<and> heap \<noteq> []")
    case False
    then have "num \<le> k \<or> rc_evictable_size C = 0" using nothing_evictable [OF less.prems(1)] less.prems(3) by auto
    moreover have "evict_loop num k heap C = Some (Inr (k, C))" using False by (subst evict_loop.simps) auto
    ultimately show ?thesis using less.prems(1) by (intro exI [of _ "[]"] exI [of _ C]) simp
  next
    case True
    obtain n heap1 where pop: "heap_pop heap = (n, heap1)" by (cases "heap_pop heap")
    note hp = heap_pop_nodes [OF conjunct2 [OF True] pop less.prems(2)]
    have fl: "free_leaf (rc_root C) (cores C) n" using less.prems(3) hp(1) by blast
    obtain x p v y C1 where t: "rc_nodes C n = Some x" "tn_parent x = Some p" "tn_value x = Some v" "v \<noteq> []"
      "delete_leaf n (C\<lparr>rc_allocator := kv_free v (rc_allocator C)\<rparr>) = Inr C1" and ok1: "rc_ok C1 hs" and y: "rc_nodes C1 p = Some y"
      and env: "same_env (C\<lparr>rc_allocator := kv_free v (rc_allocator C)\<rparr>) C1" and sl: "slots (cores C) = slots (cores C1) + mset v"
      and sz: "rc_evictable_size C1 = rc_evictable_size C - int (length v)" "rc_protected_size C1 = rc_protected_size C"
      and cd: "card (dom (rc_nodes C1)) < card (dom (rc_nodes C))"
      and pth: "\<And>h e us vs. h \<noteq> n \<Longrightarrow> path (shape C1) e (rc_root C) us vs h \<longleftrightarrow> path (shape C) e (rc_root C) us vs h"
      and ch: "\<And>e us vs. cached C1 e us vs \<Longrightarrow> cached C e us vs"
      and lf: "\<And>m. free_leaf (rc_root C) (cores C1) m \<longleftrightarrow>
        m \<noteq> n \<and> free_leaf (rc_root C) (cores C) m \<or> m = p \<and> tn_children y = [] \<and> rn_lock_ref y = 0"
      and np: "\<not> free_leaf (rc_root C) (cores C) p" and la: "\<And>ps. laid ps (cores C) \<Longrightarrow> laid ps (cores C1) \<and> lay ps v"
      by (rule evict_turn [OF less.prems(1) fl]) blast
    define heap2 where "heap2 = (if tn_children y = [] \<and> rn_lock_ref y = 0 then heap1 @ [(heap_entry (rc_eviction_policy C) y, p)] else heap1)"
    have run: "evict_loop num k heap C = evict_loop num (k + int (length v)) heap2 C1"
      using True pop t y by (subst evict_loop.simps) (simp add: heap2_def)
    have r1: "rc_root C1 = rc_root C" "rc_allocator C1 = kv_free v (rc_allocator C)" using env by (simp_all add: same_env_iff)
    have "p \<notin> set (map snd heap)" using np less.prems(3) by blast
    then have h2: "distinct (map snd heap2)" "\<And>m. m \<in> set (map snd heap2) \<longleftrightarrow> free_leaf (rc_root C1) (cores C1) m"
      using hp less.prems(3) lf unfolding r1 heap2_def by auto
    obtain vss C' where IH: "evict_loop num (k + int (length v)) heap2 C1 = Some (Inr (k + int (length v) + int (length (concat vss)), C'))"
      "rc_ok C' hs" "rc_allocator C' = fold kv_free vss (rc_allocator C1)" "same_env (C1\<lparr>rc_allocator := rc_allocator C'\<rparr>) C'"
      "slots (cores C1) = slots (cores C') + mset (concat vss)" "rc_evictable_size C' = rc_evictable_size C1 - int (length (concat vss))"
      "rc_protected_size C' = rc_protected_size C1" "num \<le> k + int (length v) + int (length (concat vss)) \<or> rc_evictable_size C' = 0"
      "vss \<noteq> [] \<longrightarrow> k + int (length v) + int (length (concat (butlast vss))) < num"
      "\<forall>h \<in> set hs. \<forall>e us vs. path (shape C') e (rc_root C1) us vs h \<longleftrightarrow> path (shape C1) e (rc_root C1) us vs h"
      "\<forall>e us vs. cached C' e us vs \<longrightarrow> cached C1 e us vs"
      "\<forall>ps. laid ps (cores C1) \<longrightarrow> laid ps (cores C') \<and> (\<forall>v \<in> set vss. lay ps v)"
      using less.hyps [OF cd ok1 h2] by blast
    have nh: "h \<noteq> n" if "h \<in> set hs" for h using handle_not_free_leaf [OF less.prems(1) fl] that by auto
    show ?thesis
    proof (intro exI [of _ "v # vss"] exI [of _ C'] conjI)
      show "same_env (C\<lparr>rc_allocator := rc_allocator C'\<rparr>) C'" using IH(4) env by (simp add: same_env_iff)
      show "\<forall>h \<in> set hs. \<forall>e us vs. path (shape C') e (rc_root C) us vs h \<longleftrightarrow> path (shape C) e (rc_root C) us vs h"
        using IH(10) pth [OF nh] by (simp add: r1)
      show "\<forall>e us vs. cached C' e us vs \<longrightarrow> cached C e us vs" using IH(11) ch by blast
      show "\<forall>ps. laid ps (cores C) \<longrightarrow> laid ps (cores C') \<and> (\<forall>w \<in> set (v # vss). lay ps w)" using IH(12) la by auto
      show "num \<le> k + int (length (concat (v # vss))) \<or> rc_evictable_size C' = 0" using IH(8) by auto
      show "v # vss \<noteq> [] \<longrightarrow> k + int (length (concat (butlast (v # vss)))) < num" using IH(9) True by auto
    qed (use IH run sl sz r1 in \<open>simp_all\<close>)
  qed
qed

lemma evict_effect:
  assumes ok: "rc_ok C hs" and "\<not> rc_disable C"
  shows "\<exists>vss C'. evict num C = Some (Inr (int (length (concat vss)), C')) \<and> rc_ok C' hs \<and>
    rc_allocator C' = fold kv_free vss (rc_allocator C) \<and> same_env (C\<lparr>rc_allocator := rc_allocator C'\<rparr>) C' \<and>
    slots (cores C) = slots (cores C') + mset (concat vss) \<and>
    rc_evictable_size C' = rc_evictable_size C - int (length (concat vss)) \<and> rc_protected_size C' = rc_protected_size C \<and>
    (num \<le> int (length (concat vss)) \<or> rc_evictable_size C' = 0) \<and>
    (vss \<noteq> [] \<longrightarrow> int (length (concat (butlast vss))) < num) \<and>
    (\<forall>h \<in> set hs. \<forall>e us vs. path (shape C') e (rc_root C) us vs h \<longleftrightarrow> path (shape C) e (rc_root C) us vs h) \<and>
    (\<forall>e us vs. cached C' e us vs \<longrightarrow> cached C e us vs) \<and>
    (\<forall>ps. laid ps (cores C) \<longrightarrow> laid ps (cores C') \<and> (\<forall>v \<in> set vss. lay ps v))"
proof -
  let ?heap = "map (\<lambda>n. (case rc_nodes C n of None \<Rightarrow> [] | Some x \<Rightarrow> heap_entry (rc_eviction_policy C) x, n)) (rc_evictable_leaves C)"
  have "map snd ?heap = rc_evictable_leaves C" by (simp add: comp_def)
  then have "distinct (map snd ?heap)" "\<And>n. n \<in> set (map snd ?heap) \<longleftrightarrow> free_leaf (rc_root C) (cores C) n"
    using rc_okD(6,7) [OF ok] by simp_all
  from evict_loop_effect [OF ok this, of num 0] show ?thesis using assms(2) by (simp add: evict_def Let_def)
qed

subsection \<open>Sizes\<close>

lemma below_refl [simp]: "below S n n"
  by (auto simp: below_def intro: path_nil)

lemma below_chain:
  assumes ok: "tree_ok ps bg rt S" and "S k \<noteq> None" "below S a k" "below S b k"
  shows "below S a b \<or> below S b a"
proof -
  obtain d :: "nat \<Rightarrow> nat" where d: "\<And>n x p. S n = Some x \<Longrightarrow> tn_parent x = Some p \<Longrightarrow> d p < d n"
    using tree_okD(5) [OF ok] by blast
  show ?thesis using assms(2-4)
  proof (induction "d k" arbitrary: k rule: less_induct)
    case less
    show ?case
    proof (cases "k = a \<or> k = b")
      case False
      obtain x where x: "S k = Some x" using less.prems(1) by auto
      have "k \<noteq> rt" using False less.prems(2) path_into_root [OF ok] by (auto simp: below_def)
      then obtain p y where p: "tn_parent x = Some p" "S p = Some y" using tree_okD(3) [OF ok x] by (auto simp: node_ok_def)
      have "below S a p" "below S b p" using less.prems(2,3) below_parent [OF ok x p(1)] False by auto
      then show ?thesis using less.hyps [OF d [OF x p(1)]] p(2) by simp
    qed (use less.prems in auto)
  qed
qed

lemma siblings_apart:
  assumes ok: "tree_ok ps bg rt S" and c: "S c = Some x" "tn_parent x = Some n" and d: "S c' = Some z" "tn_parent z = Some n"
    and k: "S k \<noteq> None" "below S c k" "below S c' k"
  shows "c = c'"
proof -
  have up: "\<not> below S a n" if "S a = Some w" "tn_parent w = Some n" for a w
  proof -
    have "a \<noteq> rt" by (rule parent_not_root [OF ok that])
    then show ?thesis using up_parent(2) [OF ok that] by (simp add: up_def)
  qed
  show ?thesis
    using below_chain [OF ok k] below_parent [OF ok d, of c] below_parent [OF ok c, of c'] up [OF c] up [OF d] by auto
qed

definition subtree :: "shape \<Rightarrow> nat \<Rightarrow> nat set" where
  "subtree S n = {k. S k \<noteq> None \<and> below S n k}"

lemma subtree_step:
  assumes ok: "tree_ok ps bg rt S" and x: "S n = Some x"
  shows "subtree S n = insert n (\<Union>c \<in> set (od_values (tn_children x)). subtree S c)"
    "n \<notin> (\<Union>c \<in> set (od_values (tn_children x)). subtree S c)"
proof -
  define Q where "Q = set (od_values (tn_children x))"
  have kids: "c \<in> Q \<longleftrightarrow> (\<exists>y. S c = Some y \<and> tn_parent y = Some n)" for c
  proof
    assume "c \<in> Q"
    then obtain ck where "(ck, c) \<in> set (tn_children x)" by (auto simp: Q_def)
    then have "od_get (tn_children x) ck = Some c" using od_get_in_set [OF tree_okD(6) [OF ok x], of ck c] by simp
    then show "\<exists>y. S c = Some y \<and> tn_parent y = Some n" using tree_okD(4) [OF ok x] by blast
  next
    assume "\<exists>y. S c = Some y \<and> tn_parent y = Some n"
    then obtain y where y: "S c = Some y" "tn_parent y = Some n" by blast
    then obtain ck where "od_get (tn_children x) ck = Some c" using node_ok_of_parent [OF ok y] x by (auto simp: node_ok_def)
    then have "(ck, c) \<in> set (tn_children x)" by (rule map_of_SomeD)
    then show "c \<in> Q" unfolding Q_def by (metis image_eqI image_set snd_conv)
  qed
  have step: "below S n k \<longleftrightarrow> k = n \<or> (\<exists>c \<in> Q. below S c k)" for k
  proof
    assume "below S n k"
    then obtain e us vs where "path S e n us vs k" by (auto simp: below_def)
    then show "k = n \<or> (\<exists>c \<in> Q. below S c k)"
      unfolding path_iff [of S e n] kids Bex_def by (auto simp: below_def)
  next
    assume "k = n \<or> (\<exists>c \<in> Q. below S c k)"
    then show "below S n k" using below_child [OF ok] kids by auto
  qed
  show "subtree S n = insert n (\<Union>c \<in> set (od_values (tn_children x)). subtree S c)"
    unfolding Q_def [symmetric] using x step by (auto simp: subtree_def)
  have "\<not> below S c n" if c: "S c = Some y" "tn_parent y = Some n" for c y
    using up_parent(2) [OF ok c parent_not_root [OF ok c]] parent_not_root [OF ok c] by (simp add: up_def)
  then show "n \<notin> (\<Union>c \<in> set (od_values (tn_children x)). subtree S c)"
    unfolding Q_def [symmetric] using kids by (auto simp: subtree_def)
qed

lemma kids_apart:
  assumes ok: "tree_ok ps bg rt S" and x: "S n = Some x"
  shows "distinct (od_values (tn_children x))"
    "\<And>a b. a \<in> set (od_values (tn_children x)) \<Longrightarrow> b \<in> set (od_values (tn_children x)) \<Longrightarrow> a \<noteq> b \<Longrightarrow> subtree S a \<inter> subtree S b = {}"
    "\<And>a. a \<in> set (od_values (tn_children x)) \<Longrightarrow> S a \<noteq> None"
proof -
  have kid: "\<exists>y. S (snd e) = Some y \<and> tn_parent y = Some n \<and> child_key ps (tn_key y) = Inr (fst e)" if "e \<in> set (tn_children x)" for e
  proof -
    have "od_get (tn_children x) (fst e) = Some (snd e)" using that od_get_in_set [OF tree_okD(6) [OF ok x], of "fst e" "snd e"] by simp
    then show ?thesis using tree_okD(4) [OF ok x] by blast
  qed
  have "inj_on snd (set (tn_children x))"
  proof (rule inj_onI)
    fix e f assume "e \<in> set (tn_children x)" "f \<in> set (tn_children x)" "snd e = snd f"
    then show "e = f" using kid [of e] kid [of f] by (auto simp: prod_eq_iff)
  qed
  moreover have "distinct (tn_children x)" using tree_okD(6) [OF ok x] by (simp add: od_ok_def distinct_map)
  ultimately show "distinct (od_values (tn_children x))" by (simp add: distinct_map)
  show "S a \<noteq> None" if "a \<in> set (od_values (tn_children x))" for a using kid that by fastforce
  show "subtree S a \<inter> subtree S b = {}"
    if ab: "a \<in> set (od_values (tn_children x))" "b \<in> set (od_values (tn_children x))" "a \<noteq> b" for a b
  proof -
    obtain e f where "e \<in> set (tn_children x)" "snd e = a" "f \<in> set (tn_children x)" "snd f = b" using ab(1,2) by auto
    then obtain y z where "S a = Some y" "tn_parent y = Some n" "S b = Some z" "tn_parent z = Some n" using kid [of e] kid [of f] by auto
    then have "\<not> (S k \<noteq> None \<and> below S a k \<and> below S b k)" for k using siblings_apart [OF ok, of a y n b z k] ab(3) by blast
    then show ?thesis unfolding subtree_def by blast
  qed
qed

definition node_len :: "radix_cache \<Rightarrow> nat \<Rightarrow> nat" where
  "node_len C n = (case rc_nodes C n of None \<Rightarrow> 0 | Some x \<Rightarrow> length (the (tn_value x)))"

lemma total_size_loop_effect:
  assumes ok: "rc_ok C hs"
  shows "\<forall>n \<in> set stack. rc_nodes C n \<noteq> None \<Longrightarrow> distinct stack \<Longrightarrow>
      \<forall>a \<in> set stack. \<forall>b \<in> set stack. a \<noteq> b \<longrightarrow> subtree (shape C) a \<inter> subtree (shape C) b = {} \<Longrightarrow>
    total_size_loop C stack tot = Some (Inr (tot + (\<Sum>k \<in> (\<Union>n \<in> set stack. subtree (shape C) n). node_len C k)))"
proof (induction "card (\<Union>n \<in> set stack. subtree (shape C) n)" arbitrary: stack tot rule: less_induct)
  case less
  note t = rc_okD(1) [OF ok]
  let ?S = "shape C" and ?U = "\<lambda>xs. \<Union>n \<in> set xs. subtree (shape C) n"
  have fin: "finite (?U xs)" for xs
    by (rule finite_subset [OF _ heap_bound_finite [OF rc_okD(2) [OF ok]]]) (auto simp: subtree_def dom_def)
  show ?case
  proof (cases stack rule: rev_cases)
    case Nil
    then show ?thesis by (subst total_size_loop.simps) simp
  next
    case (snoc st n)
    obtain x where x: "rc_nodes C n = Some x" using less.prems(1) snoc by auto
    note Sn = shape_Some [OF x] and st = subtree_step [OF t shape_Some [OF x], unfolded core_simps]
      and ka = kids_apart [OF t shape_Some [OF x], unfolded core_simps]
    let ?kids = "od_values (tn_children x)"
    have val: "tn_value z \<noteq> None" if "rc_nodes C k = Some z" for k z
      using node_key(4) [OF t shape_Some [OF that]] tree_okD(2) [OF t] shape_Some [OF that] by (cases "k = rc_root C") auto
    have "filter (\<lambda>c. case rc_nodes C c of None \<Rightarrow> False | Some y \<Rightarrow> \<not> node_evicted y) ?kids = ?kids"
      using ka(3) val by (auto simp: filter_id_conv node_evicted_def split: option.splits)
    then have run: "total_size_loop C stack tot = total_size_loop C (st @ ?kids) (tot + node_len C n)"
      using snoc x val [OF x] by (subst total_size_loop.simps) (auto simp: node_len_def)
    have sub: "subtree ?S n \<inter> ?U st = {}" using less.prems(2,3) snoc by auto
    define Q where "Q = set ?kids"
    have U: "?U stack = insert n (?U (st @ ?kids))" "n \<notin> ?U (st @ ?kids)"
      using snoc st sub by (auto simp: Q_def [symmetric] simp del: set_map)
    have inn: "subtree ?S a \<subseteq> subtree ?S n" if "a \<in> Q" for a using st(1) that by (auto simp: Q_def)
    have self: "a \<in> subtree ?S a" if "rc_nodes C a \<noteq> None" for a using that by (simp add: subtree_def)
    have live: "rc_nodes C a \<noteq> None" if "a \<in> Q" for a using ka(3) [of a] that by (simp add: Q_def)
    have new: "a \<notin> Q" "subtree ?S a \<inter> subtree ?S b = {}" if "a \<in> set st" "b \<in> Q" for a b
      using sub inn [OF that(2)] inn [of a] self [OF live, of a] that(1) by blast+
    have smaller: "card (?U (st @ ?kids)) < card (?U stack)" unfolding U(1) using U(2) fin [of "st @ ?kids"] by (simp del: set_append)
    have "total_size_loop C (st @ ?kids) (tot + node_len C n) = Some (Inr (tot + node_len C n + (\<Sum>k \<in> ?U (st @ ?kids). node_len C k)))"
    proof -
      have 1: "\<forall>k \<in> set (st @ ?kids). rc_nodes C k \<noteq> None" using less.prems(1) live snoc by (auto simp: Q_def simp del: set_map)
      have 2: "distinct (st @ ?kids)" using less.prems(2) ka(1) new(1) snoc unfolding Q_def by auto
      have 3: "\<forall>a \<in> set (st @ ?kids). \<forall>b \<in> set (st @ ?kids). a \<noteq> b \<longrightarrow> subtree ?S a \<inter> subtree ?S b = {}"
      proof (intro ballI impI)
        fix a b assume "a \<in> set (st @ ?kids)" "b \<in> set (st @ ?kids)" and ab: "a \<noteq> b"
        then have "(a \<in> set st \<or> a \<in> Q) \<and> (b \<in> set st \<or> b \<in> Q)" by (auto simp: Q_def)
        moreover have "subtree ?S a \<inter> subtree ?S b = {}" if "a \<in> set st" "b \<in> set st"
          using less.prems(3) [rule_format, of a b] that ab snoc by simp
        ultimately show "subtree ?S a \<inter> subtree ?S b = {}"
          using ka(2) [of a b] ab new(2) [of a b] new(2) [of b a] unfolding Q_def by blast
      qed
      show ?thesis by (rule less.hyps [OF smaller 1 2 3])
    qed
    then show ?thesis unfolding run using U fin [of "st @ ?kids"] by (simp add: add.assoc del: set_append set_map)
  qed
qed

lemma total_size_effect:
  assumes ok: "rc_ok C hs"
  shows "total_size C = Some (Inr (\<Sum>k \<in> dom (rc_nodes C). node_len C k))"
proof -
  have "below (shape C) (rc_root C) k" if "rc_nodes C k = Some z" for k z
    using path_to_node [OF rc_okD(1) [OF ok] shape_Some [OF that]] by (auto simp: below_def)
  then have "subtree (shape C) (rc_root C) = dom (rc_nodes C)" by (auto simp: subtree_def)
  then show ?thesis using total_size_loop_effect [OF ok, of "[rc_root C]" 0] root_live [OF ok] by (simp add: total_size_def)
qed

lemma sizes_add_up:
  assumes ok: "rc_ok C hs"
  shows "int (\<Sum>k \<in> dom (rc_nodes C). node_len C k) = rc_evictable_size C + rc_protected_size C"
proof -
  have d: "dom (cores C) = dom (rc_nodes C)" by (auto simp: cores_def)
  have "(if k \<noteq> rc_root C \<and> snd (the (cores C k)) = 0 then int (rk_len (tn_key (fst (the (cores C k))))) else 0) +
      (if k \<noteq> rc_root C \<and> snd (the (cores C k)) > 0 then int (rk_len (tn_key (fst (the (cores C k))))) else 0) = int (node_len C k)"
    if k: "k \<in> dom (rc_nodes C)" for k
  proof -
    obtain x where x: "rc_nodes C k = Some x" using k by auto
    then show ?thesis
      using rc_ok_lock(1) [OF ok x] node_key(4) [OF rc_okD(1) [OF ok] shape_Some [OF x]] tree_okD(2) [OF rc_okD(1) [OF ok]] shape_Some [OF x]
      by (cases "k = rc_root C") (auto simp: cores_def core_def node_len_def)
  qed
  then show ?thesis unfolding rc_okD(4,5) [OF ok] tokens_def core_sum_def d case_prod_beta
    by (simp add: sum.distrib [symmetric] del: of_nat_sum) (simp add: of_nat_sum)
qed

end
