(* ===== verification/Radix_Properties.thy ===== *)
theory Radix_Properties
  imports Radix_Eviction
begin

section \<open>What the prefix cache promises\<close>

text \<open>
  The contract of a store of prefixes, the caches that sequences of operations of \<open>RadixCache\<close> reach,
  and the properties of all of them.
\<close>

subsection \<open>A store of prefixes\<close>

text \<open>
  The slot stored at position \<open>i\<close> of a prefix was once inserted, at the same position, under a key that
  agrees with the prefix up to that position and has the same namespace. Keys and values
  depend on the tokens up to their position and on nothing else, so this is what makes a hit usable.
\<close>

type_synonym history = "(string option \<times> key_unit list \<times> int list) set"

definition prefix_sound :: "('e \<times> 'u list \<times> 'v list) set \<Rightarrow> ('e \<Rightarrow> 'u list \<Rightarrow> 'v list \<Rightarrow> bool) \<Rightarrow> bool" where
  "prefix_sound H E =
     (\<forall>e us vs. E e us vs \<longrightarrow> length vs = length us \<and>
        (\<forall>i < length us. \<exists>us' vs'. (e, us', vs') \<in> H \<and> i < length us' \<and> i < length vs' \<and>
           take (Suc i) us' = take (Suc i) us \<and> vs' ! i = vs ! i))"

lemma prefix_sound_mono: "prefix_sound H E \<Longrightarrow> H \<subseteq> H' \<Longrightarrow> (\<And>e us vs. E' e us vs \<Longrightarrow> E e us vs) \<Longrightarrow> prefix_sound H' E'"
  unfolding prefix_sound_def by (meson subsetD)

lemma prefix_sound_length: "prefix_sound H E \<Longrightarrow> E e us vs \<Longrightarrow> length vs = length us"
  unfolding prefix_sound_def by blast

lemma prefix_sound_at:
  assumes "prefix_sound H E" "E e us vs" "i < length us"
  obtains us' vs' where "(e, us', vs') \<in> H" "i < length us'" "i < length vs'" "take (Suc i) us' = take (Suc i) us" "vs' ! i = vs ! i"
  using assms unfolding prefix_sound_def by blast

lemma prefix_soundI:
  assumes "\<And>e us vs. E e us vs \<Longrightarrow> length vs = length us"
    and "\<And>e us vs i. E e us vs \<Longrightarrow> i < length us \<Longrightarrow> \<exists>us' vs'. (e, us', vs') \<in> H \<and> i < length us' \<and> i < length vs' \<and>
      take (Suc i) us' = take (Suc i) us \<and> vs' ! i = vs ! i"
  shows "prefix_sound H E"
  using assms unfolding prefix_sound_def by blast

locale prefix_store =
  fixes entries :: "'s \<Rightarrow> 'e \<Rightarrow> 'u list \<Rightarrow> 'v list \<Rightarrow> bool"
    and keeps :: "'s \<Rightarrow> 's \<Rightarrow> bool"
    and inserts :: "'e \<Rightarrow> 'u list \<Rightarrow> 'v list \<Rightarrow> 's \<Rightarrow> 's \<Rightarrow> bool"
  assumes keeps_entries: "keeps s s' \<Longrightarrow> entries s' e us vs \<Longrightarrow> entries s e us vs"
    and inserts_entries: "inserts e us vs s s' \<Longrightarrow> entries s' e' us' vs' \<Longrightarrow>
      entries s e' us' vs' \<or> e' = e \<and> prefix us' us \<and>
        (\<exists>w. entries s e (take (length w) us) w \<and> vs' = take (length us') (w @ drop (length w) vs))"
    and inserts_lengths: "inserts e us vs s s' \<Longrightarrow> length vs = length us"
begin

lemma keeps_sound: "keeps s s' \<Longrightarrow> prefix_sound H (entries s) \<Longrightarrow> prefix_sound H (entries s')"
  by (rule prefix_sound_mono [of H "entries s"]) (auto dest: keeps_entries)

lemma inserts_sound:
  assumes ins: "inserts e us vs s s'" and s: "prefix_sound H (entries s)"
  shows "prefix_sound (insert (e, us, vs) H) (entries s')"
proof (rule prefix_soundI)
  let ?H = "insert (e, us, vs) H"
  fix e' us' vs' assume en: "entries s' e' us' vs'"
  note lv = inserts_lengths [OF ins]
  have new: "length vs' = length us' \<and> (\<forall>i < length us'. (\<exists>us'' vs''. (e', us'', vs'') \<in> ?H \<and> i < length us'' \<and>
      i < length vs'' \<and> take (Suc i) us'' = take (Suc i) us' \<and> vs'' ! i = vs' ! i))" if nold: "\<not> entries s e' us' vs'"
  proof -
    obtain w where e: "e' = e" "prefix us' us" and w: "entries s e (take (length w) us) w"
      and vs': "vs' = take (length us') (w @ drop (length w) vs)" using inserts_entries [OF ins en] nold by blast
    have lw: "length w \<le> length us" using prefix_sound_length [OF s w] by simp
    obtain zs where zs: "us = us' @ zs" using e(2) by (auto simp: prefix_def)
    have "\<exists>us'' vs''. (e', us'', vs'') \<in> ?H \<and> i < length us'' \<and> i < length vs'' \<and>
        take (Suc i) us'' = take (Suc i) us' \<and> vs'' ! i = vs' ! i" if i: "i < length us'" for i
    proof (cases "i < length w")
      case True
      have "i < length (take (length w) us)" using lw True by simp
      then obtain us'' vs'' where h: "(e, us'', vs'') \<in> H" "i < length us''" "i < length vs''"
        "take (Suc i) us'' = take (Suc i) (take (length w) us)" "vs'' ! i = w ! i" by (rule prefix_sound_at [OF s w])
      have "take (Suc i) (take (length w) us) = take (Suc i) us'" using True i by (simp add: zs min_def)
      moreover have "vs' ! i = w ! i" using True i by (simp add: vs' nth_append)
      ultimately show ?thesis using h e by auto
    next
      case False
      then have "vs' ! i = vs ! i" using i lw lv zs by (simp add: vs' nth_append)
      moreover have "take (Suc i) us = take (Suc i) us'" "i < length us" "i < length vs" using i lv by (auto simp: zs)
      ultimately show ?thesis using e by auto
    qed
    moreover have "length vs' = length us'" using lw lv by (simp add: vs' zs)
    ultimately show ?thesis by blast
  qed
  show "length vs' = length us'" using new prefix_sound_length [OF s] by blast
  fix i assume i: "i < length us'"
  show "\<exists>us'' vs''. (e', us'', vs'') \<in> ?H \<and> i < length us'' \<and> i < length vs'' \<and>
      take (Suc i) us'' = take (Suc i) us' \<and> vs'' ! i = vs' ! i"
  proof (cases "entries s e' us' vs'")
    case True
    show ?thesis using prefix_sound_at [OF s True i] by (metis insertI2)
  next
    case False
    then show ?thesis using new i by blast
  qed
qed

end

text \<open>The cache is such a store. Lookups, locks and evictions keep; an insertion inserts the part of its key that is whole pages.\<close>

definition cache_keeps :: "radix_cache \<Rightarrow> radix_cache \<Rightarrow> bool" where
  "cache_keeps C C' = (\<forall>e us vs. cached C' e us vs \<longrightarrow> cached C e us vs)"

definition cache_inserts :: "string option \<Rightarrow> key_unit list \<Rightarrow> int list \<Rightarrow> radix_cache \<Rightarrow> radix_cache \<Rightarrow> bool" where
  "cache_inserts e us vs C C' =
     (\<exists>hs birth now key val priority chunked L. rc_ok C hs \<and> \<not> rc_disable C \<and> (rk_is_bigram key \<longrightarrow> rc_is_eagle C) \<and>
        rk_len (cache_key C key) \<le> length val \<and> e = rk_extra_key key \<and> us = cache_units C key \<and> vs = take (rk_len (cache_key C key)) val \<and>
        insert_cache birth now key (Some val) priority chunked C = Some (Inr (L, C')))"

interpretation radix_store: prefix_store cached cache_keeps cache_inserts
proof unfold_locales
  fix C C' e us vs
  assume "cache_keeps C C'" "cached C' e us vs"
  then show "cached C e us vs" by (simp add: cache_keeps_def)
next
  fix e us vs C C'
  assume "cache_inserts e us vs C C'"
  then show "length vs = length us" by (auto simp: cache_inserts_def)
next
  fix e us vs C C' e' us' vs'
  assume i: "cache_inserts e us vs C C'" and c: "cached C' e' us' vs'"
  obtain hs birth now key val priority chunked L where h: "rc_ok C hs" "\<not> rc_disable C" "rk_is_bigram key \<longrightarrow> rc_is_eagle C"
      "rk_len (cache_key C key) \<le> length val"
    and e: "e = rk_extra_key key" "us = cache_units C key" "vs = take (rk_len (cache_key C key)) val"
    and r: "insert_cache birth now key (Some val) priority chunked C = Some (Inr (L, C'))"
    using i unfolding cache_inserts_def by blast
  from insert_cache_effect [OF h, of birth now priority chunked] r obtain w where "length w = L"
    "cached C (rk_extra_key key) (take L (cache_units C key)) w"
    "\<forall>e us vs. cached C' e us vs \<longleftrightarrow> cached C e us vs \<or> e = rk_extra_key key \<and> rc_page_size C dvd length us \<and>
       prefix us (cache_units C key) \<and> vs = take (length us) (w @ drop L (take (rk_len (cache_key C key)) val))" by auto
  then show "cached C e' us' vs' \<or> e' = e \<and> prefix us' us \<and>
      (\<exists>w. cached C e (take (length w) us) w \<and> vs' = take (length us') (w @ drop (length w) vs))" using c e by blast
qed

subsection \<open>Reachable caches\<close>

lemma reset_cache_nodes:
  "\<exists>x. rc_nodes (reset_cache birth C) = [rc_counter C \<mapsto> x] \<and> tn_children x = [] \<and> tn_parent x = None \<and> tn_value x = Some [] \<and> rn_lock_ref x = 1"
  by (rule exI [of _ "the (rc_nodes (reset_cache birth C) (rc_counter C))"]) (simp add: reset_cache_def new_tree_node_def Let_def)

lemma reset_cache_ok:
  assumes ps: "0 < rc_page_size C"
  shows "rc_ok (reset_cache birth C) []" "slots (cores (reset_cache birth C)) = {#}" "laid ps (cores (reset_cache birth C))"
    "same_env (C\<lparr>rc_root := rc_counter C\<rparr>) (reset_cache birth C)"
proof -
  let ?C = "reset_cache birth C"
  obtain x where x: "rc_nodes ?C = [rc_counter C \<mapsto> x]" "tn_children x = []" "tn_parent x = None" "tn_value x = Some []" "rn_lock_ref x = 1"
    using reset_cache_nodes by blast
  have K: "cores ?C = [rc_counter C \<mapsto> (tree_node.truncate x, 1)]" using x(1,5) by (auto simp: cores_def core_def)
  have f: "rc_root ?C = rc_counter C" "rc_counter ?C = rc_counter C + 1" "rc_page_size ?C = rc_page_size C"
    "rc_evictable_size ?C = 0" "rc_protected_size ?C = 0" "rc_evictable_leaves ?C = []" by (simp_all add: reset_cache_def Let_def)
  show "rc_ok ?C []"
    using ps x by (auto simp: rc_ok_def Let_def f K tree_ok_def heap_bound_def locks_ok_def tokens_def core_sum_def free_leaf_def shape_of_def)
  show "slots (cores ?C) = {#}" "laid ps (cores ?C)" using x by (auto simp: K slots_def core_sum_def laid_def)
  show "same_env (C\<lparr>rc_root := rc_counter C\<rparr>) ?C" by (simp add: same_env_iff reset_cache_def Let_def)
qed

lemma reset_cache_sound: "prefix_sound H (cached (reset_cache birth C))"
proof -
  let ?C = "reset_cache birth C"
  obtain x where x: "rc_nodes ?C = [rc_counter C \<mapsto> x]" "tn_parent x = None" using reset_cache_nodes by blast
  then have S: "shape ?C = [rc_counter C \<mapsto> tree_node.truncate x]" by (auto simp: shape_of_def cores_def core_def)
  have nil: "us = [] \<and> vs = []" if "path (shape ?C) e n us vs m" for e n us vs m
    using that x(2) by (cases rule: path.cases) (auto simp: S split: if_splits)
  have "us = [] \<and> vs = []" if "cached ?C e us vs" for e us vs
    using that nil unfolding cached_def stored_def by (metis prefix_bot.extremum_uniqueI take_Nil)
  then show ?thesis unfolding prefix_sound_def by (metis length_0_conv not_less_zero)
qed

lemma init_radix_cache_ok:
  assumes "init_radix_cache disable ps eagle dfi policy A table counter birth = Inr C" "0 < ps"
  shows "rc_ok C []" "slots (cores C) = {#}" "laid ps (cores C)" "rc_disable C = disable" "rc_page_size C = ps" "rc_is_eagle C = eagle"
    "rc_allocator C = A" "rc_req_to_token C = table"
  using assms reset_cache_ok
  by (auto simp: init_radix_cache_def same_env_iff split: sum.splits)

text \<open>
  \<open>radix_reach C hs H\<close>: the cache \<open>C\<close> comes from a constructor call by operations of the class, in which
  \<open>hs\<close> are the nodes locked and not yet unlocked and \<open>H\<close> what was inserted. A caller locks a node
  of the tree, unlocks what it locked, passes a slot per unit of its key, and resets when it holds no locks.
\<close>

inductive radix_reach :: "radix_cache \<Rightarrow> nat list \<Rightarrow> history \<Rightarrow> bool" where
  reach_init: "init_radix_cache False ps eagle dfi policy A table counter birth = Inr C \<Longrightarrow> 0 < ps \<Longrightarrow> radix_reach C [] {}"
| reach_reset: "radix_reach C [] H \<Longrightarrow> radix_reach (reset_cache birth C) [] H"
| reach_match: "radix_reach C hs H \<Longrightarrow> (rk_is_bigram key \<longrightarrow> rc_is_eagle C) \<Longrightarrow>
    match_prefix birth now key C = Some (Inr (r, C')) \<Longrightarrow> radix_reach C' hs H"
| reach_insert: "radix_reach C hs H \<Longrightarrow> (rk_is_bigram key \<longrightarrow> rc_is_eagle C) \<Longrightarrow> rk_len (cache_key C key) \<le> length val \<Longrightarrow>
    insert_cache birth now key (Some val) priority chunked C = Some (Inr (L, C')) \<Longrightarrow>
    radix_reach C' hs (insert (rk_extra_key key, cache_units C key, take (rk_len (cache_key C key)) val) H)"
| reach_inc_lock: "radix_reach C hs H \<Longrightarrow> rc_nodes C n \<noteq> None \<Longrightarrow> inc_lock_ref n C = Some (Inr (d, C')) \<Longrightarrow> radix_reach C' (n # hs) H"
| reach_dec_lock: "radix_reach C hs H \<Longrightarrow> n \<in> set hs \<Longrightarrow> dec_lock_ref n C = Some (Inr (d, C')) \<Longrightarrow> radix_reach C' (remove1 n hs) H"
| reach_evict: "radix_reach C hs H \<Longrightarrow> evict num C = Some (Inr (k, C')) \<Longrightarrow> radix_reach C' hs H"

lemma reach_ok:
  assumes "radix_reach C hs H"
  shows "rc_ok C hs \<and> \<not> rc_disable C"
  using assms
proof induction
  case (reach_init ps eagle dfi policy A table counter birth C)
  then show ?case using init_radix_cache_ok by auto
next
  case (reach_reset C H birth)
  then have "0 < rc_page_size C" using rc_okD(1) by (auto simp: tree_ok_def)
  then show ?case using reset_cache_ok(1,4) [where birth = birth and C = C] reach_reset.IH by (simp add: same_env_iff)
next
  case (reach_match C hs H key birth now r C')
  then show ?case using match_prefix_effect [of C hs key birth now] by (auto simp: refines_def same_env_iff)
next
  case (reach_insert C hs H key val birth now priority chunked L C')
  then show ?case using insert_cache_effect [of C hs key val birth now priority chunked] by (auto simp: same_env_iff)
next
  case (reach_inc_lock C hs H n d C')
  then show ?case using inc_lock_ref_effect [of C hs n] by (auto simp: same_env_iff)
next
  case (reach_dec_lock C hs H n d C')
  then show ?case using dec_lock_ref_effect [of C hs n] by (auto simp: same_env_iff)
next
  case (reach_evict C hs H num k C')
  then show ?case using evict_effect [of C hs num] by (auto simp: same_env_iff)
qed

lemma reach_sound:
  assumes "radix_reach C hs H"
  shows "prefix_sound H (cached C)"
  using assms
proof induction
  case (reach_init ps eagle dfi policy A table counter birth C)
  then show ?case by (auto simp: init_radix_cache_def reset_cache_sound split: sum.splits)
next
  case (reach_reset C H birth)
  show ?case by (rule reset_cache_sound)
next
  case (reach_match C hs H key birth now r C')
  have "cache_keeps C C'" using match_prefix_effect [of C hs key birth now] reach_ok [OF reach_match.hyps(1)] reach_match.hyps(2,3)
    by (auto simp: refines_def cache_keeps_def cached_def same_env_iff)
  then show ?case using reach_match.IH by (rule radix_store.keeps_sound)
next
  case (reach_insert C hs H key val birth now priority chunked L C')
  show ?case
    by (rule radix_store.inserts_sound [OF _ reach_insert.IH]) (use reach_ok [OF reach_insert.hyps(1)] reach_insert.hyps in \<open>unfold cache_inserts_def, blast\<close>)
next
  case (reach_inc_lock C hs H n d C')
  have "cache_keeps C C'" using inc_lock_ref_effect [of C hs n] reach_ok [OF reach_inc_lock.hyps(1)] reach_inc_lock.hyps(2,3)
    by (auto simp: cache_keeps_def cached_def same_env_iff)
  then show ?case using reach_inc_lock.IH by (rule radix_store.keeps_sound)
next
  case (reach_dec_lock C hs H n d C')
  have "cache_keeps C C'" using dec_lock_ref_effect [of C hs n] reach_ok [OF reach_dec_lock.hyps(1)] reach_dec_lock.hyps(2,3)
    by (auto simp: cache_keeps_def cached_def same_env_iff)
  then show ?case using reach_dec_lock.IH by (rule radix_store.keeps_sound)
next
  case (reach_evict C hs H num k C')
  have "cache_keeps C C'" using evict_effect [of C hs num] reach_ok [OF reach_evict.hyps(1)] reach_evict.hyps(2)
    by (auto simp: cache_keeps_def)
  then show ?case using reach_evict.IH by (rule radix_store.keeps_sound)
qed

lemma rc_ok_page: "rc_ok C hs \<Longrightarrow> 0 < rc_page_size C"
  using rc_okD(1) by (auto simp: tree_ok_def)

lemma refines_cached: "refines C C' \<Longrightarrow> cached C' = cached C"
  by (auto simp: refines_def cached_def same_env_iff fun_eq_iff)

lemma path_cached: "rc_ok C hs \<Longrightarrow> path (shape C) e (rc_root C) us vs m \<Longrightarrow> cached C e us vs"
  unfolding cached_def by (rule stored_path [OF rc_okD(1)])

lemma match_prefix_spec:
  assumes "radix_reach C hs H" "rk_is_bigram key \<longrightarrow> rc_is_eagle C"
  shows "\<exists>r C'. match_prefix birth now key C = Some (Inr (r, C')) \<and>
    (let e = rk_extra_key key; us = cache_units C key; vs = mr_device_indices r; n = length vs in
      n \<le> length us \<and> rc_page_size C dvd n \<and> cached C e (take n us) vs \<and>
      (\<forall>ws xs. prefix ws us \<longrightarrow> cached C e ws xs \<longrightarrow> length ws \<le> n) \<and>
      path (shape C') e (rc_root C) (take n us) vs (mr_last_device_node r) \<and> cached C' = cached C)"
proof -
  have ok: "rc_ok C hs" "\<not> rc_disable C" using reach_ok [OF assms(1)] by auto
  obtain val m C' where m: "match_prefix birth now key C = Some (Inr (\<lparr>mr_device_indices = val, mr_last_device_node = m\<rparr>, C'))"
    "refines C C'" "rc_ok C' hs" "ends_at C (cache_key C key) [] [] val m C'" using match_prefix_effect [OF ok assms(2)] by blast
  note same = refines_cached [OF m(2)]
  let ?e = "rk_extra_key key" and ?us = "cache_units C key"
  have p: "length val \<le> length ?us" "rc_page_size C dvd length val" "path (shape C') ?e (rc_root C) (take (length val) ?us) val m"
    "\<And>ws xs. prefix ws ?us \<Longrightarrow> cached C ?e ws xs \<Longrightarrow> length ws \<le> length val"
    using m(4) cache_key_simps(1) [OF rc_ok_page [OF ok(1)]] unfolding ends_at_def Let_def cached_def by auto
  have "cached C ?e (take (length val) ?us) val" using path_cached [OF m(3)] p(3) m(2) same by (simp add: refines_def same_env_iff)
  then show ?thesis using m(1) p same
    by (intro exI [of _ "\<lparr>mr_device_indices = val, mr_last_device_node = m\<rparr>"] exI [of _ C']) (unfold Let_def match_result.simps, blast)
qed

subsection \<open>The order of eviction\<close>

text \<open>What the strategies of \<open>evict_policy.py\<close> promise: whether \<open>x\<close> may be evicted before \<open>y\<close>.\<close>

definition may_precede :: "eviction_policy \<Rightarrow> radix_node \<Rightarrow> radix_node \<Rightarrow> bool" where
  "may_precede policy x y =
     (let older = rn_last_access_time x \<le> rn_last_access_time y in
      case policy of
        LRU \<Rightarrow> older
      | LFU \<Rightarrow> rn_hit_count x < rn_hit_count y \<or> rn_hit_count x = rn_hit_count y \<and> older
      | FIFO \<Rightarrow> rn_creation_time x < rn_creation_time y \<or> rn_creation_time x = rn_creation_time y \<and> older
      | MRU \<Rightarrow> rn_last_access_time y \<le> rn_last_access_time x
      | FILO \<Rightarrow> rn_creation_time y < rn_creation_time x \<or> rn_creation_time y = rn_creation_time x \<and> older
      | PRIORITY \<Rightarrow> rn_priority x < rn_priority y \<or> rn_priority x = rn_priority y \<and> older
      | SLRU \<Rightarrow> rn_hit_count x < 2 \<and> 2 \<le> rn_hit_count y \<or> (2 \<le> rn_hit_count x \<longleftrightarrow> 2 \<le> rn_hit_count y) \<and> older)"

lemma heap_entry_order: "heap_entry policy x \<le> heap_entry policy y \<longleftrightarrow> may_precede policy x y"
  by (cases policy) (auto simp: heap_entry_def may_precede_def Let_def protected_threshold_def)

lemma evict_first:
  assumes ok: "rc_ok C hs" "\<not> rc_disable C" and num: "0 < num" "num \<le> int (rc_page_size C)" and ne: "rc_evictable_leaves C \<noteq> []"
  shows "\<exists>n x v C'. n \<in> set (rc_evictable_leaves C) \<and> rc_nodes C n = Some x \<and> tn_value x = Some v \<and>
    delete_leaf n (C\<lparr>rc_allocator := kv_free v (rc_allocator C)\<rparr>) = Inr C' \<and> evict num C = Some (Inr (int (length v), C')) \<and>
    (\<forall>m y. m \<in> set (rc_evictable_leaves C) \<longrightarrow> rc_nodes C m = Some y \<longrightarrow> may_precede (rc_eviction_policy C) x y)"
proof -
  define entry where "entry n = (case rc_nodes C n of None \<Rightarrow> [] | Some x \<Rightarrow> heap_entry (rc_eviction_policy C) x)" for n
  let ?heap = "map (\<lambda>n. (entry n, n)) (rc_evictable_leaves C)"
  obtain n heap1 where pop: "heap_pop ?heap = (n, heap1)" by (cases "heap_pop ?heap")
  obtain e where e: "e \<in> set ?heap" "snd e = n" "\<And>e'. e' \<in> set ?heap \<Longrightarrow> fst e \<le> fst e'"
    by (rule heap_pop_min [OF _ pop]) (use ne in auto)
  have n: "n \<in> set (rc_evictable_leaves C)" and least: "\<And>m. m \<in> set (rc_evictable_leaves C) \<Longrightarrow> entry n \<le> entry m"
    using e(1,2) e(3) [of "(entry m, m)" for m] by auto
  have fl: "free_leaf (rc_root C) (cores C) n" using rc_okD(7) [OF ok(1)] n by blast
  obtain x p v y C1 where t: "rc_nodes C n = Some x" "tn_parent x = Some p" "tn_value x = Some v"
    "delete_leaf n (C\<lparr>rc_allocator := kv_free v (rc_allocator C)\<rparr>) = Inr C1" "rc_nodes C1 p = Some y"
    by (rule evict_turn [OF ok(1) fl]) blast
  obtain x0 v0 where v0: "rc_nodes C n = Some x0" "tn_value x0 = Some v0" "length v0 = rk_len (tn_key x0)" "n \<noteq> rc_root C"
    by (rule delete_leaf_cut [OF ok(1) fl])
  have "rc_page_size C \<le> length v" using v0 t(1,3) node_key(1) [OF rc_okD(1) [OF ok(1)] shape_Some [OF v0(1)] v0(4)] by simp
  then have big: "num \<le> int (length v)" using num by linarith
  have "evict num C = evict_loop num 0 ?heap C" using ok(2) by (simp add: evict_def entry_def)
  also have "\<dots> = Some (Inr (int (length v), C1))" using num(1) ne pop t big
    by (subst evict_loop.simps) (simp add: evict_loop.simps [of num "int (length v)"])
  finally have run: "evict num C = Some (Inr (int (length v), C1))" .
  have pr: "may_precede (rc_eviction_policy C) x y" if "m \<in> set (rc_evictable_leaves C)" "rc_nodes C m = Some y" for m y
    using least [OF that(1)] t(1) that(2) by (simp add: entry_def heap_entry_order)
  show ?thesis using n t(1,3,4) run pr by (intro exI [of _ n] exI [of _ x] exI [of _ v] exI [of _ C1] conjI allI impI)
qed

subsection \<open>A small cache\<close>

text \<open>An empty cache of single-token pages, and the same cache after one prompt of three tokens.\<close>

definition demo_key :: "int list \<Rightarrow> radix_key" where
  "demo_key ids = \<lparr>rk_token_ids = ids, rk_extra_key = None, rk_is_bigram = False\<rparr>"

definition demo0 :: radix_cache where
  "demo0 = reset_cache (\<lambda>_. (0, 0))
     \<lparr>rc_disable = False, rc_page_size = 1, rc_is_eagle = False, rc_disable_finished_insert = False, rc_eviction_policy = LRU,
      rc_root = 0, rc_nodes = Map.empty, rc_counter = 0, rc_evictable_size = 0, rc_protected_size = 0, rc_evictable_leaves = [],
      rc_allocator = init_token_allocator 8 False, rc_req_to_token = []\<rparr>"

definition demo1 :: radix_cache where
  "demo1 = (case insert_cache (\<lambda>_. (1, 1)) 1 (demo_key [7, 8, 9]) (Some [1, 2, 3]) None False demo0 of Some (Inr (L, C)) \<Rightarrow> C | _ \<Rightarrow> demo0)"

lemmas radix_eval = insert_cache_def insert_helper_def insert_loop.simps add_leaf_def Let_def demo_key_def maybe_to_bigram_view_def
  page_aligned_def rk_len_def child_key_def raise_priority_def upd_node_def inc_hit_count_def update_leaf_status_def new_tree_node_def
  node_evicted_def has_cached_child_def set_add_def od_mem_iff demo0_def reset_cache_def cache_key_def

lemma demo0_reach: "radix_reach demo0 [] {}"
  by (rule reach_init [of 1 False False "''lru''" "init_token_allocator 8 False" "[]" 0 "\<lambda>_. (0, 0)"])
    (simp_all add: demo0_def init_radix_cache_def policy_of_name_def lower_def)

lemma demo_insert: "insert_cache (\<lambda>_. (1, 1)) 1 (demo_key [7, 8, 9]) (Some [1, 2, 3]) None False demo0 = Some (Inr (0, demo1))"
  unfolding demo1_def by (simp add: radix_eval)

lemma demo1_reach: "radix_reach demo1 [] {(None, [(7, None), (8, None), (9, None)], [1, 2, 3])}"
  using reach_insert [OF demo0_reach _ _ demo_insert] by (simp add: radix_eval rk_units_def)

lemma demo1_facts: "rc_evictable_leaves demo1 = [1]" "rc_page_size demo1 = 1" "rc_is_eagle demo1 = False" "rc_root demo1 = 0"
  by (simp_all add: demo1_def radix_eval)

lemma demo_match:
  "\<exists>C. match_prefix (\<lambda>_. (2, 2)) 2 (demo_key [7, 8, 5]) demo1 = Some (Inr (\<lparr>mr_device_indices = [1, 2], mr_last_device_node = 2\<rparr>, C))"
  by (simp add: demo1_def radix_eval match_prefix_def match_prefix_helper_def match_loop.simps split_node_def rk_match_def rk_slice_def
      rk_take_def rk_drop_def)

subsection \<open>Properties\<close>

text \<open>
  C4: In every reachable cache the tree is well formed, a node's \<open>lock_ref\<close> is the number of locks held at
  or below it, \<open>evictable_size_\<close> and \<open>protected_size_\<close> count the tokens of the unlocked and
  of the locked nodes, and \<open>evictable_leaves\<close> holds exactly the unlocked leaves, each once.
\<close>

theorem radix_cache_invariant: "radix_reach C hs H \<Longrightarrow> rc_ok C hs"
  using reach_ok by blast

theorem radix_cache_invariant_witness: "rc_ok demo1 []"
  by (rule radix_cache_invariant [OF demo1_reach])

text \<open>
  C7: On every reachable cache the loops of the operations end and nothing is raised: looking up, inserting,
  locking a node of the tree, unlocking a locked one, evicting and measuring all return; and the
  total size is the sum of the two sizes the cache keeps.
\<close>

theorem radix_operations_return:
  assumes "radix_reach C hs H" "rk_is_bigram key \<longrightarrow> rc_is_eagle C" "rk_len (cache_key C key) \<le> length val"
  shows "(\<exists>r C'. match_prefix birth now key C = Some (Inr (r, C'))) \<and>
    (\<exists>L C'. insert_cache birth now key (Some val) priority chunked C = Some (Inr (L, C'))) \<and>
    (\<forall>n. rc_nodes C n \<noteq> None \<longrightarrow> (\<exists>d C'. inc_lock_ref n C = Some (Inr (d, C')))) \<and>
    (\<forall>n \<in> set hs. \<exists>d C'. dec_lock_ref n C = Some (Inr (d, C'))) \<and>
    (\<exists>k C'. evict num C = Some (Inr (k, C'))) \<and>
    (\<exists>k. total_size C = Some (Inr k) \<and> int k = evictable_size C + protected_size C)"
proof -
  have ok: "rc_ok C hs" "\<not> rc_disable C" using reach_ok [OF assms(1)] by auto
  have "\<exists>r C'. match_prefix birth now key C = Some (Inr (r, C'))" using match_prefix_effect [OF ok assms(2)] by blast
  moreover have "\<exists>L C'. insert_cache birth now key (Some val) priority chunked C = Some (Inr (L, C'))"
    using insert_cache_effect [OF ok assms(2,3)] by metis
  moreover have "\<exists>k C'. evict num C = Some (Inr (k, C'))" using evict_effect [OF ok] by metis
  moreover have "\<exists>k. total_size C = Some (Inr k) \<and> int k = evictable_size C + protected_size C"
    using total_size_effect [OF ok(1)] sizes_add_up [OF ok(1)] by (simp add: evictable_size_def protected_size_def)
  ultimately show ?thesis using inc_lock_ref_effect [OF ok] dec_lock_ref_effect [OF ok] by metis
qed

theorem radix_operations_return_witness:
  "(\<exists>r C'. match_prefix (\<lambda>_. (2, 2)) 2 (demo_key [7, 8, 5]) demo1 = Some (Inr (r, C'))) \<and>
   (\<exists>k C'. evict 2 demo1 = Some (Inr (k, C'))) \<and> (\<exists>k. total_size demo1 = Some (Inr k) \<and> int k = evictable_size demo1 + protected_size demo1)"
  using radix_operations_return [OF demo1_reach, of "demo_key [7, 8, 5]" "[4, 5, 6]" "\<lambda>_. (2, 2)" 2 None False 2]
  by (simp add: demo1_facts demo_key_def cache_key_def maybe_to_bigram_view_def page_aligned_def rk_len_def)

text \<open>
  C8: \<open>match_prefix\<close> returns the longest cached prefix of the key, in whole pages: the slots it returns are
  those cached for the first units of the key, no longer prefix of the key is cached in its
  namespace, the node it returns ends exactly there, and the lookup changes nothing of what is cached, though it may split a node.
\<close>

theorem match_prefix_longest:
  assumes "radix_reach C hs H" "rk_is_bigram key \<longrightarrow> rc_is_eagle C"
  shows "\<exists>r C'. match_prefix birth now key C = Some (Inr (r, C')) \<and>
    (let e = rk_extra_key key; us = cache_units C key; vs = mr_device_indices r; n = length vs in
      n \<le> length us \<and> rc_page_size C dvd n \<and> cached C e (take n us) vs \<and>
      (\<forall>ws xs. prefix ws us \<longrightarrow> cached C e ws xs \<longrightarrow> length ws \<le> n) \<and>
      path (shape C') e (rc_root C) (take n us) vs (mr_last_device_node r) \<and> cached C' = cached C)"
  by (rule match_prefix_spec [OF assms])

theorem match_prefix_longest_witness:
  "\<exists>r C'. match_prefix (\<lambda>_. (2, 2)) 2 (demo_key [7, 8, 5]) demo1 = Some (Inr (r, C')) \<and> mr_device_indices r = [1, 2] \<and>
     cached demo1 None [(7, None), (8, None)] [1, 2]"
  using match_prefix_longest [OF demo1_reach, of "demo_key [7, 8, 5]" "\<lambda>_. (2, 2)" 2] demo_match
  by (auto simp: demo1_facts demo_key_def cache_key_def maybe_to_bigram_view_def page_aligned_def rk_units_def Let_def)

text \<open>
  C6: \<open>insert\<close> adds to the cache exactly the prefixes of its key in whole pages, and returns the length that was
  cached before. For that length the slots that were cached stay, and the ones passed are not kept; beyond it
  the cache takes over the slots passed. A lookup of the same key then returns all of it.
\<close>

theorem insert_then_match:
  assumes "radix_reach C hs H" "rk_is_bigram key \<longrightarrow> rc_is_eagle C" "rk_len (cache_key C key) \<le> length val"
    "insert_cache birth now key (Some val) priority chunked C = Some (Inr (L, C'))"
  shows "\<exists>w r C''. match_prefix birth' now' key C' = Some (Inr (r, C'')) \<and>
    mr_device_indices r = w @ drop L (take (length (cache_units C key)) val) \<and>
    length w = L \<and> L \<le> length (cache_units C key) \<and> cached C (rk_extra_key key) (take L (cache_units C key)) w \<and>
    slots (cores C') = slots (cores C) + mset (drop L (take (length (cache_units C key)) val)) \<and>
    (\<forall>e us vs. cached C' e us vs \<longleftrightarrow> cached C e us vs \<or>
       e = rk_extra_key key \<and> rc_page_size C dvd length us \<and> prefix us (cache_units C key) \<and> vs = take (length us) (mr_device_indices r))"
proof -
  let ?us = "cache_units C key" and ?e = "rk_extra_key key"
  have ok: "rc_ok C hs" "\<not> rc_disable C" using reach_ok [OF assms(1)] by auto
  obtain w where i: "rc_ok C' hs" "same_env C C'" "slots (cores C') = slots (cores C) + mset (drop L (take (rk_len (cache_key C key)) val))"
    "L \<le> rk_len (cache_key C key)" "length w = L" "cached C ?e (take L ?us) w"
    "\<forall>e us vs. cached C' e us vs \<longleftrightarrow> cached C e us vs \<or> e = ?e \<and> rc_page_size C dvd length us \<and>
       prefix us ?us \<and> vs = take (length us) (w @ drop L (take (rk_len (cache_key C key)) val))"
    using insert_cache_effect [OF ok assms(2,3), of birth now priority chunked] assms(4) by auto
  have reach': "radix_reach C' hs (insert (?e, ?us, take (rk_len (cache_key C key)) val) H)"
    by (rule reach_insert [OF assms])
  have ck: "cache_key C' key = cache_key C key" "rc_is_eagle C' = rc_is_eagle C" using i(2) by (simp_all add: same_env_iff cache_key_def)
  let ?vs = "w @ drop L (take (rk_len (cache_key C key)) val)"
  have all: "cached C' ?e ?us ?vs"
    using i(4,5,7) assms(3) cache_key_simps(3) [OF rc_ok_page [OF ok(1)]] by auto
  obtain r C'' where r: "match_prefix birth' now' key C' = Some (Inr (r, C''))"
    "length (mr_device_indices r) \<le> length ?us" "cached C' ?e (take (length (mr_device_indices r)) ?us) (mr_device_indices r)"
    "\<forall>ws xs. prefix ws ?us \<longrightarrow> cached C' ?e ws xs \<longrightarrow> length ws \<le> length (mr_device_indices r)"
    using match_prefix_spec [OF reach', of key birth' now'] assms(2) by (auto simp: Let_def ck)
  have "length (mr_device_indices r) = length ?us" using r(2,4) all by (meson le_antisym prefix_order.refl)
  then have "mr_device_indices r = ?vs" using r(3) all stored_functional [OF rc_okD(1) [OF i(1)]] by (simp add: cached_def)
  then show ?thesis using r(1) i by (intro exI [of _ w] exI [of _ r] exI [of _ C'']) simp
qed

theorem insert_then_match_witness:
  "\<exists>r C''. match_prefix (\<lambda>_. (2, 2)) 2 (demo_key [7, 8, 9]) demo1 = Some (Inr (r, C'')) \<and> mr_device_indices r = [1, 2, 3]"
  using insert_then_match [OF demo0_reach _ _ demo_insert, of "\<lambda>_. (2, 2)" 2] by (auto simp: radix_eval rk_units_def)

text \<open>
  C3: A hit never returns slots of another prompt or of another namespace. Every slot cached for a prefix was inserted, at
  the same position, under a key with the same namespace that agrees with the prefix up to and including this position;
  so in particular every slot that \<open>match_prefix\<close> returns.
\<close>

theorem hits_are_sound:
  assumes "radix_reach C hs H" "rk_is_bigram key \<longrightarrow> rc_is_eagle C" "match_prefix birth now key C = Some (Inr (r, C'))"
    "i < length (mr_device_indices r)"
  shows "\<exists>us vs. (rk_extra_key key, us, vs) \<in> H \<and> i < length us \<and> i < length vs \<and>
    take (Suc i) us = take (Suc i) (cache_units C key) \<and> vs ! i = mr_device_indices r ! i"
proof -
  let ?n = "length (mr_device_indices r)"
  have "?n \<le> length (cache_units C key)" "cached C (rk_extra_key key) (take ?n (cache_units C key)) (mr_device_indices r)"
    using match_prefix_spec [OF assms(1,2), of birth now] assms(3) by (auto simp: Let_def)
  moreover from this(1) have "i < length (take ?n (cache_units C key))" using assms(4) by simp
  ultimately show ?thesis using prefix_sound_at [OF reach_sound [OF assms(1)]] assms(4) by (metis Suc_leI min.absorb1 take_take)
qed

theorem hits_are_sound_witness:
  "\<exists>us vs. (None, us, vs) \<in> {(None, [(7, None), (8, None), (9, None)], [1, 2, 3 :: int])} \<and> 1 < length us \<and>
     take 2 us = [(7 :: int, None :: int option), (8, None)] \<and> vs ! 1 = 2"
proof -
  obtain C where m: "match_prefix (\<lambda>_. (2, 2)) 2 (demo_key [7, 8, 5]) demo1 = Some (Inr (\<lparr>mr_device_indices = [1, 2], mr_last_device_node = 2\<rparr>, C))"
    using demo_match by blast
  show ?thesis using hits_are_sound [OF demo1_reach _ m, of 1]
    by (simp add: demo1_facts demo_key_def cache_key_def maybe_to_bigram_view_def page_aligned_def rk_units_def)
qed

text \<open>
  C9: \<open>evict\<close> returns the number of slots it gave back to the allocator. It stops as soon as this is at least the number
  asked for, and gives back less only when every unlocked node is gone. What is locked
  stays, with everything above it, and nothing but the slots of removed nodes is given back.
\<close>

theorem evict_contract:
  assumes "radix_reach C hs H"
  shows "\<exists>vss C'. evict num C = Some (Inr (int (length (concat vss)), C')) \<and>
    rc_allocator C' = fold kv_free vss (rc_allocator C) \<and> slots (cores C) = slots (cores C') + mset (concat vss) \<and>
    (num \<le> int (length (concat vss)) \<or> evictable_size C' = 0) \<and> (vss \<noteq> [] \<longrightarrow> int (length (concat (butlast vss))) < num) \<and>
    evictable_size C' = evictable_size C - int (length (concat vss)) \<and> protected_size C' = protected_size C \<and>
    (\<forall>h \<in> set hs. \<forall>e us vs. path (shape C) e (rc_root C) us vs h \<longrightarrow> path (shape C') e (rc_root C) us vs h) \<and>
    (\<forall>e us vs. cached C' e us vs \<longrightarrow> cached C e us vs)"
proof -
  have ok: "rc_ok C hs" "\<not> rc_disable C" using reach_ok [OF assms(1)] by auto
  show ?thesis using evict_effect [OF ok, of num] unfolding evictable_size_def protected_size_def by blast
qed

theorem evict_contract_witness:
  "\<exists>(vss :: int list list) C'. evict 2 demo1 = Some (Inr (int (length (concat vss)), C')) \<and> (2 \<le> int (length (concat vss)) \<or> evictable_size C' = 0)"
  using evict_contract [OF demo1_reach, of 2] by metis

text \<open>
  C23: Which leaf goes first is what the configured strategy says. An eviction of at most a page, on a cache with an
  unlocked leaf, deletes exactly one node: an unlocked leaf that precedes every other one under the strategy, with access time
  deciding between equals.
\<close>

theorem evict_takes_least:
  assumes "radix_reach C hs H" "0 < num" "num \<le> int (rc_page_size C)" "rc_evictable_leaves C \<noteq> []"
  shows "\<exists>n x v C'. n \<in> set (rc_evictable_leaves C) \<and> rc_nodes C n = Some x \<and> tn_value x = Some v \<and>
    delete_leaf n (C\<lparr>rc_allocator := kv_free v (rc_allocator C)\<rparr>) = Inr C' \<and> evict num C = Some (Inr (int (length v), C')) \<and>
    (\<forall>m y. m \<in> set (rc_evictable_leaves C) \<longrightarrow> rc_nodes C m = Some y \<longrightarrow> may_precede (rc_eviction_policy C) x y)"
  by (rule evict_first [OF conjunct1 [OF reach_ok [OF assms(1)]] conjunct2 [OF reach_ok [OF assms(1)]] assms(2-4)])

theorem evict_takes_least_witness:
  "\<exists>n x v C'. n \<in> set (rc_evictable_leaves demo1) \<and> rc_nodes demo1 n = Some x \<and> tn_value x = Some v \<and>
     evict 1 demo1 = Some (Inr (int (length v), C'))"
  using evict_takes_least [OF demo1_reach, of 1] by (auto simp: demo1_facts)

end
