(* ===== verification/Spec2Isabelle.thy ===== *)
theory Spec2Isabelle
  imports System_Invariant KV_Extend Radix_Properties
begin

text \<open>
  \<^bold>\<open>Engram's snapshot system.\<close> Engram is a fork of the SGLang inference server. A model with
  Mamba layers keeps, per request, a recurrent state of fixed size in a slot of a GPU pool. The
  snapshot system saves these states, keeps them in host memory and on disk, and puts them back into
  the slot of a later request, so that a conversation goes on without processing its history
  again. This library models that system, from the bytes of the file names to the scheduler, and the
  memory layer below it, the allocators of KV slots and the prefix cache, and proves
  what they guarantee. Paths below are relative to \<open>src/python/sglang/srt\<close>.

  \<^bold>\<open>The parts and how they work together.\<close> After every forward pass the scheduler runs the hooks
  for the requests of the batch; the callback asks the retention policy, extracts the state from the
  slot, has the health monitor look at it, and saves it to the warm tier (host memory) or, failing that,
  to disk. The tier manager moves conversations between host memory and disk by the
  timeouts of the conversation tracker, on calls and in a background thread. Snapshot requests arrive at the
  handlers: they save, list, delete, and restore into a new request, into a live one, or into the
  registry of pending restores, from which the next request with that request id or conversation
  id is hydrated when it arrives, before it goes to the waiting queue.

  The keys and values of a request live in slots that an allocator hands out, token by token or in pages. The prefix
  cache is a radix tree over the tokens of earlier requests, whose nodes own the slots of their part; a request
  locks the path to its last matched node, and under memory pressure unlocked leaves are evicted and their slots go
  back to the allocator.

  \<^bold>\<open>Theories and sources.\<close>
  \<^item> \<open>Prelude\<close>: exceptions as the type \<open>py_error\<close> and results \<open>'a res\<close>; dictionaries and ordered
    dictionaries as association lists with the order Python gives them; the locale
    \<open>mutable_mapping\<close> with its two instances. \<open>Py_Text\<close>: the string and path operations the store uses.
  \<^item> \<open>Tensor_State\<close>: \<open>snapshot/mamba_snapshot.py\<close>, metadata, its dictionary form, and
    \<open>validate_state_tensors\<close>. PyTorch is a parameter, a record of the operations used, with the
    hypothesis \<open>torch_slicing\<close> where a property relies on writing and reading columns;
    \<open>mat_torch\<close> is an instance over integer matrices that satisfies it.
  \<^item> \<open>Snapshot_Store\<close>, \<open>Store_Laws\<close>: \<open>MambaSnapshotManager\<close>, with the directory tree as its state, file names
    computed as the code does, the two writes of a save with a fault at any of its five points, and
    listing, loading and deleting. The locale \<open>turn_archive\<close> is what retention relies on.
  \<^item> \<open>Host_Pool\<close>: \<open>snapshot/mamba_host_pool.py\<close>, the bounded cache with its eviction loop, as an
    instance of the locale \<open>warm_cache\<close>. \<open>Conversation_Tracker\<close>: \<open>snapshot/conversation_tracker.py\<close>.
    \<open>Snapshot_Policy\<close>: \<open>snapshot/snapshot_policy.py\<close>. \<open>State_Health\<close>: \<open>snapshot/state_health.py\<close>. \<open>Snapshot_Hooks\<close>:
    \<open>snapshot/snapshot_hooks.py\<close>, hooks being functions of a world that may raise.
  \<^item> \<open>Tier_Manager\<close>, \<open>Tier_Laws\<close>, \<open>Tier_Properties\<close>: \<open>snapshot/tier_manager.py\<close>; the record of the manager holds
    the tracker, the pool and the store it refers to. Its lock makes operations atomic, so the
    relation \<open>tier_reach\<close> is every interleaving of calls and of the background thread.
  \<^item> \<open>Mamba_Pool\<close>: \<open>ReqToTokenPool\<close>, \<open>MambaPool\<close> and \<open>HybridReqToTokenPool\<close> of \<open>mem_cache/memory_pool.py\<close>, as far
    as slots go (the locale \<open>slot_pool\<close>, twice), and extracting a state from a slot and injecting
    it.
  \<^item> \<open>Pending_Restore\<close>: the registry in \<open>managers/scheduler_pending_restore.py\<close> and the functions on it in
    \<open>managers/scheduler_snapshot_handlers.py\<close>.
  \<^item> \<open>Scheduler_State\<close>, \<open>Scheduler_Queue\<close>: the scheduler's state as far as the snapshot system touches
    it, with requests as objects on a heap that batches and the queue refer to, and the waiting
    queue of \<open>managers/scheduler.py\<close> with priorities, limit and preemption.
  \<^item> \<open>Snapshot_Handlers\<close>: the handlers of \<open>managers/scheduler_snapshot_handlers.py\<close>, the requests of
    \<open>managers/io_struct.py\<close>, hydration, and the end of \<open>handle_generate_request\<close>. \<open>Snapshot_System\<close>:
    \<open>managers/scheduler_snapshot_system.py\<close> and \<open>_trigger_snapshot_hooks\<close>.
  \<^item> \<open>KV_Allocator\<close>, \<open>KV_Extend\<close>: \<open>mem_cache/allocator.py\<close>, the token and the paged allocator, with the Triton
    kernels that compute the slots of a batch, lane by lane over a memory of addresses, and the
    reference computation they are proved equal to.
  \<^item> \<open>Radix_Key\<close>, \<open>Radix_Tree\<close>, \<open>Radix_Cache\<close>, \<open>Radix_Laws\<close>, \<open>Radix_Lookup\<close>, \<open>Radix_Eviction\<close>, \<open>Radix_Properties\<close>:
    \<open>mem_cache/radix_cache.py\<close> and \<open>mem_cache/evict_policy.py\<close>. \<open>Radix_Cache\<close> holds the operations, on nodes that are
    objects on a heap; \<open>Radix_Tree\<close> what a well-formed tree is and what it stores; \<open>Radix_Laws\<close> the invariant and
    the effect of splits, leaves and locks; \<open>Radix_Lookup\<close> and \<open>Radix_Eviction\<close> the loops. The locale \<open>prefix_store\<close> is
    the contract of a store of prefixes that the cache meets.
  \<^item> \<open>Restore_Slots\<close>, \<open>Restore_Round_Trip\<close>, \<open>System_Properties\<close>, \<open>System_Invariant\<close>: properties of the handlers and of
    the system; this theory: the invariant of the running system.

  \<^bold>\<open>What is shown.\<close> Round trips: a saved snapshot loads as it was saved, a state injected into a
  slot is extracted from it, a state goes from a live request over disk and registry into the slot of another
  request, and the state of a finished turn gets from host memory to disk. Invariants: slots are
  conserved, host memory, windows, queue and registry keep their bounds, host memory holds validated states of registered
  conversations, names stay inside the directory. Refinement: the registry with its aliases is a
  bounded list of stagings. The prefix cache: a hit returns slots of the same prefix and namespace, a lookup returns the longest
  cached prefix, an insertion adds exactly its prefixes, locks protect and sizes count what they say, and every loop ends.
  The allocators: no slot is handed out twice or lost, and the kernels equal their reference. Functional behaviour of every operation on every branch that matters:
  which saves succeed, what eviction, pruning, demotion, cleanup, restore and hydration change and leave
  alone. Errors: what an interrupted save and a refused injection leave. And, where the code does not do what
  it says, a theorem that shows it: states that are staged or evicted where nothing finds them, a
  full queue that loses a slot, a policy that never triggers.

  \<^bold>\<open>Conventions.\<close> Floating-point numbers are reals, integers are unbounded as in Python. The clock is an
  argument \<open>now\<close>, read once per operation; random ids are arguments. Log messages are left out; texts
  of exceptions and replies are reduced to their kind. Loops over lists are
  structural; the eviction loops of the host pool and of the registry and the loop over the tensors of a file
  are recursive functions with termination proofs. The loops of the prefix cache follow references and would run
  forever on a cyclic structure, so they are partial functions with the value \<open>None\<close> for not ending, and
  are proved to end on every reachable cache. No fuel is needed anywhere.

  \<^bold>\<open>Not modelled.\<close> The forward pass, kernels and model code (GPU computation behind PyTorch); batching,
  overlap, speculative decoding and disaggregation in the scheduler's loop, which the system
  invariant replaces by steps as general as possible; the hierarchical, sliding-window and Mamba variants of
  the prefix cache, and of the plain one the host copies, page hashes, KV events and metrics; speculative and ping-pong tracking of Mamba states beyond slot ownership;
  sessions, grammars and multimodal inputs of a request; the tokenizer, detokenizer and HTTP processes and the
  agent system, which are asynchronous I/O around these operations.
\<close>

section \<open>The invariant of the running system\<close>



end
